(* ===== verification/Prelude.thy ===== *)
theory Prelude
  imports Complex_Main "HOL-Library.Word" "HOL-Library.Monad_Syntax" "HOL-Library.Multiset"
begin

text \<open>
  Shared vocabulary of the development: Go's checked indexing, the result type of an
  operation that may panic, and generic lemmas on lists and association lists.

  A Go operation that may panic is a function into \<^typ>\<open>'a option\<close>, where
  \<^term>\<open>None\<close> is the panic. The predicate \<open>runs m Q\<close> is total correctness: the
  operation does not panic and its result satisfies \<open>Q\<close>. The collection \<open>wp\<close> holds the
  rules that push \<open>runs\<close> through sequencing.
\<close>

named_theorems wp \<open>rules that compute \<open>runs\<close> of an operation\<close>
named_theorems frame \<open>what an operation leaves unchanged\<close>

section \<open>Panics\<close>

definition runs :: "'a option \<Rightarrow> ('a \<Rightarrow> bool) \<Rightarrow> bool" where
  "runs m Q \<longleftrightarrow> (case m of None \<Rightarrow> False | Some x \<Rightarrow> Q x)"

lemma runs_None [simp, wp]: "\<not> runs None Q"
  by (simp add: runs_def)

lemma runs_Some [simp, wp]: "runs (Some x) Q \<longleftrightarrow> Q x"
  by (simp add: runs_def)

lemma runs_bind [simp, wp]: "runs (Option.bind m f) Q \<longleftrightarrow> runs m (\<lambda>x. runs (f x) Q)"
  by (cases m) (simp_all add: runs_def)

lemma runs_if [wp]:
  "runs (if b then m else n) Q \<longleftrightarrow> (b \<longrightarrow> runs m Q) \<and> (\<not> b \<longrightarrow> runs n Q)"
  by simp

lemma runs_conseq: "runs m P \<Longrightarrow> (\<And>x. P x \<Longrightarrow> Q x) \<Longrightarrow> runs m Q"
  by (auto simp: runs_def split: option.splits)

lemma runs_conj: "runs m P \<Longrightarrow> runs m Q \<Longrightarrow> runs m (\<lambda>x. P x \<and> Q x)"
  by (auto simp: runs_def split: option.splits)

lemma runsE: "runs m Q \<Longrightarrow> (\<And>x. m = Some x \<Longrightarrow> Q x \<Longrightarrow> R) \<Longrightarrow> R"
  by (auto simp: runs_def split: option.splits)

lemma runs_iff: "runs m Q \<longleftrightarrow> (\<exists>x. m = Some x \<and> Q x)"
  by (auto simp: runs_def split: option.splits)

lemma runs_result: "runs m Q \<Longrightarrow> m = Some x \<Longrightarrow> Q x"
  by (simp add: runs_def)

text \<open>A loop whose body may panic.\<close>

fun fold_opt :: "('a \<Rightarrow> 's \<Rightarrow> 's option) \<Rightarrow> 'a list \<Rightarrow> 's \<Rightarrow> 's option" where
  "fold_opt f [] s = Some s"
| "fold_opt f (x # xs) s = Option.bind (f x s) (fold_opt f xs)"

lemma runs_fold_opt:
  assumes "\<And>x s. x \<in> set xs \<Longrightarrow> I s \<Longrightarrow> runs (f x s) I" and "I s"
  shows "runs (fold_opt f xs s) I"
  using assms
proof (induction xs arbitrary: s)
  case (Cons x xs)
  have "runs (f x s) I" using Cons.prems by simp
  then show ?case
    unfolding fold_opt.simps runs_bind by (rule runs_conseq) (rule Cons.IH; simp add: Cons.prems)
qed simp

text \<open>A loop over the indices of a list, with an invariant that mentions the index.\<close>

lemma runs_fold_upt:
  assumes "\<And>k s. k < m \<Longrightarrow> I k s \<Longrightarrow> runs (f k s) (I (Suc k))" and "I 0 s"
  shows "runs (fold_opt f [0..<m] s) (I m)"
proof -
  have "runs (fold_opt f [j..<m] s) (I m)" if "j \<le> m" "I j s" for j s
    using that
  proof (induction "m - j" arbitrary: j s)
    case (Suc x)
    then have j: "j < m" by simp
    then have "runs (f j s) (\<lambda>s'. runs (fold_opt f [Suc j..<m] s') (I m))"
      using Suc by (intro runs_conseq [OF assms(1)]) auto
    then show ?case by (simp add: upt_conv_Cons [OF j])
  qed simp
  from this [of 0 s] assms(2) show ?thesis by simp
qed

lemma fold_opt_append: "fold_opt f (xs @ ys) s = Option.bind (fold_opt f xs s) (fold_opt f ys)"
proof (induction xs arbitrary: s)
  case (Cons x xs)
  then show ?case by (cases "f x s") simp_all
qed simp

lemma fold_opt_id: "(\<And>x. x \<in> set xs \<Longrightarrow> f x s = Some s) \<Longrightarrow> fold_opt f xs s = Some s"
  by (induction xs) auto

section \<open>Checked indexing\<close>

text \<open>\<open>xs[i]\<close> with a Go \<open>int\<close>: out of range is a panic.\<close>

definition at_int :: "'a list \<Rightarrow> int \<Rightarrow> 'a option" where
  "at_int xs i = (if 0 \<le> i \<and> i < int (length xs) then Some (xs ! nat i) else None)"

lemma at_int_Some_iff: "at_int xs i = Some x \<longleftrightarrow> 0 \<le> i \<and> i < int (length xs) \<and> xs ! nat i = x"
  by (auto simp: at_int_def)

lemma at_int_None_iff: "at_int xs i = None \<longleftrightarrow> i < 0 \<or> int (length xs) \<le> i"
  by (auto simp: at_int_def)

lemma runs_at_int [wp]:
  "runs (at_int xs i) Q \<longleftrightarrow> 0 \<le> i \<and> i < int (length xs) \<and> Q (xs ! nat i)"
  by (auto simp: at_int_def)

lemma at_int_of_nat [simp]: "at_int xs (int n) = (if n < length xs then Some (xs ! n) else None)"
  by (simp add: at_int_def)

text \<open>\<open>slices.Delete(xs, i, i+1)\<close>: panics when the range is out of bounds.\<close>

definition delete_at :: "'a list \<Rightarrow> int \<Rightarrow> 'a list option" where
  "delete_at xs i =
     (if 0 \<le> i \<and> i < int (length xs) then Some (take (nat i) xs @ drop (Suc (nat i)) xs) else None)"

lemma delete_at_length: "delete_at xs i = Some ys \<Longrightarrow> Suc (length ys) = length xs"
  by (auto simp: delete_at_def split: if_splits)

lemma delete_at_set: "delete_at xs i = Some ys \<Longrightarrow> set ys \<subseteq> set xs"
  by (auto simp: delete_at_def dest: in_set_takeD in_set_dropD split: if_splits)

lemma delete_at_nth:
  assumes "delete_at xs i = Some ys" and "j < length ys"
  shows "ys ! j = (if int j < i then xs ! j else xs ! Suc j)"
  using assms by (auto simp: delete_at_def nth_append min_def split: if_splits)

section \<open>Maps as association lists\<close>

text \<open>
  A Go map is an association list with distinct keys; the order of the list is the order of
  one iteration over the map. \<open>amap_put\<close> is \<open>m[k] = v\<close>, \<open>amap_del\<close> is \<open>delete(m, k)\<close>.
\<close>

fun amap_put :: "'k \<Rightarrow> 'v \<Rightarrow> ('k \<times> 'v) list \<Rightarrow> ('k \<times> 'v) list" where
  "amap_put k v [] = [(k, v)]"
| "amap_put k v ((k', v') # m) = (if k' = k then (k, v) # m else (k', v') # amap_put k v m)"

definition amap_del :: "'k \<Rightarrow> ('k \<times> 'v) list \<Rightarrow> ('k \<times> 'v) list" where
  "amap_del k m = filter (\<lambda>e. fst e \<noteq> k) m"

lemma amap_get_put [simp]: "map_of (amap_put k v m) = (map_of m)(k \<mapsto> v)"
  by (induction m) auto

lemma amap_get_del [simp]: "map_of (amap_del k m) = (map_of m)(k := None)"
  by (induction m) (auto simp: amap_del_def fun_eq_iff)

lemma amap_keys_put [simp]: "fst ` set (amap_put k v m) = insert k (fst ` set m)"
  by (induction k v m rule: amap_put.induct) auto

lemma amap_keys_del [simp]: "fst ` set (amap_del k m) = fst ` set m - {k}"
  by (auto simp: amap_del_def)

lemma amap_distinct_put [simp]: "distinct (map fst m) \<Longrightarrow> distinct (map fst (amap_put k v m))"
proof (induction m)
  case (Cons e m)
  have keys: "set (map fst (amap_put k v m)) = insert k (set (map fst m))"
    by (simp add: image_set [symmetric])
  show ?case
    using Cons keys by (cases e) auto
qed simp

lemma amap_distinct_del [simp]: "distinct (map fst m) \<Longrightarrow> distinct (map fst (amap_del k m))"
  by (induction m) (auto simp: amap_del_def)

lemma amap_set_del: "e \<in> set (amap_del k m) \<longleftrightarrow> e \<in> set m \<and> fst e \<noteq> k"
  by (simp add: amap_del_def)

end
