(* ===== verification/Go_Float64.thy ===== *)
theory Go_Float64
  imports Prelude
begin

text \<open>
  Go's \<open>float64\<close>. A finite float is the real number it denotes and every arithmetic
  operation rounds its exact result with \<open>fl64\<close>, round to nearest, ties to even, on a
  significand of 53 bits. Overflow to infinity, NaN and the subnormal range are not
  modelled: the exponent is unbounded. No value of the program comes near either end
  (ratings, distances in pixels, seconds).

  The interface locale \<open>rounding\<close> states what the clients rely on; it is interpreted on
  \<open>fl64\<close>. Its lemmas bound the expressions of the rating formulas and of the movement
  budget whatever the rounding does in between.
\<close>

section \<open>Rounding to an integer\<close>

text \<open>Round half to even (the hardware rounding of the significand).\<close>

definition rne :: "real \<Rightarrow> int" where
  "rne x = (let f = \<lfloor>x\<rfloor>; d = x - of_int f in
     if d < 1/2 then f else if 1/2 < d then f + 1 else if even f then f else f + 1)"

text \<open>\<open>math.Round\<close>: half away from zero.\<close>

definition math_Round :: "real \<Rightarrow> int" where
  "math_Round x = (if 0 \<le> x then \<lfloor>x + 1/2\<rfloor> else - \<lfloor>- x + 1/2\<rfloor>)"

lemma rne_of_int [simp]: "rne (of_int n) = n"
  by (simp add: rne_def)

lemma rne_cases: "rne x = \<lfloor>x\<rfloor> \<or> rne x = \<lfloor>x\<rfloor> + 1"
  by (simp add: rne_def Let_def)

lemma rne_error: "\<bar>of_int (rne x) - x\<bar> \<le> 1/2"
proof -
  have "of_int \<lfloor>x\<rfloor> \<le> x" "x < of_int \<lfloor>x\<rfloor> + 1" by linarith+
  then show ?thesis by (auto simp: rne_def Let_def)
qed

lemma rne_mono: "x \<le> y \<Longrightarrow> rne x \<le> rne y"
proof -
  assume le: "x \<le> y"
  show ?thesis
  proof (cases "\<lfloor>x\<rfloor> = \<lfloor>y\<rfloor>")
    case True
    with le show ?thesis by (auto simp: rne_def Let_def)
  next
    case False
    with le have "\<lfloor>x\<rfloor> + 1 \<le> \<lfloor>y\<rfloor>"
      using floor_mono [OF le] by linarith
    then show ?thesis using rne_cases [of x] rne_cases [of y] by linarith
  qed
qed

lemma rne_minus: "rne (- x) = - rne x"
proof (cases "x = of_int \<lfloor>x\<rfloor>")
  case True
  then have "- x = of_int (- \<lfloor>x\<rfloor>)" by simp
  then show ?thesis using True by (metis rne_of_int)
next
  case False
  then have "of_int \<lfloor>x\<rfloor> < x" by linarith
  then have "\<lfloor>- x\<rfloor> = - \<lfloor>x\<rfloor> - 1" by linarith
  then show ?thesis by (auto simp: rne_def Let_def)
qed

lemma math_Round_of_int [simp]: "math_Round (of_int n) = n"
  by (simp add: math_Round_def; linarith)

lemma math_Round_minus: "math_Round (- x) = - math_Round x"
  by (auto simp: math_Round_def)

lemma math_Round_mono: "x \<le> y \<Longrightarrow> math_Round x \<le> math_Round y"
  unfolding math_Round_def by (auto intro: floor_mono; linarith)

lemma math_Round_nonneg: "0 \<le> x \<Longrightarrow> 0 \<le> math_Round x"
  using math_Round_mono [of 0 x] math_Round_of_int [of 0] by simp

lemma math_Round_nonpos: "x \<le> 0 \<Longrightarrow> math_Round x \<le> 0"
  using math_Round_mono [of x 0] math_Round_of_int [of 0] by simp

section \<open>Rounding to a float\<close>

text \<open>The exponent of the last place of a nonzero real, and the rounded value.\<close>

definition ulp_exp :: "real \<Rightarrow> int" where
  "ulp_exp x = \<lfloor>log 2 \<bar>x\<bar>\<rfloor> - 52"

definition fl64 :: "real \<Rightarrow> real" where
  "fl64 x = (if x = 0 then 0
     else of_int (rne (x / 2 powr of_int (ulp_exp x))) * 2 powr of_int (ulp_exp x))"

definition fadd :: "real \<Rightarrow> real \<Rightarrow> real" where "fadd x y = fl64 (x + y)"
definition fsub :: "real \<Rightarrow> real \<Rightarrow> real" where "fsub x y = fl64 (x - y)"
definition fmul :: "real \<Rightarrow> real \<Rightarrow> real" where "fmul x y = fl64 (x * y)"
definition fdiv :: "real \<Rightarrow> real \<Rightarrow> real" where "fdiv x y = fl64 (x / y)"
definition fsqrt :: "real \<Rightarrow> real" where "fsqrt x = fl64 (sqrt x)"

text \<open>\<open>math.Pow(10, y)\<close>, taken to be correctly rounded. Go documents no error bound for \<open>math.Pow\<close>, so this is
an assumption about the library; what is proved of ratings uses it only through \<open>pow10_nonneg\<close> and bounds
that a wrong last bit does not touch.\<close>

definition pow10 :: "real \<Rightarrow> real" where "pow10 y = fl64 (10 powr y)"

text \<open>\<open>math.Hypot\<close>, step by step as the library computes it.\<close>

definition math_Hypot :: "real \<Rightarrow> real \<Rightarrow> real" where
  "math_Hypot a b =
     (let p = max \<bar>a\<bar> \<bar>b\<bar>; q = min \<bar>a\<bar> \<bar>b\<bar> in
      if p = 0 then 0
      else let r = fdiv q p in fmul p (fsqrt (fadd 1 (fmul r r))))"

lemma fl64_0 [simp]: "fl64 0 = 0"
  by (simp add: fl64_def)

lemma fl64_minus: "fl64 (- x) = - fl64 x"
  by (simp add: fl64_def ulp_exp_def rne_minus)

lemma ulp_exp_eqI:
  assumes "2 powr of_int k \<le> \<bar>x\<bar>" and "\<bar>x\<bar> < 2 powr of_int (k + 1)"
  shows "ulp_exp x = k - 52"
proof -
  have pos: "0 < \<bar>x\<bar>" using assms(1) by (smt (verit) powr_gt_zero)
  have "\<lfloor>log 2 \<bar>x\<bar>\<rfloor> = k"
    using assms pos by (simp add: floor_log_eq_powr_iff)
  then show ?thesis by (simp add: ulp_exp_def)
qed

lemma ulp_exp_bounds:
  assumes "x \<noteq> 0"
  shows "2 powr of_int (ulp_exp x + 52) \<le> \<bar>x\<bar>" and "\<bar>x\<bar> < 2 powr of_int (ulp_exp x + 53)"
proof -
  have "\<lfloor>log 2 \<bar>x\<bar>\<rfloor> = ulp_exp x + 52" by (simp add: ulp_exp_def)
  then have "2 powr of_int (ulp_exp x + 52) \<le> \<bar>x\<bar> \<and> \<bar>x\<bar> < 2 powr (of_int (ulp_exp x + 52) + 1)"
    using assms by (subst (asm) floor_log_eq_powr_iff) auto
  moreover have "of_int (ulp_exp x + 52) + 1 = (of_int (ulp_exp x + 53) :: real)" by simp
  ultimately show "2 powr of_int (ulp_exp x + 52) \<le> \<bar>x\<bar>"
    and "\<bar>x\<bar> < 2 powr of_int (ulp_exp x + 53)" by metis+
qed


lemma fl64_exact:
  assumes "\<bar>m\<bar> < 2 ^ 53"
  shows "fl64 (of_int m * 2 powr of_int e) = of_int m * 2 powr of_int e"
proof (cases "m = 0")
  case False
  define x :: real where "x = of_int m * 2 powr of_int e"
  define u where "u = ulp_exp x"
  have x0: "x \<noteq> 0" using False by (simp add: x_def)
  have m53: "\<bar>of_int m\<bar> < (2 powr 53 :: real)"
    using assms by (simp flip: of_int_abs)
  have "2 powr of_int (u + 52) \<le> \<bar>x\<bar>" unfolding u_def by (rule ulp_exp_bounds [OF x0])
  also have "\<dots> < 2 powr 53 * 2 powr of_int e"
    using m53 by (simp add: x_def abs_mult)
  also have "\<dots> = 2 powr of_int (e + 53)" by (simp add: powr_add)
  finally have "u + 52 < e + 53" by simp
  then obtain n where n: "e = u + int n" using zle_iff_zadd [of u e] by auto
  have "x / 2 powr of_int u = of_int (m * 2 ^ n)"
    by (simp add: x_def n powr_add powr_realpow)
  then have "fl64 x = of_int (m * 2 ^ n) * 2 powr of_int u"
    using x0 by (simp only: fl64_def u_def [symmetric] rne_of_int if_False)
  also have "\<dots> = x" by (simp add: x_def n powr_add powr_realpow)
  finally show ?thesis by (simp add: x_def)
qed simp

lemma fl64_range:
  assumes "0 < x"
  shows "2 powr of_int (ulp_exp x + 52) \<le> fl64 x" and "fl64 x \<le> 2 powr of_int (ulp_exp x + 53)"
proof -
  define u where "u = ulp_exp x"
  have b: "2 powr of_int (u + 52) \<le> x" "x < 2 powr of_int (u + 53)"
    using ulp_exp_bounds [of x] assms by (auto simp: u_def)
  have lo: "of_int (2 ^ 52) \<le> x / 2 powr of_int u"
    using b(1) by (simp add: powr_add field_simps)
  have hi: "x / 2 powr of_int u \<le> of_int (2 ^ 53)"
    using b(2) by (simp add: powr_add field_simps)
  have r: "2 ^ 52 \<le> rne (x / 2 powr of_int u)" "rne (x / 2 powr of_int u) \<le> 2 ^ 53"
    using rne_mono [OF lo] rne_mono [OF hi] by (simp_all only: rne_of_int)
  have r': "(2 :: real) ^ 52 \<le> of_int (rne (x / 2 powr of_int u))"
    "of_int (rne (x / 2 powr of_int u)) \<le> (2 :: real) ^ 53"
    using r by (simp_all only: of_int_le_iff [symmetric, where ?'a = real] of_int_power of_int_numeral)
  have f: "fl64 x = of_int (rne (x / 2 powr of_int u)) * 2 powr of_int u"
    using assms by (simp add: fl64_def u_def)
  show "2 powr of_int (ulp_exp x + 52) \<le> fl64 x" "fl64 x \<le> 2 powr of_int (ulp_exp x + 53)"
    using r' unfolding f u_def [symmetric] by (simp_all add: powr_add)
qed

lemma fl64_pos: "0 < x \<Longrightarrow> 0 < fl64 x"
  using fl64_range(1) [of x] by (smt (verit) powr_gt_zero)

lemma fl64_mono_pos:
  assumes "0 < x" and "x \<le> y"
  shows "fl64 x \<le> fl64 y"
proof -
  have y: "0 < y" using assms by simp
  have "log 2 \<bar>x\<bar> \<le> log 2 \<bar>y\<bar>" using assms by simp
  then have u: "ulp_exp x \<le> ulp_exp y" unfolding ulp_exp_def by (simp add: floor_mono)
  show ?thesis
  proof (cases "ulp_exp x = ulp_exp y")
    case True
    have "rne (x / 2 powr of_int (ulp_exp x)) \<le> rne (y / 2 powr of_int (ulp_exp x))"
      using assms(2) by (intro rne_mono divide_right_mono) auto
    then show ?thesis using assms y True by (simp add: fl64_def)
  next
    case False
    then have "ulp_exp x + 53 \<le> ulp_exp y + 52" using u by simp
    then have "2 powr of_int (ulp_exp x + 53) \<le> (2 powr of_int (ulp_exp y + 52) :: real)"
      by simp
    then show ?thesis using fl64_range(2) [OF assms(1)] fl64_range(1) [OF y] by linarith
  qed
qed

lemma fl64_mono: "x \<le> y \<Longrightarrow> fl64 x \<le> fl64 y"
proof -
  assume le: "x \<le> y"
  consider "0 < x" | "x \<le> 0" "0 \<le> y" | "y < 0" by linarith
  then show ?thesis
  proof cases
    case 1 then show ?thesis using le by (rule fl64_mono_pos)
  next
    case 2
    have "0 \<le> fl64 y" using fl64_pos [of y] 2 by (cases "y = 0") auto
    moreover have "0 \<le> fl64 (- x)" using fl64_pos [of "- x"] 2 by (cases "x = 0") auto
    ultimately show ?thesis by (simp add: fl64_minus)
  next
    case 3
    have "fl64 (- y) \<le> fl64 (- x)" using 3 le by (intro fl64_mono_pos) auto
    then show ?thesis by (simp add: fl64_minus)
  qed
qed

lemma fl64_error: "\<bar>fl64 x - x\<bar> \<le> \<bar>x\<bar> / 2 ^ 53"
proof (cases "x = 0")
  case False
  define u where "u = ulp_exp x"
  define p :: real where "p = 2 powr of_int u"
  have p: "0 < p" by (simp add: p_def)
  have e: "\<bar>of_int (rne (x / p)) - x / p\<bar> \<le> 1/2" by (rule rne_error)
  have f: "fl64 x = of_int (rne (x / p)) * p" using False by (simp add: fl64_def u_def p_def)
  have "fl64 x - x = (of_int (rne (x / p)) - x / p) * p" using p by (simp add: f field_simps)
  then have "\<bar>fl64 x - x\<bar> = \<bar>of_int (rne (x / p)) - x / p\<bar> * p" using p by (simp add: abs_mult)
  also have "\<dots> \<le> 1/2 * p" using e p by (intro mult_right_mono) auto
  also have "\<dots> \<le> \<bar>x\<bar> / 2 ^ 53"
    using ulp_exp_bounds(1) [OF False] by (simp add: u_def [symmetric] p_def powr_add)
  finally show ?thesis .
qed simp

lemma fl64_idem [simp]: "fl64 (fl64 x) = fl64 x"
proof (cases "x = 0")
  case False
  define u where "u = ulp_exp x"
  define n where "n = rne (x / 2 powr of_int u)"
  have f: "fl64 x = of_int n * 2 powr of_int u" using False by (simp add: fl64_def u_def n_def)
  have "\<bar>x\<bar> < 2 powr of_int (u + 53)"
    using ulp_exp_bounds(2) [OF False] by (simp add: u_def)
  then have "\<bar>x / 2 powr of_int u\<bar> \<le> of_int (2 ^ 53)"
    by (simp add: powr_add field_simps)
  then have "x / 2 powr of_int u \<le> of_int (2 ^ 53)" "of_int (- (2 ^ 53)) \<le> x / 2 powr of_int u"
    by linarith+
  then have "n \<le> 2 ^ 53" "- (2 ^ 53) \<le> n"
    unfolding n_def by (metis rne_mono rne_of_int)+
  then consider "\<bar>n\<bar> < 2 ^ 53" | "n = 2 ^ 53" | "n = - (2 ^ 53)" by linarith
  then show ?thesis
  proof cases
    case 1 then show ?thesis unfolding f by (rule fl64_exact)
  next
    case 2
    then have "fl64 x = of_int 1 * 2 powr of_int (u + 53)" by (simp add: f powr_add)
    then show ?thesis using fl64_exact [of 1 "u + 53"] by simp
  next
    case 3
    then have "fl64 x = of_int (-1) * 2 powr of_int (u + 53)" by (simp add: f powr_add)
    then show ?thesis using fl64_exact [of "-1" "u + 53"] by simp
  qed
qed simp

section \<open>What the clients rely on\<close>

locale rounding =
  fixes fl :: "real \<Rightarrow> real"
  assumes mono: "x \<le> y \<Longrightarrow> fl x \<le> fl y"
    and odd: "fl (- x) = - fl x"
    and exact: "\<bar>m\<bar> < 2 ^ 53 \<Longrightarrow> fl (of_int m * 2 powr of_int e) = of_int m * 2 powr of_int e"
begin

lemma of_int: "\<bar>m\<bar> < 2 ^ 53 \<Longrightarrow> fl (of_int m) = of_int m"
  using exact [of m 0] by simp

lemma zero: "fl 0 = 0"
  using of_int [of 0] by simp

lemma one: "fl 1 = 1"
  using of_int [of 1] by simp

lemma numeral: "numeral n < (2 ^ 53 :: int) \<Longrightarrow> fl (numeral n) = numeral n"
  using of_int [of "numeral n"] by simp

lemma dyadic: "\<bar>m\<bar> < 2 ^ 53 \<Longrightarrow> fl (of_int m / 2 ^ n) = of_int m / 2 ^ n"
  using exact [of m "- int n"] by (simp add: powr_minus powr_realpow divide_inverse)

lemma nonneg: "0 \<le> x \<Longrightarrow> 0 \<le> fl x"
  using mono [of 0 x] by (simp add: zero)

lemma nonpos: "x \<le> 0 \<Longrightarrow> fl x \<le> 0"
  using mono [of x 0] by (simp add: zero)

lemma le_dyadic: "x \<le> of_int m / 2 ^ n \<Longrightarrow> \<bar>m\<bar> < 2 ^ 53 \<Longrightarrow> fl x \<le> of_int m / 2 ^ n"
  using mono [of x "of_int m / 2 ^ n"] by (simp add: dyadic)

lemma ge_dyadic: "of_int m / 2 ^ n \<le> x \<Longrightarrow> \<bar>m\<bar> < 2 ^ 53 \<Longrightarrow> of_int m / 2 ^ n \<le> fl x"
  using mono [of "of_int m / 2 ^ n" x] by (simp add: dyadic)

lemma le_one: "x \<le> 1 \<Longrightarrow> fl x \<le> 1"
  using mono [of x 1] by (simp add: one)

lemma ge_one: "1 \<le> x \<Longrightarrow> 1 \<le> fl x"
  using mono [of 1 x] by (simp add: one)

text \<open>The shape of an expected score, \<open>1 / (1 + p)\<close>, stays a probability.\<close>

lemma recip_unit: "0 \<le> p \<Longrightarrow> 0 \<le> fl (1 / fl (1 + p)) \<and> fl (1 / fl (1 + p)) \<le> 1"
proof -
  assume "0 \<le> p"
  then have "1 \<le> fl (1 + p)" by (intro ge_one) simp
  then show ?thesis by (intro conjI nonneg le_one) (simp_all add: divide_le_eq_1)
qed

end

interpretation fl64: rounding fl64
  by unfold_locales (simp_all add: fl64_mono fl64_minus fl64_exact)

locale rounding_error = rounding +
  fixes eps :: real
  assumes eps_pos: "0 < eps"
    and error: "\<bar>fl x - x\<bar> \<le> \<bar>x\<bar> * eps"
begin

lemma upper: "0 \<le> x \<Longrightarrow> fl x \<le> x * (1 + eps)"
  using error [of x] by (simp add: algebra_simps abs_le_iff)

lemma lower: "0 \<le> x \<Longrightarrow> x * (1 - eps) \<le> fl x"
  using error [of x] by (simp add: algebra_simps abs_le_iff)

end

interpretation fl64e: rounding_error fl64 "1 / 2 ^ 53"
  by unfold_locales (use fl64_error in simp_all)

end
