(* ===== verification/Go_Base.thy ===== *)
theory Go_Base
  imports Go_Float64
begin

text \<open>
  The parts of Go's language and standard library the program uses: truncating integer
  division, \<open>time.Time\<close> and \<open>time.Duration\<close>, \<open>strings.ToUpper\<close>, and \<open>rand.Rand\<close> as an
  arbitrary stream of draws.
\<close>

section \<open>Integers\<close>

text \<open>Go's \<open>/\<close> and \<open>%\<close> truncate towards zero.\<close>

definition go_quot :: "int \<Rightarrow> int \<Rightarrow> int" where
  "go_quot a b = sgn a * sgn b * (\<bar>a\<bar> div \<bar>b\<bar>)"

definition go_rem :: "int \<Rightarrow> int \<Rightarrow> int" where
  "go_rem a b = a - go_quot a b * b"

lemma go_quot_nonneg: "0 \<le> a \<Longrightarrow> 0 < b \<Longrightarrow> go_quot a b = a div b"
  by (cases "a = 0") (simp_all add: go_quot_def)

lemma go_rem_nonneg: "0 \<le> a \<Longrightarrow> 0 < b \<Longrightarrow> go_rem a b = a mod b"
  by (simp add: go_rem_def go_quot_nonneg minus_div_mult_eq_mod)

section \<open>Time\<close>

text \<open>
  A \<open>time.Time\<close> is the number of nanoseconds since Go's zero time (January 1 of year 1),
  so that \<open>t.IsZero()\<close> is \<open>t = 0\<close>, \<open>t.Before(u)\<close> is \<open>t < u\<close>, \<open>t.Add(d)\<close> is \<open>t + d\<close> and
  \<open>t.Sub(u)\<close> is \<open>t - u\<close> (spans stay far below the 292 years where \<open>Sub\<close> saturates).
\<close>

type_synonym gotime = int
type_synonym duration = int

definition Millisecond :: duration where "Millisecond = 1000000"
definition Second :: duration where "Second = 1000000000"
definition Minute :: duration where "Minute = 60000000000"

definition isZero :: "gotime \<Rightarrow> bool" where "isZero t \<longleftrightarrow> t = 0"

text \<open>\<open>Duration.Seconds\<close>: whole seconds plus the remaining nanoseconds over 1e9.\<close>

definition duration_Seconds :: "duration \<Rightarrow> real" where
  "duration_Seconds d =
     fadd (of_int (go_quot d Second)) (fdiv (of_int (go_rem d Second)) 1000000000)"

text \<open>\<open>int(d / time.Millisecond)\<close>\<close>

definition in_ms :: "duration \<Rightarrow> int" where "in_ms d = go_quot d Millisecond"

lemma in_ms_nonneg: "0 \<le> d \<Longrightarrow> 0 \<le> in_ms d"
  by (simp add: in_ms_def go_quot_nonneg Millisecond_def)

lemma duration_Seconds_nonneg: "0 \<le> d \<Longrightarrow> 0 \<le> duration_Seconds d"
  unfolding duration_Seconds_def fadd_def fdiv_def
  by (intro fl64.nonneg add_nonneg_nonneg)
    (simp_all add: go_quot_nonneg go_rem_nonneg Second_def)

lemma duration_Seconds_zero [simp]: "duration_Seconds 0 = 0"
  by (simp add: duration_Seconds_def go_quot_def go_rem_def fadd_def fdiv_def)

section \<open>Strings\<close>

text \<open>
  A Go string is its UTF-8 bytes. \<open>strings.ToUpper\<close> maps ASCII letters byte by byte. Two
  code points outside ASCII have an ASCII upper case, the dotless i (bytes C4 B1) and the
  long s (C5 BF); they are mapped too. All other bytes beyond ASCII are kept: Go may replace
  them by other bytes beyond ASCII, which no comparison with an ASCII word or with the range
  \<open>A\<close> to \<open>Z\<close> can tell apart.
\<close>

definition is_lower :: "char \<Rightarrow> bool" where
  "is_lower c \<longleftrightarrow> 97 \<le> (of_char c :: nat) \<and> (of_char c :: nat) \<le> 122"

definition is_AZ :: "char \<Rightarrow> bool" where
  "is_AZ c \<longleftrightarrow> 65 \<le> (of_char c :: nat) \<and> (of_char c :: nat) \<le> 90"

definition upper_byte :: "char \<Rightarrow> char" where
  "upper_byte c = (if is_lower c then char_of ((of_char c :: nat) - 32) else c)"

fun toUpper :: "string \<Rightarrow> string" where
  "toUpper [] = []"
| "toUpper [c] = [upper_byte c]"
| "toUpper (c # d # s) =
     (if c = CHR 0xC4 \<and> d = CHR 0xB1 then CHR ''I'' # toUpper s
      else if c = CHR 0xC5 \<and> d = CHR 0xBF then CHR ''S'' # toUpper s
      else upper_byte c # toUpper (d # s))"

text \<open>ASCII strings, and the strings of capital letters that words are.\<close>

definition capitals :: "string \<Rightarrow> bool" where
  "capitals s \<longleftrightarrow> (\<forall>c\<in>set s. is_AZ c)"

definition ascii :: "string \<Rightarrow> bool" where
  "ascii s \<longleftrightarrow> (\<forall>c\<in>set s. (of_char c :: nat) < 128)"

lemma is_AZ_not_lower: "is_AZ c \<Longrightarrow> \<not> is_lower c"
  by (auto simp: is_AZ_def is_lower_def)

lemma upper_byte_AZ [simp]: "is_AZ c \<Longrightarrow> upper_byte c = c"
  by (simp add: upper_byte_def is_AZ_not_lower)

lemma is_AZ_upper_byte: "is_lower c \<Longrightarrow> is_AZ (upper_byte c)"
  by (auto simp: upper_byte_def is_AZ_def is_lower_def take_bit_eq_mod)

lemma capitals_Nil [simp]: "capitals []"
  and capitals_Cons [simp]: "capitals (c # s) \<longleftrightarrow> is_AZ c \<and> capitals s"
  by (simp_all add: capitals_def)

lemma not_AZ_C4 [simp]: "\<not> is_AZ (CHR 0xC4)" "\<not> is_AZ (CHR 0xC5)"
  by (simp_all add: is_AZ_def)

lemma toUpper_capitals [simp]: "capitals s \<Longrightarrow> toUpper s = s"
  by (induction s rule: toUpper.induct) auto

lemma toUpper_ascii: "ascii s \<Longrightarrow> toUpper s = map upper_byte s"
  by (induction s rule: toUpper.induct) (auto simp: ascii_def)

lemma toUpper_ascii_length: "ascii s \<Longrightarrow> length (toUpper s) = length s"
  by (simp add: toUpper_ascii)

section \<open>Random numbers\<close>

text \<open>
  A \<open>*rand.Rand\<close> is a stream of draws and the position in it; a property that holds for
  every stream holds whatever the generator returns. \<open>Intn(n)\<close> panics unless \<open>0 < n\<close>.
\<close>

record rng =
  draws :: "nat \<Rightarrow> nat"
  drawn :: nat

definition Intn :: "int \<Rightarrow> rng \<Rightarrow> (int \<times> rng) option" where
  "Intn n r = (if 0 < n then Some (int (draws r (drawn r)) mod n, r\<lparr>drawn := Suc (drawn r)\<rparr>)
               else None)"

lemma runs_Intn [wp]:
  "runs (Intn n r) Q \<longleftrightarrow>
     0 < n \<and> Q (int (draws r (drawn r)) mod n, r\<lparr>drawn := Suc (drawn r)\<rparr>)"
  by (simp add: Intn_def)

lemma Intn_range: "Intn n r = Some (k, r') \<Longrightarrow> 0 \<le> k \<and> k < n"
  by (auto simp: Intn_def split: if_splits)

text \<open>
  \<open>Perm(n)\<close>: the inside-out shuffle of the library: for each \<open>i\<close>, \<open>j = Intn(i+1)\<close>,
  \<open>m[i] = m[j]; m[j] = i\<close>.
\<close>

fun perm_from :: "nat \<Rightarrow> nat \<Rightarrow> int list \<Rightarrow> rng \<Rightarrow> int list \<times> rng" where
  "perm_from 0 i m r = (m, r)"
| "perm_from (Suc k) i m r =
     (let j = draws r (drawn r) mod Suc i; m' = m @ [0] in
      perm_from k (Suc i) (m'[i := m' ! j, j := int i]) (r\<lparr>drawn := Suc (drawn r)\<rparr>))"

definition Perm :: "nat \<Rightarrow> rng \<Rightarrow> int list \<times> rng" where
  "Perm n r = perm_from n 0 [] r"

lemma perm_step_mset:
  assumes "length m = i" and "j \<le> i"
  shows "mset ((m @ [0])[i := (m @ [0]) ! j, j := x]) = mset m + {#x#}"
proof (cases "j = i")
  case True
  with assms show ?thesis by (simp add: list_update_append)
next
  case False
  with assms have "j < i" by simp
  then have "mset ((m @ [m ! j])[j := x]) = mset (m @ [m ! j]) - {#m ! j#} + {#x#}"
    using assms by (subst mset_update) (auto simp: nth_append)
  then show ?thesis using \<open>j < i\<close> assms by (simp add: nth_append list_update_append)
qed

lemma perm_from_mset:
  "length m = i \<Longrightarrow> mset m = mset (map int [0..<i]) \<Longrightarrow>
   mset (fst (perm_from k i m r)) = mset (map int [0..<i + k])"
proof (induction k i m r rule: perm_from.induct)
  case (2 k i m r)
  define j where "j = draws r (drawn r) mod Suc i"
  define m' where "m' = (m @ [0])[i := (m @ [0]) ! j, j := int i]"
  have j: "j \<le> i" by (simp add: j_def less_Suc_eq_le [symmetric])
  have "mset m' = mset (map int [0..<Suc i])"
    using perm_step_mset [OF 2(2) j, of "int i"] 2(3) by (simp add: m'_def)
  moreover have "length m' = Suc i" using 2(2) by (simp add: m'_def)
  ultimately show ?case
    using 2(1) [OF j_def refl] by (simp add: j_def m'_def Let_def)
qed simp

lemma Perm_permutation: "mset (fst (Perm n r)) = mset (map int [0..<n])"
  by (simp add: Perm_def perm_from_mset)

lemma Perm_length [simp]: "length (fst (Perm n r)) = n"
  using arg_cong [OF Perm_permutation [of n r], of size] by simp

lemma Perm_set [simp]: "set (fst (Perm n r)) = {0..<int n}"
proof -
  have "set (fst (Perm n r)) = set (map int [0..<n])"
    using Perm_permutation [of n r] by (metis set_mset_mset)
  then show ?thesis by (auto simp: image_iff intro!: bexI [of _ "nat _"])
qed

end
