(* ===== verification/Protocol.thy ===== *)
theory Protocol
  imports Go_Base
begin

text \<open>
  The websocket messages of \<open>internal/protocol/protocol.go\<close>: payload structs as records
  (fields prefixed with the struct's initials), enumerations the server produces as
  datatypes, and one datatype per direction whose constructors pair a message type with its
  payload. \<open>WordleColor\<close> stays an integer, because clients send colors of their own
  (Feint) and nothing but \<open>validPattern\<close> keeps other numbers out.

  The msgpack encoding of the payloads is third-party code and not modelled.
\<close>

section \<open>Positions and entities\<close>

type_synonym i32 = "32 word"
type_synonym EntityID = "32 word"
type_synonym EntityKind = "8 word"

definition EntityPlayer :: EntityKind where "EntityPlayer = 1"

record Vec =
  X :: i32
  Y :: i32

record EntitySpawn =
  es_ID :: EntityID
  es_Kind :: EntityKind
  es_Name :: string
  es_Char :: string
  es_Class :: string
  es_Sprite :: string
  es_Pos :: Vec
  es_Elo :: int

record EntityMove =
  em_ID :: EntityID
  em_X :: i32
  em_Y :: i32

record EntityElo =
  ee_ID :: EntityID
  ee_Elo :: int

record WorldUpdate =
  wu_Spawn :: "EntitySpawn list"
  wu_Move :: "EntityMove list"
  wu_Despawn :: "EntityID list"
  wu_Elo :: "EntityElo list"

record Interactable =
  it_ID :: string
  it_Sprite :: string
  it_Pos :: Vec
  it_W :: i32
  it_H :: i32
  it_Action :: string
  it_Range :: i32
  it_Label :: string

record WorldMap =
  Width :: i32
  Height :: i32
  Background :: string
  Spawn :: Vec
  Interactables :: "Interactable list"

section \<open>Classes, characters and ranks\<close>

datatype AbilityTarget =
  TargetNone | TargetOpponentTile | TargetLetter | TargetWord | TargetOwnRow | TargetColors

record AbilityInfo =
  ai_ID :: string
  ai_Name :: string
  ai_Description :: string
  ai_Cost :: int
  ai_Once :: bool
  ai_Target :: AbilityTarget
  ai_Icon :: string

record PassiveInfo =
  pi_ID :: string
  pi_Name :: string
  pi_Description :: string
  pi_Icon :: string

record ClassInfo =
  ci_ID :: string
  ci_Name :: string
  ci_Description :: string
  ci_Sprite :: string
  ci_Abilities :: "AbilityInfo list"
  ci_Passive :: PassiveInfo

record CharacterInfo =
  chi_ID :: int
  chi_Slot :: int
  chi_Name :: string
  chi_Class :: string

record RankTier =
  rt_ID :: string
  rt_Family :: string
  rt_Name :: string
  rt_MinElo :: int

record Welcome =
  we_PlayerID :: int
  we_Username :: string
  we_EntityID :: EntityID
  we_Pos :: Vec
  we_Map :: WorldMap
  we_MoveSpeed :: real
  we_TickRate :: int
  we_Character :: CharacterInfo
  we_Classes :: "ClassInfo list"
  we_Elo :: int
  we_Ladder :: "RankTier list"

record Stakes =
  st_WinMin :: int
  st_WinMax :: int
  st_LoseMin :: int
  st_LoseMax :: int

section \<open>Chat and the daily puzzle\<close>

record ChatReq =
  cr_Msg :: string

record ChatMsg =
  cm_ID :: EntityID
  cm_Msg :: string
  cm_Name :: string
  cm_Char :: string
  cm_Class :: string

datatype WordleStatus = WordleInGame | WordleWin | WordleLose

type_synonym WordleColor = int

definition Grey :: WordleColor where "Grey = 0"
definition Yellow :: WordleColor where "Yellow = 1"
definition Green :: WordleColor where "Green = 2"
definition Hidden :: WordleColor where "Hidden = 3"

lemmas color_defs = Grey_def Yellow_def Green_def Hidden_def

lemma colors_distinct [simp]:
  "Grey \<noteq> Yellow" "Yellow \<noteq> Grey" "Grey \<noteq> Green" "Green \<noteq> Grey" "Yellow \<noteq> Green"
  "Green \<noteq> Yellow" "Hidden \<noteq> Green" "Green \<noteq> Hidden" "Hidden \<noteq> Yellow" "Yellow \<noteq> Hidden"
  "Hidden \<noteq> Grey" "Grey \<noteq> Hidden"
  by (simp_all add: color_defs)

record WordleReq =
  wq_Guess :: string

record WordleRes =
  wr_Valid :: bool
  wr_Status :: WordleStatus
  wr_Colors :: "WordleColor list"
  wr_Solution :: string
  wr_Seconds :: real
  wr_Blocked :: bool

record WordleResume =
  ws_Played :: bool
  ws_TooFar :: bool
  ws_Guesses :: "string list"
  ws_Colors :: "WordleColor list list"
  ws_Seconds :: real

text \<open>Go's zero values of the two structs the handlers start from.\<close>

definition WordleRes_zero :: WordleRes where
  "WordleRes_zero = \<lparr>wr_Valid = False, wr_Status = WordleInGame, wr_Colors = [],
     wr_Solution = [], wr_Seconds = 0, wr_Blocked = False\<rparr>"

definition WordleResume_zero :: WordleResume where
  "WordleResume_zero = \<lparr>ws_Played = False, ws_TooFar = False, ws_Guesses = [],
     ws_Colors = [], ws_Seconds = 0\<rparr>"

section \<open>Duels\<close>

record DuelChallengeReq =
  dcr_Target :: EntityID
  dcr_Ranked :: bool

record DuelRespondReq =
  drr_ID :: "32 word"
  drr_Accept :: bool

record DuelChallenge =
  dch_ID :: "32 word"
  dch_From :: EntityID
  dch_Name :: string
  dch_Char :: string
  dch_Class :: string
  dch_ExpiresMs :: int
  dch_Ranked :: bool
  dch_Elo :: int
  dch_Stakes :: "Stakes option"

datatype DuelChallengeStatus =
  DuelSent | DuelDeclined | DuelExpired | DuelCancelled | DuelBusy | DuelUnavailable

record DuelChallengeUpdate =
  dcu_ID :: "32 word"
  dcu_Name :: string
  dcu_Status :: DuelChallengeStatus

record DuelStart =
  ds_Name :: string
  ds_Char :: string
  ds_Class :: string
  ds_WordLength :: int
  ds_MaxGuesses :: int
  ds_Ranked :: bool

datatype DuelOutcome = DuelWin | DuelLose | DuelDraw

datatype DuelEndReason =
  DuelSolved | DuelOutOfGuesses | DuelForfeit | DuelDisconnect | DuelTimeUp

fun reason_code :: "DuelEndReason \<Rightarrow> int" where
  "reason_code DuelSolved = 0"
| "reason_code DuelOutOfGuesses = 1"
| "reason_code DuelForfeit = 2"
| "reason_code DuelDisconnect = 3"
| "reason_code DuelTimeUp = 4"

record DuelEnd =
  de_Outcome :: DuelOutcome
  de_Reason :: DuelEndReason
  de_Solution :: string
  de_Seconds :: real
  de_Ranked :: bool
  de_EloBefore :: int
  de_EloAfter :: int
  de_Expected :: real
  de_Margin :: real

record RankedMatchInfo =
  rmi_Opponent :: string
  rmi_OpponentClass :: string
  rmi_Outcome :: DuelOutcome
  rmi_Change :: int
  rmi_PlayedAt :: int

record Profile =
  pr_ID :: EntityID
  pr_Name :: string
  pr_Char :: string
  pr_Class :: string
  pr_Elo :: int
  pr_Peak :: int
  pr_Games :: int
  pr_Wins :: int
  pr_Losses :: int
  pr_Draws :: int
  pr_Recent :: "RankedMatchInfo list"
  pr_Stakes :: "Stakes option"

record DuelCastReq =
  Slot :: int
  Row :: int
  Col :: int
  Letter :: string
  Colors :: "WordleColor list"

record DuelSideState =
  dss_Energy :: int
  dss_Rows :: int
  dss_Guesses :: int
  dss_StunnedMs :: int
  dss_Shield :: bool
  dss_Eyes :: int
  dss_MissilesMs :: "int list"
  dss_Illusion :: bool
  dss_Used :: "string list"
  dss_SilencedMs :: int
  dss_ScrambledGuesses :: int
  dss_Keymap :: string
  dss_CheatReady :: bool
  dss_FeintReady :: bool

record DuelState =
  dst_You :: DuelSideState
  dst_Them :: DuelSideState
  dst_DeadlineMs :: int

datatype DuelCastKind = CastUsed | CastLanded | CastFizzled | CastTriggered

record DuelCast =
  dc_ByYou :: bool
  dc_Ability :: string
  dc_Kind :: DuelCastKind
  dc_Blocked :: bool
  dc_Row :: int
  dc_Col :: int

record DuelBoard =
  db_Yours :: bool
  db_Colors :: "WordleColor list list"

record DuelScry =
  dsc_Letter :: string
  dsc_InWord :: bool

record EyeTile =
  et_Row :: int
  et_Col :: int
  et_Letter :: string

record IllusionStart =
  is_WordLength :: int
  is_MaxGuesses :: int

record IllusionEnd =
  ie_Won :: bool
  ie_Solution :: string
  ie_EnergyLost :: int
  ie_Purified :: bool

record DuelPickpocket =
  dp_Row :: int
  dp_Col :: int
  dp_Letter :: string

datatype PrayerKind = PrayerMinor | PrayerMajor

record DuelPrayer =
  dpr_ID :: int
  dpr_Kind :: PrayerKind
  dpr_Pending :: bool
  dpr_Failed :: bool
  dpr_God :: string
  dpr_GodTitle :: string
  dpr_GodColor :: string
  dpr_Text :: string
  dpr_Refunded :: int

datatype DivineFate =
  FateCleanSlate | FateNewWord | FateSuddenDeath | FateRevelation | FateFortune

record DuelDivine =
  dd_Fate :: DivineFate
  dd_Banner :: string

record DuelGuessRemoved =
  dgr_Yours :: bool
  dgr_Row :: int

record DuelReveal =
  drv_Col :: int
  drv_Letter :: string

section \<open>The two directions\<close>

datatype ClientMsg =
    ClientMove Vec
  | ClientWordleGuess WordleReq
  | ClientChat ChatReq
  | ClientWordleStart
  | ClientDuelChallenge DuelChallengeReq
  | ClientDuelRespond DuelRespondReq
  | ClientDuelGuess WordleReq
  | ClientDuelForfeit
  | ClientDuelTyping int
  | ClientProfile EntityID
  | ClientDuelCast DuelCastReq
  | ClientIllusionGuess WordleReq
  | ClientDuelReshape string

datatype ServerMsg =
    ServerWelcome Welcome
  | ServerWordleResult WordleRes
  | ServerWordleResume WordleResume
  | ServerChat ChatMsg
  | ServerWorld WorldUpdate
  | ServerCorrection Vec
  | ServerDuelChallenge DuelChallenge
  | ServerDuelChallengeUpdate DuelChallengeUpdate
  | ServerDuelStart DuelStart
  | ServerDuelGuess WordleRes
  | ServerDuelOpponentGuess "WordleColor list"
  | ServerDuelEnd DuelEnd
  | ServerDuelTyping int
  | ServerProfile Profile
  | ServerDuelState DuelState
  | ServerDuelCast DuelCast
  | ServerDuelBoard DuelBoard
  | ServerDuelScry DuelScry
  | ServerDuelEyes "EyeTile list"
  | ServerDuelReshapeOptions "string list"
  | ServerIllusionStart IllusionStart
  | ServerIllusionGuess WordleRes
  | ServerIllusionEnd IllusionEnd
  | ServerDuelPickpocket DuelPickpocket
  | ServerDuelPrayer DuelPrayer
  | ServerDuelDivine DuelDivine
  | ServerDuelGuessRemoved DuelGuessRemoved
  | ServerDuelReveal DuelReveal

text \<open>The number of each message type on the wire.\<close>

fun client_code :: "ClientMsg \<Rightarrow> 8 word" where
  "client_code (ClientMove _) = 1"
| "client_code (ClientWordleGuess _) = 2"
| "client_code (ClientChat _) = 3"
| "client_code ClientWordleStart = 4"
| "client_code (ClientDuelChallenge _) = 5"
| "client_code (ClientDuelRespond _) = 6"
| "client_code (ClientDuelGuess _) = 7"
| "client_code ClientDuelForfeit = 8"
| "client_code (ClientDuelTyping _) = 9"
| "client_code (ClientProfile _) = 10"
| "client_code (ClientDuelCast _) = 11"
| "client_code (ClientIllusionGuess _) = 12"
| "client_code (ClientDuelReshape _) = 13"

fun server_code :: "ServerMsg \<Rightarrow> 8 word" where
  "server_code (ServerWelcome _) = 1"
| "server_code (ServerWordleResult _) = 2"
| "server_code (ServerWordleResume _) = 3"
| "server_code (ServerChat _) = 4"
| "server_code (ServerWorld _) = 5"
| "server_code (ServerCorrection _) = 6"
| "server_code (ServerDuelChallenge _) = 7"
| "server_code (ServerDuelChallengeUpdate _) = 8"
| "server_code (ServerDuelStart _) = 9"
| "server_code (ServerDuelGuess _) = 10"
| "server_code (ServerDuelOpponentGuess _) = 11"
| "server_code (ServerDuelEnd _) = 12"
| "server_code (ServerDuelTyping _) = 13"
| "server_code (ServerProfile _) = 14"
| "server_code (ServerDuelState _) = 15"
| "server_code (ServerDuelCast _) = 16"
| "server_code (ServerDuelBoard _) = 17"
| "server_code (ServerDuelScry _) = 18"
| "server_code (ServerDuelEyes _) = 19"
| "server_code (ServerDuelReshapeOptions _) = 20"
| "server_code (ServerIllusionStart _) = 21"
| "server_code (ServerIllusionGuess _) = 22"
| "server_code (ServerIllusionEnd _) = 23"
| "server_code (ServerDuelPickpocket _) = 24"
| "server_code (ServerDuelPrayer _) = 25"
| "server_code (ServerDuelDivine _) = 26"
| "server_code (ServerDuelGuessRemoved _) = 27"
| "server_code (ServerDuelReveal _) = 28"

end
