(* ===== verification/Wordle.thy ===== *)
theory Wordle
  imports Protocol
begin

text \<open>
  The Wordle rules of \<open>internal/puzzles/wordle\<close>: the word lists (\<open>words.go\<close>) and the
  scoring of a guess (\<open>game.go\<close>).

  The two passes of \<open>colorsFor\<close> run over the pairs of guessed and hidden letters with the
  table of letters counted so far. Bytes stand for runes: a scored guess is ASCII (it is a
  listed word or passed the \<open>A\<close> to \<open>Z\<close> check), and the only table entries read are those of
  its letters. The lemmas show that the passes compute the rules of the game: green exactly
  on matching places, and as many coloured tiles per letter as both words have of it.
\<close>

unbundle bit_operations_syntax

definition GuessesAllowed :: int where "GuessesAllowed = 5"

section \<open>Scoring\<close>

definition letterCounts :: "string \<Rightarrow> char \<Rightarrow> int" where
  "letterCounts word = fold (\<lambda>letter m. m(letter := m letter + 1)) word (\<lambda>_. 0)"

fun green_pass :: "(char \<times> char) list \<Rightarrow> (char \<Rightarrow> int) \<Rightarrow> WordleColor list \<times> (char \<Rightarrow> int)" where
  "green_pass [] counted = ([], counted)"
| "green_pass ((g, w) # ps) counted =
     (if g = w then
        let (cs, m) = green_pass ps (counted(g := counted g + 1)) in (Green # cs, m)
      else
        let (cs, m) = green_pass ps counted in (Grey # cs, m))"

fun yellow_pass :: "(char \<times> WordleColor) list \<Rightarrow> (char \<Rightarrow> int) \<Rightarrow> (char \<Rightarrow> int) \<Rightarrow> WordleColor list" where
  "yellow_pass [] counts counted = []"
| "yellow_pass ((g, c) # ps) counts counted =
     (if c = Grey \<and> counted g < counts g
      then Yellow # yellow_pass ps counts (counted(g := counted g + 1))
      else c # yellow_pass ps counts counted)"

definition colorsFor :: "string \<Rightarrow> string \<Rightarrow> WordleColor list" where
  "colorsFor guess word =
     (let (colors, counted) = green_pass (zip guess word) (\<lambda>_. 0)
      in yellow_pass (zip guess colors) (letterCounts word) counted)"

definition allGreen :: "WordleColor list \<Rightarrow> bool" where
  "allGreen colors \<longleftrightarrow> (\<forall>c\<in>set colors. c = Green)"

text \<open>The duel's version (\<open>solves\<close> in \<open>duel.go\<close>) also needs a letter.\<close>

definition solves :: "WordleColor list \<Rightarrow> bool" where
  "solves colors \<longleftrightarrow> (\<forall>c\<in>set colors. c = Green) \<and> 0 < length colors"

section \<open>Word lists\<close>

record Words =
  solutions :: "string list"
  guessables :: "string list"
  three :: "string list"

definition is_space :: "char \<Rightarrow> bool" where
  "is_space c \<longleftrightarrow> (of_char c :: nat) \<in> {9, 10, 11, 12, 13, 32}"

definition trimSpace :: "string \<Rightarrow> string" where
  "trimSpace s = rev (dropWhile is_space (rev (dropWhile is_space s)))"

text \<open>The scanner's lines: the text between newlines, without an empty last line.\<close>

fun split_lines :: "string \<Rightarrow> string \<Rightarrow> string list" where
  "split_lines acc [] = (if acc = [] then [] else [rev acc])"
| "split_lines acc (c # s) =
     (if c = CHR 0x0A then rev acc # split_lines [] s else split_lines (c # acc) s)"

definition lines :: "string \<Rightarrow> string list" where
  "lines s = filter (\<lambda>word. word \<noteq> []) (map trimSpace (split_lines [] s))"

text \<open>The three embedded files are the arguments; no solutions is a panic.\<close>

definition LoadWords :: "string \<Rightarrow> string \<Rightarrow> string \<Rightarrow> Words option" where
  "LoadWords allWords solutionWords threeWords =
     (let sols = lines (toUpper solutionWords); th = lines (toUpper threeWords);
          gs = map toUpper (lines allWords) @ th
      in if length sols = 0 \<or> length th = 0 then None
         else Some \<lparr>solutions = sols, guessables = gs, three = th\<rparr>)"

definition Guessable :: "Words \<Rightarrow> string \<Rightarrow> bool" where
  "Guessable w guess \<longleftrightarrow> guess \<in> set (guessables w)"

definition pick_word :: "string list \<Rightarrow> rng \<Rightarrow> (string \<times> rng) option" where
  "pick_word ws r = do { (i, r') \<leftarrow> Intn (int (length ws)) r; word \<leftarrow> at_int ws i; Some (word, r') }"

definition Random :: "Words \<Rightarrow> rng \<Rightarrow> (string \<times> rng) option" where
  "Random w r = pick_word (solutions w) r"

definition Three :: "Words \<Rightarrow> rng \<Rightarrow> (string \<times> rng) option" where
  "Three w r = pick_word (three w) r"

text \<open>
  The day's word: the generator seeded with the FNV-1a hash of the date. \<open>newSource\<close> is the
  library's seeding, any function of the seed.
\<close>

definition fnv64a :: "string \<Rightarrow> 64 word" where
  "fnv64a s = fold (\<lambda>c h. (h XOR word_of_nat (of_char c)) * 1099511628211) s 14695981039346656037"

definition For :: "(int \<Rightarrow> rng) \<Rightarrow> Words \<Rightarrow> string \<Rightarrow> string option" where
  "For newSource w date = map_option fst (pick_word (solutions w) (newSource (sint (fnv64a date))))"

definition Score :: "string \<Rightarrow> string \<Rightarrow> Words \<Rightarrow> bool \<times> WordleColor list" where
  "Score guess word words =
     (let guess = toUpper guess in
      if length guess \<noteq> length word \<or> \<not> Guessable words guess then (False, [])
      else (True, colorsFor guess word))"

definition ScoreAny :: "string \<Rightarrow> string \<Rightarrow> bool \<times> WordleColor list" where
  "ScoreAny guess word =
     (let guess = toUpper guess in
      if length guess \<noteq> length word then (False, [])
      else if \<exists>c\<in>set guess. \<not> is_AZ c then (False, [])
      else (True, colorsFor guess word))"

section \<open>The passes compute the rules\<close>

lemma letterCounts_fold: "fold (\<lambda>letter m. m(letter := m letter + (1 :: int))) word m c = m c + int (count_list word c)"
  by (induction word arbitrary: m) auto

lemma letterCounts_count: "letterCounts word c = int (count_list word c)"
  by (simp add: letterCounts_def letterCounts_fold)

text \<open>Letters of \<open>c\<close> on matching places.\<close>

definition matches :: "(char \<times> char) list \<Rightarrow> char \<Rightarrow> int" where
  "matches ps c = int (length (filter (\<lambda>(g, w). g = w \<and> g = c) ps))"

lemma green_pass_fst: "fst (green_pass ps m) = map (\<lambda>(g, w). if g = w then Green else Grey) ps"
proof (induction ps arbitrary: m)
  case (Cons p ps)
  then show ?case by (cases p) (auto simp: case_prod_beta)
qed simp

lemma green_pass_snd: "snd (green_pass ps m) c = m c + matches ps c"
proof (induction ps arbitrary: m)
  case (Cons p ps)
  then show ?case by (cases p) (auto simp: matches_def case_prod_beta)
qed (simp add: matches_def)

lemma yellow_pass_length [simp]: "length (yellow_pass ps k m) = length ps"
proof (induction ps arbitrary: m)
  case (Cons p ps)
  then show ?case by (cases p) auto
qed simp

lemma yellow_pass_keeps:
  "i < length ps \<Longrightarrow> snd (ps ! i) \<noteq> Grey \<Longrightarrow> yellow_pass ps k m ! i = snd (ps ! i)"
proof (induction ps arbitrary: i m)
  case (Cons p ps)
  then show ?case by (cases p; cases i) auto
qed simp

lemma yellow_pass_grey:
  "i < length ps \<Longrightarrow> snd (ps ! i) = Grey \<Longrightarrow>
   yellow_pass ps k m ! i =
     (if m (fst (ps ! i)) + int (length (filter (\<lambda>(g, c). c = Grey \<and> g = fst (ps ! i)) (take i ps)))
         < k (fst (ps ! i)) then Yellow else Grey)"
proof (induction ps arbitrary: i m)
  case (Cons p ps)
  obtain g c where p: "p = (g, c)" by (cases p)
  show ?case
  proof (cases i)
    case 0
    with Cons.prems show ?thesis by (simp add: p)
  next
    case (Suc j)
    have j: "j < length ps" "snd (ps ! j) = Grey" using Cons.prems Suc by auto
    show ?thesis
      using Cons.IH [OF j] Suc by (auto simp: p not_less)
  qed
qed simp

lemma colorsFor_unfold:
  "colorsFor guess word =
    yellow_pass (zip guess (map (\<lambda>(g, w). if g = w then Green else Grey) (zip guess word)))
      (letterCounts word) (matches (zip guess word))"
proof -
  have "snd (green_pass (zip guess word) (\<lambda>_. 0)) = matches (zip guess word)"
    by (rule ext) (simp add: green_pass_snd)
  then show ?thesis
    by (simp add: colorsFor_def case_prod_beta green_pass_fst)
qed

lemma colorsFor_length [simp]:
  "length guess = length word \<Longrightarrow> length (colorsFor guess word) = length word"
  by (simp add: colorsFor_unfold)

text \<open>A count of list positions as the length of a filter over the paired lists.\<close>

lemma card_filter_zip:
  "length xs = length ys \<Longrightarrow>
   card {i. i < length xs \<and> P (xs ! i) (ys ! i)} = length (filter (\<lambda>(x, y). P x y) (zip xs ys))"
proof -
  assume len: "length xs = length ys"
  have "card {i. i < length (zip xs ys) \<and> (case zip xs ys ! i of (x, y) \<Rightarrow> P x y)}
      = length (filter (\<lambda>(x, y). P x y) (zip xs ys))"
    by (rule length_filter_conv_card [symmetric])
  moreover have "{i. i < length (zip xs ys) \<and> (case zip xs ys ! i of (x, y) \<Rightarrow> P x y)}
      = {i. i < length xs \<and> P (xs ! i) (ys ! i)}"
    using len by auto
  ultimately show ?thesis by simp
qed

lemma count_split_matches:
  "length guess = length word \<Longrightarrow>
   count_list word c = length (filter (\<lambda>(g, w). g = w \<and> g = c) (zip guess word))
     + length (filter (\<lambda>(g, w). w = c \<and> g \<noteq> w) (zip guess word))"
  by (induction guess word rule: list_induct2) auto

lemma count_split_guess:
  "length guess = length word \<Longrightarrow>
   count_list guess c = length (filter (\<lambda>(g, w). g = w \<and> g = c) (zip guess word))
     + length (filter (\<lambda>(g, w). g = c \<and> g \<noteq> w) (zip guess word))"
  by (induction guess word rule: list_induct2) auto

lemma filter_take_zip:
  "length guess = length word \<Longrightarrow>
   length (filter (\<lambda>(g, x). x = Grey \<and> g = c)
     (take i (zip guess (map (\<lambda>(g, w). if g = w then Green else Grey) (zip guess word)))))
   = length (filter (\<lambda>(g, w). g = c \<and> g \<noteq> w) (zip (take i guess) (take i word)))"
proof (induction guess word arbitrary: i rule: list_induct2)
  case (Cons g gs w ws)
  then show ?case by (cases i) auto
qed simp

text \<open>What a tile shows: the rule of the game, place by place.\<close>

lemma colorsFor_nth:
  assumes len: "length guess = length word" and i: "i < length word"
  shows "colorsFor guess word ! i =
    (if guess ! i = word ! i then Green
     else if card {j. j < i \<and> guess ! j = guess ! i \<and> guess ! j \<noteq> word ! j}
             < card {j. j < length word \<and> word ! j = guess ! i \<and> guess ! j \<noteq> word ! j}
     then Yellow else Grey)"
proof -
  define c where "c = guess ! i"
  define ps where "ps = zip guess (map (\<lambda>(g, w). if g = w then Green else Grey) (zip guess word))"
  have ips: "i < length ps" using len i by (simp add: ps_def)
  have nth: "ps ! i = (c, if c = word ! i then Green else Grey)"
    using len i by (simp add: ps_def c_def)
  show ?thesis
  proof (cases "c = word ! i")
    case True
    then have "snd (ps ! i) \<noteq> Grey" by (simp add: nth)
    from yellow_pass_keeps [OF ips this] show ?thesis
      using True by (simp add: colorsFor_unfold ps_def [symmetric] nth c_def [symmetric])
  next
    case False
    have before: "card {j. j < i \<and> guess ! j = c \<and> guess ! j \<noteq> word ! j}
        = length (filter (\<lambda>(g, w). g = c \<and> g \<noteq> w) (zip (take i guess) (take i word)))"
    proof -
      have "{j. j < i \<and> guess ! j = c \<and> guess ! j \<noteq> word ! j}
          = {j. j < length (take i guess) \<and> take i guess ! j = c \<and> take i guess ! j \<noteq> take i word ! j}"
        using len i by auto
      then show ?thesis
        using card_filter_zip [of "take i guess" "take i word" "\<lambda>g w. g = c \<and> g \<noteq> w"] len by simp
    qed
    have left: "card {j. j < length word \<and> word ! j = c \<and> guess ! j \<noteq> word ! j}
        = length (filter (\<lambda>(g, w). w = c \<and> g \<noteq> w) (zip guess word))"
      using card_filter_zip [OF len, of "\<lambda>g w. w = c \<and> g \<noteq> w"] len by simp
    have "snd (ps ! i) = Grey" using False by (simp add: nth)
    from yellow_pass_grey [OF ips this, of "letterCounts word" "matches (zip guess word)"]
    show ?thesis
      using False count_split_matches [OF len, of c] filter_take_zip [OF len, of c i]
      by (simp add: colorsFor_unfold ps_def [symmetric] nth c_def [symmetric] before left
          letterCounts_count matches_def)
  qed
qed

lemma nat_left_Suc: "m < (k :: int) \<Longrightarrow> nat (k - m) = Suc (nat (k - (m + 1)))"
  by simp

lemma yellow_pass_count:
  "length (filter (\<lambda>(p, r). fst p = c \<and> r \<noteq> Grey) (zip ps (yellow_pass ps k m)))
   = length (filter (\<lambda>(g, x). g = c \<and> x \<noteq> Grey) ps)
     + min (length (filter (\<lambda>(g, x). g = c \<and> x = Grey) ps)) (nat (k c - m c))"
proof (induction ps arbitrary: m)
  case (Cons p ps)
  obtain g x where p: "p = (g, x)" by (cases p)
  show ?case
    by (cases "x = Grey"; cases "m g < k g"; cases "g = c")
      (simp_all add: p Cons.IH nat_left_Suc)
qed simp

text \<open>
  Letter by letter, as many tiles are coloured as both words have of the letter: the yellow
  tiles never promise a letter twice.
\<close>

lemma colorsFor_count:
  assumes len: "length guess = length word"
  shows "card {i. i < length guess \<and> guess ! i = c \<and> colorsFor guess word ! i \<noteq> Grey}
    = min (count_list guess c) (count_list word c)"
proof -
  define xs where "xs = map (\<lambda>(g, w). if g = w then Green else Grey) (zip guess word)"
  define ps where "ps = zip guess xs"
  have lx: "length guess = length xs" using len by (simp add: xs_def)
  have col: "colorsFor guess word = yellow_pass ps (letterCounts word) (matches (zip guess word))"
    by (simp add: colorsFor_unfold ps_def xs_def)
  have "card {i. i < length guess \<and> guess ! i = c \<and> colorsFor guess word ! i \<noteq> Grey}
      = card {i. i < length ps \<and> fst (ps ! i) = c \<and> colorsFor guess word ! i \<noteq> Grey}"
    using lx by (intro arg_cong [where f = card]) (auto simp: ps_def)
  also have "\<dots> = length (filter (\<lambda>(p, r). fst p = c \<and> r \<noteq> Grey) (zip ps (colorsFor guess word)))"
    by (rule card_filter_zip) (use len lx in \<open>simp add: ps_def\<close>)
  also have "\<dots> = length (filter (\<lambda>(g, x). g = c \<and> x \<noteq> Grey) ps)
      + min (length (filter (\<lambda>(g, x). g = c \<and> x = Grey) ps))
          (nat (letterCounts word c - matches (zip guess word) c))"
    unfolding col by (rule yellow_pass_count)
  also have "length (filter (\<lambda>(g, x). g = c \<and> x \<noteq> Grey) ps)
      = length (filter (\<lambda>(g, w). g = w \<and> g = c) (zip guess word))"
    unfolding ps_def xs_def using len by (induction guess word rule: list_induct2) auto
  also have "length (filter (\<lambda>(g, x). g = c \<and> x = Grey) ps)
      = length (filter (\<lambda>(g, w). g = c \<and> g \<noteq> w) (zip guess word))"
    unfolding ps_def xs_def using len by (induction guess word rule: list_induct2) auto
  also have "length (filter (\<lambda>(g, w). g = w \<and> g = c) (zip guess word))
      + min (length (filter (\<lambda>(g, w). g = c \<and> g \<noteq> w) (zip guess word)))
          (nat (letterCounts word c - matches (zip guess word) c))
      = min (count_list guess c) (count_list word c)"
    using count_split_matches [OF len, of c] count_split_guess [OF len, of c]
    by (simp add: letterCounts_count matches_def)
  finally show ?thesis .
qed

lemma solves_nth: "solves cs \<longleftrightarrow> (\<forall>i<length cs. cs ! i = Green) \<and> cs \<noteq> []"
  by (auto simp: solves_def set_conv_nth)

lemma solves_colorsFor:
  assumes len: "length guess = length word"
  shows "solves (colorsFor guess word) \<longleftrightarrow> guess = word \<and> word \<noteq> []"
proof -
  have c: "length (colorsFor guess word) = length word" by (rule colorsFor_length [OF len])
  have "(\<forall>i<length word. colorsFor guess word ! i = Green) \<longleftrightarrow> (\<forall>i<length word. guess ! i = word ! i)"
    using colorsFor_nth [OF len] by (auto split: if_splits)
  also have "\<dots> \<longleftrightarrow> guess = word" using len by (simp add: list_eq_iff_nth_eq)
  finally have "(\<forall>i<length word. colorsFor guess word ! i = Green) \<longleftrightarrow> guess = word" .
  moreover have "colorsFor guess word \<noteq> [] \<longleftrightarrow> word \<noteq> []" using c by (metis length_0_conv)
  ultimately show ?thesis by (simp add: solves_nth c)
qed

lemma Score_True:
  "Score guess word words = (True, cs) \<longleftrightarrow>
     length (toUpper guess) = length word \<and> Guessable words (toUpper guess)
     \<and> cs = colorsFor (toUpper guess) word"
  by (auto simp: Score_def Let_def)

lemma ScoreAny_True:
  "ScoreAny guess word = (True, cs) \<longleftrightarrow>
     length (toUpper guess) = length word \<and> capitals (toUpper guess)
     \<and> cs = colorsFor (toUpper guess) word"
  by (auto simp: ScoreAny_def Let_def capitals_def)

lemma runs_pick_word:
  "ws \<noteq> [] \<Longrightarrow> runs (pick_word ws r) (\<lambda>(w, r'). w \<in> set ws \<and> r' = r\<lparr>drawn := Suc (drawn r)\<rparr>)"
  by (auto simp: pick_word_def Intn_def runs_at_int intro!: nth_mem)
    (simp add: nat_less_iff)

section \<open>The rules of the game\<close>

text \<open>
  The rule as a player knows it: green in place; yellow if the word still has the letter somewhere
  that is not green and not used up by an earlier wrong place; else grey.
\<close>

definition rule_color :: "string \<Rightarrow> string \<Rightarrow> nat \<Rightarrow> WordleColor" where
  "rule_color guess word i =
    (if guess ! i = word ! i then Green
     else if length (filter (\<lambda>j. guess ! j = guess ! i \<and> guess ! j \<noteq> word ! j) [0..<i])
             < length (filter (\<lambda>j. word ! j = guess ! i \<and> guess ! j \<noteq> word ! j) [0..<length word])
     then Yellow else Grey)"

lemma length_filter_upt: "length (filter P [0..<n]) = card {j. j < n \<and> P j}"
  by (simp add: length_filter_conv_card cong: conj_cong)

lemma colorsFor_rule:
  assumes "length guess = length word"
  shows "colorsFor guess word = map (rule_color guess word) [0..<length word]"
  by (intro nth_equalityI) (simp_all add: assms colorsFor_nth rule_color_def length_filter_upt)

text \<open>C34: Scoring is the rule of the game. A guess is scored exactly if it has the word's length and is
in the lists, and then the code's two counting passes give each letter the color the rule says.\<close>

theorem Score_is_the_rule:
  "Score guess word words = (True, cs) \<longleftrightarrow>
     length (toUpper guess) = length word \<and> toUpper guess \<in> set (guessables words) \<and>
     cs = map (rule_color (toUpper guess) word) [0..<length word]"
  using colorsFor_rule [of "toUpper guess" word] by (auto simp: Score_True Guessable_def)

text \<open>What the colors tell. All are green exactly when the guess is the word, and each letter is
colored as often as guess and word share it, so neither more nor less than its copies in the word.\<close>

theorem Score_tells:
  assumes "Score guess word words = (True, cs)" and "word \<noteq> []"
  shows "length cs = length word \<and> (allGreen cs \<longleftrightarrow> toUpper guess = word) \<and>
    card {i. i < length word \<and> toUpper guess ! i = c \<and> cs ! i \<noteq> Grey} =
      min (count_list (toUpper guess) c) (count_list word c)"
proof -
  have s: "length (toUpper guess) = length word" "cs = colorsFor (toUpper guess) word"
    using assms(1) by (simp_all add: Score_True)
  have "solves cs \<longleftrightarrow> toUpper guess = word" unfolding s(2) using solves_colorsFor [OF s(1)] assms(2) by simp
  moreover have "solves cs \<longleftrightarrow> allGreen cs" using assms(2) s by (auto simp: solves_def allGreen_def)
  ultimately show ?thesis using colorsFor_count [OF s(1), of c] s by simp
qed

theorem Score_tells_witness:
  "let words = \<lparr>solutions = [''ABBEY''], guessables = [''ABBEY'', ''BABEL''], three = []\<rparr> in
    Score ''babel'' ''ABBEY'' words = (True, [Yellow, Yellow, Green, Green, Grey]) \<and>
    card {i. i < 5 \<and> toUpper ''babel'' ! i = CHR ''B'' \<and> [Yellow, Yellow, Green, Green, Grey] ! i \<noteq> Grey} = 2"
proof -
  let ?words = "\<lparr>solutions = [''ABBEY''], guessables = [''ABBEY'', ''BABEL''], three = []\<rparr>"
  have s: "Score ''babel'' ''ABBEY'' ?words = (True, [Yellow, Yellow, Green, Green, Grey])" by code_simp
  have c: "min (count_list (toUpper ''babel'') (CHR ''B'')) (count_list ''ABBEY'' (CHR ''B'')) = 2"
    and l: "length ''ABBEY'' = 5" by code_simp+
  show ?thesis
    using s Score_tells [OF s list.distinct(2), of "CHR ''B''"] unfolding Let_def l c by blast
qed

end
