(* ===== verification/Duel_Puzzle.thy ===== *)
theory Duel_Puzzle
  imports Wordle
begin

text \<open>
  The interface \<open>game.DuelPuzzle\<close> (\<open>internal/game/duel.go\<close>): the world does not know Wordle,
  the server plugs it in. A value of the interface is the record \<open>puzzle\<close> of its methods; the
  locale \<open>duel_puzzle\<close> states what the duel code relies on, and the duel theories prove their
  lemmas inside it. It is interpreted on \<open>wordle.DuelPuzzle\<close>
  (\<open>internal/puzzles/wordle/duel.go\<close>), the only implementation the server uses.
\<close>

section \<open>The interface\<close>

record puzzle =
  NewWord :: "rng \<Rightarrow> (string \<times> rng) option"
  IllusionWord :: "rng \<Rightarrow> (string \<times> rng) option"
  pScore :: "string \<Rightarrow> string \<Rightarrow> bool \<times> WordleColor list"
  pScoreAny :: "string \<Rightarrow> string \<Rightarrow> bool \<times> WordleColor list"
  MaxGuesses :: int

text \<open>A word can be scored again against any word of the length, as \<open>rescore\<close> does.\<close>

definition rescorable :: "puzzle \<Rightarrow> nat \<Rightarrow> string \<Rightarrow> bool" where
  "rescorable P n g \<longleftrightarrow> length g = n \<and>
     (\<forall>word. length word = n \<longrightarrow> (\<exists>cs. pScoreAny P g word = (True, cs) \<and> length cs = n))"

locale duel_puzzle =
  fixes puz :: "'p \<Rightarrow> puzzle"
    and invar :: "'p \<Rightarrow> bool"
    and wlen :: "'p \<Rightarrow> nat"
  assumes wlen_pos: "invar p \<Longrightarrow> 0 < wlen p"
    and new_word: "invar p \<Longrightarrow> runs (NewWord (puz p) r) (\<lambda>(w, r'). length w = wlen p)"
    and illusion_word: "invar p \<Longrightarrow> runs (IllusionWord (puz p) r) (\<lambda>(w, r'). w \<noteq> [])"
    and score_row: "invar p \<Longrightarrow> length word = wlen p \<Longrightarrow> pScore (puz p) g word = (True, cs) \<Longrightarrow>
      length cs = wlen p \<and> rescorable (puz p) (wlen p) (toUpper g)"
    and score_any_row: "invar p \<Longrightarrow> length word = wlen p \<Longrightarrow> pScoreAny (puz p) g word = (True, cs) \<Longrightarrow>
      length cs = wlen p \<and> rescorable (puz p) (wlen p) (toUpper g)"
    and score_solves: "invar p \<Longrightarrow> pScore (puz p) g word = (True, cs) \<Longrightarrow> word \<noteq> [] \<Longrightarrow>
      solves cs \<longleftrightarrow> toUpper g = word"
    and score_any_solves: "invar p \<Longrightarrow> pScoreAny (puz p) g word = (True, cs) \<Longrightarrow> word \<noteq> [] \<Longrightarrow>
      solves cs \<longleftrightarrow> toUpper g = word"
    and max_guesses: "invar p \<Longrightarrow> 0 < MaxGuesses (puz p)"
begin

lemma new_wordE:
  assumes "invar p"
  obtains w r' where "NewWord (puz p) r = Some (w, r')" "length w = wlen p"
  using new_word [OF assms, of r] by (auto simp: runs_iff)

lemma illusion_wordE:
  assumes "invar p"
  obtains w r' where "IllusionWord (puz p) r = Some (w, r')" "w \<noteq> []"
  using illusion_word [OF assms, of r] by (auto simp: runs_iff)

lemma word_nonempty: "invar p \<Longrightarrow> length word = wlen p \<Longrightarrow> word \<noteq> []"
  using wlen_pos by force

end

section \<open>Wordle as the puzzle for duels\<close>

record DuelPuzzle =
  dz_words :: Words
  dz_fixed :: string

definition NewDuelPuzzle :: "Words \<Rightarrow> DuelPuzzle" where
  "NewDuelPuzzle ws = \<lparr>dz_words = ws, dz_fixed = []\<rparr>"

definition WithWord :: "DuelPuzzle \<Rightarrow> string \<Rightarrow> DuelPuzzle" where
  "WithWord p word = p\<lparr>dz_fixed := word\<rparr>"

definition DuelPuzzle_NewWord :: "DuelPuzzle \<Rightarrow> rng \<Rightarrow> (string \<times> rng) option" where
  "DuelPuzzle_NewWord p r =
     (if dz_fixed p \<noteq> [] then Some (dz_fixed p, r) else Random (dz_words p) r)"

definition DuelPuzzle_IllusionWord :: "DuelPuzzle \<Rightarrow> rng \<Rightarrow> (string \<times> rng) option" where
  "DuelPuzzle_IllusionWord p r = Three (dz_words p) r"

definition DuelPuzzle_Score :: "DuelPuzzle \<Rightarrow> string \<Rightarrow> string \<Rightarrow> bool \<times> WordleColor list" where
  "DuelPuzzle_Score p guess word = Score guess word (dz_words p)"

definition DuelPuzzle_ScoreAny :: "DuelPuzzle \<Rightarrow> string \<Rightarrow> string \<Rightarrow> bool \<times> WordleColor list" where
  "DuelPuzzle_ScoreAny p guess word = ScoreAny guess word"

definition DuelPuzzle_MaxGuesses :: "DuelPuzzle \<Rightarrow> int" where
  "DuelPuzzle_MaxGuesses p = GuessesAllowed"

definition wordle_puzzle :: "DuelPuzzle \<Rightarrow> puzzle" where
  "wordle_puzzle p = \<lparr>NewWord = DuelPuzzle_NewWord p, IllusionWord = DuelPuzzle_IllusionWord p,
     pScore = DuelPuzzle_Score p, pScoreAny = DuelPuzzle_ScoreAny p,
     MaxGuesses = DuelPuzzle_MaxGuesses p\<rparr>"

text \<open>
  What the embedded word files and the \<open>DUEL_WORD\<close> setting provide: solutions of one length,
  Illusion words, and listed words of capital letters. The fixed word is any word.
\<close>

definition words_ok :: "Words \<Rightarrow> bool" where
  "words_ok ws \<longleftrightarrow> solutions ws \<noteq> [] \<and> three ws \<noteq> [] \<and> hd (solutions ws) \<noteq> [] \<and>
     (\<forall>s\<in>set (solutions ws). length s = length (hd (solutions ws))) \<and>
     (\<forall>s\<in>set (three ws). s \<noteq> []) \<and> (\<forall>g\<in>set (guessables ws). capitals g)"

definition duel_words_ok :: "DuelPuzzle \<Rightarrow> bool" where
  "duel_words_ok p \<longleftrightarrow> words_ok (dz_words p)"

definition word_length :: "DuelPuzzle \<Rightarrow> nat" where
  "word_length p =
     (if dz_fixed p \<noteq> [] then length (dz_fixed p) else length (hd (solutions (dz_words p))))"

lemma rescorable_capitals:
  assumes "capitals g"
  shows "rescorable (wordle_puzzle p) (length g) g"
  unfolding rescorable_def
proof (intro conjI allI impI refl exI)
  fix word :: string
  assume len: "length word = length g"
  show "pScoreAny (wordle_puzzle p) g word = (True, colorsFor g word)"
    using assms by (simp add: wordle_puzzle_def DuelPuzzle_ScoreAny_def ScoreAny_True len)
  show "length (colorsFor g word) = length g"
    by (simp only: colorsFor_length [OF len [symmetric]] len)
qed

lemma words_okD:
  assumes "words_ok ws"
  shows "solutions ws \<noteq> []" "three ws \<noteq> []" "0 < length (hd (solutions ws))"
    "s \<in> set (solutions ws) \<Longrightarrow> length s = length (hd (solutions ws))"
    "s \<in> set (three ws) \<Longrightarrow> s \<noteq> []" "g \<in> set (guessables ws) \<Longrightarrow> capitals g"
  using assms unfolding words_ok_def by blast+

interpretation wordle: duel_puzzle wordle_puzzle duel_words_ok word_length
proof (unfold_locales, goal_cases)
  case (1 p)
  then show ?case using words_okD(3) [of "dz_words p"] by (simp add: duel_words_ok_def word_length_def)
next
  case (2 p r)
  show ?case
  proof (cases "dz_fixed p = []")
    case True
    have "runs (Random (dz_words p) r) (\<lambda>(w, r'). w \<in> set (solutions (dz_words p)) \<and> r' = r\<lparr>drawn := Suc (drawn r)\<rparr>)"
      unfolding Random_def using 2 words_okD(1) by (intro runs_pick_word) (simp add: duel_words_ok_def)
    then show ?thesis using 2 True words_okD(4) [of "dz_words p"]
      by (auto simp: wordle_puzzle_def DuelPuzzle_NewWord_def word_length_def duel_words_ok_def
          elim!: runs_conseq)
  next
    case False
    then show ?thesis by (simp add: wordle_puzzle_def DuelPuzzle_NewWord_def word_length_def)
  qed
next
  case (3 p r)
  have "runs (Three (dz_words p) r) (\<lambda>(w, r'). w \<in> set (three (dz_words p)) \<and> r' = r\<lparr>drawn := Suc (drawn r)\<rparr>)"
    unfolding Three_def using 3 words_okD(2) by (intro runs_pick_word) (simp add: duel_words_ok_def)
  then show ?case using 3 words_okD(5) [of "dz_words p"]
    by (auto simp: wordle_puzzle_def DuelPuzzle_IllusionWord_def duel_words_ok_def
        elim!: runs_conseq)
next
  case (4 p word g cs)
  then have s: "length (toUpper g) = length word" "cs = colorsFor (toUpper g) word" "capitals (toUpper g)"
    using words_okD(6) by (auto simp: wordle_puzzle_def DuelPuzzle_Score_def Score_True
        duel_words_ok_def Guessable_def)
  then show ?case using rescorable_capitals [of "toUpper g" p] 4 by simp
next
  case (5 p word g cs)
  then have s: "length (toUpper g) = length word" "cs = colorsFor (toUpper g) word" "capitals (toUpper g)"
    by (auto simp: wordle_puzzle_def DuelPuzzle_ScoreAny_def ScoreAny_True)
  then show ?case using rescorable_capitals [of "toUpper g" p] 5 by simp
next
  case (6 p g word cs)
  then show ?case
    by (auto simp: wordle_puzzle_def DuelPuzzle_Score_def Score_True solves_colorsFor)
next
  case (7 p g word cs)
  then show ?case
    by (auto simp: wordle_puzzle_def DuelPuzzle_ScoreAny_def ScoreAny_True solves_colorsFor)
next
  case (8 p)
  show ?case by (simp add: wordle_puzzle_def DuelPuzzle_MaxGuesses_def GuessesAllowed_def)
qed

end
