(* ===== verification/Classes.thy ===== *)
theory Classes
  imports Protocol
begin

text \<open>
  The registry of playable classes, \<open>internal/classes/classes.go\<close>: what each class can
  cast, at which cost, and its passive. What an ability does lives in the duel theories,
  keyed by the ability's ID. The table is translated entry by entry.
\<close>

section \<open>IDs\<close>

type_synonym class_ID = string

definition Knight :: class_ID where "Knight = ''knight''"
definition Wizard :: class_ID where "Wizard = ''wizard''"
definition Rogue :: class_ID where "Rogue = ''rogue''"
definition Cleric :: class_ID where "Cleric = ''cleric''"

definition AbilitySlots :: int where "AbilitySlots = 5"

definition Slash :: string where "Slash = ''slash''"
definition ShieldsUp :: string where "ShieldsUp = ''shields_up''"
definition Determination :: string where "Determination = ''determination''"
definition PommelStrike :: string where "PommelStrike = ''pommel_strike''"
definition Cripple :: string where "Cripple = ''cripple''"
definition Aggressive :: string where "Aggressive = ''aggressive''"
definition Scry :: string where "Scry = ''scry''"
definition SeeingEye :: string where "SeeingEye = ''seeing_eye''"
definition MagicMissile :: string where "MagicMissile = ''magic_missile''"
definition Illusion :: string where "Illusion = ''illusion''"
definition ReshapeReality :: string where "ReshapeReality = ''reshape_reality''"
definition Wise :: string where "Wise = ''wise''"
definition Pickpocket :: string where "Pickpocket = ''pickpocket''"
definition Cheat :: string where "Cheat = ''cheat''"
definition Feint :: string where "Feint = ''feint''"
definition UnderTheirNose :: string where "UnderTheirNose = ''under_their_nose''"
definition Confuse :: string where "Confuse = ''confuse''"
definition Sneaky :: string where "Sneaky = ''sneaky''"
definition MinorPrayer :: string where "MinorPrayer = ''minor_prayer''"
definition Mend :: string where "Mend = ''mend''"
definition Purify :: string where "Purify = ''purify''"
definition MajorPrayer :: string where "MajorPrayer = ''major_prayer''"
definition DivineIntervention :: string where "DivineIntervention = ''divine_intervention''"
definition DivineWill :: string where "DivineWill = ''divine_will''"

lemmas class_id_defs = Knight_def Wizard_def Rogue_def Cleric_def
lemmas ability_id_defs =
  Slash_def ShieldsUp_def Determination_def PommelStrike_def Cripple_def Aggressive_def Scry_def SeeingEye_def MagicMissile_def Illusion_def ReshapeReality_def Wise_def Pickpocket_def Cheat_def Feint_def UnderTheirNose_def Confuse_def Sneaky_def MinorPrayer_def Mend_def Purify_def MajorPrayer_def DivineIntervention_def DivineWill_def

section \<open>The registry\<close>

record Ability =
  ab_ID :: string
  ab_Name :: string
  ab_Description :: string
  ab_Cost :: int
  ab_Once :: bool
  ab_Target :: AbilityTarget

record Passive =
  pa_ID :: string
  pa_Name :: string
  pa_Description :: string

record Class =
  cl_ID :: class_ID
  cl_Name :: string
  cl_Description :: string
  cl_Sprite :: string
  cl_Abilities :: "Ability option list"
  cl_Passive :: "Passive option"

text \<open>A table entry without \<open>Once\<close> leaves it false.\<close>

definition mk_ability :: "string \<Rightarrow> string \<Rightarrow> int \<Rightarrow> AbilityTarget \<Rightarrow> string \<Rightarrow> Ability" where
  "mk_ability i n c t d = \<lparr>ab_ID = i, ab_Name = n, ab_Description = d, ab_Cost = c,
     ab_Once = False, ab_Target = t\<rparr>"

definition mk_passive :: "string \<Rightarrow> string \<Rightarrow> string \<Rightarrow> Passive option" where
  "mk_passive i n d = Some \<lparr>pa_ID = i, pa_Name = n, pa_Description = d\<rparr>"

definition knight_class :: Class where
  "knight_class = \<lparr>cl_ID = Knight, cl_Name = ''Knight'',
     cl_Description = ''A sturdy fighter in heavy armor.'', cl_Sprite = ''Skoobyuboo.png'',
     cl_Abilities = [
      Some (mk_ability Slash ''Slash'' 2 TargetOpponentTile
        ''Destroy a letter in one of your opponent's guesses. They can't see what it was anymore.''),
      Some (mk_ability ShieldsUp ''Shields Up'' 2 TargetNone
        ''Raise a shield that ignores the next enemy ability that would affect you. Only one shield at a time.''),
      Some (mk_ability Determination ''Determination'' 3 TargetNone
        ''Gain another guess row, even after you've run out of guesses.''),
      Some (mk_ability PommelStrike ''Pommel Strike'' 3 TargetNone
        ''Stun your opponent's keyboard for 10 seconds.''),
      Some (mk_ability Cripple ''Cripple'' 8 TargetNone
        ''Your opponent loses a guess row. Can't take their last one.'')],
     cl_Passive = mk_passive Aggressive ''Aggressive''
       ''Guesses that find a new green letter stun your opponent's keyboard for 5 seconds.''\<rparr>"

definition wizard_class :: Class where
  "wizard_class = \<lparr>cl_ID = Wizard, cl_Name = ''Wizard'',
     cl_Description = ''A scholar of arcane magic.'', cl_Sprite = ''wizard.png'',
     cl_Abilities = [
      Some (mk_ability Scry ''Scry'' 2 TargetLetter
        ''Choose any letter and learn whether it's in your word.''),
      Some (mk_ability SeeingEye ''Seeing Eye'' 5 TargetNone
        ''See one random letter in your opponent's guesses, never a green one. It moves every 30 seconds. Each cast adds another eye.''),
      Some (mk_ability MagicMissile ''Magic Missile'' 6 TargetNone
        ''A missile flies for 15 seconds. If your opponent doesn't guess before it lands, they lose a guess row and 5 energy.''),
      Some (mk_ability Illusion ''Illusion'' 8 TargetNone
        ''Trap your opponent in a 3-letter Wordle they must finish before returning to the duel. If they fail, they lose 5 energy.''),
      Some (mk_ability ReshapeReality ''Reshape Reality'' 12 TargetWord
        ''Pick one of 5 random words: it becomes your opponent's word, and all their guesses are recolored to match.'')],
     cl_Passive = mk_passive Wise ''Wise''
       ''Guesses that find a new green letter move your Seeing Eyes right away.''\<rparr>"

definition rogue_class :: Class where
  "rogue_class = \<lparr>cl_ID = Rogue, cl_Name = ''Rogue'',
     cl_Description = ''A quick, sly trickster.'', cl_Sprite = ''rogue.png'',
     cl_Abilities = [
      Some (mk_ability Pickpocket ''Pickpocket'' 2 TargetOpponentTile
        ''Pick a yellow letter in your opponent's guesses and see what it is.''),
      Some (mk_ability Cheat ''Cheat'' 5 TargetNone
        ''Your next guess doesn't have to be a real word.''),
      Some (mk_ability Feint ''Feint'' 6 TargetColors
        ''Pick the colors your next guess shows your opponent.''),
      Some (mk_ability UnderTheirNose ''Under Their Nose'' 7 TargetColors
        ''Pick the colors your opponent's next guess shows them. They won't know. If they guess the word, they still win.''),
      Some (mk_ability Confuse ''Confuse'' 10 TargetNone
        ''Scramble every letter on your opponent's keyboard for their next 2 guesses.'')],
     cl_Passive = mk_passive Sneaky ''Sneaky''
       ''Guesses that find a new green letter swap two letters on your opponent's keyboard for their next 2 guesses.''\<rparr>"

definition cleric_class :: Class where
  "cleric_class = \<lparr>cl_ID = Cleric, cl_Name = ''Cleric'',
     cl_Description = ''A healer who calls on divine power.'', cl_Sprite = ''cleric.png'',
     cl_Abilities = [
      Some (mk_ability MinorPrayer ''Minor Prayer'' 2 TargetNone
        ''Pray to the gods for a riddle about one letter of your word and where it goes. Whichever god hears you will answer in their own way.''),
      Some (mk_ability Mend ''Mend'' 3 TargetOwnRow
        ''Take back one of your guesses and try again.''),
      Some (mk_ability Purify ''Purify'' 4 TargetNone
        ''Cleanse yourself of every curse: stuns, silence, a scrambled keyboard, missiles, illusions and hidden tricks.''),
      Some (mk_ability MajorPrayer ''Major Prayer'' 6 TargetNone
        ''Pray to the gods for a cryptic riddle about your whole word.''),
      Some (mk_ability DivineIntervention ''Divine Intervention'' 10 TargetNone
        ''Beg the gods to intervene. Something will change. Not even you know what.'')],
     cl_Passive = mk_passive DivineWill ''Divine Will''
       ''Guesses that find a new green letter silence your opponent for 10 seconds: no abilities.''\<rparr>"

definition all_classes :: "Class list" where
  "all_classes = [knight_class, wizard_class, rogue_class, cleric_class]"

lemmas class_table_defs = all_classes_def knight_class_def wizard_class_def rogue_class_def cleric_class_def mk_ability_def mk_passive_def

text \<open>The map \<open>byID\<close>.\<close>

definition byID :: "class_ID \<Rightarrow> Class option" where
  "byID i = map_of (map (\<lambda>c. (cl_ID c, c)) all_classes) i"

section \<open>Lookups\<close>

definition Class_zero :: Class where
  "Class_zero = \<lparr>cl_ID = [], cl_Name = [], cl_Description = [], cl_Sprite = [],
     cl_Abilities = replicate 5 None, cl_Passive = None\<rparr>"

definition Get :: "class_ID \<Rightarrow> Class \<times> bool" where
  "Get i = (case byID i of None \<Rightarrow> (Class_zero, False) | Some c \<Rightarrow> (c, True))"

definition AbilityAt :: "class_ID \<Rightarrow> int \<Rightarrow> Ability option" where
  "AbilityAt i slot =
     (case byID i of
        None \<Rightarrow> None
      | Some c \<Rightarrow> if slot < 0 \<or> slot \<ge> AbilitySlots then None else cl_Abilities c ! nat slot)"

definition PassiveOf :: "class_ID \<Rightarrow> string" where
  "PassiveOf i =
     (case byID i of
        None \<Rightarrow> []
      | Some c \<Rightarrow> (case cl_Passive c of None \<Rightarrow> [] | Some p \<Rightarrow> pa_ID p))"

text \<open>The cost lookup of \<open>internal/game/abilities.go\<close>: \<open>-1\<close> if the class does not have it.\<close>

definition abilityCost :: "class_ID \<Rightarrow> string \<Rightarrow> int" where
  "abilityCost cls i =
     (case find (\<lambda>a. case a of None \<Rightarrow> False | Some a \<Rightarrow> ab_ID a = i)
             (map (\<lambda>slot. AbilityAt cls (int slot)) [0..<nat AbilitySlots]) of
        Some (Some a) \<Rightarrow> ab_Cost a
      | _ \<Rightarrow> -1)"

section \<open>For the client\<close>

definition Icon :: "string \<Rightarrow> string" where
  "Icon i = ''abilities/'' @ i @ ''.png''"

definition AbilityInfo_zero :: AbilityInfo where
  "AbilityInfo_zero = \<lparr>ai_ID = [], ai_Name = [], ai_Description = [], ai_Cost = 0,
     ai_Once = False, ai_Target = TargetNone, ai_Icon = []\<rparr>"

definition ability_info :: "Ability option \<Rightarrow> AbilityInfo" where
  "ability_info a = (case a of
      None \<Rightarrow> AbilityInfo_zero
    | Some a \<Rightarrow> \<lparr>ai_ID = ab_ID a, ai_Name = ab_Name a, ai_Description = ab_Description a,
        ai_Cost = ab_Cost a, ai_Once = ab_Once a, ai_Target = ab_Target a, ai_Icon = Icon (ab_ID a)\<rparr>)"

definition passive_info :: "Passive option \<Rightarrow> PassiveInfo" where
  "passive_info p = (case p of
      None \<Rightarrow> \<lparr>pi_ID = [], pi_Name = [], pi_Description = [], pi_Icon = []\<rparr>
    | Some p \<Rightarrow> \<lparr>pi_ID = pa_ID p, pi_Name = pa_Name p, pi_Description = pa_Description p,
        pi_Icon = Icon (pa_ID p)\<rparr>)"

definition Info :: "Class \<Rightarrow> ClassInfo" where
  "Info c = \<lparr>ci_ID = cl_ID c, ci_Name = cl_Name c, ci_Description = cl_Description c,
     ci_Sprite = cl_Sprite c, ci_Abilities = map ability_info (cl_Abilities c),
     ci_Passive = passive_info (cl_Passive c)\<rparr>"

definition Sprite :: "class_ID \<Rightarrow> string" where
  "Sprite i =
     (case byID i of
        Some c \<Rightarrow> if cl_Sprite c \<noteq> [] then cl_Sprite c else cl_Sprite knight_class
      | None \<Rightarrow> cl_Sprite knight_class)"

definition Infos :: "ClassInfo list" where
  "Infos = map Info all_classes"

section \<open>What the registry holds\<close>

text \<open>The four classes are found by their IDs, and nothing else is.\<close>

lemma class_ids [simp]:
  "cl_ID knight_class = Knight" "cl_ID wizard_class = Wizard"
  "cl_ID rogue_class = Rogue" "cl_ID cleric_class = Cleric"
  by (simp_all add: knight_class_def wizard_class_def rogue_class_def cleric_class_def)

lemma class_IDs_distinct [simp]:
  "Knight \<noteq> Wizard" "Knight \<noteq> Rogue" "Knight \<noteq> Cleric" "Wizard \<noteq> Knight" "Wizard \<noteq> Rogue"
  "Wizard \<noteq> Cleric" "Rogue \<noteq> Knight" "Rogue \<noteq> Wizard" "Rogue \<noteq> Cleric" "Cleric \<noteq> Knight"
  "Cleric \<noteq> Wizard" "Cleric \<noteq> Rogue"
  by (simp_all add: class_id_defs)

lemma byID_simps [simp]:
  "byID Knight = Some knight_class" "byID Wizard = Some wizard_class"
  "byID Rogue = Some rogue_class" "byID Cleric = Some cleric_class"
  by (simp_all add: byID_def all_classes_def)

lemma byID_Some_iff:
  "byID i = Some c \<longleftrightarrow> (i = Knight \<and> c = knight_class) \<or> (i = Wizard \<and> c = wizard_class)
     \<or> (i = Rogue \<and> c = rogue_class) \<or> (i = Cleric \<and> c = cleric_class)"
  by (auto simp: byID_def all_classes_def split: if_splits)

text \<open>One row per ability: the class, the slot, the ID, the cost and the target.\<close>

definition ability_table :: "(class_ID \<times> int \<times> string \<times> int \<times> AbilityTarget) list" where
  "ability_table = [
     (Knight, 0, Slash, 2, TargetOpponentTile), (Knight, 1, ShieldsUp, 2, TargetNone),
     (Knight, 2, Determination, 3, TargetNone), (Knight, 3, PommelStrike, 3, TargetNone),
     (Knight, 4, Cripple, 8, TargetNone),
     (Wizard, 0, Scry, 2, TargetLetter), (Wizard, 1, SeeingEye, 5, TargetNone),
     (Wizard, 2, MagicMissile, 6, TargetNone), (Wizard, 3, Illusion, 8, TargetNone),
     (Wizard, 4, ReshapeReality, 12, TargetWord),
     (Rogue, 0, Pickpocket, 2, TargetOpponentTile), (Rogue, 1, Cheat, 5, TargetNone),
     (Rogue, 2, Feint, 6, TargetColors), (Rogue, 3, UnderTheirNose, 7, TargetColors),
     (Rogue, 4, Confuse, 10, TargetNone),
     (Cleric, 0, MinorPrayer, 2, TargetNone), (Cleric, 1, Mend, 3, TargetOwnRow),
     (Cleric, 2, Purify, 4, TargetNone), (Cleric, 3, MajorPrayer, 6, TargetNone),
     (Cleric, 4, DivineIntervention, 10, TargetNone)]"

lemmas class_defs = knight_class_def wizard_class_def rogue_class_def cleric_class_def

lemma slot_cases: "0 \<le> (s :: int) \<Longrightarrow> s < 5 \<Longrightarrow> s = 0 \<or> s = 1 \<or> s = 2 \<or> s = 3 \<or> s = 4"
  by arith

text \<open>The part of an entry the game reads.\<close>

definition ability_key :: "Ability option \<Rightarrow> (string \<times> int \<times> AbilityTarget \<times> bool) option" where
  "ability_key = map_option (\<lambda>a. (ab_ID a, ab_Cost a, ab_Target a, ab_Once a))"

lemma ability_key_simps [simp]:
  "ability_key (Some (mk_ability i n c t d)) = Some (i, c, t, False)"
  by (simp add: ability_key_def mk_ability_def)

lemma class_keys:
  "map ability_key (cl_Abilities knight_class) =
     [Some (Slash, 2, TargetOpponentTile, False),
      Some (ShieldsUp, 2, TargetNone, False),
      Some (Determination, 3, TargetNone, False),
      Some (PommelStrike, 3, TargetNone, False),
      Some (Cripple, 8, TargetNone, False)]"
  "map ability_key (cl_Abilities wizard_class) =
     [Some (Scry, 2, TargetLetter, False),
      Some (SeeingEye, 5, TargetNone, False),
      Some (MagicMissile, 6, TargetNone, False),
      Some (Illusion, 8, TargetNone, False),
      Some (ReshapeReality, 12, TargetWord, False)]"
  "map ability_key (cl_Abilities rogue_class) =
     [Some (Pickpocket, 2, TargetOpponentTile, False),
      Some (Cheat, 5, TargetNone, False),
      Some (Feint, 6, TargetColors, False),
      Some (UnderTheirNose, 7, TargetColors, False),
      Some (Confuse, 10, TargetNone, False)]"
  "map ability_key (cl_Abilities cleric_class) =
     [Some (MinorPrayer, 2, TargetNone, False),
      Some (Mend, 3, TargetOwnRow, False),
      Some (Purify, 4, TargetNone, False),
      Some (MajorPrayer, 6, TargetNone, False),
      Some (DivineIntervention, 10, TargetNone, False)]"
  by (simp_all add: class_defs)

lemma class_key_nth:
  "k < 5 \<Longrightarrow> ability_key (cl_Abilities knight_class ! k) = map ability_key (cl_Abilities knight_class) ! k"
  "k < 5 \<Longrightarrow> ability_key (cl_Abilities wizard_class ! k) = map ability_key (cl_Abilities wizard_class) ! k"
  "k < 5 \<Longrightarrow> ability_key (cl_Abilities rogue_class ! k) = map ability_key (cl_Abilities rogue_class) ! k"
  "k < 5 \<Longrightarrow> ability_key (cl_Abilities cleric_class ! k) = map ability_key (cl_Abilities cleric_class) ! k"
  by (rule nth_map [symmetric], simp add: class_defs)+

lemma nat_slot_cases: "k < 5 \<Longrightarrow> k = 0 \<or> k = Suc 0 \<or> k = 2 \<or> k = 3 \<or> k = 4"
  by arith

lemma AbilityAt_key:
  assumes "byID cls = Some c" and "k < 5"
  shows "AbilityAt cls (int k) = cl_Abilities c ! k"
  using assms by (simp add: AbilityAt_def AbilitySlots_def)

lemma AbilityAt_range: "AbilityAt cls slot = Some a \<Longrightarrow> 0 \<le> slot \<and> slot < 5"
  by (auto simp: AbilityAt_def AbilitySlots_def split: option.splits if_splits)

lemma AbilityAt_table:
  assumes "AbilityAt cls slot = Some a"
  shows "(cls, slot, ab_ID a, ab_Cost a, ab_Target a) \<in> set ability_table \<and> \<not> ab_Once a"
proof -
  obtain k where k: "slot = int k" "k < 5"
    using AbilityAt_range [OF assms] by (metis nat_0_le nat_less_iff of_nat_numeral zless_nat_eq_int_zless)
  obtain c where c: "byID cls = Some c" using assms by (auto simp: AbilityAt_def split: option.splits)
  have "ability_key (cl_Abilities c ! k) = Some (ab_ID a, ab_Cost a, ab_Target a, ab_Once a)"
    using assms AbilityAt_key [OF c k(2)] by (simp add: k(1) ability_key_def)
  with c nat_slot_cases [OF k(2)] show ?thesis
    unfolding byID_Some_iff
    by (elim disjE conjE) (simp_all add: class_key_nth class_keys ability_table_def k(1))
qed

lemma table_AbilityAt:
  assumes "(cls, slot, i, n, t) \<in> set ability_table"
  shows "\<exists>a. AbilityAt cls slot = Some a \<and> ab_ID a = i \<and> ab_Cost a = n \<and> ab_Target a = t"
proof -
  have "\<exists>k c. slot = int k \<and> k < 5 \<and> byID cls = Some c
      \<and> map ability_key (cl_Abilities c) ! k = Some (i, n, t, False) \<and> length (cl_Abilities c) = 5"
    using assms unfolding ability_table_def
    apply (simp only: set_simps insert_iff empty_iff prod.inject simp_thms)
    apply (elim disjE conjE)
    by (rule exI [of _ "nat slot"], simp add: class_keys, simp add: class_defs)+
  then obtain k c where "slot = int k" "k < 5" "byID cls = Some c"
    "ability_key (cl_Abilities c ! k) = Some (i, n, t, False)" by auto
  then show ?thesis using AbilityAt_key [of cls c k] by (auto simp: ability_key_def)
qed

lemma ability_ids_distinct [simp]: "distinct (map (\<lambda>(_, _, i, _). i) ability_table)"
  by (simp add: ability_table_def ability_id_defs)

lemma table_cost_pos: "(cls, slot, i, n, t) \<in> set ability_table \<Longrightarrow> 0 < n"
  by (auto simp: ability_table_def)

lemma slots_upt: "[0..<nat AbilitySlots] = [0, 1, 2, 3, 4]" "[0..<(5 :: nat)] = [0, 1, 2, 3, 4]"
  by (simp_all add: AbilitySlots_def upt_rec)

text \<open>Two abilities with the same ID are the same row of the table.\<close>

lemma table_unique:
  assumes "(cls, slot, i, n, t) \<in> set ability_table" and "(cls', slot', i, n', t') \<in> set ability_table"
  shows "cls' = cls \<and> slot' = slot \<and> n' = n \<and> t' = t"
proof -
  have "inj_on (\<lambda>(_, _, i, _). i) (set ability_table)"
    using ability_ids_distinct by (simp add: distinct_map)
  then have "(cls, slot, i, n, t) = (cls', slot', i, n', t')"
    by (rule inj_onD) (use assms in auto)
  then show ?thesis by simp
qed

lemma abilityCost_table:
  assumes row: "(cls, slot, i, n, t) \<in> set ability_table"
  shows "abilityCost cls i = n"
proof -
  let ?P = "\<lambda>a. case a of None \<Rightarrow> False | Some a \<Rightarrow> ab_ID a = i"
  let ?xs = "map (\<lambda>slot. AbilityAt cls (int slot)) [0..<nat AbilitySlots]"
  obtain a where a: "AbilityAt cls slot = Some a" "ab_ID a = i"
    using table_AbilityAt [OF row] by blast
  have "0 \<le> slot" "slot < AbilitySlots"
    using a(1) by (auto simp: AbilityAt_def split: option.splits if_splits)
  then have "Some a \<in> set ?xs"
    using a(1) by (auto simp: image_iff intro!: bexI [of _ "nat slot"])
  moreover have "?P (Some a)" using a(2) by simp
  ultimately obtain b where b: "find ?P ?xs = Some b"
    unfolding find_None_iff using find_None_iff [of ?P ?xs] by (metis not_Some_eq)
  then have "?P b" "b \<in> set ?xs" by (auto simp: find_Some_iff)
  then obtain b' s' where b': "b = Some b'" "AbilityAt cls s' = Some b'" "ab_ID b' = i"
    by (auto split: option.splits)
  have "ab_Cost b' = n"
    using table_unique [OF row] AbilityAt_table [OF b'(2)] b'(3) by blast
  then show ?thesis using b b'(1) by (simp add: abilityCost_def)
qed

lemma abilityCost_none:
  assumes "\<forall>slot n t. (cls, slot, i, n, t) \<notin> set ability_table"
  shows "abilityCost cls i = -1"
proof -
  have "find (\<lambda>a. case a of None \<Rightarrow> False | Some a \<Rightarrow> ab_ID a = i)
         (map (\<lambda>slot. AbilityAt cls (int slot)) [0..<nat AbilitySlots]) = None"
    using assms AbilityAt_table by (fastforce simp: find_None_iff split: option.splits)
  then show ?thesis by (simp add: abilityCost_def)
qed

lemma PassiveOf_simps [simp]:
  "PassiveOf Knight = Aggressive" "PassiveOf Wizard = Wise"
  "PassiveOf Rogue = Sneaky" "PassiveOf Cleric = DivineWill"
  by (simp_all add: PassiveOf_def class_defs mk_passive_def)

text \<open>Abilities are found. Every class has an ability in each of the five slots and none elsewhere;
looking an ability's cost up by its name gives the cost of the ability in the slot; it costs something, and
no two slots of any classes hold abilities of one name.\<close>

theorem abilities_are_found:
  assumes "byID cls = Some c"
  shows "case AbilityAt cls slot of
      None \<Rightarrow> slot < 0 \<or> AbilitySlots \<le> slot
    | Some a \<Rightarrow> 0 \<le> slot \<and> slot < AbilitySlots \<and> abilityCost cls (ab_ID a) = ab_Cost a \<and> 0 < ab_Cost a \<and>
        (\<forall>cls' slot' a'. AbilityAt cls' slot' = Some a' \<longrightarrow> ab_ID a' = ab_ID a \<longrightarrow> cls' = cls \<and> slot' = slot)"
proof (cases "AbilityAt cls slot")
  case None
  have "\<exists>i n t. (cls, slot, i, n, t) \<in> set ability_table" if "0 \<le> slot" "slot < 5"
    using assms slot_cases [OF that] unfolding byID_Some_iff ability_table_def by (elim disjE) auto
  then have "slot < 0 \<or> 5 \<le> slot" using table_AbilityAt None by fastforce
  then show ?thesis by (simp add: None AbilitySlots_def)
next
  case (Some a)
  note t = conjunct1 [OF AbilityAt_table [OF Some]]
  have "cls' = cls \<and> slot' = slot" if "AbilityAt cls' slot' = Some a'" "ab_ID a' = ab_ID a" for cls' slot' a'
    using table_unique [OF t] conjunct1 [OF AbilityAt_table [OF that(1), unfolded that(2)]] by blast
  then show ?thesis
    using AbilityAt_range [OF Some] abilityCost_table [OF t] table_cost_pos [OF t]
    by (auto simp: Some AbilitySlots_def)
qed

theorem abilities_are_found_witness:
  "(case AbilityAt Cleric 4 of None \<Rightarrow> False | Some a \<Rightarrow> abilityCost Cleric (ab_ID a) = ab_Cost a \<and> 0 < ab_Cost a)"
proof (cases "AbilityAt Cleric 4")
  case None
  show ?thesis
    using abilities_are_found [OF byID_simps(4), of 4] unfolding None option.case by (simp add: AbilitySlots_def)
next
  case (Some a)
  show ?thesis
    using abilities_are_found [OF byID_simps(4), of 4] unfolding Some option.case by blast
qed

end
