(* ===== verification/Ranked.thy ===== *)
theory Ranked
  imports Protocol
begin

text \<open>
  The ranked ladder: \<open>internal/ranked/elo.go\<close> (ratings and how a duel changes them, in
  \<open>float64\<close> arithmetic as the code computes it on amd64) and \<open>internal/ranked/ladder.go\<close> (the
  ranks elo maps to). \<open>math.Pow\<close> is the one library function taken to be correctly rounded
  without Go promising it. The lemmas show what holds in spite of rounding: the range and the
  monotonicity of the margin multiplier, the sign of every change, that the stakes shown
  before a duel bound its result, and that ratings stay consistent.
\<close>

section \<open>Ratings\<close>

definition StartElo :: int where "StartElo = 1000"
definition K :: real where "K = 32"
definition ProvisionalK :: real where "ProvisionalK = 48"
definition ProvisionalGames :: int where "ProvisionalGames = 10"
definition MinMargin :: real where "MinMargin = 1"
definition MaxMargin :: real where "MaxMargin = 7/4"
definition fastSolveSeconds :: real where "fastSolveSeconds = 180"

record Rating =
  Elo :: int
  Peak :: int
  Games :: int
  Wins :: int
  Losses :: int
  Draws :: int

definition NewRating :: Rating where
  "NewRating = \<lparr>Elo = StartElo, Peak = StartElo, Games = 0, Wins = 0, Losses = 0, Draws = 0\<rparr>"

definition Rating_k :: "Rating \<Rightarrow> real" where
  "Rating_k r = (if Games r < ProvisionalGames then ProvisionalK else K)"

text \<open>How likely a player rated \<open>a\<close> is to beat one rated \<open>b\<close>.\<close>

definition Expected :: "int \<Rightarrow> int \<Rightarrow> real" where
  "Expected a b = fdiv 1 (fadd 1 (pow10 (fdiv (fl64 (of_int (b - a))) 400)))"

text \<open>\<open>clamp\<close> of the package, on floats.\<close>

definition clampf :: "real \<Rightarrow> real \<Rightarrow> real \<Rightarrow> real" where
  "clampf v lo hi = max lo (min hi v)"

section \<open>The margin of a win\<close>

record Margin =
  WinnerGuesses :: int
  WinnerSeconds :: real
  LoserGuesses :: int
  LoserOut :: bool
  LoserBest :: real
  Forfeit :: bool

text \<open>\<open>var margin ranked.Margin\<close>\<close>

definition Margin_zero :: Margin where
  "Margin_zero = \<lparr>WinnerGuesses = 0, WinnerSeconds = 0, LoserGuesses = 0, LoserOut = False,
     LoserBest = 0, Forfeit = False\<rparr>"

definition Multiplier :: "Margin \<Rightarrow> real" where
  "Multiplier m =
    (if Forfeit m then MaxMargin
     else
       let guessEdge = clampf (fdiv (fl64 (of_int (LoserGuesses m - WinnerGuesses m + 1))) 3) 0 1;
           guessEdge = (if LoserOut m then 1 else guessEdge);
           speed = clampf (fsub 1 (fdiv (WinnerSeconds m) fastSolveSeconds)) 0 1;
           mul = fadd (fadd (fadd MinMargin (fmul (fl64 (3/10)) guessEdge))
                             (fmul (fl64 (3/10)) (fsub 1 (clampf (LoserBest m) 0 1))))
                       (fmul (fl64 (15/100)) speed)
       in clampf mul MinMargin MaxMargin)"

text \<open>How close a guess was: greens count fully, yellows half, over the word length. The loop body
  adds one color to the score.\<close>

definition add_color :: "real \<Rightarrow> WordleColor \<Rightarrow> real" where
  "add_color score c =
    (if c = Green then fadd score 1 else if c = Yellow then fadd score (1/2) else score)"

definition Closeness :: "WordleColor list \<Rightarrow> real" where
  "Closeness colors =
    (if colors = [] then 0
     else fdiv (foldl add_color 0 colors) (fl64 (of_nat (length colors))))"

section \<open>Settling a duel\<close>

datatype Outcome = AWins | BWins | Draw

record Result =
  res_A :: Rating
  res_B :: Rating
  DeltaA :: int
  DeltaB :: int
  ExpectedA :: real
  res_Multiplier :: real

text \<open>\<open>ranked.Match\<close> (\<open>service.go\<close>): a settled duel, handed over to be saved.\<close>

record Match =
  mt_PlayedAt :: int
  mt_A :: int
  mt_B :: int
  mt_Outcome :: Outcome
  mt_Reason :: int
  mt_Result :: Result
  mt_AGuesses :: int
  mt_BGuesses :: int
  mt_Seconds :: real

text \<open>The elo change for one side.\<close>

definition change :: "Rating \<Rightarrow> real \<Rightarrow> real \<Rightarrow> bool \<Rightarrow> int" where
  "change r surprise mul decisive =
    (let d = math_Round (fmul (fmul (Rating_k r) mul) surprise) in
     if decisive \<and> d = 0 then (if 0 < surprise then 1 else -1) else d)"

text \<open>\<open>apply\<close>: adds the change, floored so that elo stays at least 0, and counts the game.\<close>

definition apply_change :: "Rating \<Rightarrow> int \<Rightarrow> real \<Rightarrow> Rating \<times> int" where
  "apply_change r delta score =
    (let delta = (if Elo r + delta < 0 then - Elo r else delta);
         r = r\<lparr>Elo := Elo r + delta\<rparr>;
         r = r\<lparr>Peak := max (Peak r) (Elo r)\<rparr>;
         r = r\<lparr>Games := Games r + 1\<rparr>;
         r = (if score = 1 then r\<lparr>Wins := Wins r + 1\<rparr>
              else if score = 0 then r\<lparr>Losses := Losses r + 1\<rparr>
              else r\<lparr>Draws := Draws r + 1\<rparr>)
     in (r, delta))"

fun score_of :: "Outcome \<Rightarrow> real" where
  "score_of AWins = 1"
| "score_of BWins = 0"
| "score_of Draw = 1/2"

definition Settle :: "Rating \<Rightarrow> Rating \<Rightarrow> Outcome \<Rightarrow> Margin \<Rightarrow> Result" where
  "Settle a b outcome m =
    (let E = Expected (Elo a) (Elo b);
         scoreA = score_of outcome;
         mul = (if outcome = Draw then 1 else Multiplier m);
         decisive = (outcome \<noteq> Draw);
         dA = change a (fsub scoreA E) mul decisive;
         dB = change b (fsub (fsub 1 scoreA) (fsub 1 E)) mul decisive;
         (ra, da) = apply_change a dA scoreA;
         (rb, db) = apply_change b dB (fsub 1 scoreA)
     in \<lparr>res_A = ra, res_B = rb, DeltaA = da, DeltaB = db, ExpectedA = E, res_Multiplier = mul\<rparr>)"

text \<open>\<open>ranked.Stakes\<close>: what \<open>me\<close> could win and lose against \<open>them\<close>.\<close>

definition ranked_Stakes :: "Rating \<Rightarrow> Rating \<Rightarrow> Stakes" where
  "ranked_Stakes me them =
    (let e = Expected (Elo me) (Elo them) in
     \<lparr>st_WinMin = change me (fsub 1 e) MinMargin True,
      st_WinMax = change me (fsub 1 e) MaxMargin True,
      st_LoseMin = max (- Elo me) (change me (- e) MinMargin True),
      st_LoseMax = max (- Elo me) (change me (- e) MaxMargin True)\<rparr>)"

section \<open>The ladder\<close>

text \<open>\<open>strconv.Itoa\<close>\<close>

fun digits :: "nat \<Rightarrow> string" where
  "digits n = (if n < 10 then [char_of (48 + n)] else digits (n div 10) @ [char_of (48 + n mod 10)])"

declare digits.simps [simp del]

definition Itoa :: "int \<Rightarrow> string" where
  "Itoa i = (if i < 0 then ''-'' @ digits (nat (- i)) else digits (nat i))"

text \<open>The loop that builds the tiers, one family and division at a time.\<close>

definition add_tier :: "string \<Rightarrow> RankTier list \<Rightarrow> int \<Rightarrow> RankTier list" where
  "add_tier family tiers dv =
     tiers @ [\<lparr>rt_ID = family @ ''-'' @ Itoa dv, rt_Family = family,
       rt_Name = toUpper (take 1 family) @ drop 1 family @ '' '' @ Itoa dv,
       rt_MinElo = 400 + 100 * int (length tiers)\<rparr>]"

definition Ladder :: "RankTier list" where
  "Ladder =
    (let tiers = foldl (\<lambda>tiers family. foldl (add_tier family) tiers [3, 2, 1]) []
           [''iron'', ''bronze'', ''silver'', ''gold'', ''diamond''];
         tiers = tiers[0 := (tiers ! 0)\<lparr>rt_MinElo := 0\<rparr>]
     in tiers @ [\<lparr>rt_ID = ''master'', rt_Family = ''master'', rt_Name = ''Master'',
          rt_MinElo = 400 + 100 * int (length tiers)\<rparr>])"

definition TierFor :: "int \<Rightarrow> RankTier" where
  "TierFor elo = foldl (\<lambda>t tier. if rt_MinElo tier \<le> elo then tier else t) (Ladder ! 0) Ladder"

section \<open>Expected scores\<close>

lemma pow10_nonneg: "0 \<le> pow10 y"
  by (simp add: pow10_def fl64.nonneg)

lemma Expected_unit: "0 \<le> Expected a b \<and> Expected a b \<le> 1"
  unfolding Expected_def fdiv_def [of 1] fadd_def
  by (rule fl64.recip_unit) (rule pow10_nonneg)

lemma one_minus_Expected: "0 \<le> fsub 1 (Expected a b)"
  using Expected_unit [of a b] by (simp add: fsub_def fl64.nonneg)

text \<open>Within 6000 elo of each other, neither score rounds to a certainty.\<close>

lemma elo_exponent:
  assumes "\<bar>d\<bar> \<le> 6000"
  shows "-15 \<le> fdiv (fl64 (of_int d)) 400 \<and> fdiv (fl64 (of_int d)) 400 \<le> 15"
proof -
  have f: "fl64 (of_int d) = of_int d" using assms by (intro fl64.of_int) simp
  have n: "fl64 (of_int (-15)) = -15" "fl64 (of_int 15) = 15"
    by (subst fl64.of_int; simp)+
  have "-15 \<le> (of_int d / 400 :: real)" "(of_int d / 400 :: real) \<le> 15"
    using assms by simp_all
  then show ?thesis
    using fl64_mono [of "-15" "of_int d / 400"] fl64_mono [of "of_int d / 400" 15] n
    by (simp add: fdiv_def f)
qed

lemma pow10_range:
  assumes "-15 \<le> y" and "y \<le> 15"
  shows "1 / 2 ^ 50 \<le> pow10 y \<and> pow10 y \<le> 10 ^ 15"
proof
  have "10 powr -15 \<le> 10 powr y" using assms(1) by simp
  moreover have "10 powr -15 = (1 / 10 ^ 15 :: real)" by (simp add: powr_minus_divide)
  ultimately have "of_int 1 / 2 ^ 50 \<le> 10 powr y" by simp
  then show "1 / 2 ^ 50 \<le> pow10 y"
    unfolding pow10_def using fl64.ge_dyadic [of 1 50 "10 powr y"] by simp
next
  have "10 powr y \<le> 10 powr 15" using assms(2) by (subst powr_le_cancel_iff) simp_all
  moreover have "10 powr 15 = (10 ^ 15 :: real)" by simp
  ultimately have "10 powr y \<le> of_int (10 ^ 15) / 2 ^ 0" by simp
  then show "pow10 y \<le> 10 ^ 15"
    unfolding pow10_def using fl64.le_dyadic [of "10 powr y" "10 ^ 15" 0] by simp
qed

lemma Expected_interior:
  assumes "\<bar>a - b\<bar> \<le> 6000"
  shows "1 / 2 ^ 50 \<le> Expected a b \<and> Expected a b \<le> 1 - 1 / 2 ^ 51"
proof -
  define p where "p = pow10 (fdiv (fl64 (of_int (b - a))) 400)"
  define s where "s = fadd 1 p"
  have p: "1 / 2 ^ 50 \<le> p" "p \<le> 10 ^ 15"
    using pow10_range elo_exponent [of "b - a"] assms by (simp_all add: p_def)
  have "of_int (2 ^ 50 + 1) / 2 ^ 50 \<le> 1 + p" using p(1) by simp
  then have s1: "1 + 1 / 2 ^ 50 \<le> s"
    unfolding s_def fadd_def using fl64.ge_dyadic [of "2 ^ 50 + 1" 50 "1 + p"] by simp
  have "1 + p \<le> of_int (10 ^ 15 + 1) / 2 ^ 0" using p(2) by simp
  then have s2: "s \<le> 10 ^ 15 + 1"
    unfolding s_def fadd_def using fl64.le_dyadic [of "1 + p" "10 ^ 15 + 1" 0] by simp
  have "1 / s \<le> 1 / (1 + 1 / 2 ^ 50)" using s1 by (intro divide_left_mono) auto
  also have "\<dots> \<le> of_int (2 ^ 51 - 1) / 2 ^ 51" by simp
  finally have hi: "1 / s \<le> of_int (2 ^ 51 - 1) / 2 ^ 51" .
  have "(1 :: real) / 2 ^ 50 \<le> 1 / (10 ^ 15 + 1)" by simp
  also have "\<dots> \<le> 1 / s" using s1 s2 by (intro divide_left_mono mult_pos_pos) auto
  finally have lo: "of_int 1 / 2 ^ 50 \<le> 1 / s" by simp
  have E: "Expected a b = fl64 (1 / s)" by (simp add: Expected_def fdiv_def s_def p_def)
  show ?thesis
    unfolding E using fl64.le_dyadic [OF hi] fl64.ge_dyadic [OF lo] by simp
qed

section \<open>The margin\<close>

lemma clampf_mono: "v \<le> v' \<Longrightarrow> clampf v lo hi \<le> clampf v' lo hi"
  by (simp add: clampf_def)

lemma clampf_range: "lo \<le> hi \<Longrightarrow> lo \<le> clampf v lo hi \<and> clampf v lo hi \<le> hi"
  by (simp add: clampf_def)

lemma Multiplier_range: "MinMargin \<le> Multiplier m \<and> Multiplier m \<le> MaxMargin"
  using clampf_range [of MinMargin MaxMargin]
  by (simp add: Multiplier_def Let_def MinMargin_def MaxMargin_def)

lemma fl_arith_mono:
  "x \<le> x' \<Longrightarrow> y \<le> y' \<Longrightarrow> fadd x y \<le> fadd x' y'"
  "x \<le> x' \<Longrightarrow> y' \<le> y \<Longrightarrow> fsub x y \<le> fsub x' y'"
  "x \<le> x' \<Longrightarrow> 0 \<le> c \<Longrightarrow> fmul c x \<le> fmul c x'"
  "x \<le> x' \<Longrightarrow> 0 < c \<Longrightarrow> fdiv x c \<le> fdiv x' c"
  by (simp_all add: fadd_def fsub_def fmul_def fdiv_def fl64_mono mult_left_mono divide_right_mono)

lemma Multiplier_mono:
  assumes "\<not> Forfeit m" and "WinnerGuesses m' \<le> WinnerGuesses m"
    and "WinnerSeconds m' \<le> WinnerSeconds m" and "LoserGuesses m \<le> LoserGuesses m'"
    and "LoserOut m \<longrightarrow> LoserOut m'" and "LoserBest m' \<le> LoserBest m"
  shows "Multiplier m \<le> Multiplier m'"
proof (cases "Forfeit m'")
  case True
  then show ?thesis using Multiplier_range [of m] by (simp add: Multiplier_def)
next
  case False
  define e where "e m = clampf (fdiv (fl64 (of_int (LoserGuesses m - WinnerGuesses m + 1))) 3) 0 1" for m :: Margin
  have e: "e m \<le> e m'" "e m \<le> 1"
    using assms(2,4) clampf_range [of 0 1]
    by (auto simp: e_def intro!: clampf_mono fl_arith_mono fl64_mono)
  have g: "(if LoserOut m then 1 else e m) \<le> (if LoserOut m' then 1 else e m')"
    using e assms(5) by auto
  have c: "0 \<le> fl64 (3/10)" "0 \<le> fl64 (15/100)" by (simp_all add: fl64.nonneg)
  show ?thesis
    using assms(1) False assms(3,6)
    unfolding Multiplier_def Let_def e_def [symmetric] if_not_P [OF assms(1)] if_not_P [OF False]
    by (intro clampf_mono fl_arith_mono g c order_refl) (simp_all add: fastSolveSeconds_def)
qed

section \<open>The change of one side\<close>

lemma Rating_k_nonneg: "0 \<le> Rating_k r"
  by (simp add: Rating_k_def ProvisionalK_def K_def)

lemma fmul_nonneg: "0 \<le> x \<Longrightarrow> 0 \<le> y \<Longrightarrow> 0 \<le> fmul x y"
  by (simp add: fmul_def fl64.nonneg)

lemma fmul_minus_right: "fmul x (- y) = - fmul x y"
  by (simp add: fmul_def fl64_minus)

lemma change_pos:
  assumes "0 < surprise" and "0 \<le> mul"
  shows "1 \<le> change r surprise mul True"
proof -
  have "0 \<le> math_Round (fmul (fmul (Rating_k r) mul) surprise)"
    using assms by (intro math_Round_nonneg fmul_nonneg Rating_k_nonneg) auto
  then show ?thesis using assms by (simp add: change_def Let_def)
qed

lemma change_minus: "surprise \<noteq> 0 \<Longrightarrow> change r (- surprise) mul d = - change r surprise mul d"
  by (simp add: change_def Let_def fmul_minus_right math_Round_minus)

lemma change_zero: "change r 0 mul True = -1"
  by (simp add: change_def fmul_def math_Round_def)

lemma change_neg:
  assumes "surprise \<le> 0" and "0 \<le> mul"
  shows "change r surprise mul True \<le> -1"
proof (cases "surprise = 0")
  case False
  then show ?thesis using change_pos [of "- surprise" mul r] change_minus [of "- surprise"] assms by simp
qed (simp add: change_zero)

lemma change_mono_pos:
  assumes "0 < surprise" and "0 \<le> mul" and "mul \<le> mul'"
  shows "change r surprise mul True \<le> change r surprise mul' True"
proof -
  have "fmul (Rating_k r) mul \<le> fmul (Rating_k r) mul'"
    using assms Rating_k_nonneg by (intro fl_arith_mono)
  then have "fmul (fmul (Rating_k r) mul) surprise \<le> fmul (fmul (Rating_k r) mul') surprise"
    using assms by (simp add: fmul_def fl64_mono mult_right_mono)
  then have r: "math_Round (fmul (fmul (Rating_k r) mul) surprise)
      \<le> math_Round (fmul (fmul (Rating_k r) mul') surprise)"
    by (rule math_Round_mono)
  have "0 \<le> math_Round (fmul (fmul (Rating_k r) mul) surprise)"
    using assms by (intro math_Round_nonneg fmul_nonneg Rating_k_nonneg) auto
  then show ?thesis using r assms(1) by (auto simp: change_def Let_def)
qed

lemma change_mono_neg:
  assumes "surprise \<le> 0" and "0 \<le> mul" and "mul \<le> mul'"
  shows "change r surprise mul' True \<le> change r surprise mul True"
proof (cases "surprise = 0")
  case False
  then show ?thesis
    using change_mono_pos [of "- surprise" mul mul' r] assms
      change_minus [of "- surprise" r mul True] change_minus [of "- surprise" r mul' True] by simp
qed (simp add: change_zero)

section \<open>Settling\<close>

lemma fsub_simps [simp]: "fsub 0 x = - fl64 x" "fsub 1 1 = 0" "fsub 1 0 = 1" "fsub 1 (1/2) = 1/2"
  using fl64.dyadic [of 1 1] by (simp_all add: fsub_def fl64_minus fl64.one)

lemma fl64_arith [simp]: "fl64 (fadd x y) = fadd x y" "fl64 (fsub x y) = fsub x y"
    "fl64 (fmul x y) = fmul x y" "fl64 (fdiv x y) = fdiv x y" "fl64 (Expected a b) = Expected a b"
  by (simp_all add: fadd_def fsub_def fmul_def fdiv_def Expected_def)

text \<open>What \<open>apply\<close> does: the floor, the peak, and one more game of the right kind.\<close>

definition rating_ok :: "Rating \<Rightarrow> bool" where
  "rating_ok r \<longleftrightarrow> 0 \<le> Elo r \<and> Elo r \<le> Peak r \<and> 0 \<le> Wins r \<and> 0 \<le> Losses r \<and> 0 \<le> Draws r \<and>
     Games r = Wins r + Losses r + Draws r"

lemma apply_change_simps [simp]:
  "snd (apply_change r d s) = max (- Elo r) d"
  "Elo (fst (apply_change r d s)) = max 0 (Elo r + d)"
  "Peak (fst (apply_change r d s)) = max (Peak r) (max 0 (Elo r + d))"
  "Games (fst (apply_change r d s)) = Games r + 1"
  "Wins (fst (apply_change r d s)) = (if s = 1 then Wins r + 1 else Wins r)"
  "Losses (fst (apply_change r d s)) = (if s = 0 then Losses r + 1 else Losses r)"
  "Draws (fst (apply_change r d s)) = (if s = 1 \<or> s = 0 then Draws r else Draws r + 1)"
  by (auto simp: apply_change_def Let_def)

lemma apply_change_ok: "rating_ok r \<Longrightarrow> rating_ok (fst (apply_change r d s))"
  by (auto simp: rating_ok_def)

lemma Settle_simps:
  "res_A (Settle a b out m) = fst (apply_change a
     (change a (fsub (score_of out) (Expected (Elo a) (Elo b)))
        (if out = Draw then 1 else Multiplier m) (out \<noteq> Draw)) (score_of out))"
  "res_B (Settle a b out m) = fst (apply_change b
     (change b (fsub (fsub 1 (score_of out)) (fsub 1 (Expected (Elo a) (Elo b))))
        (if out = Draw then 1 else Multiplier m) (out \<noteq> Draw)) (fsub 1 (score_of out)))"
  "DeltaA (Settle a b out m) = max (- Elo a)
     (change a (fsub (score_of out) (Expected (Elo a) (Elo b)))
        (if out = Draw then 1 else Multiplier m) (out \<noteq> Draw))"
  "DeltaB (Settle a b out m) = max (- Elo b)
     (change b (fsub (fsub 1 (score_of out)) (fsub 1 (Expected (Elo a) (Elo b))))
        (if out = Draw then 1 else Multiplier m) (out \<noteq> Draw))"
  "ExpectedA (Settle a b out m) = Expected (Elo a) (Elo b)"
  "res_Multiplier (Settle a b out m) = (if out = Draw then 1 else Multiplier m)"
  by (simp_all add: Settle_def Let_def split_def)

lemma Multiplier_nonneg: "0 \<le> Multiplier m"
  using Multiplier_range [of m] by (simp add: MinMargin_def)

lemma fsub_pos_dyadic: "of_int k / 2 ^ n \<le> x - y \<Longrightarrow> 0 < k \<Longrightarrow> k < 2 ^ 53 \<Longrightarrow> 0 < fsub x y"
  using fl64.ge_dyadic [of k n "x - y"] unfolding fsub_def
  by (smt (verit, best) divide_pos_pos of_int_0_less_iff zero_less_power)

lemma winner_surprise:
  assumes "\<bar>a - b\<bar> \<le> 6000"
  shows "0 < fsub 1 (Expected a b)" and "0 < fsub 1 (fsub 1 (Expected a b))"
proof -
  note E = Expected_interior [OF assms]
  show "0 < fsub 1 (Expected a b)"
    using E by (intro fsub_pos_dyadic [of 1 51]) simp_all
  have "1 - Expected a b \<le> of_int (2 ^ 50 - 1) / 2 ^ 50" using E by (simp add: field_simps)
  then have "fsub 1 (Expected a b) \<le> of_int (2 ^ 50 - 1) / 2 ^ 50"
    unfolding fsub_def by (rule fl64.le_dyadic) simp
  then show "0 < fsub 1 (fsub 1 (Expected a b))"
    by (intro fsub_pos_dyadic [of 1 50]) (simp_all add: field_simps)
qed

lemma change_bound:
  assumes "\<bar>surprise\<bar> \<le> 1" and "0 \<le> mul" and "mul \<le> 7/4"
  shows "\<bar>change r surprise mul d\<bar> \<le> 84"
proof -
  have n: "fl64 84 = 84" by (rule fl64.numeral) simp
  have "Rating_k r * mul \<le> 48 * (7/4)"
    using assms Rating_k_nonneg [of r]
    by (intro mult_mono) (simp_all add: Rating_k_def K_def ProvisionalK_def)
  then have "fmul (Rating_k r) mul \<le> 84"
    using fl64_mono [of "Rating_k r * mul" 84] n by (simp add: fmul_def)
  moreover have "0 \<le> fmul (Rating_k r) mul" using assms Rating_k_nonneg by (intro fmul_nonneg)
  ultimately have "\<bar>fmul (Rating_k r) mul * surprise\<bar> \<le> 84 * 1"
    unfolding abs_mult using assms(1) by (intro mult_mono) simp_all
  then have "fmul (fmul (Rating_k r) mul) surprise \<le> 84" "- 84 \<le> fmul (fmul (Rating_k r) mul) surprise"
    using fl64_mono [of "fmul (Rating_k r) mul * surprise" 84]
      fl64_mono [of "- 84" "fmul (Rating_k r) mul * surprise"] n fl64_minus [of 84]
    by (auto simp: fmul_def [of "fmul (Rating_k r) mul"])
  then have "math_Round (fmul (fmul (Rating_k r) mul) surprise) \<le> 84"
    "- 84 \<le> math_Round (fmul (fmul (Rating_k r) mul) surprise)"
    using math_Round_mono [of "fmul (fmul (Rating_k r) mul) surprise" "of_int 84"]
      math_Round_mono [of "of_int (- 84)" "fmul (fmul (Rating_k r) mul) surprise"] math_Round_of_int [of 84]
      math_Round_of_int [of "- 84"] by simp_all
  then show ?thesis by (auto simp: change_def Let_def)
qed

lemma fsub_unit:
  assumes "-1 \<le> x - y" and "x - y \<le> 1"
  shows "\<bar>fsub x y\<bar> \<le> 1"
  using fl64_mono [OF assms(1)] fl64_mono [OF assms(2)]
  by (simp add: fsub_def fl64.one fl64_minus)

lemma score_of_unit: "0 \<le> score_of out" "score_of out \<le> 1"
  by (cases out; simp)+

lemma settle_surprise_unit:
  "\<bar>fsub (score_of out) (Expected a b)\<bar> \<le> 1"
  "\<bar>fsub (fsub 1 (score_of out)) (fsub 1 (Expected a b))\<bar> \<le> 1"
proof -
  note E = Expected_unit [of a b] and S = score_of_unit [of out]
  show "\<bar>fsub (score_of out) (Expected a b)\<bar> \<le> 1"
    using E S by (intro fsub_unit) auto
  have "\<bar>fsub 1 (Expected a b)\<bar> \<le> 1" using E by (intro fsub_unit) simp_all
  moreover have "0 \<le> fsub 1 (Expected a b)" by (rule one_minus_Expected)
  moreover have "\<bar>fsub 1 (score_of out)\<bar> \<le> 1" "0 \<le> fsub 1 (score_of out)"
    by (cases out; simp)+
  ultimately show "\<bar>fsub (fsub 1 (score_of out)) (fsub 1 (Expected a b))\<bar> \<le> 1"
    by (intro fsub_unit) auto
qed

lemma Settle_change_bound:
  "\<bar>change r (fsub (score_of out) (Expected a b)) (if out = Draw then 1 else Multiplier m) d\<bar> \<le> 84"
  "\<bar>change r (fsub (fsub 1 (score_of out)) (fsub 1 (Expected a b)))
     (if out = Draw then 1 else Multiplier m) d\<bar> \<le> 84"
proof -
  have M: "0 \<le> (if out = Draw then 1 else Multiplier m)" "(if out = Draw then 1 else Multiplier m) \<le> 7/4"
    using Multiplier_range [of m] by (simp_all add: MinMargin_def MaxMargin_def)
  show "\<bar>change r (fsub (score_of out) (Expected a b)) (if out = Draw then 1 else Multiplier m) d\<bar> \<le> 84"
    "\<bar>change r (fsub (fsub 1 (score_of out)) (fsub 1 (Expected a b)))
      (if out = Draw then 1 else Multiplier m) d\<bar> \<le> 84"
    using settle_surprise_unit M by (blast intro: change_bound)+
qed

text \<open>At 6400 elo apart the favourite's score rounds to a certainty.\<close>

lemma fl64_one_plus_tiny:
  assumes "0 \<le> x" and "x \<le> 1 / 2 ^ 53"
  shows "fl64 (1 + x) = 1"
proof -
  have u: "ulp_exp (1 + x) = -52"
    using ulp_exp_eqI [of 0 "1 + x"] assms by (simp add: power_one_over)
  have "(1 + x) / 2 powr of_int (-52) = 2 ^ 52 + x * 2 ^ 52"
    by (simp add: powr_minus_divide algebra_simps)
  moreover have "x * 2 ^ 52 \<le> 1 / 2" using assms(2) by simp
  moreover have "\<lfloor>2 ^ 52 + x * 2 ^ 52\<rfloor> = 2 ^ 52"
    using assms by (simp add: floor_eq_iff)
  ultimately have "rne ((1 + x) / 2 powr of_int (-52)) = 2 ^ 52"
    using assms(1) by (simp add: rne_def)
  then show ?thesis using assms(1) by (simp add: fl64_def u powr_minus_divide)
qed

lemma Expected_certain:
  assumes "6400 \<le> a - b" and "a - b < 2 ^ 53"
  shows "Expected a b = 1"
proof -
  have f: "fl64 (of_int (b - a)) = of_int (b - a)" using assms by (intro fl64.of_int) simp
  have "of_int (b - a) / 400 \<le> (of_int (-16) / 2 ^ 0 :: real)" using assms by simp
  then have "fdiv (fl64 (of_int (b - a))) 400 \<le> -16"
    unfolding f fdiv_def using fl64.le_dyadic [of "of_int (b - a) / 400" "-16" 0] by simp
  then have "10 powr fdiv (fl64 (of_int (b - a))) 400 \<le> 10 powr -16"
    by (subst powr_le_cancel_iff) simp_all
  also have "\<dots> \<le> of_int 1 / 2 ^ 53" by (simp add: powr_minus_divide)
  finally have "pow10 (fdiv (fl64 (of_int (b - a))) 400) \<le> 1 / 2 ^ 53"
    unfolding pow10_def using fl64.le_dyadic [of _ 1 53] by simp
  then show ?thesis
    unfolding Expected_def fadd_def using fl64_one_plus_tiny [OF pow10_nonneg]
    by (simp add: fdiv_def fl64.one)
qed

section \<open>Properties\<close>

text \<open>Whatever happened in a ranked duel, settling it keeps both ratings consistent: elo is
  never negative, the peak is at least the elo, and games are wins plus losses plus draws. The
  reported change is exactly the difference of the elo after and before, and each side's win,
  loss or draw counter moves with the outcome.\<close>

theorem Settle_keeps_ratings:
  assumes "rating_ok a" and "rating_ok b"
  shows "rating_ok (res_A (Settle a b out m)) \<and> rating_ok (res_B (Settle a b out m)) \<and>
    Elo (res_A (Settle a b out m)) = Elo a + DeltaA (Settle a b out m) \<and>
    Elo (res_B (Settle a b out m)) = Elo b + DeltaB (Settle a b out m) \<and>
    Wins (res_A (Settle a b out m)) - Wins a = (if out = AWins then 1 else 0) \<and>
    Wins (res_B (Settle a b out m)) - Wins b = (if out = BWins then 1 else 0) \<and>
    Losses (res_A (Settle a b out m)) - Losses a = (if out = BWins then 1 else 0) \<and>
    Losses (res_B (Settle a b out m)) - Losses b = (if out = AWins then 1 else 0)"
  using assms by (cases out) (simp_all add: Settle_simps apply_change_ok max_def)

theorem Settle_keeps_ratings_witness:
  "rating_ok (res_A (Settle NewRating NewRating AWins Margin_zero))"
  using Settle_keeps_ratings [of NewRating NewRating AWins Margin_zero]
  by (simp add: rating_ok_def NewRating_def StartElo_def)

text \<open>Between players at most 6000 elo apart, the winner of a duel gains at least 1 elo and
  the loser, unless already at 0, loses at least 1, in spite of all rounding.\<close>

theorem Settle_decisive:
  assumes "\<bar>Elo a - Elo b\<bar> \<le> 6000" and "0 \<le> Elo a" and "0 \<le> Elo b"
  shows "1 \<le> DeltaA (Settle a b AWins m) \<and> DeltaB (Settle a b AWins m) \<le> max (- Elo b) (-1) \<and>
    1 \<le> DeltaB (Settle a b BWins m) \<and> DeltaA (Settle a b BWins m) \<le> max (- Elo a) (-1)"
proof -
  note w = winner_surprise [OF assms(1)] and e = Expected_unit [of "Elo a" "Elo b"]
  note M = Multiplier_nonneg [of m]
  show ?thesis
    using change_pos [OF w(1) M, of a] change_pos [OF w(2) M, of b]
      change_neg [of "- fsub 1 (Expected (Elo a) (Elo b))" "Multiplier m" b]
      change_neg [of "- Expected (Elo a) (Elo b)" "Multiplier m" a] w e M
    by (auto simp: Settle_simps)
qed

theorem Settle_decisive_witness: "1 \<le> DeltaA (Settle NewRating NewRating AWins Margin_zero)"
  using Settle_decisive [of NewRating NewRating Margin_zero]
  by (simp add: NewRating_def StartElo_def)

text \<open>C40: From 6400 elo apart the favourite's expected score rounds to 1, and the rule that a
  decisive result moves at least 1 takes that 1 from the winner: beating someone 6400 elo below
  costs the winner exactly one elo.\<close>

theorem Settle_certain_win_loses:
  assumes "6400 \<le> Elo a - Elo b" and "Elo a - Elo b < 2 ^ 53" and "0 \<le> Elo b"
  shows "DeltaA (Settle a b AWins m) = -1"
  using assms by (simp add: Settle_simps Expected_certain change_zero)

theorem Settle_certain_win_loses_witness:
  "DeltaA (Settle (NewRating\<lparr>Elo := 6400\<rparr>) (NewRating\<lparr>Elo := 0\<rparr>) AWins Margin_zero) = -1"
  by (rule Settle_certain_win_loses) simp_all

text \<open>C38: One duel never moves a rating by more than 84 elo (48 times the largest margin), and
  between two players with the same K whose gap is at most 6000, when A wins and B has the 84
  elo to lose, the exchange is exactly zero-sum.\<close>

theorem Settle_bounded_zero_sum:
  assumes "rating_ok a" and "rating_ok b"
  shows "\<bar>DeltaA (Settle a b out m)\<bar> \<le> 84 \<and> \<bar>DeltaB (Settle a b out m)\<bar> \<le> 84 \<and>
    (Rating_k a = Rating_k b \<and> \<bar>Elo a - Elo b\<bar> \<le> 6000 \<and> 84 \<le> Elo b \<and> out = AWins \<longrightarrow>
      DeltaA (Settle a b out m) + DeltaB (Settle a b out m) = 0)"
proof (intro conjI impI)
  show "\<bar>DeltaA (Settle a b out m)\<bar> \<le> 84" "\<bar>DeltaB (Settle a b out m)\<bar> \<le> 84"
    using Settle_change_bound(1) [of a out "Elo a" "Elo b" m "out \<noteq> Draw"]
      Settle_change_bound(2) [of b out "Elo a" "Elo b" m "out \<noteq> Draw"] assms
    unfolding Settle_simps rating_ok_def by linarith+
next
  assume h: "Rating_k a = Rating_k b \<and> \<bar>Elo a - Elo b\<bar> \<le> 6000 \<and> 84 \<le> Elo b \<and> out = AWins"
  let ?x = "fsub 1 (Expected (Elo a) (Elo b))"
  have w: "0 < ?x" using winner_surprise [of "Elo a" "Elo b"] h by simp
  have k: "change b ?x (Multiplier m) True = change a ?x (Multiplier m) True"
    using h by (simp add: change_def)
  have "change b (- ?x) (Multiplier m) True = - change a ?x (Multiplier m) True"
    using w k change_minus [of ?x b "Multiplier m" True] by simp
  moreover have "1 \<le> change a ?x (Multiplier m) True" using w Multiplier_nonneg by (rule change_pos)
  moreover have "\<bar>change a ?x (Multiplier m) True\<bar> \<le> 84"
    using Settle_change_bound(1) [of a AWins "Elo a" "Elo b" m True] by simp
  ultimately show "DeltaA (Settle a b out m) + DeltaB (Settle a b out m) = 0"
    using h assms(1) by (simp add: Settle_simps rating_ok_def)
qed

theorem Settle_bounded_zero_sum_witness:
  "DeltaA (Settle NewRating NewRating AWins Margin_zero) +
   DeltaB (Settle NewRating NewRating AWins Margin_zero) = 0"
  using Settle_bounded_zero_sum [of NewRating NewRating AWins Margin_zero]
  by (simp add: rating_ok_def NewRating_def StartElo_def)

text \<open>The margin multiplier of a win lies between 1 and 1.75 and never decreases when the win
  is more decisive: fewer guesses or less time for the winner, more guesses, all of them used,
  or a worse best guess for the loser; a forfeit is always the largest.\<close>

theorem Multiplier_decisive:
  assumes "WinnerGuesses m' \<le> WinnerGuesses m" and "WinnerSeconds m' \<le> WinnerSeconds m"
    and "LoserGuesses m \<le> LoserGuesses m'" and "LoserBest m' \<le> LoserBest m"
    and "LoserOut m \<longrightarrow> LoserOut m'" and "Forfeit m \<longrightarrow> Forfeit m'"
  shows "1 \<le> Multiplier m \<and> Multiplier m \<le> Multiplier m' \<and> Multiplier m' \<le> 7/4"
proof (cases "Forfeit m")
  case True
  then show ?thesis using assms(6) by (simp add: Multiplier_def MaxMargin_def)
next
  case False
  then show ?thesis
    using Multiplier_mono [of m m'] assms Multiplier_range [of m] Multiplier_range [of m']
    by (simp add: MinMargin_def MaxMargin_def)
qed

theorem Multiplier_decisive_witness:
  "Multiplier Margin_zero \<le> Multiplier (Margin_zero\<lparr>LoserOut := True\<rparr>)"
  using Multiplier_decisive [of "Margin_zero\<lparr>LoserOut := True\<rparr>" Margin_zero] by simp

text \<open>The stakes shown to a player bound what a duel does to them as the challenger, whatever
  its margin: a win gives between \<open>WinMin\<close> and \<open>WinMax\<close>, a loss takes between \<open>LoseMin\<close> and
  \<open>LoseMax\<close> (negative, after the floor at 0).\<close>

theorem Stakes_bound_Settle:
  assumes "\<bar>Elo me - Elo them\<bar> \<le> 6000" and "0 \<le> Elo me"
  shows "st_WinMin (ranked_Stakes me them) \<le> DeltaA (Settle me them AWins m) \<and>
    DeltaA (Settle me them AWins m) \<le> st_WinMax (ranked_Stakes me them) \<and>
    st_LoseMax (ranked_Stakes me them) \<le> DeltaA (Settle me them BWins m) \<and>
    DeltaA (Settle me them BWins m) \<le> st_LoseMin (ranked_Stakes me them)"
proof -
  let ?E = "Expected (Elo me) (Elo them)"
  have M: "0 \<le> MinMargin" "MinMargin \<le> Multiplier m" "Multiplier m \<le> MaxMargin"
    using Multiplier_range [of m] by (simp_all add: MinMargin_def)
  have w: "0 < fsub 1 ?E" using winner_surprise [OF assms(1)] by simp
  have l: "- ?E \<le> 0" using Expected_unit [of "Elo me" "Elo them"] by simp
  have "1 \<le> change me (fsub 1 ?E) (Multiplier m) True"
    using w M by (intro change_pos) simp_all
  then show ?thesis
    using change_mono_pos [OF w M(1,2), of me] change_mono_pos [OF w _ M(3), of me]
      change_mono_neg [OF l M(1,2), of me] change_mono_neg [OF l _ M(3), of me] M assms(2)
    by (auto simp: Settle_simps ranked_Stakes_def Let_def)
qed

theorem Stakes_bound_Settle_witness:
  "st_WinMin (ranked_Stakes NewRating NewRating) \<le> DeltaA (Settle NewRating NewRating AWins Margin_zero)"
  using Stakes_bound_Settle [of NewRating NewRating Margin_zero]
  by (simp add: NewRating_def StartElo_def)

lemma Ladder_length: "length Ladder = 16"
  by (simp add: Ladder_def add_tier_def Let_def)

lemma Ladder_MinElo: "map rt_MinElo Ladder =
    [0, 500, 600, 700, 800, 900, 1000, 1100, 1200, 1300, 1400, 1500, 1600, 1700, 1800, 1900]"
  by (simp add: Ladder_def add_tier_def Let_def)

lemma Ladder_nth_MinElo:
  assumes "i < 16"
  shows "rt_MinElo (Ladder ! i) = (if i = 0 then 0 else 400 + 100 * int i)"
proof -
  have "rt_MinElo (Ladder ! i) = map rt_MinElo Ladder ! i"
    using assms by (simp add: Ladder_length)
  also have "\<dots> = (if i = 0 then 0 else 400 + 100 * int i)"
    unfolding Ladder_MinElo using assms by (simp add: less_Suc_eq numeral_eq_Suc) auto
  finally show ?thesis .
qed

lemma foldl_last_satisfying:
  "foldl (\<lambda>t x. if P x then x else t) t xs = (if filter P xs = [] then t else last (filter P xs))"
  by (induction xs arbitrary: t) auto

text \<open>An elo of at least 0 is ranked in the highest tier it reaches: the tier starts at or
  below it and every later tier of the ladder starts above it. Each division is 100 elo wide,
  so the tier is found at position \<open>elo / 100 - 4\<close>, from iron 3 for everything below 500 to
  master for everything from 1900.\<close>

theorem TierFor_highest:
  assumes "0 \<le> elo"
  shows "\<exists>i < length Ladder. TierFor elo = Ladder ! i \<and> rt_MinElo (Ladder ! i) \<le> elo \<and>
    (\<forall>j. i < j \<and> j < length Ladder \<longrightarrow> elo < rt_MinElo (Ladder ! j)) \<and>
    i = nat (min 15 (max 0 (elo div 100 - 4)))"
proof -
  define i where "i = nat (min 15 (max 0 (elo div 100 - 4)))"
  have i: "i < 16" by (simp add: i_def)
  let ?P = "\<lambda>t. rt_MinElo t \<le> elo"
  have le: "rt_MinElo (Ladder ! i) \<le> elo"
    using assms i by (simp add: Ladder_nth_MinElo) (auto simp: i_def min_def max_def split: if_splits)
  have gt: "elo < rt_MinElo (Ladder ! j)" if "i < j" "j < 16" for j
    using that by (simp add: Ladder_nth_MinElo) (auto simp: i_def min_def max_def split: if_splits)
  have "Ladder = take i Ladder @ Ladder ! i # drop (Suc i) Ladder"
    using i by (simp add: id_take_nth_drop [symmetric] Ladder_length)
  moreover have "filter ?P (drop (Suc i) Ladder) = []"
    using gt by (auto simp: filter_empty_conv in_set_conv_nth Ladder_length not_le)
  ultimately have "filter ?P Ladder = filter ?P (take i Ladder) @ [Ladder ! i]"
    using le by (metis append_Nil2 filter.simps(2) filter_append)
  then have "TierFor elo = Ladder ! i" by (simp add: TierFor_def foldl_last_satisfying)
  then show ?thesis using i le gt by (auto simp: Ladder_length i_def)
qed

theorem TierFor_highest_witness: "TierFor 1050 = Ladder ! 6"
  using TierFor_highest [of 1050] by (simp add: Ladder_length)

end
