(* ===== verification/World_State.thy ===== *)
theory World_State
  imports Duel_Puzzle Classes Ranked
begin

text \<open>
  The state of \<open>internal/game\<close>: the structs of \<open>world.go\<close>, \<open>duel.go\<close>, \<open>abilities.go\<close>,
  \<open>movement.go\<close> and \<open>grid.go\<close> as records, and the store they live in.

  Pointers are addresses into total stores of the world (\<open>w_pobj\<close>, \<open>w_eobj\<close>, \<open>w_dobj\<close>), so two
  players pointing at one duel share it as they do in Go. A pointer to a side of a duel is the
  duel's address and which side it is; a Seeing Eye is identified by its index in its list. Go maps
  are association lists; their order is the order of one iteration. Everything runs on the world
  goroutine: a handler is a function on the world, and \<open>send\<close> appends to the outbox \<open>w_out\<close>. The clock
  \<open>w_now\<close> stands still during one command.
\<close>

section \<open>Sides of a duel\<close>

type_synonym tile = "int \<times> int"

record eye =
  eye_at :: tile
  eye_on :: bool
  eye_next :: gotime

text \<open>\<open>&eye{}\<close>\<close>

definition new_eye :: eye where
  "new_eye = \<lparr>eye_at = (0, 0), eye_on = False, eye_next = 0\<rparr>"

record illusionGame =
  ill_word :: string
  ill_guesses :: int

record guessRow =
  gr_word :: string
  gr_colors :: "WordleColor list"
  gr_seen :: "WordleColor list"
  gr_shown :: "WordleColor list"

definition newGuessRow :: "string \<Rightarrow> WordleColor list \<Rightarrow> guessRow" where
  "newGuessRow word colors =
     \<lparr>gr_word = word, gr_colors = colors, gr_seen = colors, gr_shown = colors\<rparr>"

record side_effects =
  energy :: int
  greens :: "bool list"
  found :: "bool list"
  stunnedUntil :: gotime
  shield :: bool
  destroyed :: "tile set"
  eyes :: "eye list"
  missiles :: "gotime list"
  illusion :: "illusionGame option"
  reshape :: "string list"
  used_once :: "string set"
  cheat :: bool
  feint :: "WordleColor list option"
  falseNext :: "WordleColor list option"
  keymap :: "string option"
  scrambledGuesses :: int
  silencedUntil :: gotime

definition newSideEffects :: "nat \<Rightarrow> side_effects" where
  "newSideEffects wordLength =
    \<lparr>energy = 0, greens = replicate wordLength False, found = replicate 26 False, stunnedUntil = 0,
     shield = False, destroyed = {}, eyes = [], missiles = [], illusion = None, reshape = [],
     used_once = {}, cheat = False, feint = None, falseNext = None, keymap = None,
     scrambledGuesses = 0, silencedUntil = 0\<rparr>"

type_synonym pref = nat
type_synonym eref = nat
type_synonym dref = nat
type_synonym client = nat

text \<open>\<open>duelSide\<close> embeds \<open>sideEffects\<close>: a record extension.\<close>

record duel_side = side_effects +
  side_p :: pref
  side_word :: string
  side_guesses :: "guessRow list"
  side_rows :: int
  side_solved :: bool
  side_best :: real

text \<open>\<open>s.sideEffects = newSideEffects(n)\<close>\<close>

definition reset_effects :: "nat \<Rightarrow> duel_side \<Rightarrow> duel_side" where
  "reset_effects n s = side_effects.extend (newSideEffects n) (side_effects.more s)"

definition new_side :: "pref \<Rightarrow> string \<Rightarrow> int \<Rightarrow> duel_side" where
  "new_side p word rows = side_effects.extend (newSideEffects (length word))
     \<lparr>side_p = p, side_word = word, side_guesses = [], side_rows = rows, side_solved = False,
      side_best = 0\<rparr>"

lemma reset_effects_simps [simp]:
  "side_p (reset_effects n s) = side_p s" "side_word (reset_effects n s) = side_word s"
  "side_guesses (reset_effects n s) = side_guesses s" "side_rows (reset_effects n s) = side_rows s"
  "side_solved (reset_effects n s) = side_solved s" "side_best (reset_effects n s) = side_best s"
  "side_effects.truncate (reset_effects n s) = newSideEffects n"
  by (cases s; simp add: reset_effects_def side_effects.defs newSideEffects_def)+

lemma reset_effects_fields [simp]:
  "energy (reset_effects n s) = 0" "greens (reset_effects n s) = replicate n False"
  "found (reset_effects n s) = replicate 26 False" "stunnedUntil (reset_effects n s) = 0"
  "shield (reset_effects n s) = False" "destroyed (reset_effects n s) = {}"
  "eyes (reset_effects n s) = []" "missiles (reset_effects n s) = []"
  "illusion (reset_effects n s) = None" "reshape (reset_effects n s) = []"
  "used_once (reset_effects n s) = {}" "cheat (reset_effects n s) = False"
  "feint (reset_effects n s) = None" "falseNext (reset_effects n s) = None"
  "keymap (reset_effects n s) = None" "scrambledGuesses (reset_effects n s) = 0"
  "silencedUntil (reset_effects n s) = 0"
  by (simp_all add: reset_effects_def side_effects.defs newSideEffects_def)

lemma new_side_fields [simp]:
  "energy (new_side p w r) = 0" "greens (new_side p w r) = replicate (length w) False"
  "found (new_side p w r) = replicate 26 False" "stunnedUntil (new_side p w r) = 0"
  "shield (new_side p w r) = False" "destroyed (new_side p w r) = {}"
  "eyes (new_side p w r) = []" "missiles (new_side p w r) = []"
  "illusion (new_side p w r) = None" "reshape (new_side p w r) = []"
  "used_once (new_side p w r) = {}" "cheat (new_side p w r) = False"
  "feint (new_side p w r) = None" "falseNext (new_side p w r) = None"
  "keymap (new_side p w r) = None" "scrambledGuesses (new_side p w r) = 0"
  "silencedUntil (new_side p w r) = 0"
  "side_p (new_side p w r) = p" "side_word (new_side p w r) = w" "side_guesses (new_side p w r) = []"
  "side_rows (new_side p w r) = r" "\<not> side_solved (new_side p w r)" "side_best (new_side p w r) = 0"
  by (simp_all add: new_side_def side_effects.defs newSideEffects_def)

section \<open>Duels, challenges and prayers\<close>

datatype who = SideA | SideB

fun other :: "who \<Rightarrow> who" where
  "other SideA = SideB"
| "other SideB = SideA"

lemma other_simps [simp]: "other (other i) = i" "other i \<noteq> i" "i \<noteq> other i"
  by (cases i; simp)+

lemma who_neq_iff: "j \<noteq> i \<longleftrightarrow> j = other i"
  by (cases i; cases j) simp_all

instantiation who :: enum
begin

definition enum_who :: "who list" where
  "enum_who = [SideA, SideB]"

definition enum_all_who :: "(who \<Rightarrow> bool) \<Rightarrow> bool" where
  "enum_all_who P \<longleftrightarrow> P SideA \<and> P SideB"

definition enum_ex_who :: "(who \<Rightarrow> bool) \<Rightarrow> bool" where
  "enum_ex_who P \<longleftrightarrow> P SideA \<or> P SideB"

instance
proof
  have U: "UNIV = {SideA, SideB}" using who.exhaust by auto
  show "(UNIV :: who set) = set enum_class.enum" by (simp add: U enum_who_def)
  show "distinct (enum_class.enum :: who list)" by (simp add: enum_who_def)
  show "enum_class.enum_all P = Ball UNIV P" for P :: "who \<Rightarrow> bool"
    by (simp add: U enum_all_who_def)
  show "enum_class.enum_ex P = Bex UNIV P" for P :: "who \<Rightarrow> bool"
    by (simp add: U enum_ex_who_def)
qed

end

record duel =
  d_start :: gotime
  d_sideA :: duel_side
  d_sideB :: duel_side
  d_ranked :: bool
  d_nextEnergy :: gotime
  d_deadline :: gotime

fun d_side :: "who \<Rightarrow> duel \<Rightarrow> duel_side" where
  "d_side SideA d = d_sideA d"
| "d_side SideB d = d_sideB d"

fun d_upd :: "who \<Rightarrow> (duel_side \<Rightarrow> duel_side) \<Rightarrow> duel \<Rightarrow> duel" where
  "d_upd SideA f d = d\<lparr>d_sideA := f (d_sideA d)\<rparr>"
| "d_upd SideB f d = d\<lparr>d_sideB := f (d_sideB d)\<rparr>"

lemma d_side_upd: "d_side j (d_upd i f d) = (if j = i then f (d_side i d) else d_side j d)"
  by (cases i; cases j) simp_all

lemma d_upd_fields [simp]:
  "d_start (d_upd i f d) = d_start d" "d_ranked (d_upd i f d) = d_ranked d"
  "d_nextEnergy (d_upd i f d) = d_nextEnergy d" "d_deadline (d_upd i f d) = d_deadline d"
  by (cases i; simp)+

lemma d_side_fields [simp]:
  "d_side i (d\<lparr>d_start := x\<rparr>) = d_side i d" "d_side i (d\<lparr>d_ranked := b\<rparr>) = d_side i d"
  "d_side i (d\<lparr>d_nextEnergy := x\<rparr>) = d_side i d" "d_side i (d\<lparr>d_deadline := x\<rparr>) = d_side i d"
  by (cases i; simp)+

record challenge =
  ch_id :: "32 word"
  ch_from :: pref
  ch_to :: pref
  ch_expires :: gotime
  ch_ranked :: bool

text \<open>
  A prayer on its way: what the goroutine of \<open>pray\<close> captured. \<open>oracle.Prayer\<close> is the part the gods
  are asked about, \<open>oracle.Answer\<close> what they say, or nothing.
\<close>

record Prayer =
  pry_Kind :: PrayerKind
  pry_Word :: string
  pry_Pos :: int

record God =
  god_Name :: string
  god_Title :: string
  god_Color :: string
  god_Persona :: string

record Answer =
  ans_God :: God
  ans_Text :: string

text \<open>Who answers prayers, if anybody does: Claude, or the canned answers of the tests.\<close>

datatype Oracle = Claude | Fake

record prayer_job =
  pj_duel :: dref
  pj_me :: who
  pj_id :: int
  pj_kind :: PrayerKind
  pj_cost :: int
  pj_prayer :: Prayer

section \<open>The world\<close>

record Entity =
  e_ID :: EntityID
  e_Kind :: EntityKind
  e_Name :: string
  e_Char :: string
  e_Class :: string
  e_Sprite :: string
  e_Pos :: Vec
  e_Elo :: int
  e_moved :: bool
  e_eloChanged :: bool
  e_cell :: "i32 \<times> i32"

record player =
  p_client :: client
  p_playerID :: int
  p_charID :: int
  p_rating :: Rating
  p_ent :: eref
  p_known :: "(EntityID \<times> 64 word) list"
  p_budget :: real
  p_budgetAt :: gotime
  p_duel :: "dref option"

record world =
  w_Map :: WorldMap
  w_Duels :: "puzzle option"
  w_OnRanked :: bool
  w_matches :: "Match list"
  w_Oracle :: "Oracle option"
  w_entities :: "(EntityID \<times> eref) list"
  w_eobj :: "eref \<Rightarrow> Entity"
  w_players :: "(client \<times> pref) list"
  w_pobj :: "pref \<Rightarrow> player"
  w_grid :: "((i32 \<times> i32) \<times> (EntityID \<times> eref) list) list"
  w_nextID :: EntityID
  w_tick :: "64 word"
  w_moved :: "eref list"
  w_eloChanged :: "eref list"
  w_challenges :: "(32 word \<times> challenge) list"
  w_nextChallenge :: "32 word"
  w_duels :: "dref list"
  w_dobj :: "dref \<Rightarrow> duel"
  w_praying :: "prayer_job list"
  w_answered :: "(prayer_job \<times> Answer option) list"
  w_nextPrayer :: int
  w_now :: gotime
  w_rng :: rng
  w_fate :: "DivineFate option"
  w_online :: "int list"
  w_rejected :: nat
  w_out :: "(client \<times> ServerMsg) list"
  w_fresh :: nat

section \<open>Reading and writing the store\<close>

definition send :: "client \<Rightarrow> ServerMsg \<Rightarrow> world \<Rightarrow> world" where
  "send c msg w = w\<lparr>w_out := w_out w @ [(c, msg)]\<rparr>"

definition upd_player :: "pref \<Rightarrow> (player \<Rightarrow> player) \<Rightarrow> world \<Rightarrow> world" where
  "upd_player p f w = w\<lparr>w_pobj := (w_pobj w)(p := f (w_pobj w p))\<rparr>"

definition upd_entity :: "eref \<Rightarrow> (Entity \<Rightarrow> Entity) \<Rightarrow> world \<Rightarrow> world" where
  "upd_entity e f w = w\<lparr>w_eobj := (w_eobj w)(e := f (w_eobj w e))\<rparr>"

definition upd_duel :: "dref \<Rightarrow> (duel \<Rightarrow> duel) \<Rightarrow> world \<Rightarrow> world" where
  "upd_duel d f w = w\<lparr>w_dobj := (w_dobj w)(d := f (w_dobj w d))\<rparr>"

definition side :: "world \<Rightarrow> dref \<Rightarrow> who \<Rightarrow> duel_side" where
  "side w d i = d_side i (w_dobj w d)"

definition upd_side :: "dref \<Rightarrow> who \<Rightarrow> (duel_side \<Rightarrow> duel_side) \<Rightarrow> world \<Rightarrow> world" where
  "upd_side d i f = upd_duel d (d_upd i f)"

definition set_rng :: "rng \<Rightarrow> world \<Rightarrow> world" where
  "set_rng r w = w\<lparr>w_rng := r\<rparr>"

text \<open>The entity and client of the player on a side.\<close>

definition ent_of :: "world \<Rightarrow> pref \<Rightarrow> Entity" where
  "ent_of w p = w_eobj w (p_ent (w_pobj w p))"

definition send_side :: "dref \<Rightarrow> who \<Rightarrow> ServerMsg \<Rightarrow> world \<Rightarrow> world" where
  "send_side d i msg w = send (p_client (w_pobj w (side_p (side w d i)))) msg w"

text \<open>\<open>d.sidesOf(p)\<close>: me and them.\<close>

definition sidesOf :: "world \<Rightarrow> dref \<Rightarrow> pref \<Rightarrow> who \<times> who" where
  "sidesOf w d p = (if side_p (side w d SideA) = p then (SideA, SideB) else (SideB, SideA))"

lemma sidesOf_other: "sidesOf w d p = (me, them) \<Longrightarrow> them = other me"
  by (auto simp: sidesOf_def split: if_splits)

definition displayName :: "world \<Rightarrow> pref \<Rightarrow> string" where
  "displayName w p = (if e_Char (ent_of w p) \<noteq> [] then e_Char (ent_of w p) else e_Name (ent_of w p))"

definition playerByEntity :: "world \<Rightarrow> EntityID \<Rightarrow> pref option" where
  "playerByEntity w i = map_option snd (find (\<lambda>(c, p). e_ID (ent_of w p) = i) (w_players w))"

definition setRating :: "pref \<Rightarrow> Rating \<Rightarrow> world \<Rightarrow> world" where
  "setRating p r w =
    (let w = upd_player p (\<lambda>pl. pl\<lparr>p_rating := r\<rparr>) w;
         e = p_ent (w_pobj w p);
         w = upd_entity e (\<lambda>en. en\<lparr>e_Elo := Elo r\<rparr>) w
     in if \<not> e_eloChanged (w_eobj w e)
        then (upd_entity e (\<lambda>en. en\<lparr>e_eloChanged := True\<rparr>) w)
               \<lparr>w_eloChanged := w_eloChanged w @ [e]\<rparr>
        else w)"

end
