(* ===== verification/Duel_Side.thy ===== *)
theory Duel_Side
  imports World_State "HOL-Library.Char_ord" "HOL-Library.List_Lexorder"
begin

text \<open>
  What the code does to one side of a duel on its own: the methods of \<open>duelSide\<close> in
  \<open>internal/game/duel.go\<close> and \<open>internal/game/abilities.go\<close>, and the well-formedness of a side
  that every operation of the later theories keeps (\<open>side_ok\<close>). The lemmas show that learning a
  guess cannot index out of range, pays for every letter once, and what a side's state message
  contains.
\<close>

section \<open>Constants of \<open>abilities.go\<close>\<close>

definition EnergyInterval :: duration where "EnergyInterval = 30 * Second"
definition GreenEnergy :: int where "GreenEnergy = 2"
definition YellowEnergy :: int where "YellowEnergy = 1"
definition PommelStun :: duration where "PommelStun = 10 * Second"
definition AggressiveStun :: duration where "AggressiveStun = 5 * Second"
definition MissileFlight :: duration where "MissileFlight = 15 * Second"
definition MissileEnergy :: int where "MissileEnergy = 5"
definition EyeInterval :: duration where "EyeInterval = 30 * Second"
definition IllusionGuesses :: int where "IllusionGuesses = 6"
definition IllusionEnergy :: int where "IllusionEnergy = 5"
definition ReshapeOptions :: nat where "ReshapeOptions = 5"
definition ScrambleGuesses :: int where "ScrambleGuesses = 2"
definition DivineWillSilence :: duration where "DivineWillSilence = 10 * Second"
definition SuddenDeath :: duration where "SuddenDeath = 2 * Minute"

lemmas ability_constants = GreenEnergy_def YellowEnergy_def MissileEnergy_def IllusionGuesses_def
  IllusionEnergy_def ReshapeOptions_def ScrambleGuesses_def

section \<open>Rows\<close>

text \<open>\<open>out\<close>, \<open>done\<close> and \<open>unusedRows\<close> of \<open>duel.go\<close>.\<close>

definition side_out :: "duel_side \<Rightarrow> bool" where
  "side_out s \<longleftrightarrow> \<not> side_solved s \<and> side_rows s \<le> int (length (side_guesses s))"

definition side_done :: "duel_side \<Rightarrow> bool" where
  "side_done s \<longleftrightarrow> side_solved s \<or> side_out s"

definition unusedRows :: "duel_side \<Rightarrow> int" where
  "unusedRows s = side_rows s - int (length (side_guesses s))"

section \<open>Effects\<close>

definition blocked :: "gotime \<Rightarrow> duel_side \<Rightarrow> bool" where
  "blocked now s \<longleftrightarrow> now < stunnedUntil s \<or> illusion s \<noteq> None"

definition stun :: "gotime \<Rightarrow> duel_side \<Rightarrow> duel_side" where
  "stun until s = (if stunnedUntil s < until then s\<lparr>stunnedUntil := until\<rparr> else s)"

definition loseEnergy :: "int \<Rightarrow> duel_side \<Rightarrow> int \<times> duel_side" where
  "loseEnergy n s = (let n = min n (energy s) in (n, s\<lparr>energy := energy s - n\<rparr>))"

text \<open>Whether the letter is new.\<close>

definition letter_index :: "char \<Rightarrow> int" where
  "letter_index letter = int (of_char letter) - 65"

definition markFound :: "char \<Rightarrow> duel_side \<Rightarrow> bool \<times> duel_side" where
  "markFound letter s =
    (let i = letter_index letter in
     if i < 0 \<or> int (length (found s)) \<le> i \<or> found s ! nat i then (False, s)
     else (True, s\<lparr>found := (found s)[nat i := True]\<rparr>))"

text \<open>The two loops of \<open>learn\<close>, over the positions and colors of a guess.\<close>

definition learn_green ::
    "guessRow \<Rightarrow> nat \<times> WordleColor \<Rightarrow> duel_side \<times> bool \<times> int \<Rightarrow> (duel_side \<times> bool \<times> int) option" where
  "learn_green g = (\<lambda>(i, c) (s, newGreen, gain).
    if c = Green \<and> i < length (greens s) \<and> \<not> greens s ! i then do {
      let s = s\<lparr>greens := (greens s)[i := True]\<rparr>;
      letter \<leftarrow> at_int (gr_word g) (int i);
      Some (snd (markFound letter s), True, gain + GreenEnergy)
    } else Some (s, newGreen, gain))"

definition learn_yellow ::
    "guessRow \<Rightarrow> nat \<times> WordleColor \<Rightarrow> duel_side \<times> int \<Rightarrow> (duel_side \<times> int) option" where
  "learn_yellow g = (\<lambda>(i, c) (s, gain).
    if c = Yellow then do {
      letter \<leftarrow> at_int (gr_word g) (int i);
      let (new, s) = markFound letter s;
      Some (s, if new then gain + YellowEnergy else gain)
    } else Some (s, gain))"

definition learn :: "guessRow \<Rightarrow> bool \<Rightarrow> duel_side \<Rightarrow> (bool \<times> duel_side) option" where
  "learn g pay s = do {
    (s, newGreen, gain) \<leftarrow> fold_opt (learn_green g) (enumerate 0 (gr_colors g)) (s, False, 0);
    (s, gain) \<leftarrow> fold_opt (learn_yellow g) (enumerate 0 (gr_colors g)) (s, gain);
    Some (newGreen, if pay then s\<lparr>energy := energy s + gain\<rparr> else s)
  }"

definition relearn :: "duel_side \<Rightarrow> duel_side option" where
  "relearn s = fold_opt (\<lambda>g s. do {
      (newGreen, s) \<leftarrow> learn g False s;
      Some (s\<lparr>side_best := max (side_best s) (Closeness (gr_colors g))\<rparr>)
    }) (side_guesses s)
    (s\<lparr>greens := replicate (length (greens s)) False, found := replicate 26 False, side_best := 0\<rparr>)"

section \<open>What is shown of a side\<close>

definition visibleColors :: "duel_side \<Rightarrow> WordleColor list list" where
  "visibleColors s =
    map (\<lambda>(r, g). map (\<lambda>(c, color). if (int r, int c) \<in> destroyed s then Hidden else color)
                      (enumerate 0 (gr_colors g)))
        (enumerate 0 (side_guesses s))"

definition side_state :: "gotime \<Rightarrow> bool \<Rightarrow> duel_side \<Rightarrow> DuelSideState" where
  "side_state now own s =
    \<lparr>dss_Energy = energy s, dss_Rows = side_rows s, dss_Guesses = int (length (side_guesses s)),
     dss_StunnedMs = (if now < stunnedUntil s then in_ms (stunnedUntil s - now) else 0),
     dss_Shield = shield s, dss_Eyes = int (length (eyes s)),
     dss_MissilesMs = sort (map (\<lambda>lands. in_ms (lands - now)) (missiles s)),
     dss_Illusion = (illusion s \<noteq> None), dss_Used = sorted_list_of_set (used_once s),
     dss_SilencedMs = (if now < silencedUntil s then in_ms (silencedUntil s - now) else 0),
     dss_ScrambledGuesses = scrambledGuesses s,
     dss_Keymap = (if own then (case keymap s of None \<Rightarrow> [] | Some m \<Rightarrow> m) else []),
     dss_CheatReady = (own \<and> cheat s), dss_FeintReady = (own \<and> feint s \<noteq> None)\<rparr>"

section \<open>Learning a guess\<close>

lemma markFound_only_found:
  "snd (markFound l s) = s\<lparr>found := found (snd (markFound l s))\<rparr>"
  by (simp add: markFound_def Let_def)

lemma markFound_length [simp]: "length (found (snd (markFound l s))) = length (found s)"
  by (simp add: markFound_def Let_def)

lemma markFound_greens [simp]: "greens (snd (markFound l s)) = greens s"
  by (simp add: markFound_def Let_def)

lemma markFound_nth:
  "k < length (found s) \<Longrightarrow>
   found (snd (markFound l s)) ! k \<longleftrightarrow> found s ! k \<or> letter_index l = int k"
  by (auto simp: markFound_def Let_def nth_list_update)

lemma markFound_new:
  "fst (markFound l s) \<longleftrightarrow> (\<exists>k < length (found s). letter_index l = int k \<and> \<not> found s ! k)"
  by (auto simp: markFound_def Let_def intro: exI [of _ "nat (letter_index l)"])

text \<open>The positions and letters a list of positions and colors finds that a side has not.\<close>

definition new_greens :: "(nat \<times> WordleColor) list \<Rightarrow> duel_side \<Rightarrow> nat set" where
  "new_greens ps s = {i. i < length (greens s) \<and> (i, Green) \<in> set ps \<and> \<not> greens s ! i}"

definition new_yellows :: "string \<Rightarrow> (nat \<times> WordleColor) list \<Rightarrow> duel_side \<Rightarrow> nat set" where
  "new_yellows word ps s = {k. k < length (found s) \<and> \<not> found s ! k \<and>
     (\<exists>i. (i, Yellow) \<in> set ps \<and> letter_index (word ! i) = int k)}"

lemma finite_new [simp]: "finite (new_greens ps s)" "finite (new_yellows word ps s)"
  by (simp_all add: new_greens_def new_yellows_def)

definition greens_learned :: "guessRow \<Rightarrow> (nat \<times> WordleColor) list \<Rightarrow> duel_side \<Rightarrow> duel_side \<Rightarrow> bool" where
  "greens_learned g ps s s' \<longleftrightarrow>
     s' = s\<lparr>greens := greens s', found := found s'\<rparr> \<and>
     length (greens s') = length (greens s) \<and> length (found s') = length (found s) \<and>
     (\<forall>i < length (greens s). greens s' ! i \<longleftrightarrow> greens s ! i \<or> (i, Green) \<in> set ps) \<and>
     (\<forall>k < length (found s). found s' ! k \<longleftrightarrow>
        found s ! k \<or> (\<exists>i \<in> new_greens ps s. letter_index (gr_word g ! i) = int k))"

lemma new_greens_Cons:
  "new_greens ((i, c) # ps) s =
     (if c = Green \<and> i < length (greens s) \<and> \<not> greens s ! i
      then insert i (new_greens ps (snd (markFound l (s\<lparr>greens := (greens s)[i := True]\<rparr>))))
      else new_greens ps s)"
  by (auto simp: new_greens_def nth_list_update)

lemma learn_green_fold:
  assumes "\<forall>(i, c) \<in> set ps. i < length (gr_word g)"
  shows "runs (fold_opt (learn_green g) ps (s, b, n)) (\<lambda>(s', b', n').
    greens_learned g ps s s' \<and> (b' \<longleftrightarrow> b \<or> new_greens ps s \<noteq> {}) \<and>
    n' = n + GreenEnergy * int (card (new_greens ps s)))"
  using assms
proof (induction ps arbitrary: s b n)
  case Nil
  show ?case by (simp add: greens_learned_def new_greens_def)
next
  case (Cons p ps)
  obtain i c where p: "p = (i, c)" by (cases p)
  have ps: "\<forall>(i, c) \<in> set ps. i < length (gr_word g)" and i: "i < length (gr_word g)"
    using Cons.prems p by auto
  show ?case
  proof (cases "c = Green \<and> i < length (greens s) \<and> \<not> greens s ! i")
    case True
    define s1 where "s1 = snd (markFound (gr_word g ! i) (s\<lparr>greens := (greens s)[i := True]\<rparr>))"
    have ng: "new_greens (p # ps) s = insert i (new_greens ps s1)"
      using True p new_greens_Cons [of i c ps s "gr_word g ! i"] by (simp add: s1_def)
    have notin: "i \<notin> new_greens ps s1"
      using True by (simp add: s1_def new_greens_def)
    have step: "learn_green g p (s, b, n) = Some (s1, True, n + GreenEnergy)"
      using True i by (simp add: learn_green_def p s1_def)
    have s1: "s1 = s\<lparr>greens := (greens s)[i := True], found := found s1\<rparr>"
      unfolding s1_def by (subst markFound_only_found) simp
    have len: "length (greens s1) = length (greens s)" "length (found s1) = length (found s)"
      by (simp_all add: s1_def)
    have gr: "greens s1 ! j \<longleftrightarrow> greens s ! j \<or> j = i" if "j < length (greens s)" for j
      using that True by (cases "j = i") (simp_all add: s1_def)
    have fo: "found s1 ! k \<longleftrightarrow> found s ! k \<or> letter_index (gr_word g ! i) = int k"
      if "k < length (found s)" for k
      using that by (simp add: s1_def markFound_nth)
    have learned: "greens_learned g (p # ps) s s'" if h: "greens_learned g ps s1 s'" for s'
    proof -
      have "s' = s1\<lparr>greens := greens s', found := found s'\<rparr>" using h by (simp add: greens_learned_def)
      then have "s' = s\<lparr>greens := greens s', found := found s'\<rparr>"
        by (subst (asm) s1) simp
      moreover have "greens s' ! j \<longleftrightarrow> greens s ! j \<or> (j, Green) \<in> set (p # ps)"
        if "j < length (greens s)" for j
        using h that gr [OF that] True p unfolding greens_learned_def len by auto
      moreover have "found s' ! k \<longleftrightarrow>
          found s ! k \<or> (\<exists>i \<in> new_greens (p # ps) s. letter_index (gr_word g ! i) = int k)"
        if "k < length (found s)" for k
        using h that fo [OF that] unfolding greens_learned_def len ng by auto
      ultimately show ?thesis using h unfolding greens_learned_def len by blast
    qed
    show ?thesis
      unfolding fold_opt.simps step Option.bind.simps
      by (rule runs_conseq [OF Cons.IH [OF ps, of s1 True "n + GreenEnergy"]])
        (auto simp: ng notin learned algebra_simps)
  next
    case False
    have ng: "new_greens (p # ps) s = new_greens ps s"
      using False p new_greens_Cons [of i c ps s] by auto
    have step: "learn_green g p (s, b, n) = Some (s, b, n)"
      using False by (auto simp: learn_green_def p)
    have learned: "greens_learned g (p # ps) s s'" if h: "greens_learned g ps s s'" for s'
      using h False p unfolding greens_learned_def ng by auto
    show ?thesis
      unfolding fold_opt.simps step Option.bind.simps
      by (rule runs_conseq [OF Cons.IH [OF ps, of s b n]]) (auto simp: ng learned)
  qed
qed

lemma new_yellows_Cons:
  "new_yellows word ((i, c) # ps) s =
     (if c = Yellow \<and> fst (markFound (word ! i) s)
      then insert (nat (letter_index (word ! i))) (new_yellows word ps (snd (markFound (word ! i) s)))
      else new_yellows word ps s)"
proof (cases "c = Yellow \<and> fst (markFound (word ! i) s)")
  case True
  then obtain k where k: "k < length (found s)" "letter_index (word ! i) = int k" "\<not> found s ! k"
    by (auto simp: markFound_new)
  then show ?thesis
    using True by (auto simp: new_yellows_def markFound_nth)
next
  case False
  then show ?thesis by (auto simp: new_yellows_def markFound_new)
qed

lemma learn_yellow_fold:
  assumes "\<forall>(i, c) \<in> set ps. i < length (gr_word g)"
  shows "runs (fold_opt (learn_yellow g) ps (s, n)) (\<lambda>(s', n').
    s' = s\<lparr>found := found s'\<rparr> \<and> length (found s') = length (found s) \<and>
    (\<forall>k < length (found s). found s' ! k \<longleftrightarrow> found s ! k \<or> k \<in> new_yellows (gr_word g) ps s) \<and>
    n' = n + YellowEnergy * int (card (new_yellows (gr_word g) ps s)))"
  using assms
proof (induction ps arbitrary: s n)
  case Nil
  show ?case by (simp add: new_yellows_def)
next
  case (Cons p ps)
  obtain i c where p: "p = (i, c)" by (cases p)
  let ?l = "gr_word g ! i"
  have ps: "\<forall>(i, c) \<in> set ps. i < length (gr_word g)" and i: "i < length (gr_word g)"
    using Cons.prems p by auto
  show ?case
  proof (cases "c = Yellow \<and> fst (markFound ?l s)")
    case True
    define s1 where "s1 = snd (markFound ?l s)"
    obtain k where k: "k < length (found s)" "letter_index ?l = int k" "\<not> found s ! k"
      using True by (auto simp: markFound_new)
    have ny: "new_yellows (gr_word g) (p # ps) s = insert k (new_yellows (gr_word g) ps s1)"
      using True k by (simp add: p new_yellows_Cons s1_def)
    have notin: "k \<notin> new_yellows (gr_word g) ps s1"
      using k by (simp add: new_yellows_def s1_def markFound_nth)
    have step: "learn_yellow g p (s, n) = Some (s1, n + YellowEnergy)"
      using True i by (simp add: learn_yellow_def p s1_def split_def Let_def)
    have s1: "s1 = s\<lparr>found := found s1\<rparr>" unfolding s1_def by (rule markFound_only_found)
    have len: "length (found s1) = length (found s)" by (simp add: s1_def)
    have fo: "found s1 ! j \<longleftrightarrow> found s ! j \<or> j = k" if "j < length (found s)" for j
      using that k by (auto simp: s1_def markFound_nth)
    have upd: "s' = s\<lparr>found := found s'\<rparr>" if "s' = s1\<lparr>found := found s'\<rparr>" for s'
      using that by (subst (asm) s1) simp
    show ?thesis
      unfolding fold_opt.simps step Option.bind.simps
      by (rule runs_conseq [OF Cons.IH [OF ps, of s1 "n + YellowEnergy"]])
        (auto simp: ny notin len fo algebra_simps intro: upd)
  next
    case False
    have ny: "new_yellows (gr_word g) (p # ps) s = new_yellows (gr_word g) ps s"
      using False by (auto simp: p new_yellows_Cons)
    have "snd (markFound ?l s) = s" if "\<not> fst (markFound ?l s)"
      using that by (auto simp: markFound_def Let_def split: if_splits)
    then have step: "learn_yellow g p (s, n) = Some (s, n)"
      using False i by (auto simp: learn_yellow_def p split_def Let_def)
    show ?thesis
      unfolding fold_opt.simps step Option.bind.simps
      by (rule runs_conseq [OF Cons.IH [OF ps, of s n]]) (auto simp: ny)
  qed
qed

text \<open>What learning a guess does, in one statement.\<close>

definition greens_found :: "guessRow \<Rightarrow> duel_side \<Rightarrow> nat set" where
  "greens_found g s = {i. i < length (greens s) \<and> i < length (gr_colors g) \<and>
     gr_colors g ! i = Green \<and> \<not> greens s ! i}"

definition letters_found :: "guessRow \<Rightarrow> duel_side \<Rightarrow> nat set" where
  "letters_found g s = {k. k < length (found s) \<and> \<not> found s ! k \<and>
     (\<forall>i \<in> greens_found g s. letter_index (gr_word g ! i) \<noteq> int k) \<and>
     (\<exists>i < length (gr_colors g). gr_colors g ! i = Yellow \<and> letter_index (gr_word g ! i) = int k)}"

definition learned :: "guessRow \<Rightarrow> bool \<Rightarrow> duel_side \<Rightarrow> duel_side \<Rightarrow> bool" where
  "learned g pay s s' \<longleftrightarrow>
     s' = s\<lparr>energy := energy s', greens := greens s', found := found s'\<rparr> \<and>
     length (greens s') = length (greens s) \<and> length (found s') = length (found s) \<and>
     energy s' = energy s + (if pay then GreenEnergy * int (card (greens_found g s)) +
                                         YellowEnergy * int (card (letters_found g s)) else 0) \<and>
     (\<forall>i < length (greens s). greens s' ! i \<longleftrightarrow> greens s ! i \<or> i \<in> greens_found g s) \<and>
     (\<forall>k < length (found s). found s' ! k \<longleftrightarrow> found s ! k \<or> k \<in> letters_found g s \<or>
        (\<exists>i \<in> greens_found g s. letter_index (gr_word g ! i) = int k))"

lemma learned_fields:
  fixes s :: duel_side
  assumes "s2 = s\<lparr>greens := a, found := b\<rparr>"
  shows "s2\<lparr>energy := e\<rparr> = s\<lparr>energy := e, greens := a, found := b\<rparr>"
    and "s2 = s\<lparr>energy := energy s, greens := a, found := b\<rparr>"
  using assms by simp_all

lemma in_enumerate_0: "(i, c) \<in> set (enumerate 0 xs) \<longleftrightarrow> i < length xs \<and> xs ! i = c"
  by (auto simp: in_set_enumerate_eq)

lemma learn_runs:
  assumes "length (gr_word g) = length (gr_colors g)"
  shows "runs (learn g pay s) (\<lambda>(new, s'). learned g pay s s' \<and> (new \<longleftrightarrow> greens_found g s \<noteq> {}))"
proof -
  let ?ps = "enumerate 0 (gr_colors g)"
  have ps: "\<forall>(i, c) \<in> set ?ps. i < length (gr_word g)"
    using assms by (auto simp: in_enumerate_0)
  have G: "new_greens ?ps s = greens_found g s"
    by (auto simp: new_greens_def greens_found_def in_enumerate_0)
  have Y: "new_yellows (gr_word g) ?ps s1 = letters_found g s" if "greens_learned g ?ps s s1" for s1
    using that unfolding greens_learned_def G new_yellows_def letters_found_def in_enumerate_0
    by (intro Collect_cong) auto
  obtain s1 b1 n1 where 1: "fold_opt (learn_green g) ?ps (s, False, 0) = Some (s1, b1, n1)"
    and h: "greens_learned g ?ps s s1" and b1: "b1 \<longleftrightarrow> greens_found g s \<noteq> {}"
    and n1: "n1 = GreenEnergy * int (card (greens_found g s))"
    using learn_green_fold [OF ps, of s False 0] unfolding runs_iff G by auto
  obtain s2 n2 where 2: "fold_opt (learn_yellow g) ?ps (s1, n1) = Some (s2, n2)"
    and s2: "s2 = s1\<lparr>found := found s2\<rparr>" and len: "length (found s2) = length (found s1)"
    and fo: "\<forall>k<length (found s1). found s2 ! k = (found s1 ! k \<or> k \<in> letters_found g s)"
    and n2: "n2 = n1 + YellowEnergy * int (card (letters_found g s))"
    using learn_yellow_fold [OF ps, of s1 n1] unfolding runs_iff Y [OF h] by auto
  from h have s1: "s1 = s\<lparr>greens := greens s1, found := found s1\<rparr>"
    by (simp add: greens_learned_def)
  have e: "energy s2 = energy s" "greens s2 = greens s1"
    using arg_cong [OF s2, of energy] arg_cong [OF s2, of greens] arg_cong [OF s1, of energy] by simp_all
  have "s2 = s\<lparr>greens := greens s1, found := found s2\<rparr>"
    by (subst s2, subst s1) simp
  note rec = learned_fields [OF this]
  have gr: "greens s1 ! i \<longleftrightarrow> greens s ! i \<or> i \<in> greens_found g s" if "i < length (greens s)" for i
    using h that by (auto simp: greens_learned_def in_enumerate_0 greens_found_def)
  have "length (greens s1) = length (greens s)" "length (found s1) = length (found s)"
    "\<forall>k < length (found s). found s1 ! k \<longleftrightarrow>
       found s ! k \<or> (\<exists>i \<in> greens_found g s. letter_index (gr_word g ! i) = int k)"
    using h by (simp_all add: greens_learned_def G)
  then have "learned g True s (s2\<lparr>energy := energy s2 + n2\<rparr>)" "learned g False s s2"
    using rec(1) rec(2) e gr len fo unfolding learned_def n1 n2 by auto
  moreover have "learn g pay s = Some (b1, if pay then s2\<lparr>energy := energy s2 + n2\<rparr> else s2)"
    by (simp add: learn_def 1 2)
  ultimately show ?thesis using b1 by (cases pay) simp_all
qed

section \<open>Closeness\<close>

text \<open>The loop of \<open>Closeness\<close> adds halves, which no rounding disturbs below \<open>2 ^ 50\<close> letters.\<close>

definition half :: "int \<Rightarrow> real" where "half m = of_int m / 2"

lemma half_0: "half 0 = 0"
  by (simp add: half_def)

lemma fl64_half:
  assumes "0 \<le> m" and "m < 2 ^ 53"
  shows "fl64 (half m) = half m"
  using fl64.dyadic [of m 1] assms by (simp add: half_def)

lemma fadd_half:
  assumes "0 \<le> m" and "m + 2 < 2 ^ 53"
  shows "fadd (half m) 1 = half (m + 2)" and "fadd (half m) (1/2) = half (m + 1)"
proof -
  have "half m + 1 = half (m + 2)" "half m + 1/2 = half (m + 1)" by (simp_all add: half_def field_simps)
  then show "fadd (half m) 1 = half (m + 2)" "fadd (half m) (1/2) = half (m + 1)"
    unfolding fadd_def using assms by (simp_all only: fl64_half)
qed

definition half_points :: "WordleColor \<Rightarrow> int" where
  "half_points c = (if c = Green then 2 else if c = Yellow then 1 else 0)"

lemma half_points_range: "0 \<le> half_points c" "half_points c \<le> 2" "half_points c = 2 \<longleftrightarrow> c = Green"
  by (simp_all add: half_points_def)

lemma half_points_simps:
  "c = Green \<Longrightarrow> half_points c = 2" "c = Yellow \<Longrightarrow> half_points c = 1"
  "c \<noteq> Green \<Longrightarrow> c \<noteq> Yellow \<Longrightarrow> half_points c = 0"
  by (auto simp: half_points_def)

lemma Closeness_score:
  assumes "0 \<le> m" and "m + 2 * int (length cs) < 2 ^ 53"
  shows "foldl add_color (half m) cs = half (m + sum_list (map half_points cs))"
  using assms
proof (induction cs arbitrary: m)
  case (Cons c cs)
  have "add_color (half m) c = half (m + half_points c)"
    using fadd_half [of m] Cons.prems by (auto simp: add_color_def half_points_def)
  then show ?case
    using Cons.IH [of "m + half_points c"] Cons.prems half_points_range [of c]
    by (simp add: add.assoc)
qed simp

lemma half_points_sum:
  "0 \<le> sum_list (map half_points cs)" "sum_list (map half_points cs) \<le> 2 * int (length cs)"
  "sum_list (map half_points cs) = 2 * int (length cs) \<longleftrightarrow> (\<forall>c\<in>set cs. c = Green)"
proof -
  show "0 \<le> sum_list (map half_points cs)"
    by (rule sum_list_nonneg) (auto simp: half_points_range)
  have le: "sum_list (map half_points cs) \<le> 2 * int (length cs)" for cs
  proof (induction cs)
    case (Cons c cs) then show ?case using half_points_range(2) [of c] by simp
  qed simp
  show "sum_list (map half_points cs) \<le> 2 * int (length cs)" by (rule le)
  show "sum_list (map half_points cs) = 2 * int (length cs) \<longleftrightarrow> (\<forall>c\<in>set cs. c = Green)"
  proof (induction cs)
    case (Cons c cs)
    then show ?case using le [of cs] half_points_range [of c] by auto
  qed simp
qed

lemma Closeness_eq:
  assumes "length cs < 2 ^ 50"
  shows "Closeness cs = (if cs = [] then 0 else
    fl64 (half (sum_list (map half_points cs)) / of_nat (length cs)))"
proof -
  have "int (length cs) < int (2 ^ 50)" using assms by (simp only: of_nat_less_iff)
  then have len: "int (length cs) < 2 ^ 50" by simp
  have "fl64 (of_nat (length cs)) = of_nat (length cs)"
    using fl64.of_int [of "int (length cs)"] len by simp
  then show ?thesis
    using Closeness_score [of 0 cs] len by (simp add: Closeness_def fdiv_def half_0)
qed

lemma Closeness_unit:
  assumes "length cs < 2 ^ 50"
  shows "0 \<le> Closeness cs \<and> Closeness cs \<le> 1"
proof (cases "cs = []")
  case False
  then have n: "0 < real (length cs)" by simp
  have h: "of_int (sum_list (map half_points cs)) \<le> real_of_int (2 * int (length cs))"
    using half_points_sum(2) [of cs] by (simp only: of_int_le_iff)
  show ?thesis
    unfolding Closeness_eq [OF assms] using False n h half_points_sum(1) [of cs]
    by (auto intro!: fl64.nonneg fl64.le_one simp: divide_le_eq_1 half_def)
qed (simp add: Closeness_def)

lemma Closeness_one_iff:
  assumes "length cs < 2 ^ 50"
  shows "Closeness cs = 1 \<longleftrightarrow> solves cs"
proof (cases "cs = []")
  case False
  let ?n = "int (length cs)" and ?h = "sum_list (map half_points cs)"
  have "int (length cs) < int (2 ^ 50)" using assms by (simp only: of_nat_less_iff)
  then have n: "0 < ?n" "?n < 2 ^ 50" using False by simp_all
  have green: "?h = 2 * ?n \<longleftrightarrow> solves cs"
    using half_points_sum(3) [of cs] False by (simp add: solves_def)
  show ?thesis
  proof (cases "?h = 2 * ?n")
    case True
    then show ?thesis using green False n by (simp add: Closeness_eq [OF assms] fl64.one half_def)
  next
    case neq: False
    then have "?h \<le> 2 * ?n - 1" using half_points_sum(2) [of cs] by simp
    then have "of_int ?h \<le> (of_int (2 * ?n - 1) :: real)" by (simp only: of_int_le_iff)
    then have "of_int ?h / 2 / of_int ?n \<le> (1 - 1 / (2 * of_int ?n) :: real)"
      using n by (simp add: field_simps)
    also have "\<dots> \<le> 1 - 1 / (2 * 2 ^ 50)"
    proof -
      have "(of_int ?n :: real) \<le> of_int (2 ^ 50)" using n by (simp only: of_int_le_iff)
      then show ?thesis using n by (simp add: field_simps)
    qed
    also have "\<dots> = of_int (2 ^ 51 - 1) / 2 ^ 51" by simp
    finally have "fl64 (of_int ?h / 2 / of_int ?n) \<le> of_int (2 ^ 51 - 1) / 2 ^ 51"
      by (rule fl64.le_dyadic) simp
    then have "Closeness cs < 1" using False by (simp add: Closeness_eq [OF assms] half_def)
    then show ?thesis using neq green by simp
  qed
qed (simp add: Closeness_def solves_def)

section \<open>Well-formed sides\<close>

text \<open>
  \<open>side_ok P n s\<close>: the side of a duel on words of \<open>n\<close> letters of the puzzle \<open>P\<close>. Every list has the
  length the code indexes it with, rows are never fewer than guesses and never 0, energy is
  never negative, picked colors fit the word and are no solve, a scrambled keyboard is a
  permutation of the letters and ends with its last guess, destroyed letters are on the board.
\<close>

definition keyboard :: string where
  "keyboard = ''ABCDEFGHIJKLMNOPQRSTUVWXYZ''"

definition row_ok :: "puzzle \<Rightarrow> nat \<Rightarrow> guessRow \<Rightarrow> bool" where
  "row_ok P n g \<longleftrightarrow> rescorable P n (gr_word g) \<and> length (gr_colors g) = n \<and>
     length (gr_seen g) = n \<and> length (gr_shown g) = n"

definition pattern_ok :: "nat \<Rightarrow> WordleColor list option \<Rightarrow> bool" where
  "pattern_ok n f \<longleftrightarrow> (case f of None \<Rightarrow> True | Some cs \<Rightarrow> length cs = n \<and> \<not> solves cs)"

definition keys_ok :: "string option \<Rightarrow> int \<Rightarrow> bool" where
  "keys_ok m k \<longleftrightarrow> (case m of None \<Rightarrow> k = 0 | Some keys \<Rightarrow> mset keys = mset keyboard \<and> 0 < k)"

definition illusion_ok :: "illusionGame option \<Rightarrow> bool" where
  "illusion_ok i \<longleftrightarrow> (case i of None \<Rightarrow> True
     | Some g \<Rightarrow> ill_word g \<noteq> [] \<and> 0 \<le> ill_guesses g \<and> ill_guesses g < IllusionGuesses)"

definition on_board :: "duel_side \<Rightarrow> tile \<Rightarrow> bool" where
  "on_board s t \<longleftrightarrow> 0 \<le> fst t \<and> fst t < int (length (side_guesses s)) \<and>
     0 \<le> snd t \<and> snd t < int (length (gr_colors (side_guesses s ! nat (fst t))))"

definition side_ok :: "puzzle \<Rightarrow> nat \<Rightarrow> duel_side \<Rightarrow> bool" where
  "side_ok P n s \<longleftrightarrow>
     length (side_word s) = n \<and> length (greens s) = n \<and> length (found s) = 26 \<and>
     (\<forall>g \<in> set (side_guesses s). row_ok P n g) \<and>
     int (length (side_guesses s)) \<le> side_rows s \<and> 0 < side_rows s \<and> 0 \<le> energy s \<and>
     pattern_ok n (feint s) \<and> pattern_ok n (falseNext s) \<and>
     keys_ok (keymap s) (scrambledGuesses s) \<and> illusion_ok (illusion s) \<and>
     (\<forall>word \<in> set (reshape s). length word = n) \<and> (\<forall>t \<in> destroyed s. on_board s t)"

lemma side_okD:
  assumes "side_ok P n s"
  shows "length (side_word s) = n" "length (greens s) = n" "length (found s) = 26"
    "g \<in> set (side_guesses s) \<Longrightarrow> row_ok P n g"
    "int (length (side_guesses s)) \<le> side_rows s" "0 < side_rows s" "0 \<le> energy s"
    "pattern_ok n (feint s)" "pattern_ok n (falseNext s)"
    "keys_ok (keymap s) (scrambledGuesses s)" "illusion_ok (illusion s)"
    "word \<in> set (reshape s) \<Longrightarrow> length word = n" "t \<in> destroyed s \<Longrightarrow> on_board s t"
  using assms unfolding side_ok_def by blast+

text \<open>A letter a Seeing Eye may watch: on the board, not green, not destroyed.\<close>

definition watchable :: "duel_side \<Rightarrow> tile \<Rightarrow> bool" where
  "watchable s t \<longleftrightarrow> on_board s t \<and> t \<notin> destroyed s \<and>
     gr_colors (side_guesses s ! nat (fst t)) ! nat (snd t) \<noteq> Green"

definition eyes_ok :: "duel_side \<Rightarrow> duel_side \<Rightarrow> bool" where
  "eyes_ok s t \<longleftrightarrow> (\<forall>e \<in> set (eyes s). eye_on e \<longrightarrow> watchable t (eye_at e))"

text \<open>A running duel: neither side has solved, and not both are out of guesses.\<close>

definition duel_ok :: "puzzle \<Rightarrow> nat \<Rightarrow> duel \<Rightarrow> bool" where
  "duel_ok P n d \<longleftrightarrow>
     (\<forall>i. side_ok P n (d_side i d) \<and> eyes_ok (d_side i d) (d_side (other i) d) \<and>
          \<not> side_solved (d_side i d)) \<and>
     side_p (d_side SideA d) \<noteq> side_p (d_side SideB d) \<and>
     \<not> (side_out (d_side SideA d) \<and> side_out (d_side SideB d))"

lemma duel_okD:
  assumes "duel_ok P n d"
  shows "side_ok P n (d_side i d)" "eyes_ok (d_side i d) (d_side (other i) d)"
    "\<not> side_solved (d_side i d)" "\<not> (side_out (d_side i d) \<and> side_out (d_side (other i) d))"
    "side_p (d_side i d) \<noteq> side_p (d_side (other i) d)"
proof -
  show "side_ok P n (d_side i d)" "eyes_ok (d_side i d) (d_side (other i) d)"
    "\<not> side_solved (d_side i d)"
    using assms unfolding duel_ok_def by blast+
  have "\<not> (side_out (d_side SideA d) \<and> side_out (d_side SideB d))"
    "side_p (d_side SideA d) \<noteq> side_p (d_side SideB d)"
    using assms unfolding duel_ok_def by blast+
  then show "\<not> (side_out (d_side i d) \<and> side_out (d_side (other i) d))"
    "side_p (d_side i d) \<noteq> side_p (d_side (other i) d)"
    by (cases i; auto)+
qed

lemma duel_okI:
  assumes "\<And>i. side_ok P n (d_side i d)" and "\<And>i. eyes_ok (d_side i d) (d_side (other i) d)"
    and "\<And>i. \<not> side_solved (d_side i d)"
    and "\<not> (side_out (d_side SideA d) \<and> side_out (d_side SideB d))"
    and "side_p (d_side SideA d) \<noteq> side_p (d_side SideB d)"
  shows "duel_ok P n d"
  using assms unfolding duel_ok_def by blast

text \<open>Replacing one side of a running duel.\<close>

lemma duel_ok_upd:
  assumes "duel_ok P n d" and "side_ok P n (f (d_side i d))"
    and "side_p (f (d_side i d)) = side_p (d_side i d)"
    and "eyes_ok (f (d_side i d)) (d_side (other i) d)"
    and "eyes_ok (d_side (other i) d) (f (d_side i d))"
    and "\<not> side_solved (f (d_side i d))"
    and "side_out (f (d_side i d)) \<Longrightarrow> side_out (d_side (other i) d) \<Longrightarrow> False"
  shows "duel_ok P n (d_upd i f d)"
proof (rule duel_okI)
  fix j
  consider "j = i" | "j = other i" using who_neq_iff by blast
  then show "side_ok P n (d_side j (d_upd i f d))"
    "eyes_ok (d_side j (d_upd i f d)) (d_side (other j) (d_upd i f d))"
    "\<not> side_solved (d_side j (d_upd i f d))"
    by (cases; use assms duel_okD [OF assms(1)] in \<open>simp add: d_side_upd\<close>)+
next
  show "\<not> (side_out (d_side SideA (d_upd i f d)) \<and> side_out (d_side SideB (d_upd i f d)))"
    using assms(7) by (cases i) auto
next
  show "side_p (d_side SideA (d_upd i f d)) \<noteq> side_p (d_side SideB (d_upd i f d))"
    using assms(3) duel_okD(5) [OF assms(1), of i] by (cases i) auto
qed

text \<open>Updates of fields that no condition reads.\<close>

lemma side_ok_free [simp]:
  "side_ok P n (s\<lparr>stunnedUntil := x\<rparr>) = side_ok P n s"
  "side_ok P n (s\<lparr>silencedUntil := x\<rparr>) = side_ok P n s"
  "side_ok P n (s\<lparr>shield := b\<rparr>) = side_ok P n s"
  "side_ok P n (s\<lparr>eyes := es\<rparr>) = side_ok P n s"
  "side_ok P n (s\<lparr>missiles := ms\<rparr>) = side_ok P n s"
  "side_ok P n (s\<lparr>used_once := u\<rparr>) = side_ok P n s"
  "side_ok P n (s\<lparr>cheat := b\<rparr>) = side_ok P n s"
  "side_ok P n (s\<lparr>side_best := r\<rparr>) = side_ok P n s"
  "side_ok P n (s\<lparr>side_solved := b\<rparr>) = side_ok P n s"
  unfolding side_ok_def on_board_def by simp_all

lemma watchable_cong:
  "side_guesses s' = side_guesses s \<Longrightarrow> destroyed s' = destroyed s \<Longrightarrow> watchable s' t = watchable s t"
  by (simp add: watchable_def on_board_def)

lemma eyes_ok_cong:
  "eyes s' = eyes s \<Longrightarrow> side_guesses t' = side_guesses t \<Longrightarrow> destroyed t' = destroyed t \<Longrightarrow>
   eyes_ok s' t' = eyes_ok s t"
  unfolding eyes_ok_def watchable_def on_board_def by simp

text \<open>Replacing a side by one with the same board and eyes.\<close>

lemma duel_ok_upd_effects:
  assumes "duel_ok P n d" and "side_ok P n (f (d_side i d))"
    and "side_p (f (d_side i d)) = side_p (d_side i d)"
    and "eyes (f (d_side i d)) = eyes (d_side i d)"
    and "side_guesses (f (d_side i d)) = side_guesses (d_side i d)"
    and "destroyed (f (d_side i d)) = destroyed (d_side i d)"
    and "side_solved (f (d_side i d)) = side_solved (d_side i d)"
    and "side_rows (d_side i d) \<le> side_rows (f (d_side i d)) \<or> 0 < unusedRows (f (d_side i d))"
  shows "duel_ok P n (d_upd i f d)"
proof (rule duel_ok_upd [where f = f and i = i, OF assms(1-3)])
  show "eyes_ok (f (d_side i d)) (d_side (other i) d)"
    using eyes_ok_cong [OF assms(4) refl refl] duel_okD(2) [OF assms(1)] by blast
  show "eyes_ok (d_side (other i) d) (f (d_side i d))"
    using eyes_ok_cong [OF refl assms(5,6)] duel_okD(2) [OF assms(1), of "other i"] by simp
  show "\<not> side_solved (f (d_side i d))" using assms(7) duel_okD(3) [OF assms(1)] by simp
  show False if "side_out (f (d_side i d))" "side_out (d_side (other i) d)"
    using that assms(5,7,8) duel_okD(4) [OF assms(1), of i]
    by (auto simp: side_out_def unusedRows_def)
qed

lemma learned_eq:
  "learned g pay s s' \<Longrightarrow> s' = s\<lparr>energy := energy s', greens := greens s', found := found s'\<rparr>"
  unfolding learned_def by (rule conjunct1)

lemma learned_fields_eq:
  assumes "learned g pay s s'"
  shows "side_p s' = side_p s" "side_word s' = side_word s" "side_guesses s' = side_guesses s"
    "side_rows s' = side_rows s" "side_solved s' = side_solved s" "side_best s' = side_best s"
    "stunnedUntil s' = stunnedUntil s" "shield s' = shield s" "destroyed s' = destroyed s"
    "eyes s' = eyes s" "missiles s' = missiles s" "illusion s' = illusion s"
    "reshape s' = reshape s" "used_once s' = used_once s" "cheat s' = cheat s" "feint s' = feint s"
    "falseNext s' = falseNext s" "keymap s' = keymap s" "scrambledGuesses s' = scrambledGuesses s"
    "silencedUntil s' = silencedUntil s"
proof -
  obtain e gs fs where "s' = s\<lparr>energy := e, greens := gs, found := fs\<rparr>"
    using assms unfolding learned_def by blast
  then show "side_p s' = side_p s" "side_word s' = side_word s" "side_guesses s' = side_guesses s"
    "side_rows s' = side_rows s" "side_solved s' = side_solved s" "side_best s' = side_best s"
    "stunnedUntil s' = stunnedUntil s" "shield s' = shield s" "destroyed s' = destroyed s"
    "eyes s' = eyes s" "missiles s' = missiles s" "illusion s' = illusion s"
    "reshape s' = reshape s" "used_once s' = used_once s" "cheat s' = cheat s" "feint s' = feint s"
    "falseNext s' = falseNext s" "keymap s' = keymap s" "scrambledGuesses s' = scrambledGuesses s"
    "silencedUntil s' = silencedUntil s"
    by simp_all
qed

lemma learned_ok:
  assumes "side_ok P n s" and "learned g pay s s'"
  shows "side_ok P n s'"
proof -
  have "0 \<le> energy s'" "length (greens s') = n" "length (found s') = 26"
    using side_okD(2,3,7) [OF assms(1)] assms(2)
    by (auto simp: learned_def GreenEnergy_def YellowEnergy_def)
  then show ?thesis
    using assms(1) unfolding side_ok_def on_board_def learned_fields_eq [OF assms(2)] by blast
qed

lemma row_ok_lengths: "row_ok P n g \<Longrightarrow> length (gr_word g) = length (gr_colors g)"
  by (simp add: row_ok_def rescorable_def)

lemma duel_side_upd_best:
  fixes s :: duel_side
  assumes "t' = s\<lparr>greens := a, found := b, side_best := c, energy := energy s, greens := a', found := b'\<rparr>"
  shows "t'\<lparr>side_best := c'\<rparr> = s\<lparr>greens := a', found := b', side_best := c'\<rparr>"
  using assms by (cases s) simp

lemma relearn_runs:
  assumes "\<And>g. g \<in> set (side_guesses s) \<Longrightarrow> length (gr_word g) = length (gr_colors g)"
  shows "runs (relearn s) (\<lambda>s'. \<exists>gs fs b. s' = s\<lparr>greens := gs, found := fs, side_best := b\<rparr> \<and>
    length gs = length (greens s) \<and> length fs = 26)"
  unfolding relearn_def
proof (rule runs_fold_opt)
  show "\<exists>gs fs b. s\<lparr>greens := replicate (length (greens s)) False, found := replicate 26 False,
      side_best := 0\<rparr> = s\<lparr>greens := gs, found := fs, side_best := b\<rparr> \<and>
      length gs = length (greens s) \<and> length fs = 26"
    by (metis length_replicate)
next
  fix g t
  assume g: "g \<in> set (side_guesses s)" and "\<exists>gs fs b. t = s\<lparr>greens := gs, found := fs, side_best := b\<rparr> \<and>
      length gs = length (greens s) \<and> length fs = 26"
  then obtain gs fs b where t: "t = s\<lparr>greens := gs, found := fs, side_best := b\<rparr>"
    "length gs = length (greens s)" "length fs = 26" by blast
  show "runs (learn g False t \<bind> (\<lambda>(newGreen, s).
          Some (s\<lparr>side_best := max (side_best s) (Closeness (gr_colors g))\<rparr>)))
        (\<lambda>s'. \<exists>gs fs b. s' = s\<lparr>greens := gs, found := fs, side_best := b\<rparr> \<and>
          length gs = length (greens s) \<and> length fs = 26)"
    unfolding runs_bind
  proof (rule runs_conseq [OF learn_runs [OF assms [OF g], of False t]], clarify)
    fix new t'
    assume l: "learned g False t t'"
    then have e: "energy t' = energy t" by (simp add: learned_def)
    have "t' = t\<lparr>energy := energy t', greens := greens t', found := found t'\<rparr>"
      using l by (rule learned_eq)
    then have "t'\<lparr>side_best := c\<rparr> = s\<lparr>greens := greens t', found := found t', side_best := c\<rparr>" for c
      unfolding e t by (intro duel_side_upd_best) simp
    moreover have "length (greens t') = length (greens s)" "length (found t') = 26"
      using l t by (simp_all add: learned_def)
    ultimately show "runs (Some (t'\<lparr>side_best := max (side_best t') (Closeness (gr_colors g))\<rparr>))
        (\<lambda>s'. \<exists>gs fs b. s' = s\<lparr>greens := gs, found := fs, side_best := b\<rparr> \<and>
          length gs = length (greens s) \<and> length fs = 26)"
      unfolding runs_Some by blast
  qed
qed

lemma unusedRows_out: "side_solved s = False \<Longrightarrow> side_out s \<longleftrightarrow> unusedRows s \<le> 0"
  by (auto simp: side_out_def unusedRows_def)

section \<open>Properties\<close>

text \<open>A guess pays energy exactly for what is new: 2 for every green position not green
  before and 1 for every yellow letter not found before (nor just found in place). The side's
  record of greens and letters grows by exactly those, nothing else of the side changes, and the
  code never indexes the guess out of range.\<close>

theorem learn_pays:
  assumes "length (gr_word g) = length (gr_colors g)"
  shows "\<exists>new s'. learn g True s = Some (new, s') \<and>
    energy s' = energy s + 2 * int (card (greens_found g s)) + int (card (letters_found g s)) \<and>
    (\<forall>i < length (greens s). greens s' ! i \<longleftrightarrow> greens s ! i \<or> i \<in> greens_found g s) \<and>
    (\<forall>k < length (found s). found s' ! k \<longleftrightarrow> found s ! k \<or> k \<in> letters_found g s \<or>
        (\<exists>i \<in> greens_found g s. letter_index (gr_word g ! i) = int k)) \<and>
    (new \<longleftrightarrow> greens_found g s \<noteq> {}) \<and>
    s' = s\<lparr>energy := energy s', greens := greens s', found := found s'\<rparr>"
  using learn_runs [OF assms, of True s]
  by (auto simp: runs_iff learned_def GreenEnergy_def YellowEnergy_def)

theorem learn_pays_witness:
  "\<exists>new s'. learn (newGuessRow ''CRATE'' [Green, Green, Green, Grey, Green]) True (new_side 0 ''CRANE'' 6)
     = Some (new, s') \<and> 0 \<le> energy s'"
  using learn_pays [of "newGuessRow ''CRATE'' [Green, Green, Green, Grey, Green]" "new_side 0 ''CRANE'' 6"]
  by (force simp: newGuessRow_def)

lemma learned_again:
  assumes "length (gr_word g) = length (gr_colors g)" and "learned g pay s s'"
  shows "greens_found g s' = {}" and "letters_found g s' = {}"
proof -
  show g: "greens_found g s' = {}"
    using assms(2) unfolding learned_def greens_found_def by auto
  show "letters_found g s' = {}"
    using assms(2) unfolding learned_def letters_found_def [of g s'] g
    by (auto simp: letters_found_def)
qed

text \<open>Letters only pay the first time: learning the same guess again changes nothing and
  pays nothing.\<close>

theorem learn_again_pays_nothing:
  assumes "length (gr_word g) = length (gr_colors g)" and "learn g True s = Some (new, s')"
  shows "learn g True s' = Some (False, s')"
proof -
  have l: "learned g True s s'" using learn_runs [OF assms(1), of True s] assms(2) by simp
  note again = learned_again [OF assms(1) l]
  obtain b s'' where b: "learn g True s' = Some (b, s'')" "learned g True s' s''" "\<not> b"
    using learn_runs [OF assms(1), of True s'] by (auto simp: runs_iff again)
  have e: "energy s'' = energy s'" and gr: "greens s'' = greens s'" and fo: "found s'' = found s'"
    using b(2) by (auto simp: learned_def again intro: nth_equalityI)
  have "s'' = s'\<lparr>energy := energy s'', greens := greens s'', found := found s''\<rparr>"
    using b(2) by (rule learned_eq)
  then have "s'' = s'" unfolding e gr fo by simp
  then show ?thesis using b by simp
qed

theorem learn_again_witness:
  "\<exists>new s'. learn (newGuessRow ''CRATE'' [Green, Green, Green, Grey, Green]) True (new_side 0 ''CRANE'' 6)
       = Some (new, s') \<and>
     learn (newGuessRow ''CRATE'' [Green, Green, Green, Grey, Green]) True s' = Some (False, s')"
proof -
  let ?g = "newGuessRow ''CRATE'' [Green, Green, Green, Grey, Green]"
  have len: "length (gr_word ?g) = length (gr_colors ?g)" by (simp add: newGuessRow_def)
  obtain new s' where r: "learn ?g True (new_side 0 ''CRANE'' 6) = Some (new, s')"
    using learn_runs [OF len, of True "new_side 0 ''CRANE'' 6"] by (auto simp: runs_iff)
  then show ?thesis using learn_again_pays_nothing [OF len r] by blast
qed

text \<open>How close a guess was is a fraction between 0 and 1, and it is 1 exactly for a guess
  that solves.\<close>

theorem Closeness_fraction:
  assumes "length cs < 2 ^ 50"
  shows "0 \<le> Closeness cs \<and> Closeness cs \<le> 1 \<and> (Closeness cs = 1 \<longleftrightarrow> solves cs)"
  using Closeness_unit [OF assms] Closeness_one_iff [OF assms] by blast

theorem Closeness_fraction_witness: "Closeness [Green, Green, Green] = 1"
  using Closeness_fraction [of "[Green, Green, Green]"] by (simp add: solves_def)

end
