(* ===== verification/Duel_Effects.thy ===== *)
theory Duel_Effects
  imports Duel_Side
begin

text \<open>
  The building blocks of the ability code, on the world: what is sent to the duelists
  (\<open>syncDuel\<close>, \<open>castEvent\<close>), hostile effects and shields, Seeing Eyes, missiles that land,
  scrambled keyboards, rescoring against a new word, and what happens after a guess
  (\<open>internal/game/abilities.go\<close>, \<open>internal/game/rogue.go\<close>).

  The lemmas show that none of them panics on a running duel, that each keeps the duel
  well-formed, and that each stays within its duel (\<open>stays\<close>): no other part of the world
  changes and only the two duelists are sent anything.
\<close>

section \<open>Telling the duelists\<close>

text \<open>\<open>for _, s := range d.sides\<close>\<close>

definition each_side :: "(who \<Rightarrow> 'w \<Rightarrow> 'w) \<Rightarrow> 'w \<Rightarrow> 'w" where
  "each_side f w = f SideB (f SideA w)"

text \<open>\<open>_, other := d.sidesOf(s.p)\<close>\<close>

definition opponent :: "world \<Rightarrow> dref \<Rightarrow> who \<Rightarrow> who" where
  "opponent w d i = snd (sidesOf w d (side_p (side w d i)))"

definition sendDuelState :: "dref \<Rightarrow> who \<Rightarrow> world \<Rightarrow> world" where
  "sendDuelState d i w =
    (let o' = opponent w d i; now = w_now w; dl = d_deadline (w_dobj w d) in
     send_side d i (ServerDuelState
       \<lparr>dst_You = side_state now True (side w d i), dst_Them = side_state now False (side w d o'),
        dst_DeadlineMs = (if \<not> isZero dl then in_ms (max 0 (dl - now)) else 0)\<rparr>) w)"

definition syncDuel :: "dref \<Rightarrow> world \<Rightarrow> world" where
  "syncDuel d = each_side (sendDuelState d)"

definition castEvent ::
    "dref \<Rightarrow> who \<Rightarrow> string \<Rightarrow> DuelCastKind \<Rightarrow> bool \<Rightarrow> tile \<Rightarrow> world \<Rightarrow> world" where
  "castEvent d me ability kind blckd t =
    each_side (\<lambda>i. send_side d i (ServerDuelCast
      \<lparr>dc_ByYou = (i = me), dc_Ability = ability, dc_Kind = kind, dc_Blocked = blckd,
       dc_Row = fst t, dc_Col = snd t\<rparr>))"

text \<open>An ability hits the target unless its shield stops it, and is used up.\<close>

definition hostile ::
    "dref \<Rightarrow> who \<Rightarrow> who \<Rightarrow> string \<Rightarrow> DuelCastKind \<Rightarrow> tile \<Rightarrow> world \<Rightarrow> bool \<times> world" where
  "hostile d caster target ability kind t w =
    (let blckd = shield (side w d target);
         w = upd_side d target (\<lambda>s. s\<lparr>shield := False\<rparr>) w;
         w = castEvent d caster ability kind blckd t w
     in (\<not> blckd, w))"

section \<open>Seeing Eyes\<close>

text \<open>Whether an eye other than the one at index \<open>except\<close> watches \<open>t\<close>; a new eye has no index.\<close>

definition watching :: "duel_side \<Rightarrow> tile \<Rightarrow> nat option \<Rightarrow> bool" where
  "watching s t except \<longleftrightarrow>
     (\<exists>(k, e) \<in> set (enumerate 0 (eyes s)). Some k \<noteq> except \<and> eye_on e \<and> eye_at e = t)"

definition aim_options :: "duel_side \<Rightarrow> duel_side \<Rightarrow> nat option \<Rightarrow> tile list" where
  "aim_options watcher target except =
    [(int r, int c). (r, g) \<leftarrow> enumerate 0 (side_guesses target),
       (c, color) \<leftarrow> enumerate 0 (gr_colors g),
       \<not> (color = Green \<or> (int r, int c) \<in> destroyed target \<or> watching watcher (int r, int c) except)]"

definition aim ::
    "gotime \<Rightarrow> rng \<Rightarrow> duel_side \<Rightarrow> duel_side \<Rightarrow> nat option \<Rightarrow> eye \<Rightarrow> (eye \<times> rng) option" where
  "aim now r watcher target except e =
    (let options = aim_options watcher target except;
         e = e\<lparr>eye_next := now + EyeInterval, eye_on := options \<noteq> []\<rparr>
     in if options \<noteq> [] then do {
          (k, r) \<leftarrow> Intn (int (length options)) r;
          t \<leftarrow> at_int options k;
          Some (e\<lparr>eye_at := t\<rparr>, r)
        } else Some (e, r))"

definition aimEye :: "dref \<Rightarrow> who \<Rightarrow> who \<Rightarrow> nat \<Rightarrow> world \<Rightarrow> world option" where
  "aimEye d watcher target k w = do {
    (e, r) \<leftarrow> aim (w_now w) (w_rng w) (side w d watcher) (side w d target) (Some k)
                (eyes (side w d watcher) ! k);
    Some (upd_side d watcher (\<lambda>s. s\<lparr>eyes := (eyes s)[k := e]\<rparr>) (set_rng r w))
  }"

definition eye_tiles :: "duel_side \<Rightarrow> duel_side \<Rightarrow> EyeTile list option" where
  "eye_tiles watcher target = fold_opt (\<lambda>e tiles.
     if eye_on e then do {
       g \<leftarrow> at_int (side_guesses target) (fst (eye_at e));
       letter \<leftarrow> at_int (gr_word g) (snd (eye_at e));
       Some (tiles @ [\<lparr>et_Row = fst (eye_at e), et_Col = snd (eye_at e), et_Letter = [letter]\<rparr>])
     } else Some tiles) (eyes watcher) []"

definition sendEyes :: "dref \<Rightarrow> who \<Rightarrow> who \<Rightarrow> world \<Rightarrow> world option" where
  "sendEyes d watcher target w = do {
    tiles \<leftarrow> eye_tiles (side w d watcher) (side w d target);
    Some (send_side d watcher (ServerDuelEyes tiles) w)
  }"

text \<open>Moves eyes whose letter turned green or was destroyed.\<close>

definition reaimEyes :: "dref \<Rightarrow> who \<Rightarrow> who \<Rightarrow> world \<Rightarrow> world option" where
  "reaimEyes d watcher target w = do {
    (w, moved) \<leftarrow> fold_opt (\<lambda>k (w, moved).
        let e = eyes (side w d watcher) ! k in
        if eye_on e then do {
          g \<leftarrow> at_int (side_guesses (side w d target)) (fst (eye_at e));
          color \<leftarrow> at_int (gr_colors g) (snd (eye_at e));
          if color = Green \<or> eye_at e \<in> destroyed (side w d target)
          then do { w \<leftarrow> aimEye d watcher target k w; Some (w, True) }
          else Some (w, moved)
        } else Some (w, moved))
      [0..<length (eyes (side w d watcher))] (w, False);
    if moved then sendEyes d watcher target w else Some w
  }"

section \<open>Missiles, keyboards, new words\<close>

definition landMissile :: "dref \<Rightarrow> who \<Rightarrow> who \<Rightarrow> world \<Rightarrow> world" where
  "landMissile d caster target w =
    (let (hit, w) = hostile d caster target MagicMissile CastLanded (0, 0) w in
     if \<not> hit then w
     else let w = upd_side d target (\<lambda>s. snd (loseEnergy MissileEnergy s)) w in
       if 2 \<le> unusedRows (side w d target)
       then upd_side d target (\<lambda>s. s\<lparr>side_rows := side_rows s - 1\<rparr>) w else w)"

definition scrambledKeys :: "rng \<Rightarrow> string \<times> rng" where
  "scrambledKeys r = (let (js, r) = Perm 26 r in (map (\<lambda>j. char_of (65 + nat j)) js, r))"

definition swap_keys :: "string \<Rightarrow> int \<Rightarrow> int \<Rightarrow> string option" where
  "swap_keys keys i j = do {
    ki \<leftarrow> at_int keys i;
    kj \<leftarrow> at_int keys j;
    Some (keys[nat i := kj, nat j := ki])
  }"

definition swapKeys :: "dref \<Rightarrow> who \<Rightarrow> world \<Rightarrow> world option" where
  "swapKeys d i w = do {
    let keys = (case keymap (side w d i) of None \<Rightarrow> keyboard | Some keys \<Rightarrow> keys);
    (a, r) \<leftarrow> Intn 26 (w_rng w);
    (b, r) \<leftarrow> Intn 25 r;
    keys \<leftarrow> swap_keys keys a (go_rem (a + 1 + b) 26);
    Some (upd_side d i (\<lambda>s. s\<lparr>keymap := Some keys, scrambledGuesses := ScrambleGuesses\<rparr>)
           (set_rng r w))
  }"

text \<open>\<open>rescore\<close>: every guess is scored again against the new word.\<close>

definition rescore_rows :: "puzzle \<Rightarrow> string \<Rightarrow> guessRow list \<Rightarrow> guessRow list" where
  "rescore_rows P word = map (\<lambda>g. newGuessRow (gr_word g) (snd (pScoreAny P (gr_word g) word)))"

definition rescore :: "dref \<Rightarrow> who \<Rightarrow> string \<Rightarrow> world \<Rightarrow> world option" where
  "rescore d i word w = do {
    P \<leftarrow> w_Duels w;
    s \<leftarrow> relearn ((side w d i)\<lparr>side_word := word,
                          side_guesses := rescore_rows P word (side_guesses (side w d i))\<rparr>);
    Some (upd_side d i (\<lambda>_. s) w)
  }"

section \<open>After a guess\<close>

definition aim_all :: "dref \<Rightarrow> who \<Rightarrow> who \<Rightarrow> world \<Rightarrow> world option" where
  "aim_all d watcher target w =
     fold_opt (aimEye d watcher target) [0..<length (eyes (side w d watcher))] w"

text \<open>The passive of the guesser's class, set off by a new green letter.\<close>

definition trigger_passive :: "dref \<Rightarrow> who \<Rightarrow> who \<Rightarrow> world \<Rightarrow> world option" where
  "trigger_passive d me them w =
    (let passive = PassiveOf (e_Class (ent_of w (side_p (side w d me)))); now = w_now w in
     if passive = Aggressive then
       (let (hit, w) = hostile d me them Aggressive CastTriggered (0, 0) w in
        Some (if hit then upd_side d them (stun (now + AggressiveStun)) w else w))
     else if passive = Wise then
       (if eyes (side w d me) \<noteq> [] then do {
          w \<leftarrow> aim_all d me them w;
          w \<leftarrow> sendEyes d me them w;
          Some (send_side d me (ServerDuelCast
            \<lparr>dc_ByYou = True, dc_Ability = Wise, dc_Kind = CastTriggered, dc_Blocked = False,
             dc_Row = 0, dc_Col = 0\<rparr>) w)
        } else Some w)
     else if passive = Sneaky then
       (let (hit, w) = hostile d me them Sneaky CastTriggered (0, 0) w in
        if hit then swapKeys d them w else Some w)
     else if passive = DivineWill then
       (let (hit, w) = hostile d me them DivineWill CastTriggered (0, 0) w in
        Some (if hit then
                (let until = now + DivineWillSilence in
                 upd_side d them (\<lambda>s. if silencedUntil s < until then s\<lparr>silencedUntil := until\<rparr> else s) w)
              else w))
     else Some w)"

definition aim_idle :: "dref \<Rightarrow> who \<Rightarrow> who \<Rightarrow> world \<Rightarrow> (world \<times> bool) option" where
  "aim_idle d watcher target w = fold_opt (\<lambda>k (w, idle).
      if \<not> eye_on (eyes (side w d watcher) ! k) then do {
        w \<leftarrow> aimEye d watcher target k w;
        Some (w, idle \<or> eye_on (eyes (side w d watcher) ! k))
      } else Some (w, idle))
    [0..<length (eyes (side w d watcher))] (w, False)"

definition afterGuess :: "dref \<Rightarrow> who \<Rightarrow> who \<Rightarrow> world \<Rightarrow> world option" where
  "afterGuess d me them w = do {
    g \<leftarrow> at_int (side_guesses (side w d me)) (int (length (side_guesses (side w d me))) - 1);
    (newGreen, s) \<leftarrow> learn g True (side w d me);
    let w = upd_side d me (\<lambda>_. s) w;
    let w = fold (\<lambda>_. castEvent d them MagicMissile CastFizzled False (0, 0))
              (missiles (side w d me)) w;
    let w = upd_side d me (\<lambda>s. s\<lparr>missiles := []\<rparr>) w;
    w \<leftarrow> if newGreen then trigger_passive d me them w else Some w;
    (w, idle) \<leftarrow> aim_idle d them me w;
    w \<leftarrow> if idle then sendEyes d them me w else Some w;
    Some (syncDuel d w)
  }"

section \<open>Staying within a duel\<close>

lemma world_simps [simp]:
  "side (send c m w) d i = side w d i" "side (set_rng r w) d i = side w d i"
  "w_dobj (send c m w) = w_dobj w" "w_dobj (set_rng r w) = w_dobj w"
  "w_now (send c m w) = w_now w" "w_now (set_rng r w) = w_now w" "w_now (upd_side d i f w) = w_now w"
  "w_rng (send c m w) = w_rng w" "w_rng (set_rng r w) = r" "w_rng (upd_side d i f w) = w_rng w"
  "w_Duels (send c m w) = w_Duels w" "w_Duels (set_rng r w) = w_Duels w"
  "w_Duels (upd_side d i f w) = w_Duels w"
  "w_pobj (send c m w) = w_pobj w" "w_pobj (set_rng r w) = w_pobj w"
  "w_pobj (upd_side d i f w) = w_pobj w"
  by (simp_all add: send_def set_rng_def side_def upd_side_def upd_duel_def)

lemma side_upd_side:
  "side (upd_side d i f w) d' j = (if d' = d \<and> j = i then f (side w d i) else side w d' j)"
  by (simp add: side_def upd_side_def upd_duel_def d_side_upd)

lemma side_upd_side_same [simp]: "side (upd_side d i f w) d i = f (side w d i)"
  and side_upd_side_other [simp]: "side (upd_side d i f w) d (other i) = side w d (other i)"
  and side_upd_other_side [simp]: "side (upd_side d (other i) f w) d i = side w d i"
  by (simp_all add: side_upd_side)

lemma w_dobj_upd_side [simp]: "w_dobj (upd_side d i f w) d = d_upd i f (w_dobj w d)"
  by (simp add: upd_side_def upd_duel_def)

lemma send_side_simps [simp]:
  "side (send_side d i m w) d' j = side w d' j" "w_dobj (send_side d i m w) = w_dobj w"
  "w_now (send_side d i m w) = w_now w" "w_rng (send_side d i m w) = w_rng w"
  "w_Duels (send_side d i m w) = w_Duels w" "w_pobj (send_side d i m w) = w_pobj w"
  by (simp_all add: send_side_def)

definition MaxPrayers :: nat where "MaxPrayers = 4"

text \<open>What identifies a duel: its players, its start, whether it is ranked.\<close>

definition same_duel :: "duel \<Rightarrow> duel \<Rightarrow> bool" where
  "same_duel D D' \<longleftrightarrow> (\<forall>i. side_p (d_side i D') = side_p (d_side i D)) \<and>
     d_start D' = d_start D \<and> d_ranked D' = d_ranked D"

definition duelists :: "world \<Rightarrow> dref \<Rightarrow> client set" where
  "duelists w d = (\<lambda>i. p_client (w_pobj w (side_p (side w d i)))) ` UNIV"

definition prayers_grow :: "dref \<Rightarrow> prayer_job list \<Rightarrow> prayer_job list \<Rightarrow> bool" where
  "prayers_grow d js js' \<longleftrightarrow> (\<exists>new. js' = js @ new \<and> (\<forall>j \<in> set new. pj_duel j = d \<and> 0 \<le> pj_cost j) \<and>
     (new \<noteq> [] \<longrightarrow> length js' \<le> MaxPrayers))"

text \<open>The messages a client draws the world from: nothing a duel sends.\<close>

fun paints :: "ServerMsg \<Rightarrow> bool" where
  "paints (ServerWelcome _) = True"
| "paints (ServerWorld _) = True"
| "paints _ = False"

text \<open>
  An operation stays within the duel \<open>d\<close>: of the world it changes at most that duel's object,
  the random numbers, the prayers of that duel and the outbox, where messages are only appended
  and only for the two duelists, none of which paints the world.
\<close>

definition tells :: "client set \<Rightarrow> world \<Rightarrow> world \<Rightarrow> bool" where
  "tells cs w w' \<longleftrightarrow> (\<exists>ms. w_out w' = w_out w @ ms \<and> (\<forall>(c, m) \<in> set ms. c \<in> cs \<and> \<not> paints m))"

definition stays :: "dref \<Rightarrow> world \<Rightarrow> world \<Rightarrow> bool" where
  "stays d w w' \<longleftrightarrow>
     w' = w\<lparr>w_dobj := (w_dobj w)(d := w_dobj w' d), w_rng := w_rng w', w_out := w_out w',
            w_praying := w_praying w', w_nextPrayer := w_nextPrayer w'\<rparr> \<and>
     same_duel (w_dobj w d) (w_dobj w' d) \<and>
     tells (duelists w d) w w' \<and>
     prayers_grow d (w_praying w) (w_praying w')"

lemma same_duel_refl [simp]: "same_duel D D"
  by (simp add: same_duel_def)

lemma same_duel_trans: "same_duel D D' \<Longrightarrow> same_duel D' D'' \<Longrightarrow> same_duel D D''"
  by (simp add: same_duel_def)

lemma prayers_grow_refl [simp]: "prayers_grow d js js"
  by (simp add: prayers_grow_def)

lemma prayers_grow_trans:
  assumes "prayers_grow d js js'" and "prayers_grow d js' js''"
  shows "prayers_grow d js js''"
proof -
  obtain a b where "js' = js @ a" "\<forall>j \<in> set a. pj_duel j = d \<and> 0 \<le> pj_cost j"
      "a \<noteq> [] \<longrightarrow> length js' \<le> MaxPrayers"
      "js'' = js' @ b" "\<forall>j \<in> set b. pj_duel j = d \<and> 0 \<le> pj_cost j"
      "b \<noteq> [] \<longrightarrow> length js'' \<le> MaxPrayers"
    using assms unfolding prayers_grow_def by blast
  then show ?thesis unfolding prayers_grow_def by (intro exI [of _ "a @ b"]) (cases b; auto)
qed

lemma tells_refl [simp]: "tells cs w w"
  by (simp add: tells_def)

lemma tells_trans: "tells cs w w' \<Longrightarrow> tells cs w' w'' \<Longrightarrow> tells cs w w''"
  unfolding tells_def by fastforce

lemma tells_send [simp]: "c \<in> cs \<Longrightarrow> \<not> paints m \<Longrightarrow> tells cs w (send c m w)"
  by (simp add: tells_def send_def)

lemma tells_same: "w_out w' = w_out w \<Longrightarrow> tells cs w w'"
  by (simp add: tells_def)

lemma staysD:
  assumes "stays d w w'"
  shows "w_Map w' = w_Map w" "w_Duels w' = w_Duels w" "w_OnRanked w' = w_OnRanked w"
    "w_matches w' = w_matches w" "w_Oracle w' = w_Oracle w" "w_entities w' = w_entities w"
    "w_eobj w' = w_eobj w" "w_players w' = w_players w" "w_pobj w' = w_pobj w" "w_grid w' = w_grid w"
    "w_nextID w' = w_nextID w" "w_tick w' = w_tick w" "w_moved w' = w_moved w"
    "w_eloChanged w' = w_eloChanged w" "w_challenges w' = w_challenges w"
    "w_nextChallenge w' = w_nextChallenge w" "w_duels w' = w_duels w" "w_answered w' = w_answered w"
    "w_now w' = w_now w" "w_fate w' = w_fate w" "w_online w' = w_online w"
    "w_rejected w' = w_rejected w" "w_fresh w' = w_fresh w"
    "d' \<noteq> d \<Longrightarrow> w_dobj w' d' = w_dobj w d'" "same_duel (w_dobj w d) (w_dobj w' d)"
    "prayers_grow d (w_praying w) (w_praying w')" "tells (duelists w d) w w'"
proof -
  obtain D r ms js k where "w' = w\<lparr>w_dobj := (w_dobj w)(d := D), w_rng := r, w_out := ms,
      w_praying := js, w_nextPrayer := k\<rparr>"
    using assms unfolding stays_def by blast
  then show "w_Map w' = w_Map w" "w_Duels w' = w_Duels w" "w_OnRanked w' = w_OnRanked w"
    "w_matches w' = w_matches w" "w_Oracle w' = w_Oracle w" "w_entities w' = w_entities w"
    "w_eobj w' = w_eobj w" "w_players w' = w_players w" "w_pobj w' = w_pobj w" "w_grid w' = w_grid w"
    "w_nextID w' = w_nextID w" "w_tick w' = w_tick w" "w_moved w' = w_moved w"
    "w_eloChanged w' = w_eloChanged w" "w_challenges w' = w_challenges w"
    "w_nextChallenge w' = w_nextChallenge w" "w_duels w' = w_duels w" "w_answered w' = w_answered w"
    "w_now w' = w_now w" "w_fate w' = w_fate w" "w_online w' = w_online w"
    "w_rejected w' = w_rejected w" "w_fresh w' = w_fresh w"
    "d' \<noteq> d \<Longrightarrow> w_dobj w' d' = w_dobj w d'"
    by simp_all
  show "same_duel (w_dobj w d) (w_dobj w' d)" "prayers_grow d (w_praying w) (w_praying w')"
    "tells (duelists w d) w w'"
    using assms unfolding stays_def by (iprover elim: conjE)+
qed

lemma stays_side_p:
  assumes "stays d w w'"
  shows "side_p (side w' d i) = side_p (side w d i)" and "duelists w' d = duelists w d"
  using staysD(9,25) [OF assms] by (simp_all add: same_duel_def side_def duelists_def)

lemma stays_refl [simp]: "stays d w w"
  by (simp add: stays_def)

lemma stays_trans:
  assumes "stays d w w'" and "stays d w' w''"
  shows "stays d w w''"
proof -
  obtain D r ms js k where w': "w' = w\<lparr>w_dobj := (w_dobj w)(d := D), w_rng := r, w_out := ms,
      w_praying := js, w_nextPrayer := k\<rparr>"
    using assms(1) unfolding stays_def by blast
  obtain D2 r2 ms2 js2 k2 where w'': "w'' = w'\<lparr>w_dobj := (w_dobj w')(d := D2), w_rng := r2,
      w_out := ms2, w_praying := js2, w_nextPrayer := k2\<rparr>"
    using assms(2) unfolding stays_def by blast
  have "w'' = w\<lparr>w_dobj := (w_dobj w)(d := w_dobj w'' d), w_rng := w_rng w'', w_out := w_out w'',
            w_praying := w_praying w'', w_nextPrayer := w_nextPrayer w''\<rparr>"
    unfolding w'' w' by simp
  moreover have "same_duel (w_dobj w d) (w_dobj w'' d)"
    using staysD(25) [OF assms(1)] staysD(25) [OF assms(2)] by (rule same_duel_trans)
  moreover have "tells (duelists w d) w w''"
    using tells_trans [OF staysD(27) [OF assms(1)]] staysD(27) [OF assms(2)] stays_side_p(2) [OF assms(1)] by simp
  moreover have "prayers_grow d (w_praying w) (w_praying w'')"
    using staysD(26) [OF assms(1)] staysD(26) [OF assms(2)] by (rule prayers_grow_trans)
  ultimately show ?thesis unfolding stays_def by blast
qed

lemma stays_set_rng [simp]: "stays d w (set_rng r w)"
  by (simp add: stays_def set_rng_def tells_same)

lemma stays_send_side [simp]: "\<not> paints m \<Longrightarrow> stays d w (send_side d i m w)"
  by (simp add: stays_def send_side_def duelists_def) (simp add: send_def)

lemma stays_upd_side [intro]:
  assumes "side_p (f (side w d i)) = side_p (side w d i)"
  shows "stays d w (upd_side d i f w)"
  using assms by (simp add: stays_def upd_side_def upd_duel_def same_duel_def side_def d_side_upd tells_same)

lemma stays_each_side:
  assumes "\<And>i w. stays d w (f i w)"
  shows "stays d w (each_side f w)"
  unfolding each_side_def by (rule stays_trans [OF assms assms])

text \<open>\<open>keeps\<close>: within the duel, and the duel stays well-formed.\<close>

definition keeps :: "puzzle \<Rightarrow> nat \<Rightarrow> dref \<Rightarrow> world \<Rightarrow> world \<Rightarrow> bool" where
  "keeps P n d w w' \<longleftrightarrow> stays d w w' \<and> duel_ok P n (w_dobj w' d)"

lemma keepsD: "keeps P n d w w' \<Longrightarrow> stays d w w'" "keeps P n d w w' \<Longrightarrow> duel_ok P n (w_dobj w' d)"
  by (simp_all add: keeps_def)

lemma keeps_refl: "duel_ok P n (w_dobj w d) \<Longrightarrow> keeps P n d w w"
  by (simp add: keeps_def)

lemma keeps_trans: "stays d w w' \<Longrightarrow> keeps P n d w' w'' \<Longrightarrow> keeps P n d w w''"
  by (auto simp: keeps_def intro: stays_trans)

lemma keeps_same: "stays d w w' \<Longrightarrow> w_dobj w' d = w_dobj w d \<Longrightarrow> duel_ok P n (w_dobj w d) \<Longrightarrow> keeps P n d w w'"
  by (simp add: keeps_def)

lemma keeps_upd_side:
  assumes "side_p (f (side w d i)) = side_p (side w d i)" and "duel_ok P n (d_upd i f (w_dobj w d))"
  shows "keeps P n d w (upd_side d i f w)"
  using assms by (simp add: keeps_def stays_upd_side)

lemma side_okI: "duel_ok P n (w_dobj w d) \<Longrightarrow> side_ok P n (side w d i)"
  by (simp add: side_def duel_okD)

section \<open>Messages and hostile effects\<close>

lemma stays_sends [simp]:
  "\<not> paints m \<Longrightarrow> \<not> paints m' \<Longrightarrow> stays d w (send_side d j m' (send_side d i m w))"
  by (rule stays_trans [OF stays_send_side stays_send_side])

lemma each_side_send_simps [simp]:
  "side (each_side (\<lambda>i. send_side d i (m i)) w) d' j = side w d' j"
  "w_dobj (each_side (\<lambda>i. send_side d i (m i)) w) = w_dobj w"
  "w_now (each_side (\<lambda>i. send_side d i (m i)) w) = w_now w"
  "w_rng (each_side (\<lambda>i. send_side d i (m i)) w) = w_rng w"
  "w_Duels (each_side (\<lambda>i. send_side d i (m i)) w) = w_Duels w"
  "(\<And>i. \<not> paints (m i)) \<Longrightarrow> stays d w (each_side (\<lambda>i. send_side d i (m i)) w)"
  by (simp_all add: each_side_def stays_sends)

lemma castEvent_simps [simp]:
  "side (castEvent d me a k b t w) d' j = side w d' j"
  "w_dobj (castEvent d me a k b t w) = w_dobj w"
  "w_now (castEvent d me a k b t w) = w_now w" "w_rng (castEvent d me a k b t w) = w_rng w"
  "w_Duels (castEvent d me a k b t w) = w_Duels w" "stays d w (castEvent d me a k b t w)"
  by (simp_all add: castEvent_def)

lemma sendDuelState_simps [simp]:
  "side (sendDuelState d i w) d' j = side w d' j" "w_dobj (sendDuelState d i w) = w_dobj w"
  "stays d w (sendDuelState d i w)"
  by (simp_all add: sendDuelState_def Let_def)

lemma syncDuel_simps [simp]:
  "side (syncDuel d w) d' j = side w d' j" "w_dobj (syncDuel d w) = w_dobj w"
  "stays d w (syncDuel d w)"
  by (simp_all add: syncDuel_def each_side_def stays_each_side [unfolded each_side_def])

lemma opponent_other: "duel_ok P n (w_dobj w d) \<Longrightarrow> opponent w d i = other i"
  using duel_okD(5) [of P n "w_dobj w d" SideA]
  by (cases i) (auto simp: opponent_def sidesOf_def side_def)

lemma hostile_hit: "fst (hostile d me them a k t w) \<longleftrightarrow> \<not> shield (side w d them)"
  by (simp add: hostile_def Let_def)

lemma hostile_simps [simp]:
  "w_dobj (snd (hostile d me them a k t w)) d = d_upd them (\<lambda>s. s\<lparr>shield := False\<rparr>) (w_dobj w d)"
  "side (snd (hostile d me them a k t w)) d them = (side w d them)\<lparr>shield := False\<rparr>"
  "side (snd (hostile d me them a k t w)) d (other them) = side w d (other them)"
  "w_now (snd (hostile d me them a k t w)) = w_now w"
  "w_rng (snd (hostile d me them a k t w)) = w_rng w"
  "w_Duels (snd (hostile d me them a k t w)) = w_Duels w"
  by (simp_all add: hostile_def Let_def)

lemma stays_hostile: "stays d w (snd (hostile d me them a k t w))"
  by (simp add: hostile_def Let_def) (rule stays_trans [OF stays_upd_side castEvent_simps(6)]; simp)

lemma keeps_hostile:
  assumes "duel_ok P n (w_dobj w d)"
  shows "keeps P n d w (snd (hostile d me them a k t w))"
  unfolding keeps_def hostile_simps
  by (intro conjI stays_hostile duel_ok_upd_effects [OF assms])
    (use duel_okD(1) [OF assms] in simp_all)

text \<open>An effect that leaves board and eyes alone, put on one side.\<close>

lemma keeps_effect:
  assumes "duel_ok P n (w_dobj w d)" and "side_ok P n (f (side w d i))"
    and "side_p (f (side w d i)) = side_p (side w d i)"
    and "eyes (f (side w d i)) = eyes (side w d i)"
    and "side_guesses (f (side w d i)) = side_guesses (side w d i)"
    and "destroyed (f (side w d i)) = destroyed (side w d i)"
    and "side_solved (f (side w d i)) = side_solved (side w d i)"
    and "side_rows (side w d i) \<le> side_rows (f (side w d i)) \<or> 0 < unusedRows (f (side w d i))"
  shows "keeps P n d w (upd_side d i f w)"
  using assms unfolding side_def
  by (intro keeps_upd_side duel_ok_upd_effects) (simp_all add: side_def)

section \<open>Seeing Eyes\<close>

lemma aim_options_watchable:
  assumes "t \<in> set (aim_options watcher target except)"
  shows "watchable target t" and "\<not> watching watcher t except"
  using assms
  by (auto simp: aim_options_def watchable_def on_board_def in_enumerate_0 split: if_splits)

lemma aim_runs:
  "runs (aim now r watcher target except e) (\<lambda>(e', r').
     (eye_on e' \<longrightarrow> watchable target (eye_at e') \<and> \<not> watching watcher (eye_at e') except) \<and>
     eye_next e' = now + EyeInterval)"
proof -
  let ?os = "aim_options watcher target except"
  have "watchable target (?os ! nat (int k mod int (length ?os)))"
    "\<not> watching watcher (?os ! nat (int k mod int (length ?os))) except" if "?os \<noteq> []" for k
  proof -
    have "?os ! nat (int k mod int (length ?os)) \<in> set ?os"
      using that by (intro nth_mem) (simp add: zmod_int [symmetric] nat_int)
    then show "watchable target (?os ! nat (int k mod int (length ?os)))"
      "\<not> watching watcher (?os ! nat (int k mod int (length ?os))) except"
      by (rule aim_options_watchable)+
  qed
  then show ?thesis
    by (auto simp: aim_def Let_def runs_at_int runs_Intn split_def)
qed

text \<open>An operation that only aims eyes of one side.\<close>

definition aimed :: "dref \<Rightarrow> who \<Rightarrow> world \<Rightarrow> world \<Rightarrow> bool" where
  "aimed d i w w' \<longleftrightarrow> stays d w w' \<and>
     w_dobj w' d = d_upd i (\<lambda>s. s\<lparr>eyes := eyes (side w' d i)\<rparr>) (w_dobj w d) \<and>
     length (eyes (side w' d i)) = length (eyes (side w d i))"

lemma d_upd_cong: "f (d_side i D) = g (d_side i D) \<Longrightarrow> d_upd i f D = d_upd i g D"
  by (cases i) simp_all

lemma d_upd_id: "f (d_side i D) = d_side i D \<Longrightarrow> d_upd i f D = D"
  by (cases i) simp_all

lemma d_upd_d_upd: "d_upd i g (d_upd i f D) = d_upd i (\<lambda>s. g (f s)) D"
  by (cases i) simp_all

lemma aimed_refl [simp]: "aimed d i w w"
  by (simp add: aimed_def side_def d_upd_id)

lemma aimed_stays: "aimed d i w w' \<Longrightarrow> stays d w w'"
  by (simp add: aimed_def)

lemma aimed_side:
  assumes "aimed d i w w'"
  shows "side w' d i = (side w d i)\<lparr>eyes := eyes (side w' d i)\<rparr>"
    and "side w' d (other i) = side w d (other i)"
    and "length (eyes (side w' d i)) = length (eyes (side w d i))"
proof -
  obtain es where es: "w_dobj w' d = d_upd i (\<lambda>s. s\<lparr>eyes := es\<rparr>) (w_dobj w d)"
    using assms unfolding aimed_def by blast
  show "side w' d i = (side w d i)\<lparr>eyes := eyes (side w' d i)\<rparr>"
    "side w' d (other i) = side w d (other i)"
    by (simp_all add: side_def es d_side_upd)
  show "length (eyes (side w' d i)) = length (eyes (side w d i))"
    using assms by (simp add: aimed_def)
qed

lemma aimed_trans:
  assumes "aimed d i w w'" and "aimed d i w' w''"
  shows "aimed d i w w''"
proof -
  obtain es es' where es: "w_dobj w' d = d_upd i (\<lambda>s. s\<lparr>eyes := es\<rparr>) (w_dobj w d)"
      "w_dobj w'' d = d_upd i (\<lambda>s. s\<lparr>eyes := es'\<rparr>) (w_dobj w' d)"
    using assms unfolding aimed_def by blast
  then show ?thesis
    using assms stays_trans by (auto simp: aimed_def d_upd_d_upd side_def d_side_upd)
qed

lemma aimEye_runs:
  assumes "k < length (eyes (side w d i))"
  shows "runs (aimEye d i (other i) k w) (\<lambda>w'. aimed d i w w' \<and>
    (\<exists>e. eyes (side w' d i) = (eyes (side w d i))[k := e] \<and>
       (eye_on e \<longrightarrow> watchable (side w d (other i)) (eye_at e) \<and>
          \<not> watching (side w d i) (eye_at e) (Some k)) \<and>
       eye_next e = w_now w + EyeInterval))"
proof -
  let ?f = "\<lambda>e s. s\<lparr>eyes := (eyes s)[k := e]\<rparr>"
  have a: "aimed d i w (upd_side d i (?f e) (set_rng r w))" for e r
  proof -
    have "stays d (set_rng r w) (upd_side d i (?f e) (set_rng r w))"
      by (rule stays_upd_side) simp
    then have "stays d w (upd_side d i (?f e) (set_rng r w))"
      by (rule stays_trans [OF stays_set_rng])
    then show ?thesis
      unfolding aimed_def by (simp add: side_def d_side_upd) (rule d_upd_cong, simp)
  qed
  show ?thesis
    unfolding aimEye_def runs_bind split_def runs_Some
    by (rule runs_conseq [OF aim_runs]) (use a in auto)
qed

text \<open>The board is in order, except perhaps for what the eyes watch.\<close>

definition eyes_on_board :: "duel_side \<Rightarrow> duel_side \<Rightarrow> bool" where
  "eyes_on_board s t \<longleftrightarrow> (\<forall>e \<in> set (eyes s). eye_on e \<longrightarrow> on_board t (eye_at e))"

definition rows_ok :: "duel_side \<Rightarrow> bool" where
  "rows_ok s \<longleftrightarrow> (\<forall>g \<in> set (side_guesses s). length (gr_word g) = length (gr_colors g))"

lemma side_ok_rows_ok: "side_ok P n s \<Longrightarrow> rows_ok s"
  using side_okD(4) row_ok_lengths by (fastforce simp: rows_ok_def)

lemma eyes_ok_on_board: "eyes_ok s t \<Longrightarrow> eyes_on_board s t"
  by (auto simp: eyes_ok_def eyes_on_board_def watchable_def)

lemma on_board_indices:
  assumes "on_board s t"
  shows "0 \<le> fst t" "fst t < int (length (side_guesses s))" "0 \<le> snd t"
    "snd t < int (length (gr_colors (side_guesses s ! nat (fst t))))"
    "rows_ok s \<Longrightarrow> snd t < int (length (gr_word (side_guesses s ! nat (fst t))))"
proof -
  show "0 \<le> fst t" "fst t < int (length (side_guesses s))" "0 \<le> snd t"
    and c: "snd t < int (length (gr_colors (side_guesses s ! nat (fst t))))"
    using assms by (auto simp: on_board_def)
  then have "side_guesses s ! nat (fst t) \<in> set (side_guesses s)" by (intro nth_mem) linarith
  then show "rows_ok s \<Longrightarrow> snd t < int (length (gr_word (side_guesses s ! nat (fst t))))"
    using c by (auto simp: rows_ok_def)
qed

lemma eye_tiles_runs:
  assumes "eyes_on_board s t" and "rows_ok t"
  shows "runs (eye_tiles s t) (\<lambda>_. True)"
  unfolding eye_tiles_def
proof (rule runs_fold_opt)
  fix e and tiles :: "EyeTile list"
  assume "e \<in> set (eyes s)"
  then have "eye_on e \<Longrightarrow> on_board t (eye_at e)" using assms(1) by (simp add: eyes_on_board_def)
  then show "runs (if eye_on e then do {
       g \<leftarrow> at_int (side_guesses t) (fst (eye_at e));
       letter \<leftarrow> at_int (gr_word g) (snd (eye_at e));
       Some (tiles @ [\<lparr>et_Row = fst (eye_at e), et_Col = snd (eye_at e), et_Letter = [letter]\<rparr>])
     } else Some tiles) (\<lambda>_. True)"
    using on_board_indices [of t "eye_at e"] assms(2) by (simp add: runs_at_int)
qed simp

lemma sendEyes_runs:
  assumes "eyes_on_board (side w d i) (side w d j)" and "rows_ok (side w d j)"
  shows "runs (sendEyes d i j w) (\<lambda>w'. stays d w w' \<and> w_dobj w' = w_dobj w)"
  using eye_tiles_runs [OF assms] by (auto simp: sendEyes_def runs_iff)

text \<open>The loops over the eyes of a side.\<close>

definition good_eye :: "duel_side \<Rightarrow> eye \<Rightarrow> bool" where
  "good_eye t e \<longleftrightarrow> (eye_on e \<longrightarrow> watchable t (eye_at e))"

lemma eyes_ok_nth: "eyes_ok s t \<longleftrightarrow> (\<forall>k < length (eyes s). good_eye t (eyes s ! k))"
  by (simp add: eyes_ok_def good_eye_def all_set_conv_all_nth)

text \<open>One more eye aimed, in terms of the state before the loop.\<close>

lemma aimEye_step:
  assumes "aimed d i w0 w" and "k < length (eyes (side w0 d i))"
  shows "runs (aimEye d i (other i) k w) (\<lambda>w'. aimed d i w0 w' \<and>
    good_eye (side w0 d (other i)) (eyes (side w' d i) ! k) \<and>
    (\<forall>m. m \<noteq> k \<longrightarrow> eyes (side w' d i) ! m = eyes (side w d i) ! m))"
proof -
  have k: "k < length (eyes (side w d i))" using assms aimed_side(3) by simp
  show ?thesis
    by (rule runs_conseq [OF aimEye_runs [OF k]])
      (use k aimed_trans [OF assms(1)] aimed_side(2) [OF assms(1)] in \<open>auto simp: good_eye_def\<close>)
qed

lemma aim_all_runs:
  "runs (aim_all d i (other i) w) (\<lambda>w'. aimed d i w w' \<and> eyes_ok (side w' d i) (side w' d (other i)))"
proof -
  let ?I = "\<lambda>k w'. aimed d i w w' \<and> (\<forall>m < k. good_eye (side w d (other i)) (eyes (side w' d i) ! m))"
  have "runs (aim_all d i (other i) w) (?I (length (eyes (side w d i))))"
    unfolding aim_all_def
  proof (rule runs_fold_upt)
    fix k w'
    assume k: "k < length (eyes (side w d i))" and I: "?I k w'"
    show "runs (aimEye d i (other i) k w') (?I (Suc k))"
      by (rule runs_conseq [OF aimEye_step [OF conjunct1 [OF I] k]])
        (use I in \<open>auto simp: less_Suc_eq\<close>)
  qed simp
  then show ?thesis
    by (rule runs_conseq) (auto simp: eyes_ok_nth aimed_side(2) aimed_side(3))
qed

lemma reaimEyes_runs:
  assumes "eyes_on_board (side w d i) (side w d (other i))" and "rows_ok (side w d (other i))"
  shows "runs (reaimEyes d i (other i) w) (\<lambda>w'. \<exists>w1. aimed d i w w1 \<and> stays d w1 w' \<and>
    w_dobj w' = w_dobj w1 \<and> eyes_ok (side w' d i) (side w' d (other i)))"
proof -
  let ?n = "length (eyes (side w d i))" and ?t = "side w d (other i)"
  let ?I = "\<lambda>k (w', moved :: bool). aimed d i w w' \<and> (\<forall>m < k. good_eye ?t (eyes (side w' d i) ! m)) \<and>
    (\<forall>m < ?n. k \<le> m \<longrightarrow> eyes (side w' d i) ! m = eyes (side w d i) ! m)"
  let ?f = "\<lambda>k (w, moved). let e = eyes (side w d i) ! k in
        if eye_on e then do {
          g \<leftarrow> at_int (side_guesses (side w d (other i))) (fst (eye_at e));
          color \<leftarrow> at_int (gr_colors g) (snd (eye_at e));
          if color = Green \<or> eye_at e \<in> destroyed (side w d (other i))
          then do { w \<leftarrow> aimEye d i (other i) k w; Some (w, True) }
          else Some (w, moved)
        } else Some (w, moved)"
  have loop: "runs (fold_opt ?f [0..<?n] (w, False)) (?I ?n)"
  proof (rule runs_fold_upt [where I = ?I])
    fix k x
    assume k: "k < ?n" and Ix: "?I k x"
    obtain w' moved where x: "x = (w', moved)" by (cases x)
    have I: "aimed d i w w'" "\<forall>m < k. good_eye ?t (eyes (side w' d i) ! m)"
      "\<forall>m < ?n. k \<le> m \<longrightarrow> eyes (side w' d i) ! m = eyes (side w d i) ! m"
      using Ix by (simp_all add: x)
    note t = aimed_side(2) [OF I(1)]
    define e where "e = eyes (side w' d i) ! k"
    have on: "eye_on e \<Longrightarrow> on_board ?t (eye_at e)"
      using assms(1) k I(3) by (simp add: e_def eyes_on_board_def)
    have step: "runs (aimEye d i (other i) k w') (\<lambda>w. ?I (Suc k) (w, True))"
      by (rule runs_conseq [OF aimEye_step [OF I(1) k]]) (use I in \<open>auto simp: less_Suc_eq\<close>)
    have stay: "?I (Suc k) (w', moved)" if "good_eye ?t e"
      using I that by (auto simp: less_Suc_eq e_def)
    have "runs (?f k (w', moved)) (?I (Suc k))"
    proof (cases "eye_on e")
      case False
      then show ?thesis using stay by (simp add: e_def [symmetric] good_eye_def)
    next
      case True
      note b = on_board_indices [OF on [OF True]]
      let ?c = "gr_colors (side_guesses ?t ! nat (fst (eye_at e))) ! nat (snd (eye_at e))"
      show ?thesis
      proof (cases "?c = Green \<or> eye_at e \<in> destroyed ?t")
        case yes: True
        show ?thesis
          using True b yes step unfolding Let_def split_beta fst_conv snd_conv e_def [symmetric] t
          by (simp add: runs_at_int)
      next
        case no: False
        have "good_eye ?t e" using no on by (simp add: good_eye_def watchable_def)
        then show ?thesis
          using True b no stay unfolding Let_def split_beta fst_conv snd_conv e_def [symmetric] t
          by (simp add: runs_at_int)
      qed
    qed
    then show "runs (?f k x) (?I (Suc k))" by (simp only: x)
  qed simp
  show ?thesis
    unfolding reaimEyes_def runs_bind
  proof (rule runs_conseq [OF loop])
    fix x
    assume Ix: "?I ?n x"
    obtain w1 moved where x: "x = (w1, moved)" by (cases x)
    have a: "aimed d i w w1" and g: "\<forall>m < ?n. good_eye ?t (eyes (side w1 d i) ! m)"
      using Ix by (simp_all add: x)
    have ok: "eyes_ok (side w1 d i) (side w1 d (other i))"
      using g aimed_side(2,3) [OF a] by (simp add: eyes_ok_nth)
    have r: "rows_ok (side w1 d (other i))" using assms(2) aimed_side(2) [OF a] by simp
    show "runs ((\<lambda>(w, moved). if moved then sendEyes d i (other i) w else Some w) x)
        (\<lambda>w'. \<exists>w1. aimed d i w w1 \<and> stays d w1 w' \<and> w_dobj w' = w_dobj w1 \<and>
          eyes_ok (side w' d i) (side w' d (other i)))"
      using a ok sendEyes_runs [OF eyes_ok_on_board [OF ok] r]
      by (auto simp: runs_iff side_def x)
  qed
qed

lemma aimed_keeps:
  assumes "duel_ok P n (w_dobj w d)" and "aimed d i w w'" and "eyes_ok (side w' d i) (side w' d (other i))"
  shows "keeps P n d w w'"
proof -
  let ?f = "\<lambda>s. s\<lparr>eyes := eyes (side w' d i)\<rparr>"
  have D: "w_dobj w' d = d_upd i ?f (w_dobj w d)" using assms(2) unfolding aimed_def by blast
  have "eyes_ok (?f (d_side i (w_dobj w d))) (d_side (other i) (w_dobj w d))"
    using assms(3) aimed_side(1,2) [OF assms(2)] unfolding side_def by metis
  moreover have "eyes_ok (d_side (other i) (w_dobj w d)) (?f (d_side i (w_dobj w d)))"
    using duel_okD(2) [OF assms(1), of "other i"] by (subst eyes_ok_cong) simp_all
  ultimately have "duel_ok P n (d_upd i ?f (w_dobj w d))"
    using assms(1) duel_okD(1,3) [OF assms(1), of i] duel_okD(4) [OF assms(1), of i]
    by (intro duel_ok_upd) (auto simp: side_out_def)
  then show ?thesis using aimed_stays [OF assms(2)] by (simp add: keeps_def D)
qed

lemma duel_ok_eyes:
  assumes "duel_ok P n (w_dobj w d)"
  shows "eyes_ok (side w d i) (side w d (other i))" "eyes_on_board (side w d i) (side w d (other i))"
    "rows_ok (side w d i)" "rows_ok (side w d (other i))"
proof -
  show e: "eyes_ok (side w d i) (side w d (other i))"
    using duel_okD(2) [OF assms] by (simp add: side_def)
  show "eyes_on_board (side w d i) (side w d (other i))" by (rule eyes_ok_on_board [OF e])
  show "rows_ok (side w d i)" "rows_ok (side w d (other i))"
    by (rule side_ok_rows_ok [OF side_okI [OF assms]])+
qed

lemma reaimEyes_keeps:
  assumes "duel_ok P n (w_dobj w d)"
  shows "runs (reaimEyes d i (other i) w) (keeps P n d w)"
proof (rule runs_conseq [OF reaimEyes_runs [OF duel_ok_eyes(2,4) [OF assms]]], clarify)
  fix w1 w'
  assume a: "aimed d i w w1" and s: "stays d w1 w'" and e: "w_dobj w' = w_dobj w1"
    and ok: "eyes_ok (side w' d i) (side w' d (other i))"
  have "keeps P n d w w1" by (rule aimed_keeps [OF assms a]) (use ok e in \<open>simp add: side_def\<close>)
  then show "keeps P n d w w'" using s e stays_trans by (auto simp: keeps_def)
qed

lemma aim_all_keeps:
  "duel_ok P n (w_dobj w d) \<Longrightarrow> runs (aim_all d i (other i) w) (keeps P n d w)"
  by (rule runs_conseq [OF aim_all_runs]) (blast intro: aimed_keeps)

lemma sendEyes_keeps:
  assumes "duel_ok P n (w_dobj w d)"
  shows "runs (sendEyes d i (other i) w) (keeps P n d w)"
  by (rule runs_conseq [OF sendEyes_runs [OF duel_ok_eyes(2,4) [OF assms]]])
    (use assms in \<open>simp add: keeps_def\<close>)

section \<open>Missiles, keyboards and new words\<close>

lemma loseEnergy_fields [simp]:
  "snd (loseEnergy k s) = s\<lparr>energy := energy s - min k (energy s)\<rparr>"
  "fst (loseEnergy k s) = min k (energy s)"
  by (simp_all add: loseEnergy_def Let_def)

lemma side_ok_energy: "side_ok P n s \<Longrightarrow> 0 \<le> e \<Longrightarrow> side_ok P n (s\<lparr>energy := e\<rparr>)"
  unfolding side_ok_def on_board_def by simp

lemma side_ok_rows:
  "side_ok P n s \<Longrightarrow> int (length (side_guesses s)) \<le> r \<Longrightarrow> 0 < r \<Longrightarrow> side_ok P n (s\<lparr>side_rows := r\<rparr>)"
  unfolding side_ok_def on_board_def by simp

lemma side_ok_keys:
  "side_ok P n s \<Longrightarrow> keys_ok m k \<Longrightarrow> side_ok P n (s\<lparr>keymap := m, scrambledGuesses := k\<rparr>)"
  unfolding side_ok_def on_board_def by simp

lemma keeps_effect_trans:
  assumes "keeps P n d w w'" and "\<And>w'. duel_ok P n (w_dobj w' d) \<Longrightarrow> keeps P n d w' (f w')"
  shows "keeps P n d w (f w')"
  using assms keeps_trans keepsD by blast

lemma keeps_runs_trans:
  assumes "keeps P n d w w'" and "\<And>w'. duel_ok P n (w_dobj w' d) \<Longrightarrow> runs (f w') (keeps P n d w')"
  shows "runs (f w') (keeps P n d w)"
  by (rule runs_conseq [OF assms(2)]) (use assms(1) keepsD keeps_trans in blast)+

lemma keeps_loseEnergy:
  assumes "duel_ok P n (w_dobj w d)" and "0 \<le> k"
  shows "keeps P n d w (upd_side d i (\<lambda>s. snd (loseEnergy k s)) w)"
  by (rule keeps_effect [OF assms(1)])
    (use side_okI [OF assms(1)] side_okD(7) [OF side_okI [OF assms(1)]] assms(2) in
      \<open>simp_all add: side_ok_energy\<close>)

lemma keeps_lose_row:
  assumes "duel_ok P n (w_dobj w d)" and "2 \<le> unusedRows (side w d i)"
  shows "keeps P n d w (upd_side d i (\<lambda>s. s\<lparr>side_rows := side_rows s - 1\<rparr>) w)"
  by (rule keeps_effect [OF assms(1)])
    (use side_okI [OF assms(1)] assms(2) in \<open>simp_all add: side_ok_rows unusedRows_def\<close>)

lemma landMissile_keeps:
  assumes "duel_ok P n (w_dobj w d)"
  shows "keeps P n d w (landMissile d caster target w)"
proof -
  let ?w1 = "snd (hostile d caster target MagicMissile CastLanded (0, 0) w)"
  let ?w2 = "upd_side d target (\<lambda>s. snd (loseEnergy MissileEnergy s)) ?w1"
  have 1: "keeps P n d w ?w1" by (rule keeps_hostile [OF assms])
  have 2: "keeps P n d w ?w2"
    by (rule keeps_effect_trans [OF 1 keeps_loseEnergy]) (simp_all add: MissileEnergy_def)
  have "keeps P n d w (upd_side d target (\<lambda>s. s\<lparr>side_rows := side_rows s - 1\<rparr>) ?w2)"
    if "2 \<le> unusedRows (side ?w2 d target)"
    using keeps_lose_row [OF keepsD(2) [OF 2] that] keepsD(1) [OF 2] keeps_trans by blast
  then show ?thesis
    unfolding landMissile_def split_beta Let_def using 1 2 by simp
qed

lemma keyboard_length: "length keyboard = 26"
  by (simp add: keyboard_def)

lemma swap_keys_runs:
  assumes "length keys = 26" and "0 \<le> i" "i < 26" "0 \<le> j" "j < 26"
  shows "runs (swap_keys keys i j) (\<lambda>keys'. mset keys' = mset keys)"
  using assms by (auto simp: swap_keys_def runs_at_int nat_less_iff intro!: mset_swap)

lemma swapKeys_runs:
  assumes "duel_ok P n (w_dobj w d)"
  shows "runs (swapKeys d i w) (keeps P n d w)"
proof -
  note ok = side_okI [OF assms]
  define keys where "keys = (case keymap (side w d i) of None \<Rightarrow> keyboard | Some keys \<Rightarrow> keys)"
  have m: "mset keys = mset keyboard"
    using side_okD(10) [OF ok, of i] by (auto simp: keys_def keys_ok_def split: option.splits)
  then have len: "length keys = 26" using keyboard_length by (metis size_mset)
  have upd: "keeps P n d w (upd_side d i (\<lambda>s. s\<lparr>keymap := Some keys', scrambledGuesses := ScrambleGuesses\<rparr>)
      (set_rng r w))" if "mset keys' = mset keyboard" for keys' r
    by (rule keeps_trans [OF stays_set_rng [of d w r] keeps_effect])
      (use assms ok that in \<open>simp_all add: side_ok_keys keys_ok_def ScrambleGuesses_def\<close>)
  have range: "0 \<le> go_rem (a + 1 + b) 26 \<and> go_rem (a + 1 + b) 26 < 26" if "0 \<le> a" "0 \<le> b" for a b
    using that by (simp add: go_rem_nonneg)
  have step: "runs (swap_keys keys a (go_rem (a + 1 + b) 26)) (\<lambda>keys'. keeps P n d w (upd_side d i
      (\<lambda>s. s\<lparr>keymap := Some keys', scrambledGuesses := ScrambleGuesses\<rparr>) (set_rng r w)))"
    if "0 \<le> a" "a < 26" "0 \<le> b" for a b r
    by (rule runs_conseq [OF swap_keys_runs [OF len]]) (use that range upd m in auto)
  show ?thesis
    unfolding swapKeys_def Let_def keys_def [symmetric] runs_bind split_beta runs_Intn fst_conv snd_conv runs_Some
    by (intro conjI step) simp_all
qed

lemma scrambledKeys_permutation: "mset (fst (scrambledKeys r)) = mset keyboard"
proof -
  have "mset (fst (scrambledKeys r)) = image_mset (\<lambda>j. char_of (65 + nat j)) (mset (fst (Perm 26 r)))"
    by (simp add: scrambledKeys_def split_beta Let_def)
  also have "\<dots> = mset (map (\<lambda>j. char_of (65 + nat j)) (map int [0..<26]))"
    unfolding Perm_permutation mset_map ..
  also have "map (\<lambda>j. char_of (65 + nat j)) (map int [0..<26]) = keyboard"
    by code_simp
  finally show ?thesis .
qed

lemma on_board_side_ok:
  assumes "side_ok P n s"
  shows "on_board s t \<longleftrightarrow> 0 \<le> fst t \<and> fst t < int (length (side_guesses s)) \<and> 0 \<le> snd t \<and> snd t < int n"
proof -
  have "length (gr_colors (side_guesses s ! nat r)) = n" if "0 \<le> r" "r < int (length (side_guesses s))" for r
    using side_okD(4) [OF assms, of "side_guesses s ! nat r"] that by (simp add: row_ok_def nat_less_iff)
  then show ?thesis by (auto simp: on_board_def)
qed

lemma rescore_rows_ok:
  assumes "\<And>g. g \<in> set gs \<Longrightarrow> row_ok P n g" and "length word = n" and "g' \<in> set (rescore_rows P word gs)"
  shows "row_ok P n g'"
proof -
  obtain g where g: "g \<in> set gs" "g' = newGuessRow (gr_word g) (snd (pScoreAny P (gr_word g) word))"
    using assms(3) by (auto simp: rescore_rows_def)
  have r: "rescorable P n (gr_word g)" using assms(1) [OF g(1)] by (simp add: row_ok_def)
  then obtain cs where "pScoreAny P (gr_word g) word = (True, cs)" "length cs = n"
    using assms(2) unfolding rescorable_def by blast
  then show ?thesis using r by (simp add: g(2) row_ok_def newGuessRow_def)
qed

text \<open>What rescoring leaves of a side: everything but word, rows and what it learned from them.\<close>

lemma rescore_runs:
  assumes "w_Duels w = Some P" and "side_ok P n (side w d i)" and "length word = n"
  shows "runs (rescore d i word w) (\<lambda>w'. \<exists>gs fs b.
    w' = upd_side d i (\<lambda>s. s\<lparr>side_word := word, side_guesses := rescore_rows P word (side_guesses s),
           greens := gs, found := fs, side_best := b\<rparr>) w \<and>
    side_ok P n (side w' d i))"
proof -
  let ?s = "(side w d i)\<lparr>side_word := word, side_guesses := rescore_rows P word (side_guesses (side w d i))\<rparr>"
  have rows: "row_ok P n g" if "g \<in> set (rescore_rows P word (side_guesses (side w d i)))" for g
    using rescore_rows_ok [OF side_okD(4) [OF assms(2)] assms(3) that] .
  have len: "length (gr_word g) = length (gr_colors g)" if "g \<in> set (side_guesses ?s)" for g
    by (rule row_ok_lengths [OF rows]) (use that in simp)
  have ok: "side_ok P n (?s\<lparr>greens := gs, found := fs, side_best := b\<rparr>)"
    if "length gs = n" "length fs = 26" for gs fs b
  proof -
    have b: "on_board (?s\<lparr>greens := gs, found := fs, side_best := b\<rparr>) t \<longleftrightarrow> on_board (side w d i) t" for t
    proof -
      have "length (gr_colors (rescore_rows P word (side_guesses (side w d i)) ! nat r)) = n"
        if "0 \<le> r" "r < int (length (side_guesses (side w d i)))" for r
        using rows that by (auto simp: row_ok_def nat_less_iff rescore_rows_def)
      then show ?thesis
        unfolding on_board_side_ok [OF assms(2)] by (auto simp: on_board_def rescore_rows_def)
    qed
    show ?thesis
      using assms(2) that rows assms(3) unfolding side_ok_def b by (simp add: rescore_rows_def)
  qed
  have upd: "upd_side d i (\<lambda>_. ?s\<lparr>greens := gs, found := fs, side_best := b\<rparr>) w =
      upd_side d i (\<lambda>s. s\<lparr>side_word := word, side_guesses := rescore_rows P word (side_guesses s),
           greens := gs, found := fs, side_best := b\<rparr>) w" for gs fs b
    unfolding upd_side_def upd_duel_def by (subst d_upd_cong) (simp_all add: side_def)
  have lg: "length (greens ?s) = n" using side_okD(2) [OF assms(2)] by simp
  show ?thesis
    unfolding rescore_def assms(1) Option.bind.simps runs_bind
  proof (rule runs_conseq [OF relearn_runs [of ?s]])
    show "length (gr_word g) = length (gr_colors g)" if "g \<in> set (side_guesses ?s)" for g
      using that by (rule len)
  next
    fix s'
    assume "\<exists>gs fs b. s' = ?s\<lparr>greens := gs, found := fs, side_best := b\<rparr> \<and>
      length gs = length (greens ?s) \<and> length fs = 26"
    then obtain gs fs b where s': "s' = ?s\<lparr>greens := gs, found := fs, side_best := b\<rparr>"
      and "length gs = length (greens ?s)" "length fs = 26" by blast
    then have "side_ok P n (side (upd_side d i (\<lambda>_. s') w) d i)" using ok lg by simp
    then show "runs (Some (upd_side d i (\<lambda>_. s') w)) (\<lambda>w'. \<exists>gs fs b.
        w' = upd_side d i (\<lambda>s. s\<lparr>side_word := word, side_guesses := rescore_rows P word (side_guesses s),
               greens := gs, found := fs, side_best := b\<rparr>) w \<and> side_ok P n (side w' d i))"
      using upd [where gs = gs and fs = fs and b = b] unfolding s' runs_Some by blast
  qed
qed

section \<open>After a guess\<close>

lemma stun_fields [simp]:
  "side_p (stun u s) = side_p s" "eyes (stun u s) = eyes s" "side_guesses (stun u s) = side_guesses s"
  "destroyed (stun u s) = destroyed s" "side_solved (stun u s) = side_solved s"
  "side_rows (stun u s) = side_rows s" "side_ok P n (stun u s) = side_ok P n s"
  by (simp_all add: stun_def)

lemma keeps_stun: "duel_ok P n (w_dobj w d) \<Longrightarrow> keeps P n d w (upd_side d i (stun u) w)"
  by (rule keeps_effect) (simp_all add: side_okI)

lemma keeps_hostile_then:
  assumes "duel_ok P n (w_dobj w d)" and "\<And>w'. duel_ok P n (w_dobj w' d) \<Longrightarrow> keeps P n d w' (f w')"
  shows "keeps P n d w (if fst (hostile d me them a k t w) then f (snd (hostile d me them a k t w))
                        else snd (hostile d me them a k t w))"
  using keeps_hostile [OF assms(1)] keeps_effect_trans [OF keeps_hostile [OF assms(1)]] assms(2) by simp

lemma keeps_hostile_runs:
  assumes "duel_ok P n (w_dobj w d)"
    and "\<And>w'. duel_ok P n (w_dobj w' d) \<Longrightarrow> runs (f w') (keeps P n d w')"
  shows "runs (if fst (hostile d me them a k t w) then f (snd (hostile d me them a k t w))
               else Some (snd (hostile d me them a k t w))) (keeps P n d w)"
  using keeps_hostile [OF assms(1)] keeps_runs_trans [OF keeps_hostile [OF assms(1)]] assms(2) by simp

lemma keeps_send_side: "\<not> paints m \<Longrightarrow> duel_ok P n (w_dobj w d) \<Longrightarrow> keeps P n d w (send_side d i m w)"
  by (simp add: keeps_def)

lemma keeps_castEvent: "duel_ok P n (w_dobj w d) \<Longrightarrow> keeps P n d w (castEvent d me a k b t w)"
  by (simp add: keeps_def)

lemma keeps_syncDuel: "duel_ok P n (w_dobj w d) \<Longrightarrow> keeps P n d w (syncDuel d w)"
  by (simp add: keeps_def)

lemma keeps_bind:
  assumes "runs m (keeps P n d w)"
    and "\<And>w'. duel_ok P n (w_dobj w' d) \<Longrightarrow> runs (f w') (keeps P n d w')"
  shows "runs (Option.bind m f) (keeps P n d w)"
  unfolding runs_bind
  by (rule runs_conseq [OF assms(1)]) (rule keeps_runs_trans [OF _ assms(2)])

lemma trigger_passive_keeps:
  assumes "duel_ok P n (w_dobj w d)"
  shows "runs (trigger_passive d me (other me) w) (keeps P n d w)"
proof -
  have silence: "keeps P n d w (upd_side d i (\<lambda>s. if silencedUntil s < u then s\<lparr>silencedUntil := u\<rparr> else s) w)"
    if "duel_ok P n (w_dobj w d)" for w i u
    by (rule keeps_effect [OF that]) (simp_all add: side_okI [OF that])
  have wise: "runs (do { w \<leftarrow> aim_all d me (other me) w; w \<leftarrow> sendEyes d me (other me) w;
      Some (send_side d me m w) }) (keeps P n d w)" if "\<not> paints m" for m
    by (intro keeps_bind aim_all_keeps sendEyes_keeps assms) (simp_all add: keeps_send_side that)
  let ?passive = "PassiveOf (e_Class (ent_of w (side_p (side w d me))))"
  consider "?passive = Aggressive" | "?passive \<noteq> Aggressive" "?passive = Wise"
    | "?passive \<noteq> Aggressive" "?passive \<noteq> Wise" "?passive = Sneaky"
    | "?passive \<noteq> Aggressive" "?passive \<noteq> Wise" "?passive \<noteq> Sneaky" "?passive = DivineWill"
    | "?passive \<noteq> Aggressive" "?passive \<noteq> Wise" "?passive \<noteq> Sneaky" "?passive \<noteq> DivineWill"
    by blast
  then show ?thesis
  proof cases
    case 1
    show ?thesis
      unfolding trigger_passive_def Let_def split_beta if_P [OF 1] runs_Some
      by (rule keeps_hostile_then [OF assms keeps_stun])
  next
    case 2
    show ?thesis
      unfolding trigger_passive_def Let_def if_not_P [OF 2(1)] if_P [OF 2(2)]
      using wise keeps_refl [OF assms] by simp
  next
    case 3
    show ?thesis
      unfolding trigger_passive_def Let_def split_beta if_not_P [OF 3(1)] if_not_P [OF 3(2)] if_P [OF 3(3)]
      by (rule keeps_hostile_runs [OF assms swapKeys_runs])
  next
    case 4
    show ?thesis
      unfolding trigger_passive_def Let_def split_beta if_not_P [OF 4(1)] if_not_P [OF 4(2)]
        if_not_P [OF 4(3)] if_P [OF 4(4)] runs_Some
      by (rule keeps_hostile_then [OF assms silence])
  next
    case 5
    then show ?thesis using keeps_refl [OF assms] by (simp add: trigger_passive_def)
  qed
qed

lemma aim_idle_runs:
  "runs (aim_idle d i (other i) w) (\<lambda>(w', idle). aimed d i w w' \<and>
     (eyes_ok (side w d i) (side w d (other i)) \<longrightarrow> eyes_ok (side w' d i) (side w' d (other i))))"
proof -
  let ?n = "length (eyes (side w d i))" and ?t = "side w d (other i)"
  let ?I = "\<lambda>(k :: nat) (w', idle :: bool). aimed d i w w' \<and>
    (eyes_ok (side w d i) ?t \<longrightarrow> (\<forall>m < ?n. good_eye ?t (eyes (side w' d i) ! m)))"
  have "runs (aim_idle d i (other i) w) (?I ?n)"
    unfolding aim_idle_def
  proof (rule runs_fold_upt [where I = ?I])
    fix k x
    assume k: "k < ?n" and Ix: "?I k x"
    obtain w' idle where x: "x = (w', idle)" by (cases x)
    have I: "aimed d i w w'"
      "eyes_ok (side w d i) ?t \<Longrightarrow> (\<forall>m < ?n. good_eye ?t (eyes (side w' d i) ! m))"
      using Ix by (simp_all add: x)
    have step: "runs (aimEye d i (other i) k w') (\<lambda>w. ?I (Suc k) (w, b))" for b
      by (rule runs_conseq [OF aimEye_step [OF I(1) k]]) (use I(2) in force)
    show "runs ((\<lambda>(w, idle). if \<not> eye_on (eyes (side w d i) ! k) then do {
        w \<leftarrow> aimEye d i (other i) k w;
        Some (w, idle \<or> eye_on (eyes (side w d i) ! k))
      } else Some (w, idle)) x) (?I (Suc k))"
    proof (cases "eye_on (eyes (side w' d i) ! k)")
      case True
      then show ?thesis using I by (simp add: x)
    next
      case False
      have "runs (aimEye d i (other i) k w') (\<lambda>w. ?I (Suc k) (w, idle \<or> eye_on (eyes (side w d i) ! k)))"
        by (rule runs_conseq [OF step]) simp
      then show ?thesis using False by (simp add: x)
    qed
  qed (simp add: eyes_ok_nth)
  then show ?thesis
    by (rule runs_conseq) (auto simp: eyes_ok_nth aimed_side(2) aimed_side(3))
qed

lemma aim_idle_keeps:
  assumes "duel_ok P n (w_dobj w d)"
  shows "runs (aim_idle d i (other i) w) (\<lambda>(w', idle). keeps P n d w w')"
  by (rule runs_conseq [OF aim_idle_runs])
    (use assms aimed_keeps [OF assms] duel_ok_eyes(1) [OF assms] in auto)

text \<open>Replacing a side by what it learned.\<close>

lemma keeps_learned:
  assumes "duel_ok P n (w_dobj w d)" and "learned g pay (side w d i) s"
  shows "keeps P n d w (upd_side d i (\<lambda>_. s) w)"
  by (rule keeps_effect [OF assms(1)])
    (use learned_ok [OF side_okI [OF assms(1)] assms(2)] learned_fields_eq [OF assms(2)] in simp_all)

lemma keeps_missiles: "duel_ok P n (w_dobj w d) \<Longrightarrow> keeps P n d w (upd_side d i (\<lambda>s. s\<lparr>missiles := ms\<rparr>) w)"
  by (rule keeps_effect) (simp_all add: side_okI)

lemma fold_castEvent_keeps:
  "duel_ok P n (w_dobj w d) \<Longrightarrow> keeps P n d w (fold (\<lambda>_. castEvent d me a k b t) xs w)"
proof (induction xs arbitrary: w)
  case (Cons x xs)
  have "keeps P n d (castEvent d me a k b t w) (fold (\<lambda>_. castEvent d me a k b t) xs (castEvent d me a k b t w))"
    using Cons by simp
  then show ?case using keeps_trans [OF castEvent_simps(6)] by simp
qed (simp add: keeps_refl)

lemma afterGuess_keeps:
  assumes "duel_ok P n (w_dobj w d)" and "side_guesses (side w d me) \<noteq> []"
  shows "runs (afterGuess d me (other me) w) (keeps P n d w)"
proof -
  let ?gs = "side_guesses (side w d me)"
  let ?g = "?gs ! nat (int (length ?gs) - 1)"
  have at: "at_int ?gs (int (length ?gs) - 1) = Some ?g"
    using assms(2) by (cases ?gs) (auto simp: at_int_def)
  have "?g \<in> set ?gs" using assms(2) by (cases ?gs rule: rev_cases) (auto simp: nth_append)
  then have len: "length (gr_word ?g) = length (gr_colors ?g)"
    using duel_ok_eyes(3) [OF assms(1)] by (auto simp: rows_ok_def)
  obtain new s where l: "learn ?g True (side w d me) = Some (new, s)" "learned ?g True (side w d me) s"
    using learn_runs [OF len, of True "side w d me"] by (auto simp: runs_iff)
  let ?w1 = "upd_side d me (\<lambda>_. s) w"
  let ?w2 = "fold (\<lambda>_. castEvent d (other me) MagicMissile CastFizzled False (0, 0)) (missiles (side ?w1 d me)) ?w1"
  let ?w3 = "upd_side d me (\<lambda>s. s\<lparr>missiles := []\<rparr>) ?w2"
  have 1: "keeps P n d w ?w1" by (rule keeps_learned [OF assms(1) l(2)])
  have 2: "keeps P n d w ?w2"
    by (rule keeps_trans [OF keepsD(1) [OF 1] fold_castEvent_keeps [OF keepsD(2) [OF 1]]])
  have 3: "keeps P n d w ?w3"
    by (rule keeps_trans [OF keepsD(1) [OF 2] keeps_missiles [OF keepsD(2) [OF 2]]])
  have 4: "runs (if new then trigger_passive d me (other me) ?w3 else Some ?w3) (keeps P n d ?w3)"
    using trigger_passive_keeps [OF keepsD(2) [OF 3]] keeps_refl [OF keepsD(2) [OF 3]] by simp
  have idle: "runs (do { (w, idle) \<leftarrow> aim_idle d (other me) me w;
        w \<leftarrow> if idle then sendEyes d (other me) me w else Some w;
        Some (syncDuel d w) }) (keeps P n d w)" if ok: "duel_ok P n (w_dobj w d)" for w
  proof -
    have send: "runs (if idle then sendEyes d (other me) me w' else Some w') (keeps P n d w')"
      if "duel_ok P n (w_dobj w' d)" for w' idle
      using sendEyes_keeps [OF that, of "other me"] keeps_refl [OF that] by simp
    have rest: "runs (do { w \<leftarrow> if idle then sendEyes d (other me) me w' else Some w';
        Some (syncDuel d w) }) (keeps P n d w)" if "keeps P n d w w'" for w' idle
      by (rule keeps_runs_trans [OF that keeps_bind [OF send]]) (simp_all add: keeps_syncDuel)
    show ?thesis
      unfolding runs_bind
      by (rule runs_conseq [OF aim_idle_keeps [OF ok, of "other me", simplified]])
        (use rest in auto)
  qed
  show ?thesis
    unfolding afterGuess_def at Option.bind.simps l(1) prod.case Let_def
    by (rule runs_conseq [OF keeps_bind [OF 4 idle] keeps_trans [OF keepsD(1) [OF 3]]])
qed

end
