(* ===== verification/Casting.thy ===== *)
theory Casting
  imports Duel_Effects
begin

text \<open>
  Class abilities: \<open>CastAbility\<close>, \<open>canCast\<close>, \<open>cast\<close>, \<open>ReshapeReality\<close> and \<open>IllusionGuess\<close> of
  \<open>internal/game/abilities.go\<close>, \<open>castRogue\<close> of \<open>rogue.go\<close>, and \<open>castCleric\<close> with prayers, \<open>mend\<close>,
  \<open>purify\<close> and \<open>intervene\<close> of \<open>cleric.go\<close>. Each handler is the command the world goroutine runs.
  A prayer leaves a job in \<open>w_praying\<close>; \<open>prayer_answer\<close> is the command its goroutine sends back.

  The lemmas, proved for any puzzle that keeps the contract \<open>duel_puzzle\<close>, show that no
  handler panics on a well-formed duel and that each keeps the duel well-formed.
\<close>

section \<open>Rogue\<close>

definition castRogue ::
    "dref \<Rightarrow> who \<Rightarrow> who \<Rightarrow> string \<Rightarrow> DuelCastReq \<Rightarrow> world \<Rightarrow> (bool \<times> world) option" where
  "castRogue d me them aid req w =
    (let t = (Row req, Col req) in
     if aid = Pickpocket then
       (let (hit, w) = hostile d me them aid CastUsed t w in
        if hit then do {
          g \<leftarrow> at_int (side_guesses (side w d them)) (fst t);
          letter \<leftarrow> at_int (gr_word g) (snd t);
          Some (True, send_side d me (ServerDuelPickpocket
            \<lparr>dp_Row = fst t, dp_Col = snd t, dp_Letter = [letter]\<rparr>) w)
        } else Some (True, w))
     else if aid = Cheat then
       Some (True, castEvent d me aid CastUsed False (0, 0) (upd_side d me (\<lambda>s. s\<lparr>cheat := True\<rparr>) w))
     else if aid = Feint then
       Some (True, castEvent d me aid CastUsed False (0, 0)
                     (upd_side d me (\<lambda>s. s\<lparr>feint := Some (Colors req)\<rparr>) w))
     else if aid = UnderTheirNose then
       (if shield (side w d them) then Some (True, snd (hostile d me them aid CastUsed (0, 0) w))
        else Some (True, send_side d me (ServerDuelCast
               \<lparr>dc_ByYou = True, dc_Ability = aid, dc_Kind = CastUsed, dc_Blocked = False,
                dc_Row = 0, dc_Col = 0\<rparr>)
               (upd_side d them (\<lambda>s. s\<lparr>falseNext := Some (Colors req)\<rparr>) w)))
     else if aid = Confuse then
       (let (hit, w) = hostile d me them aid CastUsed (0, 0) w in
        if hit then
          (let (keys, r) = scrambledKeys (w_rng w) in
           Some (True, upd_side d them
             (\<lambda>s. s\<lparr>keymap := Some keys, scrambledGuesses := ScrambleGuesses\<rparr>) (set_rng r w)))
        else Some (True, w))
     else Some (False, w))"

section \<open>Cleric\<close>

subsection \<open>Prayers\<close>

definition prayer_msg :: "int \<Rightarrow> PrayerKind \<Rightarrow> DuelPrayer" where
  "prayer_msg i kind = \<lparr>dpr_ID = i, dpr_Kind = kind, dpr_Pending = False, dpr_Failed = False,
     dpr_God = [], dpr_GodTitle = [], dpr_GodColor = [], dpr_Text = [], dpr_Refunded = 0\<rparr>"

text \<open>No god answered: the energy comes back.\<close>

definition unanswered :: "dref \<Rightarrow> who \<Rightarrow> int \<Rightarrow> PrayerKind \<Rightarrow> int \<Rightarrow> world \<Rightarrow> world" where
  "unanswered d me i kind cost w =
    send_side d me (ServerDuelPrayer ((prayer_msg i kind)\<lparr>dpr_Failed := True, dpr_Refunded := cost\<rparr>))
      (upd_side d me (\<lambda>s. s\<lparr>energy := energy s + cost\<rparr>) w)"

definition prayerLetter :: "duel_side \<Rightarrow> rng \<Rightarrow> (int \<times> rng) option" where
  "prayerLetter s r =
    (let open_pos = map (\<lambda>(i, g). int i) (filter (\<lambda>(i, g). \<not> g) (enumerate 0 (greens s))) in
     if open_pos = [] then Intn (int (length (side_word s))) r
     else do {
       (k, r) \<leftarrow> Intn (int (length open_pos)) r;
       i \<leftarrow> at_int open_pos k;
       Some (i, r)
     })"

text \<open>
  \<open>pray\<close>: the goroutine it starts is a job of \<open>w_praying\<close>. A job holds one of \<open>MaxPrayers\<close> slots
  until its answer is queued.
\<close>

definition start_prayer :: "prayer_job \<Rightarrow> world \<Rightarrow> world" where
  "start_prayer j w =
    (if w_Oracle w = None then unanswered (pj_duel j) (pj_me j) (pj_id j) (pj_kind j) (pj_cost j) w
     else if length (w_praying w) < MaxPrayers then w\<lparr>w_praying := w_praying w @ [j]\<rparr>
     else unanswered (pj_duel j) (pj_me j) (pj_id j) (pj_kind j) (pj_cost j) w)"

definition pray :: "dref \<Rightarrow> who \<Rightarrow> string \<Rightarrow> PrayerKind \<Rightarrow> int \<Rightarrow> world \<Rightarrow> world option" where
  "pray d me ability kind cost w = do {
    let w = w\<lparr>w_nextPrayer := w_nextPrayer w + 1\<rparr>;
    let i = w_nextPrayer w;
    let w = castEvent d me ability CastUsed False (0, 0) w;
    let w = send_side d me (ServerDuelPrayer ((prayer_msg i kind)\<lparr>dpr_Pending := True\<rparr>)) w;
    (pos, r) \<leftarrow> if kind = PrayerMinor then prayerLetter (side w d me) (w_rng w)
                else Some (0, w_rng w);
    let w = set_rng r w;
    let p = \<lparr>pry_Kind = kind, pry_Word = side_word (side w d me), pry_Pos = pos\<rparr>;
    Some (start_prayer \<lparr>pj_duel = d, pj_me = me, pj_id = i, pj_kind = kind, pj_cost = cost,
            pj_prayer = p\<rparr> w)
  }"

text \<open>The command with the answer (\<open>None\<close>: \<open>err != nil\<close>).\<close>

definition prayer_answer :: "prayer_job \<Rightarrow> Answer option \<Rightarrow> world \<Rightarrow> world" where
  "prayer_answer j ans w =
    (let d = pj_duel j; me = pj_me j in
     if p_duel (w_pobj w (side_p (side w d me))) \<noteq> Some d then w
     else case ans of
       None \<Rightarrow> syncDuel d (unanswered d me (pj_id j) (pj_kind j) (pj_cost j) w)
     | Some a \<Rightarrow>
        if side_word (side w d me) \<noteq> pry_Word (pj_prayer j)
        then syncDuel d (unanswered d me (pj_id j) (pj_kind j) (pj_cost j) w)
        else send_side d me (ServerDuelPrayer ((prayer_msg (pj_id j) (pj_kind j))
               \<lparr>dpr_God := god_Name (ans_God a), dpr_GodTitle := god_Title (ans_God a),
                dpr_GodColor := god_Color (ans_God a), dpr_Text := ans_Text a\<rparr>)) w)"

subsection \<open>Healing\<close>

text \<open>A destroyed letter after the row is taken out.\<close>

definition shift_tile :: "int \<Rightarrow> tile \<Rightarrow> tile" where
  "shift_tile row t = (if row < fst t then (fst t - 1, snd t) else t)"

text \<open>The loop of \<open>mend\<close> over the eyes watching the mended side.\<close>

definition mend_eye :: "dref \<Rightarrow> who \<Rightarrow> who \<Rightarrow> int \<Rightarrow> nat \<Rightarrow> world \<times> bool \<Rightarrow> (world \<times> bool) option" where
  "mend_eye d me them row k = (\<lambda>(w, moved).
        let e = eyes (side w d them) ! k in
        if \<not> eye_on e then Some (w, moved)
        else if fst (eye_at e) = row then do { w \<leftarrow> aimEye d them me k w; Some (w, True) }
        else if row < fst (eye_at e) then
          Some (upd_side d them (\<lambda>s. s\<lparr>eyes := (eyes s)[k := e\<lparr>eye_at := shift_tile row (eye_at e)\<rparr>]\<rparr>) w, True)
        else Some (w, moved))"

definition mend :: "dref \<Rightarrow> who \<Rightarrow> who \<Rightarrow> int \<Rightarrow> world \<Rightarrow> world option" where
  "mend d me them row w = do {
    gs \<leftarrow> delete_at (side_guesses (side w d me)) row;
    let w = upd_side d me (\<lambda>s. s\<lparr>side_guesses := gs\<rparr>) w;
    let w = upd_side d me (\<lambda>s. s\<lparr>destroyed := shift_tile row ` {t \<in> destroyed s. fst t \<noteq> row}\<rparr>) w;
    (w, moved) \<leftarrow> fold_opt (mend_eye d me them row) [0..<length (eyes (side w d them))] (w, False);
    w \<leftarrow> if moved then sendEyes d them me w else Some w;
    let w = castEvent d me Mend CastUsed False (row, 0) w;
    let w = send_side d me (ServerDuelGuessRemoved \<lparr>dgr_Yours = True, dgr_Row = row\<rparr>) w;
    Some (send_side d them (ServerDuelGuessRemoved \<lparr>dgr_Yours = False, dgr_Row = row\<rparr>) w)
  }"

definition illusion_purified :: "illusionGame \<Rightarrow> IllusionEnd" where
  "illusion_purified g =
     \<lparr>ie_Won = False, ie_Solution = ill_word g, ie_EnergyLost = 0, ie_Purified = True\<rparr>"

definition purify :: "dref \<Rightarrow> who \<Rightarrow> who \<Rightarrow> world \<Rightarrow> world option" where
  "purify d me them w =
    (let w = castEvent d me Purify CastUsed False (0, 0) w;
         w = upd_side d me (\<lambda>s. s\<lparr>stunnedUntil := 0, silencedUntil := 0\<rparr>) w;
         w = upd_side d me (\<lambda>s. s\<lparr>keymap := None, scrambledGuesses := 0\<rparr>) w;
         w = upd_side d me (\<lambda>s. s\<lparr>falseNext := None\<rparr>) w;
         w = upd_side d me (\<lambda>s. s\<lparr>missiles := []\<rparr>) w;
         w = (case illusion (side w d me) of
                None \<Rightarrow> w
              | Some g \<Rightarrow> upd_side d me (\<lambda>s. s\<lparr>illusion := None\<rparr>)
                           (send_side d me (ServerIllusionEnd (illusion_purified g)) w))
     in if eyes (side w d them) \<noteq> []
        then sendEyes d them me (upd_side d them (\<lambda>s. s\<lparr>eyes := []\<rparr>) w)
        else Some w)"

subsection \<open>Divine Intervention\<close>

fun divineBanners :: "DivineFate \<Rightarrow> string" where
  "divineBanners FateCleanSlate = ''THE GODS HAVE WIPED THE SLATE CLEAN''"
| "divineBanners FateNewWord = ''THE GODS HAVE CHANGED THE WORD''"
| "divineBanners FateSuddenDeath = ''THE GODS DEMAND AN END: TWO MINUTES REMAIN''"
| "divineBanners FateRevelation = ''THE GODS REVEAL A LETTER TO ALL''"
| "divineBanners FateFortune = ''THE GODS HAVE SWAPPED YOUR FORTUNES''"

text \<open>\<open>DivineFate(i)\<close> for \<open>i\<close> below the number of banners.\<close>

definition fates :: "DivineFate list" where
  "fates = [FateCleanSlate, FateNewWord, FateSuddenDeath, FateRevelation, FateFortune]"

fun divine_word_loop :: "puzzle \<Rightarrow> nat \<Rightarrow> string set \<Rightarrow> string \<Rightarrow> rng \<Rightarrow> (string \<times> rng) option" where
  "divine_word_loop P 0 taken word r = Some (word, r)"
| "divine_word_loop P (Suc k) taken word r = do {
     (nxt, r) \<leftarrow> NewWord P r;
     if nxt \<notin> taken then Some (nxt, r) else divine_word_loop P k taken word r
   }"

definition taken_words :: "duel_side \<Rightarrow> string set" where
  "taken_words s = insert (side_word s) (set (map gr_word (side_guesses s)))"

definition divineWord :: "dref \<Rightarrow> world \<Rightarrow> (string \<times> world) option" where
  "divineWord d w = do {
    P \<leftarrow> w_Duels w;
    (word, r) \<leftarrow> divine_word_loop P 100 (taken_words (side w d SideA) \<union> taken_words (side w d SideB))
                   (side_word (side w d SideA)) (w_rng w);
    Some (word, set_rng r w)
  }"

definition clean_slate :: "dref \<Rightarrow> int \<Rightarrow> who \<Rightarrow> world \<Rightarrow> world" where
  "clean_slate d rows i w =
    (let w = (case illusion (side w d i) of
                None \<Rightarrow> w
              | Some g \<Rightarrow> send_side d i (ServerIllusionEnd (illusion_purified g)) w)
     in upd_side d i (\<lambda>s. reset_effects (length (side_word s))
          (s\<lparr>side_guesses := [], side_rows := rows, side_best := 0\<rparr>)) w)"

definition fate_clean_slate :: "dref \<Rightarrow> world \<Rightarrow> world option" where
  "fate_clean_slate d w = do {
    P \<leftarrow> w_Duels w;
    let w = each_side (clean_slate d (MaxGuesses P)) w;
    Some (upd_duel d (\<lambda>D. D\<lparr>d_deadline := 0, d_nextEnergy := w_now w + EnergyInterval\<rparr>) w)
  }"

definition send_boards :: "dref \<Rightarrow> who \<Rightarrow> who \<Rightarrow> world \<Rightarrow> world" where
  "send_boards d i j w =
    (let colors = visibleColors (side w d i);
         w = send_side d i (ServerDuelBoard \<lparr>db_Yours = True, db_Colors = colors\<rparr>) w
     in send_side d j (ServerDuelBoard \<lparr>db_Yours = False, db_Colors = colors\<rparr>) w)"

definition fate_new_word :: "dref \<Rightarrow> world \<Rightarrow> world option" where
  "fate_new_word d w = do {
    (word, w) \<leftarrow> divineWord d w;
    w \<leftarrow> rescore d SideA word w;
    w \<leftarrow> rescore d SideB word w;
    let w = each_side (\<lambda>i w. send_boards d i (opponent w d i) w) w;
    w \<leftarrow> reaimEyes d SideA SideB w;
    reaimEyes d SideB SideA w
  }"

definition fate_sudden_death :: "dref \<Rightarrow> world \<Rightarrow> world" where
  "fate_sudden_death d w =
    (let until = w_now w + SuddenDeath; dl = d_deadline (w_dobj w d) in
     if isZero dl \<or> until < dl then upd_duel d (\<lambda>D. D\<lparr>d_deadline := until\<rparr>) w else w)"

text \<open>\<open>!a.greens[i] && !b.greens[i]\<close> for every \<open>i\<close> of \<open>a.greens\<close>.\<close>

definition open_columns :: "bool list \<Rightarrow> bool list \<Rightarrow> int list option" where
  "open_columns as bs = fold_opt (\<lambda>i cols.
     if \<not> as ! i then do { b \<leftarrow> at_int bs (int i); Some (if \<not> b then cols @ [int i] else cols) }
     else Some cols) [0..<length as] []"

definition fate_revelation :: "dref \<Rightarrow> world \<Rightarrow> world option" where
  "fate_revelation d w = do {
    let a = side w d SideA;
    let b = side w d SideB;
    cols \<leftarrow> open_columns (greens a) (greens b);
    (col, r) \<leftarrow> Intn (int (length (side_word a))) (w_rng w);
    (col, r) \<leftarrow> if cols \<noteq> [] then do { (k, r) \<leftarrow> Intn (int (length cols)) r; c \<leftarrow> at_int cols k; Some (c, r) }
                else Some (col, r);
    let w = set_rng r w;
    la \<leftarrow> at_int (side_word a) col;
    let w = send_side d SideA (ServerDuelReveal \<lparr>drv_Col = col, drv_Letter = [la]\<rparr>) w;
    lb \<leftarrow> at_int (side_word b) col;
    Some (send_side d SideB (ServerDuelReveal \<lparr>drv_Col = col, drv_Letter = [lb]\<rparr>) w)
  }"

definition fate_fortune :: "dref \<Rightarrow> world \<Rightarrow> world" where
  "fate_fortune d w =
    (let ea = energy (side w d SideA); eb = energy (side w d SideB) in
     upd_side d SideB (\<lambda>s. s\<lparr>energy := ea\<rparr>) (upd_side d SideA (\<lambda>s. s\<lparr>energy := eb\<rparr>) w))"

definition intervene :: "dref \<Rightarrow> world \<Rightarrow> world option" where
  "intervene d w = do {
    (k, r) \<leftarrow> Intn (int (length fates)) (w_rng w);
    fate \<leftarrow> at_int fates k;
    let fate = (case w_fate w of None \<Rightarrow> fate | Some f \<Rightarrow> f);
    let w = set_rng r w;
    let w = each_side (\<lambda>i. send_side d i (ServerDuelDivine
              \<lparr>dd_Fate = fate, dd_Banner = divineBanners fate\<rparr>)) w;
    case fate of
      FateCleanSlate \<Rightarrow> fate_clean_slate d w
    | FateNewWord \<Rightarrow> fate_new_word d w
    | FateSuddenDeath \<Rightarrow> Some (fate_sudden_death d w)
    | FateRevelation \<Rightarrow> fate_revelation d w
    | FateFortune \<Rightarrow> Some (fate_fortune d w)
  }"

definition castCleric ::
    "dref \<Rightarrow> who \<Rightarrow> who \<Rightarrow> string \<Rightarrow> DuelCastReq \<Rightarrow> world \<Rightarrow> world option" where
  "castCleric d me them aid req w =
    (let cost = abilityCost (e_Class (ent_of w (side_p (side w d me)))) aid in
     if aid = MinorPrayer then pray d me aid PrayerMinor cost w
     else if aid = Mend then mend d me them (Row req) w
     else if aid = MajorPrayer then pray d me aid PrayerMajor cost w
     else if aid = Purify then purify d me them w
     else if aid = DivineIntervention then
       intervene d (castEvent d me aid CastUsed False (0, 0) w)
     else Some w)"

section \<open>Casting\<close>

text \<open>Colors picked for Feint or Under Their Nose.\<close>

definition validPattern :: "WordleColor list \<Rightarrow> int \<Rightarrow> bool" where
  "validPattern colors n \<longleftrightarrow> int (length colors) = n \<and>
     (\<forall>c \<in> set colors. c = Grey \<or> c = Yellow \<or> c = Green) \<and> \<not> solves colors"

definition canCast :: "string \<Rightarrow> duel_side \<Rightarrow> duel_side \<Rightarrow> DuelCastReq \<Rightarrow> bool" where
  "canCast aid me them req =
    (let t = (Row req, Col req); g = side_guesses them ! nat (Row req) in
     if aid = ShieldsUp then \<not> shield me
     else if aid = Cripple then 2 \<le> unusedRows them
     else if aid = Illusion then illusion them = None
     else if aid = Slash then
       0 \<le> fst t \<and> fst t < int (length (side_guesses them)) \<and>
       0 \<le> snd t \<and> snd t < int (length (gr_colors g)) \<and> t \<notin> destroyed them
     else if aid = Scry then
       (let l = toUpper (Letter req) in length l = 1 \<and> is_AZ (l ! 0))
     else if aid = Pickpocket then
       0 \<le> fst t \<and> fst t < int (length (side_guesses them)) \<and>
       0 \<le> snd t \<and> snd t < int (length (gr_shown g)) \<and>
       gr_shown g ! nat (snd t) = Yellow \<and> t \<notin> destroyed them
     else if aid = Cheat then \<not> cheat me
     else if aid = Feint \<or> aid = UnderTheirNose then
       validPattern (Colors req) (int (length (side_word me)))
     else if aid = Mend then 0 \<le> Row req \<and> Row req < int (length (side_guesses me))
     else True)"

text \<open>\<open>strings.Contains\<close>\<close>

definition strings_Contains :: "string \<Rightarrow> string \<Rightarrow> bool" where
  "strings_Contains s sub \<longleftrightarrow> (\<exists>i \<in> set [0..<Suc (length s)]. take (length sub) (drop i s) = sub)"

definition cast :: "dref \<Rightarrow> who \<Rightarrow> who \<Rightarrow> string \<Rightarrow> DuelCastReq \<Rightarrow> world \<Rightarrow> world option" where
  "cast d me them aid req w =
    (let now = w_now w in
     if aid = Slash then
       (let t = (Row req, Col req); (hit, w) = hostile d me them aid CastUsed t w in
        if hit then reaimEyes d me them (upd_side d them (\<lambda>s. s\<lparr>destroyed := insert t (destroyed s)\<rparr>) w)
        else Some w)
     else if aid = ShieldsUp then
       Some (castEvent d me aid CastUsed False (0, 0) (upd_side d me (\<lambda>s. s\<lparr>shield := True\<rparr>) w))
     else if aid = Determination then
       Some (castEvent d me aid CastUsed False (0, 0)
               (upd_side d me (\<lambda>s. s\<lparr>side_rows := side_rows s + 1\<rparr>) w))
     else if aid = PommelStrike then
       (let (hit, w) = hostile d me them aid CastUsed (0, 0) w in
        Some (if hit then upd_side d them (stun (now + PommelStun)) w else w))
     else if aid = Cripple then
       (let (hit, w) = hostile d me them aid CastUsed (0, 0) w in
        Some (if hit then upd_side d them (\<lambda>s. s\<lparr>side_rows := side_rows s - 1\<rparr>) w else w))
     else if aid = Scry then
       (let letter = toUpper (Letter req);
            w = castEvent d me aid CastUsed False (0, 0) w
        in Some (send_side d me (ServerDuelScry
             \<lparr>dsc_Letter = letter, dsc_InWord = strings_Contains (side_word (side w d me)) letter\<rparr>) w))
     else if aid = SeeingEye then
       (let (hit, w) = hostile d me them aid CastUsed (0, 0) w in
        if hit then do {
          (e, r) \<leftarrow> aim now (w_rng w) (side w d me) (side w d them) None new_eye;
          sendEyes d me them (upd_side d me (\<lambda>s. s\<lparr>eyes := eyes s @ [e]\<rparr>) (set_rng r w))
        } else Some w)
     else if aid = MagicMissile then
       (let w = castEvent d me aid CastUsed False (0, 0) w in
        Some (upd_side d them (\<lambda>s. s\<lparr>missiles := missiles s @ [now + MissileFlight]\<rparr>) w))
     else if aid = Illusion then
       (let (hit, w) = hostile d me them aid CastUsed (0, 0) w in
        if hit then do {
          P \<leftarrow> w_Duels w;
          (word, r) \<leftarrow> IllusionWord P (w_rng w);
          let w = upd_side d them (\<lambda>s. s\<lparr>illusion := Some \<lparr>ill_word = word, ill_guesses = 0\<rparr>\<rparr>) (set_rng r w);
          Some (send_side d them (ServerIllusionStart
            \<lparr>is_WordLength = int (length word), is_MaxGuesses = IllusionGuesses\<rparr>) w)
        } else Some w)
     else do {
       (done, w) \<leftarrow> castRogue d me them aid req w;
       if \<not> done then castCleric d me them aid req w else Some w
     })"

text \<open>Words the target's word could become: not its word, and nothing guessed so far.\<close>

fun reshape_loop ::
    "puzzle \<Rightarrow> nat \<Rightarrow> string set \<Rightarrow> string list \<Rightarrow> rng \<Rightarrow> (string list \<times> rng) option" where
  "reshape_loop P 0 taken out r = Some (out, r)"
| "reshape_loop P (Suc tries) taken out r =
    (if length out < ReshapeOptions then do {
       (word, r) \<leftarrow> NewWord P r;
       if word \<notin> taken then reshape_loop P tries (insert word taken) (out @ [word]) r
       else reshape_loop P tries taken out r
     } else Some (out, r))"

definition reshapeOptions :: "duel_side \<Rightarrow> world \<Rightarrow> (string list \<times> world) option" where
  "reshapeOptions target w = do {
    P \<leftarrow> w_Duels w;
    (out, r) \<leftarrow> reshape_loop P 100 (taken_words target) [] (w_rng w);
    Some (out, set_rng r w)
  }"

text \<open>The duel of a client, with the client's side and the other one.\<close>

definition find_duel :: "client \<Rightarrow> world \<Rightarrow> (pref \<times> dref \<times> who \<times> who) option" where
  "find_duel c w = do {
    p \<leftarrow> map_of (w_players w) c;
    d \<leftarrow> p_duel (w_pobj w p);
    Some (p, d, sidesOf w d p)
  }"

definition CastAbility :: "client \<Rightarrow> DuelCastReq \<Rightarrow> world \<Rightarrow> world option" where
  "CastAbility c req w =
    (case find_duel c w of
      None \<Rightarrow> Some w
    | Some (p, d, me, them) \<Rightarrow>
       (case AbilityAt (e_Class (ent_of w p)) (Slot req) of
         None \<Rightarrow> Some (sendDuelState d me w)
       | Some a \<Rightarrow>
          if w_now w < silencedUntil (side w d me) \<or> energy (side w d me) < ab_Cost a \<or>
             (ab_Once a \<and> ab_ID a \<in> used_once (side w d me)) \<or>
             \<not> canCast (ab_ID a) (side w d me) (side w d them) req
          then Some (sendDuelState d me w)
          else if ab_Target a = TargetWord then do {
            (words, w) \<leftarrow> reshapeOptions (side w d them) w;
            let w = upd_side d me (\<lambda>s. s\<lparr>reshape := words\<rparr>) w;
            Some (send c (ServerDuelReshapeOptions words) w)
          } else do {
            let w = upd_side d me (\<lambda>s. s\<lparr>energy := energy s - ab_Cost a\<rparr>) w;
            let w = (if ab_Once a then upd_side d me (\<lambda>s. s\<lparr>used_once := insert (ab_ID a) (used_once s)\<rparr>) w
                     else w);
            w \<leftarrow> cast d me them (ab_ID a) req w;
            Some (syncDuel d w)
          }))"

definition ReshapeReality_pick :: "client \<Rightarrow> string \<Rightarrow> world \<Rightarrow> world option" where
  "ReshapeReality_pick c word w =
    (case find_duel c w of
      None \<Rightarrow> Some w
    | Some (p, d, me, them) \<Rightarrow>
       (let word = toUpper word; cost = abilityCost (e_Class (ent_of w p)) ReshapeReality in
        if cost < 0 \<or> word \<notin> set (reshape (side w d me)) \<or> energy (side w d me) < cost
        then Some (sendDuelState d me w)
        else do {
          let w = upd_side d me (\<lambda>s. s\<lparr>reshape := [], energy := energy s - cost\<rparr>) w;
          let (hit, w) = hostile d me them ReshapeReality CastUsed (0, 0) w;
          w \<leftarrow> if hit then do {
                 w \<leftarrow> rescore d them word w;
                 let w = send_boards d them me w;
                 reaimEyes d me them w
               } else Some w;
          Some (syncDuel d w)
        }))"

definition IllusionGuess :: "client \<Rightarrow> string \<Rightarrow> world \<Rightarrow> world option" where
  "IllusionGuess c guess w =
    (case find_duel c w of
      None \<Rightarrow> Some w
    | Some (p, d, me, them) \<Rightarrow>
       (case illusion (side w d me) of
         None \<Rightarrow> Some w
       | Some ill \<Rightarrow>
          let res = WordleRes_zero\<lparr>wr_Status := WordleInGame\<rparr> in
          if w_now w < stunnedUntil (side w d me)
          then Some (send c (ServerIllusionGuess (res\<lparr>wr_Blocked := True\<rparr>)) w)
          else do {
            P \<leftarrow> w_Duels w;
            let (valid, colors) = pScore P guess (ill_word ill);
            if \<not> valid then Some (send c (ServerIllusionGuess res) w)
            else do {
              let ill = ill\<lparr>ill_guesses := ill_guesses ill + 1\<rparr>;
              let w = upd_side d me (\<lambda>s. s\<lparr>illusion := Some ill\<rparr>) w;
              let won = solves colors;
              let status = (if won then WordleWin
                            else if IllusionGuesses \<le> ill_guesses ill then WordleLose else WordleInGame);
              let w = send c (ServerIllusionGuess
                        (res\<lparr>wr_Valid := True, wr_Colors := colors, wr_Status := status\<rparr>)) w;
              if status = WordleInGame then Some w
              else do {
                let w = upd_side d me (\<lambda>s. s\<lparr>illusion := None\<rparr>) w;
                let lost = (if won then 0 else fst (loseEnergy IllusionEnergy (side w d me)));
                let w = (if won then w else upd_side d me (\<lambda>s. snd (loseEnergy IllusionEnergy s)) w);
                let w = send c (ServerIllusionEnd \<lparr>ie_Won = won, ie_Solution = ill_word ill,
                           ie_EnergyLost = lost, ie_Purified = False\<rparr>) w;
                let w = castEvent d them Illusion (if won then CastFizzled else CastLanded) False (0, 0) w;
                Some (syncDuel d w)
              }
            }
          }))"

section \<open>Telling abilities apart\<close>

lemma distinct_abilities:
  "distinct [Slash, ShieldsUp, Determination, PommelStrike, Cripple, Scry, SeeingEye, MagicMissile,
     Illusion, ReshapeReality, Pickpocket, Cheat, Feint, UnderTheirNose, Confuse,
     MinorPrayer, Mend, Purify, MajorPrayer, DivineIntervention]"
  by (simp add: ability_id_defs)

lemma distinct_abilities_rev:
  "distinct [DivineIntervention, MajorPrayer, Purify, Mend, MinorPrayer, Confuse, UnderTheirNose,
     Feint, Cheat, Pickpocket, ReshapeReality, Illusion, MagicMissile, SeeingEye, Scry,
     Cripple, PommelStrike, Determination, ShieldsUp, Slash]"
  by (simp add: ability_id_defs)

lemmas ability_neq [simp] =
  distinct_abilities [simplified distinct.simps list.set insert_iff empty_iff de_Morgan_disj simp_thms]
  distinct_abilities_rev [simplified distinct.simps list.set insert_iff empty_iff de_Morgan_disj simp_thms]

lemma canCast_simps [simp]:
  "canCast ShieldsUp me them req \<longleftrightarrow> \<not> shield me"
  "canCast Cripple me them req \<longleftrightarrow> 2 \<le> unusedRows them"
  "canCast Slash me them req \<longleftrightarrow> on_board them (Row req, Col req) \<and> (Row req, Col req) \<notin> destroyed them"
  "canCast Pickpocket me them req \<longleftrightarrow> 0 \<le> Row req \<and> Row req < int (length (side_guesses them)) \<and>
     0 \<le> Col req \<and> Col req < int (length (gr_shown (side_guesses them ! nat (Row req)))) \<and>
     gr_shown (side_guesses them ! nat (Row req)) ! nat (Col req) = Yellow \<and>
     (Row req, Col req) \<notin> destroyed them"
  "canCast Cheat me them req \<longleftrightarrow> \<not> cheat me"
  "canCast Feint me them req \<longleftrightarrow> validPattern (Colors req) (int (length (side_word me)))"
  "canCast UnderTheirNose me them req \<longleftrightarrow> validPattern (Colors req) (int (length (side_word me)))"
  "canCast Mend me them req \<longleftrightarrow> 0 \<le> Row req \<and> Row req < int (length (side_guesses me))"
  by (simp_all add: canCast_def Let_def on_board_def)

section \<open>Effects that keep a duel well-formed\<close>

lemma duel_okI_sides:
  assumes "side_ok P n (side w d i)" and "side_ok P n (side w d (other i))"
    and "eyes_ok (side w d i) (side w d (other i))" and "eyes_ok (side w d (other i)) (side w d i)"
    and "\<not> side_solved (side w d i)" and "\<not> side_solved (side w d (other i))"
    and "\<not> (side_out (side w d i) \<and> side_out (side w d (other i)))"
    and "side_p (side w d i) \<noteq> side_p (side w d (other i))"
  shows "duel_ok P n (w_dobj w d)"
proof (intro duel_okI)
  fix j
  consider "j = i" | "j = other i" using who_neq_iff by blast
  then show "side_ok P n (d_side j (w_dobj w d))"
    "eyes_ok (d_side j (w_dobj w d)) (d_side (other j) (w_dobj w d))"
    "\<not> side_solved (d_side j (w_dobj w d))"
    by (cases; use assms in \<open>simp add: side_def\<close>)+
qed (use assms(7,8) in \<open>cases i; auto simp: side_def\<close>)+

lemma duel_ok_sides:
  assumes "duel_ok P n (w_dobj w d)"
  shows "\<not> side_solved (side w d i)" "\<not> (side_out (side w d i) \<and> side_out (side w d (other i)))"
    "side_p (side w d i) \<noteq> side_p (side w d (other i))"
  using duel_okD(3-5) [OF assms] by (simp_all add: side_def)

lemma side_ok_feint: "side_ok P n s \<Longrightarrow> pattern_ok n f \<Longrightarrow> side_ok P n (s\<lparr>feint := f\<rparr>)"
  and side_ok_falseNext: "side_ok P n s \<Longrightarrow> pattern_ok n f \<Longrightarrow> side_ok P n (s\<lparr>falseNext := f\<rparr>)"
  and side_ok_illusion: "side_ok P n s \<Longrightarrow> illusion_ok g \<Longrightarrow> side_ok P n (s\<lparr>illusion := g\<rparr>)"
  and side_ok_reshape: "side_ok P n s \<Longrightarrow> \<forall>word \<in> set ws. length word = n \<Longrightarrow> side_ok P n (s\<lparr>reshape := ws\<rparr>)"
  unfolding side_ok_def on_board_def by simp_all

lemma validPattern_ok: "validPattern cs (int n) \<Longrightarrow> pattern_ok n (Some cs)"
  by (simp add: validPattern_def pattern_ok_def)

lemma keeps_cheat: "duel_ok P n (w_dobj w d) \<Longrightarrow> keeps P n d w (upd_side d i (\<lambda>s. s\<lparr>cheat := b\<rparr>) w)"
  and keeps_shield: "duel_ok P n (w_dobj w d) \<Longrightarrow> keeps P n d w (upd_side d i (\<lambda>s. s\<lparr>shield := b\<rparr>) w)"
  and keeps_used: "duel_ok P n (w_dobj w d) \<Longrightarrow>
    keeps P n d w (upd_side d i (\<lambda>s. s\<lparr>used_once := insert a (used_once s)\<rparr>) w)"
  and keeps_feint: "duel_ok P n (w_dobj w d) \<Longrightarrow> pattern_ok n f \<Longrightarrow>
    keeps P n d w (upd_side d i (\<lambda>s. s\<lparr>feint := f\<rparr>) w)"
  and keeps_falseNext: "duel_ok P n (w_dobj w d) \<Longrightarrow> pattern_ok n f \<Longrightarrow>
    keeps P n d w (upd_side d i (\<lambda>s. s\<lparr>falseNext := f\<rparr>) w)"
  and keeps_illusion: "duel_ok P n (w_dobj w d) \<Longrightarrow> illusion_ok g \<Longrightarrow>
    keeps P n d w (upd_side d i (\<lambda>s. s\<lparr>illusion := g\<rparr>) w)"
  and keeps_reshape: "duel_ok P n (w_dobj w d) \<Longrightarrow> \<forall>word \<in> set ws. length word = n \<Longrightarrow>
    keeps P n d w (upd_side d i (\<lambda>s. s\<lparr>reshape := ws\<rparr>) w)"
  and keeps_keys: "duel_ok P n (w_dobj w d) \<Longrightarrow> keys_ok m k \<Longrightarrow>
    keeps P n d w (upd_side d i (\<lambda>s. s\<lparr>keymap := m, scrambledGuesses := k\<rparr>) w)"
  and keeps_times: "duel_ok P n (w_dobj w d) \<Longrightarrow>
    keeps P n d w (upd_side d i (\<lambda>s. s\<lparr>stunnedUntil := x, silencedUntil := y\<rparr>) w)"
  by (rule keeps_effect; simp add: side_okI side_ok_feint side_ok_falseNext side_ok_illusion
      side_ok_reshape side_ok_keys)+

lemma keeps_energy:
  assumes "duel_ok P n (w_dobj w d)" and "0 \<le> f (side w d i)"
  shows "keeps P n d w (upd_side d i (\<lambda>s. s\<lparr>energy := f s\<rparr>) w)"
  by (rule keeps_effect [OF assms(1)]) (use assms side_okI in \<open>simp_all add: side_ok_energy\<close>)

lemma keeps_set_rng: "duel_ok P n (w_dobj w d) \<Longrightarrow> keeps P n d w (set_rng r w)"
  by (simp add: keeps_def)

lemma keeps_step:
  assumes "duel_ok P n (w_dobj w d)" and "keeps P n d w w'" and "\<And>w'. duel_ok P n (w_dobj w' d) \<Longrightarrow> keeps P n d w' (f w')"
  shows "keeps P n d w (f w')"
  using assms(2,3) by (rule keeps_effect_trans)

lemma keeps_runs: "keeps P n d w w' \<Longrightarrow> runs m (keeps P n d w') \<Longrightarrow> runs m (keeps P n d w)"
  by (auto elim!: runs_conseq intro: keeps_trans keepsD(1))

lemma keeps_then_send: "keeps P n d w w' \<Longrightarrow> \<not> paints m \<Longrightarrow> keeps P n d w (send_side d i m w')"
  and keeps_then_event: "keeps P n d w w' \<Longrightarrow> keeps P n d w (castEvent d me a k b t w')"
  and keeps_then_sync: "keeps P n d w w' \<Longrightarrow> keeps P n d w (syncDuel d w')"
  by (auto simp: keeps_def intro: stays_trans)

lemma keeps_hostile_Some:
  assumes "duel_ok P n (w_dobj w d)"
    and "\<And>w'. duel_ok P n (w_dobj w' d) \<Longrightarrow> keeps P n d w' (f w')"
  shows "runs (if fst (hostile d me them a k t w) then Some (x, f (snd (hostile d me them a k t w)))
    else Some (y, snd (hostile d me them a k t w))) (\<lambda>(r, w'). keeps P n d w w')"
  using keeps_hostile_then [OF assms, of me them a k t] by (auto split: if_splits)

section \<open>Rogue\<close>

lemma castRogue_keeps:
  assumes ok: "duel_ok P n (w_dobj w d)" and can: "canCast aid me_s (side w d (other me)) req"
    and word: "length (side_word me_s) = n"
  shows "runs (castRogue d me (other me) aid req w) (\<lambda>(done, w'). keeps P n d w w')"
proof -
  let ?h = "\<lambda>t. snd (hostile d me (other me) aid CastUsed t w)"
  have pick: "runs (if fst (hostile d me (other me) aid CastUsed t w) then do {
          g \<leftarrow> at_int (side_guesses (side (?h t) d (other me))) (fst t);
          letter \<leftarrow> at_int (gr_word g) (snd t);
          Some (True, send_side d me (ServerDuelPickpocket
            \<lparr>dp_Row = fst t, dp_Col = snd t, dp_Letter = [letter]\<rparr>) (?h t))
        } else Some (True, ?h t)) (\<lambda>(done, w'). keeps P n d w w')"
    if p: "aid = Pickpocket" and t: "t = (Row req, Col req)" for t
  proof -
    let ?g = "side_guesses (side w d (other me)) ! nat (fst t)"
    have r: "0 \<le> fst t" "fst t < int (length (side_guesses (side w d (other me))))"
      "0 \<le> snd t" "snd t < int (length (gr_shown ?g))"
      using can unfolding p t by simp_all
    then have "?g \<in> set (side_guesses (side w d (other me)))" by (intro nth_mem) (simp add: nat_less_iff)
    then have "row_ok P n ?g" by (rule side_okD(4) [OF side_okI [OF ok]])
    then have len: "snd t < int (length (gr_word ?g))"
      using r(4) by (simp add: row_ok_def rescorable_def)
    have "keeps P n d w (send_side d me m (?h t))" if "\<not> paints m" for m
      by (rule keeps_effect_trans [OF keeps_hostile [OF ok] keeps_send_side [OF that]])
    then show ?thesis
      using r len keeps_hostile [OF ok] by (simp add: runs_at_int)
  qed
  have pat: "pattern_ok n (Some (Colors req))" if "aid = Feint \<or> aid = UnderTheirNose"
    using can that word by (auto intro: validPattern_ok)
  have confuse: "keeps P n d w (upd_side d (other me) (\<lambda>s. s\<lparr>keymap := Some (fst (scrambledKeys r)),
      scrambledGuesses := ScrambleGuesses\<rparr>) (set_rng r' w))" if "duel_ok P n (w_dobj w d)" for w r r'
    by (rule keeps_trans [OF stays_set_rng keeps_keys])
      (use that scrambledKeys_permutation in \<open>simp_all add: keys_ok_def ScrambleGuesses_def\<close>)
  show ?thesis
  proof (cases "aid = Pickpocket")
    case True
    show ?thesis
      using pick [OF True refl]
      by (simp only: castRogue_def Let_def if_P [OF True] fst_conv snd_conv split_beta)
  next
    case nP: False
    consider "aid = Cheat" | "aid = Feint" | "aid = UnderTheirNose" | "aid = Confuse"
      | "aid \<noteq> Cheat" "aid \<noteq> Feint" "aid \<noteq> UnderTheirNose" "aid \<noteq> Confuse" by blast
    then show ?thesis
    proof cases
      case 1
      then show ?thesis using keeps_step [OF ok keeps_cheat [OF ok] keeps_castEvent]
        by (simp add: castRogue_def Let_def)
    next
      case 2
      then show ?thesis using keeps_step [OF ok keeps_feint [OF ok pat] keeps_castEvent]
        by (simp add: castRogue_def Let_def)
    next
      case 3
      then show ?thesis
        using keeps_then_send [OF keeps_falseNext [OF ok pat]] keeps_hostile [OF ok]
        by (simp add: castRogue_def Let_def)
    next
      case 4
      show ?thesis
        using keeps_hostile_then [OF ok confuse [where r = "w_rng w" and r' = "snd (scrambledKeys (w_rng w))"],
            of me "other me" Confuse CastUsed "(0, 0)"]
        by (simp add: 4 castRogue_def Let_def split_beta split: if_splits)
    next
      case 5
      then show ?thesis using nP keeps_refl [OF ok] by (simp add: castRogue_def Let_def)
    qed
  qed
qed

section \<open>Cleric\<close>

lemma stays_nextPrayer [simp]: "stays d w (w\<lparr>w_nextPrayer := k\<rparr>)"
  by (simp add: stays_def tells_same)

lemma stays_pray:
  "pj_duel j = d \<Longrightarrow> 0 \<le> pj_cost j \<Longrightarrow> length (w_praying w) < MaxPrayers \<Longrightarrow>
   stays d w (w\<lparr>w_praying := w_praying w @ [j]\<rparr>)"
  by (simp add: stays_def prayers_grow_def tells_same)

lemma keeps_unanswered:
  assumes "duel_ok P n (w_dobj w d)" and "0 \<le> cost"
  shows "keeps P n d w (unanswered d me i kind cost w)"
  unfolding unanswered_def
  by (rule keeps_then_send [OF keeps_energy [OF assms(1)]])
    (use side_okD(7) [OF side_okI [OF assms(1)]] assms(2) in simp_all)

lemma prayerLetter_runs:
  assumes "side_word s \<noteq> []"
  shows "runs (prayerLetter s r) (\<lambda>_. True)"
proof -
  have "nat (int k mod int (length xs)) < length xs" if "xs \<noteq> []" for k and xs :: "int list"
    using that by (simp add: nat_less_iff)
  then show ?thesis
    using assms by (auto simp: prayerLetter_def Let_def runs_Intn runs_at_int)
qed

lemma keeps_start_prayer:
  assumes "duel_ok P n (w_dobj w d)" and "pj_duel j = d" and "0 \<le> pj_cost j"
  shows "keeps P n d w (start_prayer j w)"
proof -
  have "keeps P n d w (w\<lparr>w_praying := w_praying w @ [j]\<rparr>)" if "length (w_praying w) < MaxPrayers"
    using that assms stays_pray by (simp add: keeps_def)
  then show ?thesis
    unfolding start_prayer_def using keeps_unanswered [OF assms(1,3)] assms(2) by simp
qed

lemma pray_keeps:
  assumes ok: "duel_ok P n (w_dobj w d)" and n: "0 < n" and cost: "0 \<le> cost"
  shows "runs (pray d me ability kind cost w) (keeps P n d w)"
proof -
  let ?w0 = "w\<lparr>w_nextPrayer := w_nextPrayer w + 1\<rparr>"
  let ?w1 = "castEvent d me ability CastUsed False (0, 0) ?w0"
  let ?w2 = "send_side d me (ServerDuelPrayer ((prayer_msg (w_nextPrayer ?w0) kind)\<lparr>dpr_Pending := True\<rparr>)) ?w1"
  have 0: "keeps P n d w ?w0" using ok by (simp add: keeps_def)
  have 2: "keeps P n d w ?w2" by (rule keeps_then_send [OF keeps_then_event [OF 0]]) simp
  have "side_word (side ?w2 d me) \<noteq> []"
    using side_okD(1) [OF side_okI [OF keepsD(2) [OF 2]], of me] n by (cases "side_word (side ?w2 d me)") auto
  then have letter: "runs (if kind = PrayerMinor then prayerLetter (side ?w2 d me) (w_rng ?w2)
      else Some (0, w_rng ?w2)) (\<lambda>_. True)"
    using prayerLetter_runs by simp
  have rest: "keeps P n d w (start_prayer \<lparr>pj_duel = d, pj_me = me, pj_id = i, pj_kind = kind,
      pj_cost = cost, pj_prayer = p\<rparr> (set_rng r ?w2))" for r i p
    by (rule keeps_effect_trans [OF keeps_effect_trans [OF 2 keeps_set_rng] keeps_start_prayer])
      (simp_all add: cost)
  show ?thesis
    unfolding pray_def Let_def runs_bind
    by (rule runs_conseq [OF letter]) (simp only: split_beta runs_Some rest)
qed

subsection \<open>Mend\<close>

text \<open>A side with one row taken out.\<close>

definition without_row :: "int \<Rightarrow> guessRow list \<Rightarrow> duel_side \<Rightarrow> duel_side" where
  "without_row row gs s =
     s\<lparr>side_guesses := gs, destroyed := shift_tile row ` {t \<in> destroyed s. fst t \<noteq> row}\<rparr>"

lemma shift_tile_inj:
  "fst t \<noteq> row \<Longrightarrow> fst u \<noteq> row \<Longrightarrow> shift_tile row t = shift_tile row u \<longleftrightarrow> t = u"
  by (cases t; cases u) (auto simp: shift_tile_def split: if_splits)

lemma shift_tile_snd [simp]: "snd (shift_tile row t) = snd t"
  by (simp add: shift_tile_def)

lemma on_board_uniform:
  assumes "\<And>g. g \<in> set (side_guesses s) \<Longrightarrow> length (gr_colors g) = n"
  shows "on_board s t \<longleftrightarrow> 0 \<le> fst t \<and> fst t < int (length (side_guesses s)) \<and> 0 \<le> snd t \<and> snd t < int n"
proof -
  have "length (gr_colors (side_guesses s ! nat r)) = n" if "0 \<le> r" "r < int (length (side_guesses s))" for r
    using assms [of "side_guesses s ! nat r"] that by (simp add: nat_less_iff)
  then show ?thesis by (auto simp: on_board_def)
qed

lemma without_row_board:
  assumes ok: "side_ok P n s" and gs: "delete_at (side_guesses s) row = Some gs"
    and b: "on_board s t" and row: "fst t \<noteq> row"
  shows "on_board (without_row row gs s) (shift_tile row t)"
    and "gs ! nat (fst (shift_tile row t)) = side_guesses s ! nat (fst t)"
proof -
  have len: "Suc (length gs) = length (side_guesses s)" by (rule delete_at_length [OF gs])
  have r: "0 \<le> row" "row < int (length (side_guesses s))"
    using gs by (auto simp: delete_at_def split: if_splits)
  have u: "length (gr_colors g) = n" if "g \<in> set (side_guesses (without_row row gs s))" for g
    using that delete_at_set [OF gs] side_okD(4) [OF ok] by (auto simp: without_row_def row_ok_def)
  have t: "0 \<le> fst t" "fst t < int (length (side_guesses s))" "0 \<le> snd t" "snd t < int n"
    using b unfolding on_board_side_ok [OF ok] by auto
  have s: "0 \<le> fst (shift_tile row t)" "fst (shift_tile row t) < int (length gs)"
    using t r len row by (auto simp: shift_tile_def)
  show "on_board (without_row row gs s) (shift_tile row t)"
    by (subst on_board_uniform [where n = n, OF u], assumption) (use s t in \<open>simp add: without_row_def\<close>)
  show "gs ! nat (fst (shift_tile row t)) = side_guesses s ! nat (fst t)"
  proof (cases "row < fst t")
    case True
    then have f: "fst (shift_tile row t) = fst t - 1" by (simp add: shift_tile_def)
    then have "nat (fst t - 1) < length gs" using s by (simp add: nat_less_iff)
    then have "gs ! nat (fst t - 1) = side_guesses s ! Suc (nat (fst t - 1))"
      using delete_at_nth [OF gs, of "nat (fst t - 1)"] True t by simp
    moreover have "Suc (nat (fst t - 1)) = nat (fst t)" using True r by simp
    ultimately show ?thesis by (simp add: f)
  next
    case False
    then have f: "shift_tile row t = t" "fst t < row" using row by (auto simp: shift_tile_def)
    then have "nat (fst t) < length gs" using s by (simp add: nat_less_iff)
    then show ?thesis using delete_at_nth [OF gs, of "nat (fst t)"] f t by simp
  qed
qed

lemma without_row_ok:
  assumes "side_ok P n s" and "delete_at (side_guesses s) row = Some gs"
  shows "side_ok P n (without_row row gs s)"
proof -
  let ?s = "without_row row gs s"
  have "row_ok P n g" if "g \<in> set gs" for g
    using that delete_at_set [OF assms(2)] side_okD(4) [OF assms(1)] by blast
  moreover have "on_board ?s t" if "t \<in> destroyed ?s" for t
    using that without_row_board(1) [OF assms side_okD(13) [OF assms(1)]]
    by (auto simp: without_row_def)
  moreover have "int (length gs) \<le> side_rows s"
    using delete_at_length [OF assms(2)] side_okD(5) [OF assms(1)] by simp
  ultimately show ?thesis
    using assms(1) unfolding side_ok_def by (simp add: without_row_def)
qed

lemma without_row_watchable:
  assumes "side_ok P n s" and "delete_at (side_guesses s) row = Some gs"
    and "watchable s t" and "fst t \<noteq> row"
  shows "watchable (without_row row gs s) (shift_tile row t)"
proof -
  have b: "on_board s t" using assms(3) by (simp add: watchable_def)
  have "shift_tile row t \<notin> destroyed (without_row row gs s)"
    using assms(3,4) by (auto simp: without_row_def watchable_def shift_tile_inj)
  then show ?thesis
    using without_row_board [OF assms(1,2) b assms(4)] assms(3)
    by (simp add: watchable_def without_row_def)
qed

lemma aimed_upd_eye:
  assumes "aimed d i w0 w"
  shows "aimed d i w0 (upd_side d i (\<lambda>s. s\<lparr>eyes := (eyes s)[k := e]\<rparr>) w)"
proof (rule aimed_trans [OF assms])
  have "stays d w (upd_side d i (\<lambda>s. s\<lparr>eyes := (eyes s)[k := e]\<rparr>) w)"
    by (rule stays_upd_side) simp
  then show "aimed d i w (upd_side d i (\<lambda>s. s\<lparr>eyes := (eyes s)[k := e]\<rparr>) w)"
    unfolding aimed_def by (simp add: side_def d_side_upd) (rule d_upd_cong, simp)
qed

lemma mend_eyes_runs:
  assumes "\<And>e. e \<in> set (eyes (side w d i)) \<Longrightarrow> eye_on e \<Longrightarrow> fst (eye_at e) \<noteq> row \<Longrightarrow>
      watchable (side w d (other i)) (shift_tile row (eye_at e))"
  shows "runs (fold_opt (mend_eye d (other i) i row) [0..<length (eyes (side w d i))] (w, False))
    (\<lambda>(w', moved). aimed d i w w' \<and> eyes_ok (side w' d i) (side w' d (other i)))"
proof -
  let ?n = "length (eyes (side w d i))" and ?t = "side w d (other i)"
  let ?I = "\<lambda>k (w', moved :: bool). aimed d i w w' \<and> (\<forall>m < k. good_eye ?t (eyes (side w' d i) ! m)) \<and>
    (\<forall>m < ?n. k \<le> m \<longrightarrow> eyes (side w' d i) ! m = eyes (side w d i) ! m)"
  have "runs (fold_opt (mend_eye d (other i) i row) [0..<?n] (w, False)) (?I ?n)"
  proof (rule runs_fold_upt [where I = ?I])
    fix k x
    assume k: "k < ?n" and Ix: "?I k x"
    obtain w' moved where x: "x = (w', moved)" by (cases x)
    have I: "aimed d i w w'" "\<forall>m < k. good_eye ?t (eyes (side w' d i) ! m)"
      "\<forall>m < ?n. k \<le> m \<longrightarrow> eyes (side w' d i) ! m = eyes (side w d i) ! m"
      using Ix by (simp_all add: x)
    define e where "e = eyes (side w' d i) ! k"
    have e: "e \<in> set (eyes (side w d i))" using k I(3) by (simp add: e_def)
    have len: "length (eyes (side w' d i)) = ?n" by (rule aimed_side(3) [OF I(1)])
    have stay: "?I (Suc k) (w', moved)" if "good_eye ?t e"
      using I that by (auto simp: less_Suc_eq e_def)
    consider "\<not> eye_on e" | "eye_on e" "fst (eye_at e) = row"
      | "eye_on e" "row < fst (eye_at e)" | "eye_on e" "fst (eye_at e) < row" by linarith
    then show "runs (mend_eye d (other i) i row k x) (?I (Suc k))"
    proof cases
      case 1
      then show ?thesis using stay by (simp add: mend_eye_def x e_def [symmetric] good_eye_def)
    next
      case 2
      have "runs (aimEye d i (other i) k w') (\<lambda>w. ?I (Suc k) (w, True))"
        by (rule runs_conseq [OF aimEye_step [OF I(1) k]]) (use I in \<open>auto simp: less_Suc_eq\<close>)
      then show ?thesis using 2 by (simp add: mend_eye_def x e_def [symmetric])
    next
      case 3
      let ?w = "upd_side d i (\<lambda>s. s\<lparr>eyes := (eyes s)[k := e\<lparr>eye_at := shift_tile row (eye_at e)\<rparr>]\<rparr>) w'"
      have "watchable ?t (shift_tile row (eye_at e))" using assms e 3 by simp
      then have "?I (Suc k) (?w, True)"
        using I k len aimed_upd_eye [OF I(1)]
        by (auto simp: less_Suc_eq good_eye_def nth_list_update)
      then show ?thesis using 3 by (simp add: mend_eye_def x e_def [symmetric])
    next
      case 4
      then have "shift_tile row (eye_at e) = eye_at e" by (simp add: shift_tile_def)
      then have "good_eye ?t e" using assms [OF e] 4 by (simp add: good_eye_def)
      then show ?thesis using stay 4 by (simp add: mend_eye_def x e_def [symmetric])
    qed
  qed simp
  then show ?thesis
    by (rule runs_conseq) (auto simp: eyes_ok_nth aimed_side(2) aimed_side(3))
qed

lemma mend_keeps:
  assumes ok: "duel_ok P n (w_dobj w d)" and row: "0 \<le> row" "row < int (length (side_guesses (side w d me)))"
  shows "runs (mend d me (other me) row w) (keeps P n d w)"
proof -
  obtain gs where gs: "delete_at (side_guesses (side w d me)) row = Some gs"
    using row by (simp add: delete_at_def)
  let ?f = "\<lambda>s. s\<lparr>side_guesses := gs\<rparr>"
  let ?g = "\<lambda>s. s\<lparr>destroyed := shift_tile row ` {t \<in> destroyed s. fst t \<noteq> row}\<rparr>"
  define w1 where "w1 = upd_side d me ?g (upd_side d me ?f w)"
  have s1: "side w1 d me = without_row row gs (side w d me)" "side w1 d (other me) = side w d (other me)"
    by (simp_all add: w1_def without_row_def)
  have st1: "stays d w w1"
    unfolding w1_def by (rule stays_trans [OF stays_upd_side stays_upd_side]) simp_all
  note sok = side_okI [OF ok]
  have wat: "watchable (side w1 d me) (shift_tile row (eye_at e))"
    if "e \<in> set (eyes (side w1 d (other me)))" "eye_on e" "fst (eye_at e) \<noteq> row" for e
    using that duel_ok_eyes(1) [OF ok, of "other me"] without_row_watchable [OF sok gs]
    by (simp add: s1 eyes_ok_def)
  have loop: "runs (fold_opt (mend_eye d me (other me) row) [0..<length (eyes (side w1 d (other me)))] (w1, False))
      (\<lambda>(w2, moved). keeps P n d w w2)"
  proof -
    have loop0: "runs (fold_opt (mend_eye d me (other me) row) [0..<length (eyes (side w1 d (other me)))] (w1, False))
        (\<lambda>(w2, moved). aimed d (other me) w1 w2 \<and> eyes_ok (side w2 d (other me)) (side w2 d me))"
      using mend_eyes_runs [of w1 d "other me" row] wat by simp
    have fin: "keeps P n d w w2"
      if a: "aimed d (other me) w1 w2" and e: "eyes_ok (side w2 d (other me)) (side w2 d me)" for w2
    proof -
    have s2: "side w2 d me = without_row row gs (side w d me)"
      using aimed_side(2) [OF a] s1 by simp
    have s2o: "side w2 d (other me) = (side w d (other me))\<lparr>eyes := eyes (side w2 d (other me))\<rparr>"
      using aimed_side(1) [OF a] s1 by simp
    have fields: "eyes (without_row row gs s) = eyes s" "side_solved (without_row row gs s) = side_solved s"
      "side_p (without_row row gs s) = side_p s" for s by (simp_all add: without_row_def)
    have "side_ok P n (side w2 d (other me))" by (subst s2o) (simp add: sok)
    moreover have "eyes_ok (side w2 d me) (side w2 d (other me))"
      using duel_ok_eyes(1) [OF ok, of me] by (subst s2, subst s2o) (simp add: eyes_ok_def fields watchable_def on_board_def)
    moreover have "\<not> side_solved (side w2 d (other me))" "side_p (side w2 d (other me)) = side_p (side w d (other me))"
      using duel_ok_sides(1) [OF ok, of "other me"] by (subst s2o, simp)+
    moreover have "\<not> side_out (side w2 d me)"
      using delete_at_length [OF gs] side_okD(5) [OF sok, of me] unfolding s2
      by (simp add: side_out_def without_row_def)
    ultimately have "duel_ok P n (w_dobj w2 d)"
      using e without_row_ok [OF sok gs] duel_ok_sides(1,3) [OF ok, of me]
      by (intro duel_okI_sides [of _ _ _ _ me]) (simp_all add: s2 fields)
    then show "keeps P n d w w2" using stays_trans [OF st1 aimed_stays [OF a]] by (simp add: keeps_def)
    qed
    show ?thesis by (rule runs_conseq [OF loop0]) (use fin in auto)
  qed
  have tail: "runs (do { w' \<leftarrow> if moved then sendEyes d (other me) me w2 else Some w2;
      let w' = castEvent d me Mend CastUsed False (row, 0) w';
      let w' = send_side d me m1 w';
      Some (send_side d (other me) m2 w') }) (keeps P n d w)"
    if k: "keeps P n d w w2" and m: "\<not> paints m1" "\<not> paints m2" for w2 moved m1 m2
  proof -
    have "runs (if moved then sendEyes d (other me) me w2 else Some w2) (keeps P n d w)"
      using keeps_runs_trans [OF k sendEyes_keeps [where i = "other me", simplified]] k by simp
    then show ?thesis
      unfolding runs_bind Let_def runs_Some
      by (rule runs_conseq) (intro keeps_then_send keeps_then_event m)
  qed
  show ?thesis
    unfolding mend_def gs Option.bind.simps Let_def runs_bind w1_def [symmetric]
    by (rule runs_conseq [OF loop]) (use tail in \<open>simp add: Let_def split_beta\<close>)
qed

lemma keeps_clear_eyes:
  assumes "duel_ok P n (w_dobj w d)"
  shows "keeps P n d w (upd_side d i (\<lambda>s. s\<lparr>eyes := []\<rparr>) w)"
proof (rule keeps_upd_side)
  have "eyes_ok (d_side (other i) (w_dobj w d)) ((d_side i (w_dobj w d))\<lparr>eyes := []\<rparr>)"
    using duel_okD(2) [OF assms, of "other i"] by (subst eyes_ok_cong) simp_all
  then show "duel_ok P n (d_upd i (\<lambda>s. s\<lparr>eyes := []\<rparr>) (w_dobj w d))"
    using duel_okD(1,3) [OF assms, of i] duel_okD(4) [OF assms, of i]
    by (intro duel_ok_upd [OF assms]) (auto simp: side_out_def eyes_ok_def)
qed simp

lemma purify_keeps:
  assumes ok: "duel_ok P n (w_dobj w d)"
  shows "runs (purify d me (other me) w) (keeps P n d w)"
proof -
  let ?w1 = "castEvent d me Purify CastUsed False (0, 0) w"
  let ?w2 = "upd_side d me (\<lambda>s. s\<lparr>stunnedUntil := 0, silencedUntil := 0\<rparr>) ?w1"
  let ?w3 = "upd_side d me (\<lambda>s. s\<lparr>keymap := None, scrambledGuesses := 0\<rparr>) ?w2"
  let ?w4 = "upd_side d me (\<lambda>s. s\<lparr>falseNext := None\<rparr>) ?w3"
  let ?w5 = "upd_side d me (\<lambda>s. s\<lparr>missiles := []\<rparr>) ?w4"
  let ?w6 = "case illusion (side ?w5 d me) of None \<Rightarrow> ?w5
     | Some g \<Rightarrow> upd_side d me (\<lambda>s. s\<lparr>illusion := None\<rparr>)
                  (send_side d me (ServerIllusionEnd (illusion_purified g)) ?w5)"
  have 1: "keeps P n d w ?w1" by (rule keeps_castEvent [OF ok])
  have 2: "keeps P n d w ?w2" by (rule keeps_effect_trans [OF 1 keeps_times])
  have 3: "keeps P n d w ?w3" by (rule keeps_effect_trans [OF 2 keeps_keys]) (simp_all add: keys_ok_def)
  have 4: "keeps P n d w ?w4" by (rule keeps_effect_trans [OF 3 keeps_falseNext]) (simp_all add: pattern_ok_def)
  have 5: "keeps P n d w ?w5" by (rule keeps_effect_trans [OF 4 keeps_missiles])
  have "keeps P n d w (upd_side d me (\<lambda>s. s\<lparr>illusion := None\<rparr>) (send_side d me m ?w5))" if "\<not> paints m" for m
    by (rule keeps_effect_trans [OF keeps_then_send [OF 5 that] keeps_illusion]) (simp_all add: illusion_ok_def)
  then have 6: "keeps P n d w ?w6" using 5 by (simp split: option.split)
  have "runs (sendEyes d (other me) me w') (keeps P n d w')" if "duel_ok P n (w_dobj w' d)" for w'
    using sendEyes_keeps [OF that, of "other me"] by simp
  from keeps_runs_trans [OF keeps_effect_trans [OF 6 keeps_clear_eyes [where i = "other me"]] this]
  have 7: "runs (sendEyes d (other me) me (upd_side d (other me) (\<lambda>s. s\<lparr>eyes := []\<rparr>) ?w6)) (keeps P n d w)" .
  show ?thesis
    unfolding purify_def Let_def runs_if runs_Some using 6 7 by blast
qed

subsection \<open>New words\<close>

text \<open>A duel that is well-formed except perhaps for what the eyes of side \<open>i\<close> watch.\<close>

definition board_ok :: "puzzle \<Rightarrow> nat \<Rightarrow> dref \<Rightarrow> world \<Rightarrow> bool" where
  "board_ok P n d w \<longleftrightarrow> (\<forall>i. side_ok P n (side w d i) \<and> eyes_on_board (side w d i) (side w d (other i)) \<and>
      \<not> side_solved (side w d i)) \<and>
     side_p (side w d SideA) \<noteq> side_p (side w d SideB) \<and>
     \<not> (side_out (side w d SideA) \<and> side_out (side w d SideB))"

lemma board_okD:
  assumes "board_ok P n d w"
  shows "side_ok P n (side w d i)" "eyes_on_board (side w d i) (side w d (other i))"
    "\<not> side_solved (side w d i)" "side_p (side w d i) \<noteq> side_p (side w d (other i))"
    "\<not> (side_out (side w d i) \<and> side_out (side w d (other i)))" "rows_ok (side w d i)"
proof -
  show ok: "side_ok P n (side w d i)" "eyes_on_board (side w d i) (side w d (other i))"
    "\<not> side_solved (side w d i)"
    using assms unfolding board_ok_def by blast+
  have "side_p (side w d SideA) \<noteq> side_p (side w d SideB)"
    "\<not> (side_out (side w d SideA) \<and> side_out (side w d SideB))"
    using assms unfolding board_ok_def by blast+
  then show "side_p (side w d i) \<noteq> side_p (side w d (other i))"
    "\<not> (side_out (side w d i) \<and> side_out (side w d (other i)))"
    by ((cases i; force) [1])+
  show "rows_ok (side w d i)" by (rule side_ok_rows_ok [OF ok(1)])
qed

lemma duel_ok_board: "duel_ok P n (w_dobj w d) \<Longrightarrow> board_ok P n d w"
  unfolding board_ok_def
  using side_okI duel_ok_eyes(2) duel_ok_sides [of P n w d] duel_ok_sides(2,3) [of P n w d SideA] by auto

lemma board_duel_ok:
  assumes "board_ok P n d w" and "eyes_ok (side w d i) (side w d (other i))"
    and "eyes_ok (side w d (other i)) (side w d i)"
  shows "duel_ok P n (w_dobj w d)"
  using board_okD [OF assms(1)] board_okD(1,3) [OF assms(1), of "other i"] assms(2,3)
  by (intro duel_okI_sides [of _ _ _ _ i]) auto

lemma board_ok_cong:
  assumes "w_dobj w' d = w_dobj w d"
  shows "board_ok P n d w' = board_ok P n d w"
  using assms by (simp add: board_ok_def side_def)

lemma eyes_on_board_same:
  assumes "eyes s' = eyes s" and "side_ok P n t" and "side_ok P n t'"
    and "length (side_guesses t') = length (side_guesses t)"
  shows "eyes_on_board s' t' = eyes_on_board s t"
  using assms by (simp add: eyes_on_board_def on_board_side_ok [OF assms(2)] on_board_side_ok [OF assms(3)])

lemma rescore_board:
  assumes D: "w_Duels w = Some P" and b: "board_ok P n d w" and "length word = n"
  shows "runs (rescore d i word w) (\<lambda>w'. stays d w w' \<and> board_ok P n d w' \<and>
    side w' d (other i) = side w d (other i) \<and> side_word (side w' d i) = word \<and>
    eyes (side w' d i) = eyes (side w d i))"
proof (rule runs_conseq [OF rescore_runs [OF D board_okD(1) [OF b] assms(3)]])
  fix w'
  assume "\<exists>gs fs b. w' = upd_side d i (\<lambda>s. s\<lparr>side_word := word, side_guesses := rescore_rows P word (side_guesses s),
           greens := gs, found := fs, side_best := b\<rparr>) w \<and> side_ok P n (side w' d i)"
  then obtain gs fs bst where w': "w' = upd_side d i (\<lambda>s. s\<lparr>side_word := word,
      side_guesses := rescore_rows P word (side_guesses s), greens := gs, found := fs, side_best := bst\<rparr>) w"
    and ok: "side_ok P n (side w' d i)" by blast
  have f: "side_p (side w' d i) = side_p (side w d i)" "side_rows (side w' d i) = side_rows (side w d i)"
    "side_solved (side w' d i) = side_solved (side w d i)" "eyes (side w' d i) = eyes (side w d i)"
    "length (side_guesses (side w' d i)) = length (side_guesses (side w d i))"
    "side_word (side w' d i) = word" "side w' d (other i) = side w d (other i)"
    by (simp_all add: w' rescore_rows_def)
  note B = board_okD [OF b, of i] and C = board_okD [OF b, of "other i"]
  have out: "side_out (side w' d i) = side_out (side w d i)" by (simp add: side_out_def f)
  have e: "eyes_on_board (side w' d i) (side w' d (other i))" "eyes_on_board (side w' d (other i)) (side w' d i)"
    using eyes_on_board_same [OF f(4) C(1) C(1) refl] B(2) eyes_on_board_same [OF refl B(1) ok f(5)] C(2)
    by (simp_all add: f(7))
  have "board_ok P n d w'"
    unfolding board_ok_def
  proof (intro conjI allI)
    fix j
    consider "j = i" | "j = other i" using who_neq_iff by blast
    then show "side_ok P n (side w' d j)" "eyes_on_board (side w' d j) (side w' d (other j))"
      "\<not> side_solved (side w' d j)"
      by (cases; use ok e B(3) C(1,3) f in simp)+
  qed (use B(4,5) f out in \<open>cases i; auto\<close>)+
  moreover have "stays d w w'" unfolding w' by (rule stays_upd_side) simp
  ultimately show "stays d w w' \<and> board_ok P n d w' \<and> side w' d (other i) = side w d (other i) \<and>
      side_word (side w' d i) = word \<and> eyes (side w' d i) = eyes (side w d i)"
    using f by simp
qed

lemma reaimEyes_board:
  assumes "board_ok P n d w"
  shows "runs (reaimEyes d i (other i) w) (\<lambda>w'. stays d w w' \<and> board_ok P n d w' \<and>
    eyes_ok (side w' d i) (side w' d (other i)) \<and>
    (eyes_ok (side w d (other i)) (side w d i) \<longrightarrow> eyes_ok (side w' d (other i)) (side w' d i)))"
proof (rule runs_conseq [OF reaimEyes_runs [OF board_okD(2) [OF assms] board_okD(6) [OF assms]]])
  fix w'
  assume "\<exists>w1. aimed d i w w1 \<and> stays d w1 w' \<and> w_dobj w' = w_dobj w1 \<and>
    eyes_ok (side w' d i) (side w' d (other i))"
  then obtain w1 where a: "aimed d i w w1" and st: "stays d w1 w'" and D: "w_dobj w' = w_dobj w1"
    and e: "eyes_ok (side w' d i) (side w' d (other i))" by blast
  have s: "side w' d i = (side w d i)\<lparr>eyes := eyes (side w' d i)\<rparr>" "side w' d (other i) = side w d (other i)"
    using aimed_side(1,2) [OF a] by (simp_all add: side_def D)
  obtain es where s': "side w' d i = (side w d i)\<lparr>eyes := es\<rparr>" using s by blast
  note B = board_okD [OF assms, of i] and C = board_okD [OF assms, of "other i"]
  have e': "eyes_ok (side w' d (other i)) (side w' d i) = eyes_ok (side w d (other i)) (side w d i)"
    by (rule eyes_ok_cong) (simp_all add: s(2) s')
  have ob: "eyes_on_board (side w' d (other i)) (side w' d i)"
    using C(2) by (simp add: s(2) s' eyes_on_board_def on_board_def)
  have "board_ok P n d w'"
    unfolding board_ok_def
  proof (intro conjI allI)
    fix j
    consider "j = i" | "j = other i" using who_neq_iff by blast
    then show "side_ok P n (side w' d j)" "eyes_on_board (side w' d j) (side w' d (other j))"
      "\<not> side_solved (side w' d j)"
      by (cases; use eyes_ok_on_board [OF e] ob B(1,3) C(1,3) in \<open>simp add: s(2) s'\<close>)+
  next
    have "side_out (side w' d i) = side_out (side w d i)" "side_p (side w' d i) = side_p (side w d i)"
      by (simp_all add: s' side_out_def)
    then show "side_p (side w' d SideA) \<noteq> side_p (side w' d SideB)"
      "\<not> (side_out (side w' d SideA) \<and> side_out (side w' d SideB))"
      using B(4,5) s(2) by ((cases i; auto) [1])+
  qed
  then show "stays d w w' \<and> board_ok P n d w' \<and> eyes_ok (side w' d i) (side w' d (other i)) \<and>
      (eyes_ok (side w d (other i)) (side w d i) \<longrightarrow> eyes_ok (side w' d (other i)) (side w' d i))"
    using stays_trans [OF aimed_stays [OF a] st] e e' by blast
qed

subsection \<open>Fates\<close>

lemma keeps_upd_duel:
  assumes "duel_ok P n (w_dobj w d)" and "\<And>i. d_side i (f (w_dobj w d)) = d_side i (w_dobj w d)"
    and "d_start (f (w_dobj w d)) = d_start (w_dobj w d)" and "d_ranked (f (w_dobj w d)) = d_ranked (w_dobj w d)"
  shows "keeps P n d w (upd_duel d f w)"
proof -
  have "duel_ok P n (f (w_dobj w d))" using assms(1,2) unfolding duel_ok_def by simp
  then show ?thesis
    using assms by (simp add: keeps_def stays_def upd_duel_def same_duel_def tells_same)
qed

lemma sudden_death_keeps:
  "duel_ok P n (w_dobj w d) \<Longrightarrow> keeps P n d w (fate_sudden_death d w)"
  by (auto simp: fate_sudden_death_def Let_def intro!: keeps_upd_duel keeps_refl)

lemma fortune_keeps:
  assumes ok: "duel_ok P n (w_dobj w d)"
  shows "keeps P n d w (fate_fortune d w)"
proof -
  have e: "0 \<le> energy (side w d i)" for i by (rule side_okD(7) [OF side_okI [OF ok]])
  show ?thesis
    unfolding fate_fortune_def Let_def
    by (rule keeps_effect_trans [OF keeps_energy [OF ok] keeps_energy]) (simp_all add: e)
qed

lemma side_clean_slate:
  "side (clean_slate d rows i w) d' j = (if d' = d \<and> j = i
     then reset_effects (length (side_word (side w d i)))
            ((side w d i)\<lparr>side_guesses := [], side_rows := rows, side_best := 0\<rparr>)
     else side w d' j)"
  by (simp add: clean_slate_def Let_def side_upd_side split: option.split)

lemma stays_clean_slate: "stays d w (clean_slate d rows i w)"
proof -
  have "stays d w (upd_side d i (\<lambda>s. reset_effects (length (side_word s))
      (s\<lparr>side_guesses := [], side_rows := rows, side_best := 0\<rparr>)) w)" for w
    by (rule stays_upd_side) simp
  from stays_trans [OF stays_send_side this, of "ServerIllusionEnd g" for g] this show ?thesis
    by (simp add: clean_slate_def Let_def split: option.split)
qed

lemma side_ok_clean:
  assumes "side_ok P n s" and "0 < rows"
  shows "side_ok P n (reset_effects (length (side_word s)) (s\<lparr>side_guesses := [], side_rows := rows, side_best := 0\<rparr>))"
  using assms(2) side_okD(1) [OF assms(1)]
  by (simp add: side_ok_def pattern_ok_def keys_ok_def illusion_ok_def)

lemma clean_slate_keeps:
  assumes ok: "duel_ok P n (w_dobj w d)" and P: "w_Duels w = Some P" "0 < MaxGuesses P"
  shows "runs (fate_clean_slate d w) (keeps P n d w)"
proof -
  let ?w = "each_side (clean_slate d (MaxGuesses P)) w"
  have st: "stays d w ?w" by (rule stays_each_side [OF stays_clean_slate])
  have s: "side ?w d i = reset_effects (length (side_word (side w d i)))
      ((side w d i)\<lparr>side_guesses := [], side_rows := MaxGuesses P, side_best := 0\<rparr>)" for i
    by (cases i) (simp_all add: each_side_def side_clean_slate)
  have sok: "side_ok P n (side ?w d i)" for i
    unfolding s by (rule side_ok_clean [OF side_okI [OF ok] P(2)])
  have D: "duel_ok P n (w_dobj ?w d)"
    using sok duel_ok_sides(1) [OF ok] duel_ok_sides(3) [OF ok, of SideA] P(2)
    by (intro duel_okI_sides [of _ _ _ _ SideA]) (simp_all add: s eyes_ok_def side_out_def)
  have "keeps P n d ?w (upd_duel d (\<lambda>D. D\<lparr>d_deadline := 0, d_nextEnergy := x\<rparr>) ?w)" for x
    by (rule keeps_upd_duel [OF D]) simp_all
  from keeps_trans [OF st this] show ?thesis by (simp add: fate_clean_slate_def P(1) Let_def)
qed

lemma open_columns_runs:
  assumes "length as = length bs"
  shows "runs (open_columns as bs) (\<lambda>cols. \<forall>c \<in> set cols. 0 \<le> c \<and> c < int (length as))"
  unfolding open_columns_def
  by (rule runs_fold_opt) (use assms in \<open>auto simp: runs_at_int\<close>)

lemma nth_mod_in_set: "xs \<noteq> [] \<Longrightarrow> xs ! nat (int k mod int (length xs)) \<in> set xs"
  by (rule nth_mem) (simp add: nat_less_iff)

lemma revelation_keeps:
  assumes ok: "duel_ok P n (w_dobj w d)" and n: "0 < n"
  shows "runs (fate_revelation d w) (keeps P n d w)"
proof -
  let ?a = "side w d SideA" and ?b = "side w d SideB"
  have len: "length (greens ?a) = n" "length (greens ?b) = n" "length (side_word ?a) = n"
    "length (side_word ?b) = n"
    using side_okD(1,2) [OF side_okI [OF ok]] by blast+
  let ?Q = "\<lambda>(col, r :: rng). 0 \<le> col \<and> col < int n"
  have pick: "runs (if cols \<noteq> [] then do { (k, r) \<leftarrow> Intn (int (length cols)) r; c \<leftarrow> at_int cols k; Some (c, r) }
      else Some (col, r)) ?Q" if "0 \<le> col" "col < int n" "\<forall>c \<in> set cols. 0 \<le> c \<and> c < int n" for cols col r
    using that nth_mod_in_set [of cols] by (auto simp: runs_Intn runs_at_int nat_less_iff)
  have fin: "runs (do { la \<leftarrow> at_int (side_word ?a) col;
      let w = send_side d SideA (ServerDuelReveal \<lparr>drv_Col = col, drv_Letter = [la]\<rparr>) (set_rng r w);
      lb \<leftarrow> at_int (side_word ?b) col;
      Some (send_side d SideB (ServerDuelReveal \<lparr>drv_Col = col, drv_Letter = [lb]\<rparr>) w) }) (keeps P n d w)"
    if "0 \<le> col" "col < int n" for col r
    using that len keeps_then_send [OF keeps_then_send [OF keeps_set_rng [OF ok]]] by (simp add: runs_at_int Let_def)
  obtain cols where c: "open_columns (greens ?a) (greens ?b) = Some cols" "\<forall>c \<in> set cols. 0 \<le> c \<and> c < int n"
    using open_columns_runs [of "greens ?a" "greens ?b"] len by (auto simp: runs_iff)
  obtain col0 r0 where i: "Intn (int (length (side_word ?a))) (w_rng w) = Some (col0, r0)" "0 \<le> col0" "col0 < int n"
    using n len by (simp add: Intn_def)
  obtain col r where p: "(if cols \<noteq> [] then do { (k, r) \<leftarrow> Intn (int (length cols)) r0; c \<leftarrow> at_int cols k; Some (c, r) }
      else Some (col0, r0)) = Some (col, r)" "0 \<le> col" "col < int n"
    using pick [OF i(2,3) c(2), of r0] unfolding runs_iff by auto
  have "fate_revelation d w = do { la \<leftarrow> at_int (side_word ?a) col;
      let w = send_side d SideA (ServerDuelReveal \<lparr>drv_Col = col, drv_Letter = [la]\<rparr>) (set_rng r w);
      lb \<leftarrow> at_int (side_word ?b) col;
      Some (send_side d SideB (ServerDuelReveal \<lparr>drv_Col = col, drv_Letter = [lb]\<rparr>) w) }"
    unfolding fate_revelation_def Let_def c(1) i(1) Option.bind.simps prod.case p(1) ..
  then show ?thesis using fin [OF p(2,3), of r] by simp
qed

section \<open>Slashes and new eyes\<close>

lemma slash_keeps:
  assumes ok: "duel_ok P n (w_dobj w d)" and t: "on_board (side w d (other me)) t"
  shows "runs (reaimEyes d me (other me) (upd_side d (other me) (\<lambda>s. s\<lparr>destroyed := insert t (destroyed s)\<rparr>) w))
    (keeps P n d w)"
proof -
  let ?f = "\<lambda>s. s\<lparr>destroyed := insert t (destroyed s)\<rparr>"
  let ?w = "upd_side d (other me) ?f w"
  note B = board_okD [OF duel_ok_board [OF ok], of me] and C = board_okD [OF duel_ok_board [OF ok], of "other me"]
  have ok1: "side_ok P n (?f (side w d (other me)))"
    using C(1) t unfolding side_ok_def by (simp add: on_board_def)
  have out: "side_out (?f s) = side_out s" for s by (simp add: side_out_def)
  have b: "board_ok P n d ?w"
    unfolding board_ok_def
  proof (intro conjI allI)
    fix j
    consider "j = me" | "j = other me" using who_neq_iff by blast
    then show "side_ok P n (side ?w d j)" "eyes_on_board (side ?w d j) (side ?w d (other j))"
      "\<not> side_solved (side ?w d j)"
      by (cases; use B C ok1 in \<open>simp add: eyes_on_board_def on_board_def\<close>)+
  next
    show "side_p (side ?w d SideA) \<noteq> side_p (side ?w d SideB)"
      "\<not> (side_out (side ?w d SideA) \<and> side_out (side ?w d SideB))"
      using B(4,5) by ((cases me; auto simp: side_upd_side out) [1])+
  qed
  have e: "eyes_ok (side ?w d (other me)) (side ?w d me)"
    using duel_ok_eyes(1) [OF ok, of "other me"] by (simp add: eyes_ok_def)
  have st: "stays d w ?w" by (rule stays_upd_side) simp
  show ?thesis
    by (rule runs_conseq [OF reaimEyes_board [OF b]])
      (use st e in \<open>auto simp: keeps_def intro: stays_trans board_duel_ok\<close>)
qed

lemma append_eye_keeps:
  assumes ok: "duel_ok P n (w_dobj w d)" and e: "eye_on e \<Longrightarrow> watchable (side w d (other me)) (eye_at e)"
  shows "keeps P n d w (upd_side d me (\<lambda>s. s\<lparr>eyes := eyes s @ [e]\<rparr>) w)"
proof (rule keeps_upd_side)
  let ?f = "\<lambda>s. s\<lparr>eyes := eyes s @ [e]\<rparr>"
  have "eyes_ok (?f (d_side me (w_dobj w d))) (d_side (other me) (w_dobj w d))"
    using duel_okD(2) [OF ok, of me] e by (auto simp: eyes_ok_def side_def)
  moreover have "eyes_ok (d_side (other me) (w_dobj w d)) (?f (d_side me (w_dobj w d)))"
    using duel_okD(2) [OF ok, of "other me"] by (subst eyes_ok_cong) simp_all
  ultimately show "duel_ok P n (d_upd me ?f (w_dobj w d))"
    using duel_okD(1,3) [OF ok, of me] duel_okD(4) [OF ok, of me]
    by (intro duel_ok_upd [OF ok]) (auto simp: side_out_def)
qed simp

lemma new_eye_keeps:
  assumes ok: "duel_ok P n (w_dobj w d)"
  shows "runs (do { (e, r) \<leftarrow> aim now (w_rng w) (side w d me) (side w d (other me)) None new_eye;
      sendEyes d me (other me) (upd_side d me (\<lambda>s. s\<lparr>eyes := eyes s @ [e]\<rparr>) (set_rng r w)) }) (keeps P n d w)"
proof -
  obtain e r where a: "aim now (w_rng w) (side w d me) (side w d (other me)) None new_eye = Some (e, r)"
      "eye_on e \<Longrightarrow> watchable (side w d (other me)) (eye_at e)"
    using aim_runs [of now "w_rng w" "side w d me" "side w d (other me)" None new_eye] by (auto simp: runs_iff)
  have "keeps P n d w (upd_side d me (\<lambda>s. s\<lparr>eyes := eyes s @ [e]\<rparr>) (set_rng r w))"
    by (rule keeps_trans [OF stays_set_rng append_eye_keeps]) (use ok a(2) in simp_all)
  from keeps_runs_trans [OF this sendEyes_keeps [where i = me]] show ?thesis by (simp add: a(1))
qed

section \<open>For any puzzle that keeps the contract\<close>

lemma stays_send: "c \<in> duelists w d \<Longrightarrow> \<not> paints m \<Longrightarrow> stays d w (send c m w)"
  by (simp add: stays_def) (simp add: send_def)

lemma keeps_then_client: "keeps P n d w w' \<Longrightarrow> c \<in> duelists w d \<Longrightarrow> \<not> paints m \<Longrightarrow> keeps P n d w (send c m w')"
  using stays_trans stays_send stays_side_p(2) by (fastforce simp: keeps_def)

lemma keeps_sendDuelState: "duel_ok P n (w_dobj w d) \<Longrightarrow> keeps P n d w (sendDuelState d i w)"
  by (simp add: keeps_def)

lemma keeps_send_boards: "keeps P n d w w' \<Longrightarrow> keeps P n d w (send_boards d i j w')"
  unfolding send_boards_def Let_def by (intro keeps_then_send) simp_all

lemma send_boards_simps [simp]:
  "w_dobj (send_boards d i j w) = w_dobj w" "stays d w (send_boards d i j w)"
  "side (send_boards d i j w) d' k = side w d' k"
  by (simp_all add: send_boards_def Let_def)

context duel_puzzle
begin

lemma divine_word:
  assumes "invar p" and "length word = wlen p"
  shows "runs (divine_word_loop (puz p) k taken word r) (\<lambda>(word', r'). length word' = wlen p)"
proof (induction k arbitrary: r)
  case (Suc k)
  obtain nw r' where nw: "NewWord (puz p) r = Some (nw, r')" "length nw = wlen p"
    using new_wordE [OF assms(1)] by blast
  show ?case using Suc nw by simp
qed (use assms in simp)

lemma reshape_words:
  assumes "invar p" and "\<forall>word \<in> set out. length word = wlen p \<and> word \<notin> avoid"
    and "distinct out" and "set out \<subseteq> taken" and "avoid \<subseteq> taken" and "length out \<le> ReshapeOptions"
  shows "runs (reshape_loop (puz p) tries taken out r) (\<lambda>(words, r').
    (\<forall>word \<in> set words. length word = wlen p \<and> word \<notin> avoid) \<and> distinct words \<and> length words \<le> ReshapeOptions)"
  using assms(2-)
proof (induction tries arbitrary: taken out r)
  case (Suc tries)
  obtain nw r' where nw: "NewWord (puz p) r = Some (nw, r')" "length nw = wlen p"
    using new_wordE [OF assms(1)] by blast
  show ?case
  proof (cases "length out < ReshapeOptions")
    case True
    have "runs (reshape_loop (puz p) tries (insert nw taken) (out @ [nw]) r') (\<lambda>(words, r').
        (\<forall>word \<in> set words. length word = wlen p \<and> word \<notin> avoid) \<and> distinct words \<and>
        length words \<le> ReshapeOptions)" if "nw \<notin> taken"
      using Suc.prems True that nw by (intro Suc.IH) auto
    then show ?thesis using True nw Suc.IH [OF Suc.prems] by simp
  qed (use Suc.prems in simp)
qed simp

lemma divineWord_runs:
  assumes "invar p" and "w_Duels w = Some (puz p)" and "length (side_word (side w d SideA)) = wlen p"
  shows "runs (divineWord d w) (\<lambda>(word, w'). length word = wlen p \<and> (\<exists>r. w' = set_rng r w))"
  unfolding divineWord_def assms(2) Option.bind.simps runs_bind
  by (rule runs_conseq [OF divine_word [OF assms(1,3)]]) auto

lemma new_word_keeps:
  assumes inv: "invar p" and D: "w_Duels w = Some (puz p)" and ok: "duel_ok (puz p) (wlen p) (w_dobj w d)"
  shows "runs (fate_new_word d w) (keeps (puz p) (wlen p) d w)"
proof -
  let ?P = "puz p" and ?n = "wlen p"
  have len: "length (side_word (side w d SideA)) = ?n" by (rule side_okD(1) [OF side_okI [OF ok]])
  obtain word r where w1: "divineWord d w = Some (word, set_rng r w)" "length word = ?n"
    using divineWord_runs [OF inv D len] by (auto simp: runs_iff)
  let ?w1 = "set_rng r w"
  have b1: "board_ok ?P ?n d ?w1" using duel_ok_board [OF ok] board_ok_cong [of ?w1 d w] by simp
  have D1: "w_Duels ?w1 = Some ?P" using D by simp
  obtain w2 where w2: "rescore d SideA word ?w1 = Some w2" "stays d ?w1 w2" "board_ok ?P ?n d w2"
    using rescore_board [OF D1 b1 w1(2), of SideA] by (auto simp: runs_iff)
  have D2: "w_Duels w2 = Some ?P" using staysD(2) [OF w2(2)] D by simp
  obtain w3 where w3: "rescore d SideB word w2 = Some w3" "stays d w2 w3" "board_ok ?P ?n d w3"
    using rescore_board [OF D2 w2(3) w1(2), of SideB] by (auto simp: runs_iff)
  let ?w4 = "each_side (\<lambda>i w. send_boards d i (opponent w d i) w) w3"
  have st4: "stays d w3 ?w4" by (rule stays_each_side) simp
  have "w_dobj ?w4 = w_dobj w3" by (simp add: each_side_def)
  then have b4: "board_ok ?P ?n d ?w4" using w3(3) board_ok_cong [of ?w4 d w3] by simp
  obtain w5 where w5: "reaimEyes d SideA SideB ?w4 = Some w5" "stays d ?w4 w5" "board_ok ?P ?n d w5"
      "eyes_ok (side w5 d SideA) (side w5 d SideB)"
    using reaimEyes_board [OF b4, of SideA] by (auto simp: runs_iff)
  obtain w6 where w6: "reaimEyes d SideB SideA w5 = Some w6" "stays d w5 w6" "board_ok ?P ?n d w6"
      "eyes_ok (side w6 d SideB) (side w6 d SideA)" "eyes_ok (side w6 d SideA) (side w6 d SideB)"
    using reaimEyes_board [OF w5(3), of SideB] w5(4) by (auto simp: runs_iff)
  have "stays d w w6"
    using stays_trans [OF stays_set_rng stays_trans [OF w2(2) stays_trans [OF w3(2)
        stays_trans [OF st4 stays_trans [OF w5(2) w6(2)]]]]] .
  moreover have "duel_ok ?P ?n (w_dobj w6 d)"
    by (rule board_duel_ok [OF w6(3), of SideA]) (simp_all add: w6)
  ultimately show ?thesis
    unfolding fate_new_word_def w1(1) Option.bind.simps prod.case w2(1) w3(1) Let_def w5(1) w6(1)
    by (simp add: keeps_def)
qed

lemma intervene_keeps:
  assumes inv: "invar p" and D: "w_Duels w = Some (puz p)" and ok: "duel_ok (puz p) (wlen p) (w_dobj w d)"
  shows "runs (intervene d w) (keeps (puz p) (wlen p) d w)"
proof -
  let ?P = "puz p" and ?n = "wlen p"
  have "fates \<noteq> []" by (simp add: fates_def)
  then obtain k r f where k: "Intn (int (length fates)) (w_rng w) = Some (k, r)" "at_int fates k = Some f"
    by (simp add: Intn_def at_int_def nat_less_iff)
  define fate where "fate = (case w_fate w of None \<Rightarrow> f | Some f \<Rightarrow> f)"
  define w1 where "w1 = each_side (\<lambda>i. send_side d i (ServerDuelDivine
              \<lparr>dd_Fate = fate, dd_Banner = divineBanners fate\<rparr>)) (set_rng r w)"
  have st: "stays d w w1"
    unfolding w1_def by (rule stays_trans [OF stays_set_rng each_side_send_simps(6)]) simp
  have D1: "w_Duels w1 = Some ?P" and ok1: "duel_ok ?P ?n (w_dobj w1 d)"
    using D ok by (simp_all add: w1_def)
  have "runs (case fate of FateCleanSlate \<Rightarrow> fate_clean_slate d w1 | FateNewWord \<Rightarrow> fate_new_word d w1
      | FateSuddenDeath \<Rightarrow> Some (fate_sudden_death d w1) | FateRevelation \<Rightarrow> fate_revelation d w1
      | FateFortune \<Rightarrow> Some (fate_fortune d w1)) (keeps ?P ?n d w1)"
    using clean_slate_keeps [OF ok1 D1 max_guesses [OF inv]] new_word_keeps [OF inv D1 ok1]
      sudden_death_keeps [OF ok1] revelation_keeps [OF ok1 wlen_pos [OF inv]] fortune_keeps [OF ok1]
    by (cases fate) simp_all
  then have "runs (case fate of FateCleanSlate \<Rightarrow> fate_clean_slate d w1 | FateNewWord \<Rightarrow> fate_new_word d w1
      | FateSuddenDeath \<Rightarrow> Some (fate_sudden_death d w1) | FateRevelation \<Rightarrow> fate_revelation d w1
      | FateFortune \<Rightarrow> Some (fate_fortune d w1)) (keeps ?P ?n d w)"
    by (rule runs_conseq) (rule keeps_trans [OF st])
  then show ?thesis
    unfolding intervene_def k Option.bind.simps prod.case Let_def w1_def fate_def by simp
qed

lemma castCleric_keeps:
  assumes inv: "invar p" and D: "w_Duels w = Some (puz p)" and ok: "duel_ok (puz p) (wlen p) (w_dobj w d)"
    and can: "canCast aid (side w d me) them_s req"
    and cost: "0 \<le> abilityCost (e_Class (ent_of w (side_p (side w d me)))) aid"
  shows "runs (castCleric d me (other me) aid req w) (keeps (puz p) (wlen p) d w)"
proof -
  let ?P = "puz p" and ?n = "wlen p"
  have D1: "w_Duels (castEvent d me DivineIntervention CastUsed False (0, 0) w) = Some ?P" using D by simp
  have ok1: "duel_ok ?P ?n (w_dobj (castEvent d me DivineIntervention CastUsed False (0, 0) w) d)"
    using ok by simp
  have div: "runs (intervene d (castEvent d me DivineIntervention CastUsed False (0, 0) w)) (keeps ?P ?n d w)"
    by (rule runs_conseq [OF intervene_keeps [OF inv D1 ok1]]) (rule keeps_trans [OF castEvent_simps(6)])
  have mend: "runs (mend d me (other me) (Row req) w) (keeps ?P ?n d w)" if "aid = Mend"
    using can that by (intro mend_keeps [OF ok]) simp_all
  define k where "k = abilityCost (e_Class (ent_of w (side_p (side w d me)))) aid"
  have pr: "runs (pray d me ability kind k w) (keeps ?P ?n d w)" for ability kind
    using pray_keeps [OF ok wlen_pos [OF inv] cost] by (simp add: k_def)
  show ?thesis
    unfolding castCleric_def k_def [symmetric] Let_def
    using pr mend purify_keeps [OF ok] div keeps_refl [OF ok] by simp
qed

lemma illusion_keeps:
  assumes inv: "invar p" and D: "w_Duels w = Some (puz p)" and ok: "duel_ok (puz p) (wlen p) (w_dobj w d)"
  shows "runs (do { P \<leftarrow> w_Duels w;
          (word, r) \<leftarrow> IllusionWord P (w_rng w);
          let w = upd_side d i (\<lambda>s. s\<lparr>illusion := Some \<lparr>ill_word = word, ill_guesses = 0\<rparr>\<rparr>) (set_rng r w);
          Some (send_side d i (ServerIllusionStart (m word)) w) }) (keeps (puz p) (wlen p) d w)"
proof -
  obtain word r where iw: "IllusionWord (puz p) (w_rng w) = Some (word, r)" "word \<noteq> []"
    using illusion_wordE [OF inv] by blast
  have "keeps (puz p) (wlen p) d w (upd_side d i (\<lambda>s. s\<lparr>illusion := Some \<lparr>ill_word = word, ill_guesses = 0\<rparr>\<rparr>) (set_rng r w))"
    by (rule keeps_trans [OF stays_set_rng keeps_illusion])
      (use ok iw in \<open>simp_all add: illusion_ok_def IllusionGuesses_def\<close>)
  then show ?thesis by (simp add: D iw Let_def keeps_then_send)
qed

lemma cast_keeps:
  assumes inv: "invar p" and D: "w_Duels w = Some (puz p)" and ok: "duel_ok (puz p) (wlen p) (w_dobj w d)"
    and can: "canCast aid (side w d me) (side w d (other me)) req"
    and cost: "0 \<le> abilityCost (e_Class (ent_of w (side_p (side w d me)))) aid"
  shows "runs (cast d me (other me) aid req w) (keeps (puz p) (wlen p) d w)"
proof -
  let ?P = "puz p" and ?n = "wlen p" and ?t = "(Row req, Col req)"
  let ?hw = "\<lambda>a t. snd (hostile d me (other me) a CastUsed t w)" and ?K = "keeps (puz p) (wlen p) d w"
  have H: "?K (?hw a t)" for a t by (rule keeps_hostile [OF ok])
  note okh = keepsD(2) [OF H]
  have ev: "?K (castEvent d me a CastUsed False t w')" if "?K w'" for a t w' using that by (rule keeps_then_event)
  consider "aid = Slash" | "aid = ShieldsUp" | "aid = Determination" | "aid = PommelStrike" | "aid = Cripple"
    | "aid = Scry" | "aid = SeeingEye" | "aid = MagicMissile" | "aid = Illusion"
    | "aid \<notin> {Slash, ShieldsUp, Determination, PommelStrike, Cripple, Scry, SeeingEye, MagicMissile, Illusion}"
    by blast
  then show ?thesis
  proof cases
    case 1
    have "on_board (side (?hw Slash ?t) d (other me)) ?t"
      using can 1 by (simp add: on_board_def)
    from runs_conseq [OF slash_keeps [OF okh this] keeps_trans [OF keepsD(1) [OF H]]]
    show ?thesis using H by (simp add: 1 cast_def Let_def split_beta)
  next
    case 2
    then show ?thesis using ev [OF keeps_shield [OF ok]] by (simp add: cast_def Let_def)
  next
    case 3
    have "?K (upd_side d me (\<lambda>s. s\<lparr>side_rows := side_rows s + 1\<rparr>) w)"
    proof (rule keeps_effect [OF ok])
      have "int (length (side_guesses (side w d me))) \<le> side_rows (side w d me) + 1"
        "0 < side_rows (side w d me) + 1"
        using side_okD(5,6) [OF side_okI [OF ok, of me]] by simp_all
      then show "side_ok ?P ?n ((side w d me)\<lparr>side_rows := side_rows (side w d me) + 1\<rparr>)"
        by (rule side_ok_rows [OF side_okI [OF ok]])
    qed simp_all
    then show ?thesis using 3 ev by (simp add: cast_def Let_def)
  next
    case 4
    show ?thesis
      using keeps_hostile_then [OF ok keeps_stun [where i = "other me" and u = "w_now w + PommelStun"], of me "other me" PommelStrike CastUsed "(0, 0)"]
      by (simp add: 4 cast_def Let_def split_beta)
  next
    case 5
    have "2 \<le> unusedRows (side (?hw Cripple (0, 0)) d (other me))"
      using can 5 by (simp add: unusedRows_def)
    from keeps_trans [OF keepsD(1) [OF H] keeps_lose_row [OF okh this]]
    show ?thesis using H by (simp add: 5 cast_def Let_def split_beta)
  next
    case 6
    then show ?thesis using keeps_then_send [OF ev [OF keeps_refl [OF ok]]] by (simp add: cast_def Let_def)
  next
    case 7
    from runs_conseq [OF new_eye_keeps [OF okh [of SeeingEye "(0, 0)"], where now = "w_now w" and me = me] keeps_trans [OF keepsD(1) [OF H]]]
    show ?thesis using H by (simp add: 7 cast_def Let_def split_beta)
  next
    case 8
    have "?K (upd_side d (other me) (\<lambda>s. s\<lparr>missiles := missiles s @ [w_now w + MissileFlight]\<rparr>)
        (castEvent d me MagicMissile CastUsed False (0, 0) w))"
      by (rule keeps_effect_trans [OF ev [OF keeps_refl [OF ok]] keeps_effect]) (simp_all add: side_okI)
    then show ?thesis by (simp add: 8 cast_def Let_def)
  next
    case 9
    have "w_Duels (?hw Illusion (0, 0)) = Some ?P" using D by simp
    from keeps_runs [OF H illusion_keeps [OF inv this okh, where i = "other me" and
          m = "\<lambda>word. \<lparr>is_WordLength = int (length word), is_MaxGuesses = IllusionGuesses\<rparr>"]]
    show ?thesis using H by (simp add: 9 cast_def Let_def split_beta)
  next
    case 10
    have word: "length (side_word (side w d me)) = ?n" by (rule side_okD(1) [OF side_okI [OF ok]])
    obtain b w' where r: "castRogue d me (other me) aid req w = Some (b, w')" and k: "?K w'"
      using castRogue_keeps [OF ok can word] by (auto simp: runs_iff)
    have "runs (castCleric d me (other me) aid req w') ?K" if "\<not> b"
    proof -
      have "w' = w" using r that by (auto simp: castRogue_def Let_def split_beta bind_eq_Some_conv split: if_splits)
      then show ?thesis using castCleric_keeps [OF inv D ok can cost] by simp
    qed
    then show ?thesis using 10 r k by (simp add: cast_def Let_def)
  qed
qed

text \<open>The handlers, for a client who is in the duel.\<close>

lemma CastAbility_keeps:
  assumes inv: "invar p" and D: "w_Duels w = Some (puz p)" and f: "find_duel c w = Some (q, d, me, them)"
    and ok: "duel_ok (puz p) (wlen p) (w_dobj w d)" and q: "side_p (side w d me) = q" and c: "c \<in> duelists w d"
  shows "runs (CastAbility c req w) (keeps (puz p) (wlen p) d w)"
proof -
  let ?P = "puz p" and ?n = "wlen p" and ?K = "keeps (puz p) (wlen p) d w"
  have them: "them = other me"
    using f by (auto simp: find_duel_def sidesOf_other bind_eq_Some_conv)
  show ?thesis
  proof (cases "AbilityAt (e_Class (ent_of w q)) (Slot req)")
    case None
    then show ?thesis using keeps_sendDuelState [OF ok] f by (simp add: CastAbility_def)
  next
    case (Some a)
    let ?refuse = "w_now w < silencedUntil (side w d me) \<or> energy (side w d me) < ab_Cost a \<or>
        (ab_Once a \<and> ab_ID a \<in> used_once (side w d me)) \<or>
        \<not> canCast (ab_ID a) (side w d me) (side w d them) req"
    have row: "(e_Class (ent_of w q), Slot req, ab_ID a, ab_Cost a, ab_Target a) \<in> set ability_table"
      using AbilityAt_table [OF Some] by blast
    show ?thesis
    proof (cases ?refuse)
      case True
      then show ?thesis using keeps_sendDuelState [OF ok] f Some by (simp add: CastAbility_def)
    next
      case go: False
      show ?thesis
      proof (cases "ab_Target a = TargetWord")
        case True
        let ?avoid = "taken_words (side w d them)"
        obtain ws r where ws: "reshape_loop ?P 100 ?avoid [] (w_rng w) = Some (ws, r)"
            "\<forall>word \<in> set ws. length word = ?n"
          using reshape_words [OF inv, of "[]" ?avoid ?avoid 100 "w_rng w"] by (auto simp: runs_iff)
        have "?K (send c (ServerDuelReshapeOptions ws) (upd_side d me (\<lambda>s. s\<lparr>reshape := ws\<rparr>) (set_rng r w)))"
          by (rule keeps_then_client [OF keeps_trans [OF stays_set_rng keeps_reshape] c]) (use ok ws in simp_all)
        then show ?thesis
          using f Some go True ws by (auto simp: CastAbility_def reshapeOptions_def D Let_def)
      next
        case False
        let ?w1 = "upd_side d me (\<lambda>s. s\<lparr>energy := energy s - ab_Cost a\<rparr>) w"
        let ?w2 = "if ab_Once a then upd_side d me (\<lambda>s. s\<lparr>used_once := insert (ab_ID a) (used_once s)\<rparr>) ?w1 else ?w1"
        have 1: "?K ?w1" by (rule keeps_energy [OF ok]) (use go in simp)
        have 2: "?K ?w2" using 1 keeps_effect_trans [OF 1 keeps_used [where i = me and a = "ab_ID a"]] by simp
        have s2: "\<exists>e u. side ?w2 d me = (side w d me)\<lparr>energy := e, used_once := u\<rparr>"
        proof (cases "ab_Once a")
          case False
          then have "side ?w2 d me = (side w d me)\<lparr>energy := energy (side w d me) - ab_Cost a,
              used_once := used_once (side w d me)\<rparr>" by simp
          then show ?thesis by blast
        qed auto
        have can: "canCast (ab_ID a) (side ?w2 d me) (side ?w2 d (other me)) req"
          using go s2 them by (auto simp: canCast_def Let_def unusedRows_def)
        have ent: "ent_of ?w2 (side_p (side ?w2 d me)) = ent_of w q"
          using staysD(7,9) [OF keepsD(1) [OF 2]] stays_side_p(1) [OF keepsD(1) [OF 2]] q by (simp add: ent_of_def)
        have "0 \<le> abilityCost (e_Class (ent_of ?w2 (side_p (side ?w2 d me)))) (ab_ID a)"
          unfolding ent abilityCost_table [OF row] using table_cost_pos [OF row] by simp
        from cast_keeps [OF inv _ keepsD(2) [OF 2] can this] staysD(2) [OF keepsD(1) [OF 2]] D
        have "runs (cast d me them (ab_ID a) req ?w2) (keeps ?P ?n d ?w2)" by (simp add: them)
        then have "runs (cast d me them (ab_ID a) req ?w2) (\<lambda>w'. ?K (syncDuel d w'))"
          by (rule runs_conseq) (rule keeps_then_sync [OF keeps_trans [OF keepsD(1) [OF 2]]])
        moreover have "CastAbility c req w = Option.bind (cast d me them (ab_ID a) req ?w2) (\<lambda>w. Some (syncDuel d w))"
          using f Some go False by (auto simp: CastAbility_def Let_def)
        ultimately show ?thesis by simp
      qed
    qed
  qed
qed

lemma ReshapeReality_keeps:
  assumes inv: "invar p" and D: "w_Duels w = Some (puz p)" and f: "find_duel c w = Some (q, d, me, them)"
    and ok: "duel_ok (puz p) (wlen p) (w_dobj w d)"
  shows "runs (ReshapeReality_pick c word w) (keeps (puz p) (wlen p) d w)"
proof -
  let ?P = "puz p" and ?n = "wlen p" and ?K = "keeps (puz p) (wlen p) d w"
  have them: "them = other me"
    using f by (auto simp: find_duel_def sidesOf_other bind_eq_Some_conv)
  define u where "u = toUpper word"
  define k where "k = abilityCost (e_Class (ent_of w q)) ReshapeReality"
  show ?thesis
  proof (cases "k < 0 \<or> u \<notin> set (reshape (side w d me)) \<or> energy (side w d me) < k")
    case True
    then show ?thesis using keeps_sendDuelState [OF ok] f
      by (simp add: ReshapeReality_pick_def Let_def u_def [symmetric] k_def [symmetric])
  next
    case False
    then have len: "length u = ?n" using side_okD(12) [OF side_okI [OF ok]] by blast
    let ?w1 = "upd_side d me (\<lambda>s. s\<lparr>reshape := [], energy := energy s - k\<rparr>) w"
    have "side_ok ?P ?n ((side w d me)\<lparr>reshape := [], energy := energy (side w d me) - k\<rparr>)"
      using False side_okI [OF ok, of me] unfolding side_ok_def on_board_def by simp
    then have 1: "?K ?w1" by (intro keeps_effect [OF ok]) simp_all
    define h where "h = hostile d me them ReshapeReality CastUsed (0, 0) ?w1"
    have 2: "?K (snd h)" unfolding h_def by (rule keeps_effect_trans [OF 1 keeps_hostile])
    have D2: "w_Duels (snd h) = Some ?P" using staysD(2) [OF keepsD(1) [OF 2]] D by simp
    have e: "eyes_ok (side (snd h) d them) (side (snd h) d me)"
      using duel_ok_eyes(1) [OF keepsD(2) [OF 2], of them] by (simp add: them)
    obtain w3 where w3: "rescore d them u (snd h) = Some w3" "stays d (snd h) w3" "board_ok ?P ?n d w3"
        "side w3 d me = side (snd h) d me" "eyes (side w3 d them) = eyes (side (snd h) d them)"
      using rescore_board [OF D2 duel_ok_board [OF keepsD(2) [OF 2]] len, of them] by (auto simp: runs_iff them)
    let ?w4 = "send_boards d them me w3"
    have b4: "board_ok ?P ?n d ?w4" using w3(3) board_ok_cong [of ?w4 d w3] by simp
    have e4: "eyes_ok (side ?w4 d them) (side ?w4 d me)"
      using e w3(4,5) by (simp add: eyes_ok_def)
    obtain w5 where w5: "reaimEyes d me them ?w4 = Some w5" "stays d ?w4 w5" "board_ok ?P ?n d w5"
        "eyes_ok (side w5 d me) (side w5 d them)" "eyes_ok (side w5 d them) (side w5 d me)"
      using reaimEyes_board [OF b4, of me] e4 by (auto simp: runs_iff them)
    have "duel_ok ?P ?n (w_dobj w5 d)"
      by (rule board_duel_ok [OF w5(3), of me]) (use w5 in \<open>simp_all add: them\<close>)
    moreover have "stays d w w5"
      by (rule stays_trans [OF keepsD(1) [OF 2] stays_trans [OF w3(2) stays_trans [OF send_boards_simps(2) w5(2)]]])
    ultimately have 5: "?K w5" by (simp add: keeps_def)
    have "ReshapeReality_pick c word w = (let (hit, w) = h in do {
        w \<leftarrow> if hit then do { w \<leftarrow> rescore d them u w; let w = send_boards d them me w; reaimEyes d me them w }
            else Some w;
        Some (syncDuel d w) })"
      using f False by (simp add: ReshapeReality_pick_def Let_def u_def [symmetric] k_def [symmetric] h_def)
    then show ?thesis
      using 2 5 by (simp add: split_beta Let_def w3(1) w5(1) keeps_then_sync)
  qed
qed

lemma IllusionGuess_keeps:
  assumes inv: "invar p" and D: "w_Duels w = Some (puz p)" and f: "find_duel c w = Some (q, d, me, them)"
    and ok: "duel_ok (puz p) (wlen p) (w_dobj w d)" and c: "c \<in> duelists w d"
  shows "runs (IllusionGuess c guess w) (keeps (puz p) (wlen p) d w)"
proof (cases "illusion (side w d me)")
  case None
  then show ?thesis using keeps_refl [OF ok] f by (simp add: IllusionGuess_def)
next
  case (Some ill)
  let ?P = "puz p" and ?n = "wlen p" and ?K = "keeps (puz p) (wlen p) d w"
  note snd = keeps_then_client [OF _ c]
  obtain valid colors where sc: "pScore ?P guess (ill_word ill) = (valid, colors)" by (cases "pScore ?P guess (ill_word ill)")
  have il: "ill_word ill \<noteq> []" "0 \<le> ill_guesses ill" "ill_guesses ill < IllusionGuesses"
    using side_okD(11) [OF side_okI [OF ok, of me]] Some by (simp_all add: illusion_ok_def)
  define ill' where "ill' = ill\<lparr>ill_guesses := ill_guesses ill + 1\<rparr>"
  define status where "status = (if solves colors then WordleWin
      else if IllusionGuesses \<le> ill_guesses ill' then WordleLose else WordleInGame)"
  let ?w1 = "upd_side d me (\<lambda>s. s\<lparr>illusion := Some ill'\<rparr>) w"
  let ?w2 = "upd_side d me (\<lambda>s. s\<lparr>illusion := None\<rparr>) ?w1"
  have cont: "?K (send c m ?w1)" if "status = WordleInGame" "\<not> paints m" for m
    by (rule snd [OF keeps_illusion [OF ok] that(2)])
      (use that(1) il in \<open>auto simp: status_def ill'_def illusion_ok_def split: if_splits\<close>)
  have clear: "?K (upd_side d me (\<lambda>s. s\<lparr>illusion := None\<rparr>) (send c m ?w1))" if m: "\<not> paints m" for m
  proof -
    have "side_ok ?P ?n ((side w d me)\<lparr>illusion := None\<rparr>)"
      by (rule side_ok_illusion [OF side_okI [OF ok]]) (simp add: illusion_ok_def)
    then have "duel_ok ?P ?n (d_upd me (\<lambda>s. s\<lparr>illusion := None\<rparr>) (w_dobj w d))"
      by (intro duel_ok_upd_effects [OF ok]) (simp_all add: side_def)
    moreover have "w_dobj (upd_side d me (\<lambda>s. s\<lparr>illusion := None\<rparr>) (send c m ?w1)) d
        = d_upd me (\<lambda>s. s\<lparr>illusion := None\<rparr>) (w_dobj w d)"
      by (simp add: d_upd_d_upd)
    moreover have "stays d w ?w1" by (rule stays_upd_side) simp
    then have "stays d ?w1 (send c m ?w1)"
      by (intro stays_send m) (use c stays_side_p(2) in blast)
    then have "stays d w (upd_side d me (\<lambda>s. s\<lparr>illusion := None\<rparr>) (send c m ?w1))"
      by (intro stays_trans [OF stays_upd_side stays_trans [OF _ stays_upd_side]]) simp_all
    ultimately show ?thesis by (simp add: keeps_def)
  qed
  have lose: "?K (if won then w' else upd_side d me (\<lambda>s. snd (loseEnergy IllusionEnergy s)) w')" if "?K w'" for won w'
    using that keeps_effect_trans [OF that keeps_loseEnergy [where i = me and k = IllusionEnergy]]
    by (simp add: IllusionEnergy_def)
  have fin: "?K (syncDuel d (castEvent d i a kd b t (send c m (if won then w' else
      upd_side d me (\<lambda>s. snd (loseEnergy IllusionEnergy s)) w'))))" if "?K w'" "\<not> paints m" for i a kd b t m won w'
    by (intro keeps_then_sync keeps_then_event snd lose that)
  show ?thesis
    using Some f D sc cont fin [OF clear, where won = True, simplified]
      fin [OF clear, where won = False, simplified] snd [OF keeps_refl [OF ok]]
    unfolding IllusionGuess_def
    by (simp add: Let_def status_def [symmetric] ill'_def [symmetric] split_beta)
qed

end

end
