(* ===== verification/Duels.thy ===== *)
theory Duels
  imports Casting
begin

text \<open>
  The life of a duel: challenges, guesses, typing, forfeits, how a duel ends and is settled
  (\<open>internal/game/duel.go\<close>), and the system \<open>tickDuels\<close> (\<open>internal/game/abilities.go\<close>).
\<close>

section \<open>Challenges\<close>

definition ChallengeTimeout :: duration where "ChallengeTimeout = 30 * Second"

definition challengeUpdate :: "pref \<Rightarrow> 32 word \<Rightarrow> pref \<Rightarrow> DuelChallengeStatus \<Rightarrow> world \<Rightarrow> world" where
  "challengeUpdate p i oth status w =
     send (p_client (w_pobj w p)) (ServerDuelChallengeUpdate
       \<lparr>dcu_ID = i, dcu_Name = displayName w oth, dcu_Status = status\<rparr>) w"

definition delete_challenge :: "32 word \<Rightarrow> world \<Rightarrow> world" where
  "delete_challenge i w = w\<lparr>w_challenges := amap_del i (w_challenges w)\<rparr>"

text \<open>The loop over the pending challenges: \<open>True\<close> when \<open>p\<close> already waits on \<open>t\<close>.\<close>

fun replace_challenges ::
    "pref \<Rightarrow> pref \<Rightarrow> bool \<Rightarrow> (32 word \<times> challenge) list \<Rightarrow> world \<Rightarrow> bool \<times> world" where
  "replace_challenges p t isRanked [] w = (False, w)"
| "replace_challenges p t isRanked ((i, ch) # rest) w =
    (if ch_from ch \<noteq> p then replace_challenges p t isRanked rest w
     else if ch_to ch = t \<and> ch_ranked ch = isRanked then (True, w)
     else replace_challenges p t isRanked rest
            (challengeUpdate (ch_to ch) i p DuelCancelled (delete_challenge i w)))"

definition new_challenge :: "pref \<Rightarrow> pref \<Rightarrow> bool \<Rightarrow> world \<Rightarrow> world" where
  "new_challenge p t isRanked w =
    (let w = w\<lparr>w_nextChallenge := w_nextChallenge w + 1\<rparr>;
         ch = \<lparr>ch_id = w_nextChallenge w, ch_from = p, ch_to = t,
               ch_expires = w_now w + ChallengeTimeout, ch_ranked = isRanked\<rparr>;
         w = w\<lparr>w_challenges := amap_put (ch_id ch) ch (w_challenges w)\<rparr>;
         e = ent_of w p;
         msg = \<lparr>dch_ID = ch_id ch, dch_From = e_ID e, dch_Name = e_Name e, dch_Char = e_Char e,
                dch_Class = e_Class e, dch_ExpiresMs = in_ms ChallengeTimeout, dch_Ranked = isRanked,
                dch_Elo = Elo (p_rating (w_pobj w p)),
                dch_Stakes = (if isRanked
                  then Some (ranked_Stakes (p_rating (w_pobj w t)) (p_rating (w_pobj w p))) else None)\<rparr>;
         w = send (p_client (w_pobj w t)) (ServerDuelChallenge msg) w
     in challengeUpdate p (ch_id ch) t DuelSent w)"

definition Challenge :: "client \<Rightarrow> EntityID \<Rightarrow> bool \<Rightarrow> world \<Rightarrow> world" where
  "Challenge c target isRanked w =
    (case map_of (w_players w) c of
      None \<Rightarrow> w
    | Some p \<Rightarrow>
       let unavailable = (\<lambda>name. send c (ServerDuelChallengeUpdate
             \<lparr>dcu_ID = 0, dcu_Name = name, dcu_Status = DuelUnavailable\<rparr>) w) in
       (case playerByEntity w target of
         None \<Rightarrow> unavailable []
       | Some t \<Rightarrow>
          if t = p \<or> map_of (p_known (w_pobj w p)) target = None \<or> w_Duels w = None
          then unavailable (displayName w t)
          else if p_duel (w_pobj w p) \<noteq> None \<or> p_duel (w_pobj w t) \<noteq> None
          then challengeUpdate p 0 t DuelBusy w
          else (let (waiting, w) = replace_challenges p t isRanked (w_challenges w) w in
                if waiting then w else new_challenge p t isRanked w)))"

text \<open>Drops every challenge to or from \<open>p\<close>, telling the other player.\<close>

definition cancel_one :: "pref \<Rightarrow> 32 word \<times> challenge \<Rightarrow> world \<Rightarrow> world" where
  "cancel_one p = (\<lambda>(i, ch) w.
     if p = ch_from ch then delete_challenge i (challengeUpdate (ch_to ch) i p DuelCancelled w)
     else if p = ch_to ch then delete_challenge i (challengeUpdate (ch_from ch) i p DuelCancelled w)
     else w)"

definition cancelChallenges :: "pref \<Rightarrow> world \<Rightarrow> world" where
  "cancelChallenges p w = fold (cancel_one p) (w_challenges w) w"

text \<open>A system: challenges nobody answered in time.\<close>

definition expire_one :: "gotime \<Rightarrow> 32 word \<times> challenge \<Rightarrow> world \<Rightarrow> world" where
  "expire_one now = (\<lambda>(i, ch) w.
     if now < ch_expires ch then w
     else challengeUpdate (ch_to ch) i (ch_from ch) DuelExpired
            (challengeUpdate (ch_from ch) i (ch_to ch) DuelExpired (delete_challenge i w)))"

definition expireChallenges :: "world \<Rightarrow> world" where
  "expireChallenges w = fold (expire_one (w_now w)) (w_challenges w) w"

section \<open>Starting a duel\<close>

definition duel_start_msg :: "dref \<Rightarrow> string \<Rightarrow> bool \<Rightarrow> who \<Rightarrow> world \<Rightarrow> world" where
  "duel_start_msg d word isRanked i w =
    (let e = ent_of w (side_p (side w d (opponent w d i))) in
     send_side d i (ServerDuelStart
       \<lparr>ds_Name = e_Name e, ds_Char = e_Char e, ds_Class = e_Class e, ds_WordLength = int (length word),
        ds_MaxGuesses = side_rows (side w d i), ds_Ranked = isRanked\<rparr>) w)"

definition new_duel :: "gotime \<Rightarrow> pref \<Rightarrow> pref \<Rightarrow> string \<Rightarrow> int \<Rightarrow> bool \<Rightarrow> duel" where
  "new_duel now a b word rows isRanked =
     \<lparr>d_start = now, d_sideA = new_side a word rows, d_sideB = new_side b word rows,
      d_ranked = isRanked, d_nextEnergy = now + EnergyInterval, d_deadline = 0\<rparr>"

definition startDuel :: "pref \<Rightarrow> pref \<Rightarrow> bool \<Rightarrow> world \<Rightarrow> world option" where
  "startDuel a b isRanked w = do {
    let w = cancelChallenges b (cancelChallenges a w);
    P \<leftarrow> w_Duels w;
    (word, r) \<leftarrow> NewWord P (w_rng w);
    let w = set_rng r w;
    let d = w_fresh w;
    let w = w\<lparr>w_dobj := (w_dobj w)(d := new_duel (w_now w) a b word (MaxGuesses P) isRanked),
              w_fresh := Suc d\<rparr>;
    let w = upd_player b (\<lambda>p. p\<lparr>p_duel := Some d\<rparr>) (upd_player a (\<lambda>p. p\<lparr>p_duel := Some d\<rparr>) w);
    let w = w\<lparr>w_duels := d # w_duels w\<rparr>;
    let w = each_side (duel_start_msg d word isRanked) w;
    Some (syncDuel d w)
  }"

definition RespondDuel :: "client \<Rightarrow> 32 word \<Rightarrow> bool \<Rightarrow> world \<Rightarrow> world option" where
  "RespondDuel c i accept w =
    (case (map_of (w_players w) c, map_of (w_challenges w) i) of
      (Some p, Some ch) \<Rightarrow>
        if ch_to ch \<noteq> p then Some w
        else let w = delete_challenge i w in
          if \<not> accept then Some (challengeUpdate (ch_from ch) i p DuelDeclined w)
          else if p_duel (w_pobj w p) \<noteq> None \<or> p_duel (w_pobj w (ch_from ch)) \<noteq> None
          then Some (challengeUpdate (ch_from ch) i p DuelBusy w)
          else startDuel (ch_from ch) p (ch_ranked ch) w
    | _ \<Rightarrow> Some w)"

section \<open>Ending a duel\<close>

definition duel_margin :: "dref \<Rightarrow> who \<Rightarrow> DuelEndReason \<Rightarrow> real \<Rightarrow> world \<Rightarrow> Margin" where
  "duel_margin d winner reason secs w =
    (let win = side w d winner; los = side w d (other winner) in
     \<lparr>WinnerGuesses = int (length (side_guesses win)), WinnerSeconds = secs,
      LoserGuesses = int (length (side_guesses los)), LoserOut = side_out los,
      LoserBest = side_best los, Forfeit = (reason = DuelForfeit \<or> reason = DuelDisconnect)\<rparr>)"

definition ranked_end :: "Result \<Rightarrow> who \<Rightarrow> DuelEnd \<Rightarrow> DuelEnd" where
  "ranked_end res i e =
    (let (after, delta, expected) =
       (case i of SideA \<Rightarrow> (res_A res, DeltaA res, ExpectedA res)
                | SideB \<Rightarrow> (res_B res, DeltaB res, fsub 1 (ExpectedA res)))
     in e\<lparr>de_Ranked := True, de_EloBefore := Elo after - delta, de_EloAfter := Elo after,
          de_Expected := expected, de_Margin := res_Multiplier res\<rparr>)"

definition settleRanked ::
    "dref \<Rightarrow> who option \<Rightarrow> DuelEndReason \<Rightarrow> real \<Rightarrow> (who \<Rightarrow> DuelEnd) \<Rightarrow> world \<Rightarrow> (who \<Rightarrow> DuelEnd) \<times> world" where
  "settleRanked d winner reason secs ends w =
    (let pa = side_p (side w d SideA); pb = side_p (side w d SideB);
         outcome = (case winner of None \<Rightarrow> Draw | Some SideA \<Rightarrow> AWins | Some SideB \<Rightarrow> BWins);
         margin = (case winner of None \<Rightarrow> Margin_zero | Some i \<Rightarrow> duel_margin d i reason secs w);
         res = Settle (p_rating (w_pobj w pa)) (p_rating (w_pobj w pb)) outcome margin;
         ends = (\<lambda>i. ranked_end res i (ends i));
         w = setRating pb (res_B res) (setRating pa (res_A res) w);
         w = (if w_OnRanked w
              then w\<lparr>w_matches := w_matches w @
                [\<lparr>mt_PlayedAt = w_now w, mt_A = p_charID (w_pobj w pa), mt_B = p_charID (w_pobj w pb),
                  mt_Outcome = outcome, mt_Reason = reason_code reason, mt_Result = res,
                  mt_AGuesses = int (length (side_guesses (side w d SideA))),
                  mt_BGuesses = int (length (side_guesses (side w d SideB))), mt_Seconds = secs\<rparr>]\<rparr>
              else w)
     in (ends, w))"

definition end_msg :: "dref \<Rightarrow> who option \<Rightarrow> DuelEndReason \<Rightarrow> real \<Rightarrow> world \<Rightarrow> who \<Rightarrow> DuelEnd" where
  "end_msg d winner reason secs w i =
    \<lparr>de_Outcome = (case winner of None \<Rightarrow> DuelDraw | Some j \<Rightarrow> if j = i then DuelWin else DuelLose),
     de_Reason = reason, de_Solution = side_word (side w d i), de_Seconds = secs,
     de_Ranked = False, de_EloBefore = 0, de_EloAfter = 0, de_Expected = 0, de_Margin = 0\<rparr>"

text \<open>\<open>winner\<close> \<open>None\<close> is a draw.\<close>

definition endDuel :: "dref \<Rightarrow> who option \<Rightarrow> DuelEndReason \<Rightarrow> world \<Rightarrow> world" where
  "endDuel d winner reason w =
    (let secs = duration_Seconds (w_now w - d_start (w_dobj w d));
         ends = end_msg d winner reason secs w;
         (ends, w) = (if d_ranked (w_dobj w d) then settleRanked d winner reason secs ends w else (ends, w));
         w = each_side (\<lambda>i w. upd_player (side_p (side w d i)) (\<lambda>p. p\<lparr>p_duel := None\<rparr>)
               (send_side d i (ServerDuelEnd (ends i)) w)) w
     in w\<lparr>w_duels := filter (\<lambda>d'. d' \<noteq> d) (w_duels w)\<rparr>)"

definition ForfeitDuel :: "client \<Rightarrow> world \<Rightarrow> world" where
  "ForfeitDuel c w =
    (case find_duel c w of
      None \<Rightarrow> w
    | Some (p, d, me, them) \<Rightarrow> endDuel d (Some them) DuelForfeit w)"

text \<open>A player is leaving: they lose their duel and their challenges are off.\<close>

definition leaveDuels :: "pref \<Rightarrow> world \<Rightarrow> world" where
  "leaveDuels p w =
    cancelChallenges p
      (case p_duel (w_pobj w p) of
        None \<Rightarrow> w
      | Some d \<Rightarrow> endDuel d (Some (snd (sidesOf w d p))) DuelDisconnect w)"

section \<open>Guessing\<close>

text \<open>The row a valid guess adds: faked colors never hide a solve.\<close>

definition guess_row :: "string \<Rightarrow> WordleColor list \<Rightarrow> duel_side \<Rightarrow> guessRow" where
  "guess_row guess colors s =
    (let row = newGuessRow (toUpper guess) colors in
     if \<not> solves colors then
       row\<lparr>gr_shown := (case feint s of None \<Rightarrow> gr_shown row | Some cs \<Rightarrow> cs),
           gr_seen := (case falseNext s of None \<Rightarrow> gr_seen row | Some cs \<Rightarrow> cs)\<rparr>
     else row)"

definition take_guess :: "guessRow \<Rightarrow> WordleColor list \<Rightarrow> duel_side \<Rightarrow> duel_side" where
  "take_guess row colors s =
    (let s = s\<lparr>cheat := False, feint := None, falseNext := None\<rparr>;
         s = (if 0 < scrambledGuesses s then
                (let s = s\<lparr>scrambledGuesses := scrambledGuesses s - 1\<rparr> in
                 if scrambledGuesses s = 0 then s\<lparr>keymap := None\<rparr> else s)
              else s);
         s = s\<lparr>side_guesses := side_guesses s @ [row]\<rparr>;
         s = s\<lparr>side_best := max (side_best s) (Closeness colors)\<rparr>
     in if solves colors then s\<lparr>side_solved := True\<rparr> else s)"

definition DuelGuess :: "client \<Rightarrow> string \<Rightarrow> world \<Rightarrow> world option" where
  "DuelGuess c guess w =
    (case find_duel c w of
      None \<Rightarrow> Some w
    | Some (p, d, me, them) \<Rightarrow>
       let s = side w d me; res = WordleRes_zero\<lparr>wr_Status := WordleInGame\<rparr> in
       if side_done s then Some w
       else if blocked (w_now w) s then Some (send c (ServerDuelGuess (res\<lparr>wr_Blocked := True\<rparr>)) w)
       else do {
         P \<leftarrow> w_Duels w;
         let (valid, colors) = (if cheat s then pScoreAny P else pScore P) guess (side_word s);
         if \<not> valid then Some (send c (ServerDuelGuess res) w)
         else do {
           let row = guess_row guess colors s;
           let w = upd_side d me (take_guess row colors) w;
           let s = side w d me;
           let status = (if solves colors then WordleWin
                         else if side_out s then WordleLose else WordleInGame);
           let w = send c (ServerDuelGuess (res\<lparr>wr_Valid := True, wr_Colors := gr_seen row,
                     wr_Seconds := duration_Seconds (w_now w - d_start (w_dobj w d)),
                     wr_Status := status\<rparr>)) w;
           let w = send_side d them (ServerDuelOpponentGuess (gr_shown row)) w;
           if side_solved s then Some (endDuel d (Some me) DuelSolved w)
           else if side_out s \<and> side_out (side w d them) then Some (endDuel d None DuelOutOfGuesses w)
           else afterGuess d me them w
         }
       })"

definition DuelTyping :: "client \<Rightarrow> int \<Rightarrow> world \<Rightarrow> world" where
  "DuelTyping c cnt w =
    (case find_duel c w of
      None \<Rightarrow> w
    | Some (p, d, me, them) \<Rightarrow>
       let s = side w d me in
       if side_done s \<or> blocked (w_now w) s \<or> cnt < 0 \<or> int (length (side_word s)) < cnt then w
       else send_side d them (ServerDuelTyping cnt) w)"

section \<open>The duel system of a tick\<close>

text \<open>\<open>for !now.Before(d.nextEnergy)\<close>\<close>

definition pay_energy :: "duel \<Rightarrow> duel" where
  "pay_energy D = (d_upd SideB (\<lambda>s. s\<lparr>energy := energy s + 1\<rparr>)
      (d_upd SideA (\<lambda>s. s\<lparr>energy := energy s + 1\<rparr>) D))\<lparr>d_nextEnergy := d_nextEnergy D + EnergyInterval\<rparr>"

function energy_loop :: "gotime \<Rightarrow> duel \<Rightarrow> duel \<times> bool" where
  "energy_loop now D =
    (if d_nextEnergy D \<le> now then (fst (energy_loop now (pay_energy D)), True) else (D, False))"
  by auto
termination
  by (relation "measure (\<lambda>(now, D). nat (now - d_nextEnergy D + 1))")
    (auto simp: pay_energy_def EnergyInterval_def Second_def)

declare energy_loop.simps [simp del]

definition clear_stun :: "dref \<Rightarrow> who \<Rightarrow> world \<Rightarrow> world \<times> bool" where
  "clear_stun d i w =
    (let s = side w d i; now = w_now w in
     if \<not> isZero (stunnedUntil s) \<and> stunnedUntil s \<le> now
     then (upd_side d i (\<lambda>s. s\<lparr>stunnedUntil := 0\<rparr>) w, True) else (w, False))"

definition clear_silence :: "dref \<Rightarrow> who \<Rightarrow> world \<Rightarrow> world \<times> bool" where
  "clear_silence d i w =
    (let s = side w d i; now = w_now w in
     if \<not> isZero (silencedUntil s) \<and> silencedUntil s \<le> now
     then (upd_side d i (\<lambda>s. s\<lparr>silencedUntil := 0\<rparr>) w, True) else (w, False))"

definition land_missiles :: "dref \<Rightarrow> who \<Rightarrow> who \<Rightarrow> world \<Rightarrow> world \<times> bool" where
  "land_missiles d i oth w =
    (let now = w_now w; ms = missiles (side w d i);
         landed = filter (\<lambda>lands. lands \<le> now) ms;
         w = fold (\<lambda>_. landMissile d oth i) landed w
     in (upd_side d i (\<lambda>s. s\<lparr>missiles := filter (\<lambda>lands. now < lands) ms\<rparr>) w, landed \<noteq> []))"

definition move_eyes :: "dref \<Rightarrow> who \<Rightarrow> who \<Rightarrow> world \<Rightarrow> world option" where
  "move_eyes d i oth w = do {
    (w, moved) \<leftarrow> fold_opt (\<lambda>k (w, moved).
        if eye_next (eyes (side w d i) ! k) \<le> w_now w then do {
          w \<leftarrow> aimEye d i oth k w;
          Some (w, True)
        } else Some (w, moved))
      [0..<length (eyes (side w d i))] (w, False);
    if moved then sendEyes d i oth w else Some w
  }"

definition tick_side :: "dref \<Rightarrow> who \<Rightarrow> world \<times> bool \<Rightarrow> (world \<times> bool) option" where
  "tick_side d i = (\<lambda>(w, changed). do {
    let oth = opponent w d i;
    let (w, b1) = clear_stun d i w;
    let (w, b2) = clear_silence d i w;
    let (w, b3) = land_missiles d i oth w;
    w \<leftarrow> move_eyes d i oth w;
    Some (w, changed \<or> b1 \<or> b2 \<or> b3)
  })"

definition tick_duel :: "dref \<Rightarrow> world \<Rightarrow> world option" where
  "tick_duel d w =
    (let now = w_now w; dl = d_deadline (w_dobj w d) in
     if \<not> isZero dl \<and> dl \<le> now then Some (endDuel d None DuelTimeUp w)
     else do {
       let (D, changed) = energy_loop now (w_dobj w d);
       let w = upd_duel d (\<lambda>_. D) w;
       (w, changed) \<leftarrow> tick_side d SideA (w, changed);
       (w, changed) \<leftarrow> tick_side d SideB (w, changed);
       Some (if changed then syncDuel d w else w)
     })"

definition tickDuels :: "world \<Rightarrow> world option" where
  "tickDuels w = fold_opt tick_duel (w_duels w) w"

text \<open>How many payments are due.\<close>

definition payments :: "gotime \<Rightarrow> duel \<Rightarrow> int" where
  "payments now D = (if d_nextEnergy D \<le> now then (now - d_nextEnergy D) div EnergyInterval + 1 else 0)"

lemma payments_nonneg: "0 \<le> payments now D"
  by (simp add: payments_def EnergyInterval_def Second_def pos_imp_zdiv_nonneg_iff)

lemma payments_step: "d_nextEnergy D \<le> now \<Longrightarrow> payments now D = payments now (pay_energy D) + 1"
proof -
  assume "d_nextEnergy D \<le> now"
  moreover have "(now - (d_nextEnergy D + EnergyInterval)) div EnergyInterval = (now - d_nextEnergy D) div EnergyInterval - 1"
    using div_mult_self2 [of EnergyInterval "now - d_nextEnergy D" "-1"]
    by (simp add: EnergyInterval_def Second_def algebra_simps)
  moreover have "(now - d_nextEnergy D) div EnergyInterval = 0" if "d_nextEnergy D \<le> now" "now < d_nextEnergy D + EnergyInterval"
    using that by (simp add: div_pos_pos_trivial)
  ultimately show ?thesis by (auto simp: payments_def pay_energy_def)
qed

lemma payments_paid: "now < d_nextEnergy D + payments now D * EnergyInterval"
proof -
  have "now - d_nextEnergy D < ((now - d_nextEnergy D) div EnergyInterval + 1) * EnergyInterval"
    using div_mult_mod_eq [of "now - d_nextEnergy D" EnergyInterval] pos_mod_bound [of EnergyInterval "now - d_nextEnergy D"]
    by (simp add: EnergyInterval_def Second_def algebra_simps)
  then show ?thesis by (simp add: payments_def)
qed

text \<open>C37: Energy catches up. The loop that pays energy ends however long ago the last payment was, and pays
both sides exactly one energy per interval gone by: the next payment is in the future, and nothing else of
the duel changes.\<close>

theorem energy_catches_up:
  "energy_loop now D =
    (let n = payments now D in
     ((d_upd SideB (\<lambda>s. s\<lparr>energy := energy s + n\<rparr>) (d_upd SideA (\<lambda>s. s\<lparr>energy := energy s + n\<rparr>) D))
        \<lparr>d_nextEnergy := d_nextEnergy D + n * EnergyInterval\<rparr>, 0 < n)) \<and>
   now < d_nextEnergy (fst (energy_loop now D))"
proof -
  have "energy_loop now D = (let n = payments now D in
     ((d_upd SideB (\<lambda>s. s\<lparr>energy := energy s + n\<rparr>) (d_upd SideA (\<lambda>s. s\<lparr>energy := energy s + n\<rparr>) D))
        \<lparr>d_nextEnergy := d_nextEnergy D + n * EnergyInterval\<rparr>, 0 < n))"
  proof (induction now D rule: energy_loop.induct)
    case (1 now D)
    show ?case
    proof (cases "d_nextEnergy D \<le> now")
      case True
      note pay = payments_step [OF True]
      from payments_nonneg [of now "pay_energy D"] 1 [OF True] True show ?thesis
        by (subst energy_loop.simps) (simp add: Let_def pay pay_energy_def EnergyInterval_def algebra_simps)
    qed (simp add: energy_loop.simps payments_def)
  qed
  then show ?thesis using payments_paid by (simp add: Let_def)
qed

end
