(* ===== verification/Duel_World.thy ===== *)
theory Duel_World
  imports Duels
begin

text \<open>
  What holds of the world between any two commands, as far as duels go, and how a duel ends.

  \<open>world_ok P n w\<close>: the players, their entities and ratings agree; a player points at a duel
  exactly when it is one of the running duels and they are one of its two sides; every running duel
  is well-formed; nobody who waits for an answer to a challenge, or is asked for one, is dueling,
  and no challenge waits longer than \<open>ChallengeTimeout\<close>; and at most \<open>MaxPrayers\<close> prayers are on their way. Operations that stay within one running duel
  keep it, and so does the end of a duel.
\<close>

section \<open>The invariant\<close>

text \<open>The match handed over to be saved has consistent ratings.\<close>

definition saved_ok :: "Match \<Rightarrow> bool" where
  "saved_ok m \<longleftrightarrow> rating_ok (res_A (mt_Result m)) \<and> rating_ok (res_B (mt_Result m))"

definition players_ok :: "world \<Rightarrow> bool" where
  "players_ok w \<longleftrightarrow> distinct (map fst (w_players w)) \<and> distinct (map snd (w_players w)) \<and>
     distinct (map (\<lambda>p. p_ent (w_pobj w p)) (map snd (w_players w))) \<and>
     (\<forall>(c, p) \<in> set (w_players w). p_client (w_pobj w p) = c \<and> rating_ok (p_rating (w_pobj w p)) \<and>
        e_Elo (ent_of w p) = Elo (p_rating (w_pobj w p))) \<and>
     list_all saved_ok (w_matches w)"

definition dueling_ok :: "world \<Rightarrow> bool" where
  "dueling_ok w \<longleftrightarrow> distinct (w_duels w) \<and>
     (\<forall>d \<in> set (w_duels w). d < w_fresh w \<and> (\<forall>i. side_p (side w d i) \<in> snd ` set (w_players w) \<and>
        p_duel (w_pobj w (side_p (side w d i))) = Some d)) \<and>
     (\<forall>p d. p_duel (w_pobj w p) = Some d \<longrightarrow> d \<in> set (w_duels w) \<and> (\<exists>i. side_p (side w d i) = p))"

definition challenge_ok :: "world \<Rightarrow> 32 word \<times> challenge \<Rightarrow> bool" where
  "challenge_ok w = (\<lambda>(i, ch). ch_id ch = i \<and> ch_from ch \<noteq> ch_to ch \<and>
     ch_from ch \<in> snd ` set (w_players w) \<and> ch_to ch \<in> snd ` set (w_players w) \<and>
     p_duel (w_pobj w (ch_from ch)) = None \<and> p_duel (w_pobj w (ch_to ch)) = None \<and>
     ch_expires ch \<le> w_now w + ChallengeTimeout)"

definition challenges_ok :: "world \<Rightarrow> bool" where
  "challenges_ok w \<longleftrightarrow> distinct (map fst (w_challenges w)) \<and>
     distinct (map (\<lambda>e. ch_from (snd e)) (w_challenges w)) \<and>
     (\<forall>e \<in> set (w_challenges w). challenge_ok w e)"

definition prayers_ok :: "world \<Rightarrow> bool" where
  "prayers_ok w \<longleftrightarrow> length (w_praying w) \<le> MaxPrayers \<and>
     (\<forall>j \<in> set (w_praying w) \<union> fst ` set (w_answered w). 0 \<le> pj_cost j)"

definition world_ok :: "puzzle \<Rightarrow> nat \<Rightarrow> world \<Rightarrow> bool" where
  "world_ok P n w \<longleftrightarrow> w_Duels w = Some P \<and> players_ok w \<and> dueling_ok w \<and>
     (\<forall>d \<in> set (w_duels w). duel_ok P n (w_dobj w d)) \<and> challenges_ok w \<and> prayers_ok w"

lemma world_okD:
  assumes "world_ok P n w"
  shows "w_Duels w = Some P" "players_ok w" "dueling_ok w" "challenges_ok w" "prayers_ok w"
    "d \<in> set (w_duels w) \<Longrightarrow> duel_ok P n (w_dobj w d)"
  using assms by (simp_all add: world_ok_def)

lemma players_okD:
  assumes "players_ok w" and "(c, p) \<in> set (w_players w)"
  shows "p_client (w_pobj w p) = c" "rating_ok (p_rating (w_pobj w p))"
    "e_Elo (ent_of w p) = Elo (p_rating (w_pobj w p))" "map_of (w_players w) c = Some p"
  using assms unfolding players_ok_def by auto

lemma dueling_okD:
  assumes "dueling_ok w"
  shows "distinct (w_duels w)" "d \<in> set (w_duels w) \<Longrightarrow> d < w_fresh w"
    "d \<in> set (w_duels w) \<Longrightarrow> side_p (side w d i) \<in> snd ` set (w_players w)"
    "d \<in> set (w_duels w) \<Longrightarrow> p_duel (w_pobj w (side_p (side w d i))) = Some d"
    "p_duel (w_pobj w p) = Some d \<Longrightarrow> d \<in> set (w_duels w)"
    "p_duel (w_pobj w p) = Some d \<Longrightarrow> \<exists>i. side_p (side w d i) = p"
  using assms unfolding dueling_ok_def by blast+

text \<open>An operation on one running duel that stays within it.\<close>

lemma stays_players_ok: "stays d w w' \<Longrightarrow> players_ok w' = players_ok w"
  by (simp add: players_ok_def ent_of_def staysD)

lemma stays_sides:
  assumes "stays d w w'"
  shows "side_p (side w' d' i) = side_p (side w d' i)"
  using stays_side_p(1) [OF assms] staysD(24) [OF assms] by (cases "d' = d") (simp_all add: side_def)

lemma stays_dueling_ok: "stays d w w' \<Longrightarrow> dueling_ok w' = dueling_ok w"
  by (simp add: dueling_ok_def stays_sides staysD)

lemma stays_challenges_ok: "stays d w w' \<Longrightarrow> challenges_ok w' = challenges_ok w"
  by (simp add: challenges_ok_def challenge_ok_def split_def staysD)

lemma stays_prayers_ok:
  assumes "stays d w w'" and "prayers_ok w"
  shows "prayers_ok w'"
proof -
  obtain new where "w_praying w' = w_praying w @ new" "\<forall>j \<in> set new. 0 \<le> pj_cost j"
      "new \<noteq> [] \<longrightarrow> length (w_praying w') \<le> MaxPrayers"
    using staysD(26) [OF assms(1)] unfolding prayers_grow_def by blast
  then show ?thesis
    using assms(2) staysD(18) [OF assms(1)] by (cases "new = []") (auto simp: prayers_ok_def)
qed

lemma keeps_world_ok:
  assumes "world_ok P n w" and "keeps P n d w w'"
  shows "world_ok P n w'"
proof -
  note s = keepsD(1) [OF assms(2)]
  have "duel_ok P n (w_dobj w' d')" if "d' \<in> set (w_duels w')" for d'
    using that assms staysD(17,24) [OF s] keepsD(2) [OF assms(2)] world_okD(6)
    by (cases "d' = d") auto
  then show ?thesis
    using assms(1) s stays_prayers_ok [OF s]
    by (simp add: world_ok_def staysD stays_players_ok stays_dueling_ok stays_challenges_ok)
qed

section \<open>Whose duel it is\<close>

lemma sidesOf_me:
  assumes "side_p (side w d i) = p" and "side_p (side w d SideA) \<noteq> side_p (side w d SideB)"
  shows "sidesOf w d p = (i, other i)"
  using assms by (cases i) (auto simp: sidesOf_def)

lemma find_duelD:
  assumes "world_ok P n w" and "find_duel c w = Some (p, d, me, them)"
  shows "d \<in> set (w_duels w)" "duel_ok P n (w_dobj w d)" "side_p (side w d me) = p"
    "them = other me" "c \<in> duelists w d" "(c, p) \<in> set (w_players w)" "p_duel (w_pobj w p) = Some d"
proof -
  have m: "map_of (w_players w) c = Some p" and pd: "p_duel (w_pobj w p) = Some d"
    and so: "sidesOf w d p = (me, them)"
    using assms(2) by (auto simp: find_duel_def bind_eq_Some_conv)
  note D = dueling_okD [OF world_okD(3) [OF assms(1)]]
  show d: "d \<in> set (w_duels w)" by (rule D(5) [OF pd])
  show ok: "duel_ok P n (w_dobj w d)" by (rule world_okD(6) [OF assms(1) d])
  obtain i where i: "side_p (side w d i) = p" using D(6) [OF pd] by blast
  have "sidesOf w d p = (i, other i)"
    by (rule sidesOf_me [OF i]) (use duel_okD(5) [OF ok, of SideA] in \<open>simp add: side_def\<close>)
  then have me: "me = i" "them = other me" using so by simp_all
  show "side_p (side w d me) = p" "them = other me" using me i by simp_all
  show cp: "(c, p) \<in> set (w_players w)" using m by (rule map_of_SomeD)
  show "c \<in> duelists w d"
    using players_okD(1) [OF world_okD(2) [OF assms(1)] cp] i by (auto simp: duelists_def intro!: image_eqI)
  show "p_duel (w_pobj w p) = Some d" by (rule pd)
qed


section \<open>Ratings\<close>

lemma setRating_eq:
  "setRating p r w =
     w\<lparr>w_pobj := (w_pobj w)(p := (w_pobj w p)\<lparr>p_rating := r\<rparr>),
       w_eobj := (w_eobj w)(p_ent (w_pobj w p) :=
          (w_eobj w (p_ent (w_pobj w p)))\<lparr>e_Elo := Elo r, e_eloChanged := True\<rparr>),
       w_eloChanged := w_eloChanged w @
          (if e_eloChanged (w_eobj w (p_ent (w_pobj w p))) then [] else [p_ent (w_pobj w p)])\<rparr>"
proof -
  have elo: "en\<lparr>e_Elo := x, e_eloChanged := True\<rparr> = en\<lparr>e_Elo := x\<rparr>" if "e_eloChanged en"
    for en :: Entity and x using that by (cases en) simp
  show ?thesis
    by (cases "e_eloChanged (w_eobj w (p_ent (w_pobj w p)))")
      (simp_all add: setRating_def upd_player_def upd_entity_def Let_def elo)
qed

text \<open>What settling and ending a duel leave alone.\<close>

lemma setRating_frame [simp]:
  "w_Map (setRating p r w) = w_Map w" "w_Duels (setRating p r w) = w_Duels w"
  "w_OnRanked (setRating p r w) = w_OnRanked w" "w_matches (setRating p r w) = w_matches w"
  "w_entities (setRating p r w) = w_entities w" "w_players (setRating p r w) = w_players w"
  "w_grid (setRating p r w) = w_grid w" "w_nextID (setRating p r w) = w_nextID w"
  "w_tick (setRating p r w) = w_tick w" "w_moved (setRating p r w) = w_moved w"
  "w_challenges (setRating p r w) = w_challenges w" "w_nextChallenge (setRating p r w) = w_nextChallenge w"
  "w_duels (setRating p r w) = w_duels w" "w_dobj (setRating p r w) = w_dobj w"
  "w_praying (setRating p r w) = w_praying w" "w_answered (setRating p r w) = w_answered w"
  "w_now (setRating p r w) = w_now w" "w_online (setRating p r w) = w_online w"
  "w_out (setRating p r w) = w_out w" "w_fresh (setRating p r w) = w_fresh w"
  "w_rng (setRating p r w) = w_rng w" "w_Oracle (setRating p r w) = w_Oracle w"
  "w_fate (setRating p r w) = w_fate w" "w_rejected (setRating p r w) = w_rejected w"
  "w_nextPrayer (setRating p r w) = w_nextPrayer w" "side (setRating p r w) d i = side w d i"
  by (simp_all add: setRating_eq side_def)

lemma setRating_player [simp]:
  "p_client (w_pobj (setRating p r w) q) = p_client (w_pobj w q)"
  "p_playerID (w_pobj (setRating p r w) q) = p_playerID (w_pobj w q)"
  "p_charID (w_pobj (setRating p r w) q) = p_charID (w_pobj w q)"
  "p_ent (w_pobj (setRating p r w) q) = p_ent (w_pobj w q)"
  "p_known (w_pobj (setRating p r w) q) = p_known (w_pobj w q)"
  "p_duel (w_pobj (setRating p r w) q) = p_duel (w_pobj w q)"
  "p_rating (w_pobj (setRating p r w) q) = (if q = p then r else p_rating (w_pobj w q))"
  by (simp_all add: setRating_eq)

lemma setRating_entity [simp]:
  "e_ID (w_eobj (setRating p r w) e) = e_ID (w_eobj w e)"
  "e_Kind (w_eobj (setRating p r w) e) = e_Kind (w_eobj w e)"
  "e_Name (w_eobj (setRating p r w) e) = e_Name (w_eobj w e)"
  "e_Char (w_eobj (setRating p r w) e) = e_Char (w_eobj w e)"
  "e_Class (w_eobj (setRating p r w) e) = e_Class (w_eobj w e)"
  "e_Pos (w_eobj (setRating p r w) e) = e_Pos (w_eobj w e)"
  "e_moved (w_eobj (setRating p r w) e) = e_moved (w_eobj w e)"
  "e_cell (w_eobj (setRating p r w) e) = e_cell (w_eobj w e)"
  "e_Elo (w_eobj (setRating p r w) e) = (if e = p_ent (w_pobj w p) then Elo r else e_Elo (w_eobj w e))"
  by (simp_all add: setRating_eq)

lemma setRating_players_ok:
  assumes "players_ok w" and "p \<in> snd ` set (w_players w)" and "rating_ok r"
  shows "players_ok (setRating p r w)"
proof -
  have inj: "p_ent (w_pobj w q) = p_ent (w_pobj w p) \<longleftrightarrow> q = p" if "(c, q) \<in> set (w_players w)" for c q
  proof -
    have "inj_on (\<lambda>p. p_ent (w_pobj w p)) (snd ` set (w_players w))"
      using assms(1) unfolding players_ok_def distinct_map by simp
    moreover have "q \<in> snd ` set (w_players w)" using that by force
    ultimately show ?thesis using assms(2) by (auto dest: inj_onD)
  qed
  show ?thesis
    using assms(1,3) inj unfolding players_ok_def ent_of_def by (auto simp: o_def)
qed


section \<open>Ending a duel\<close>

text \<open>The world part of \<open>settleRanked\<close>.\<close>

definition ranked_result :: "dref \<Rightarrow> who option \<Rightarrow> DuelEndReason \<Rightarrow> real \<Rightarrow> world \<Rightarrow> Result" where
  "ranked_result d winner reason secs w =
     Settle (p_rating (w_pobj w (side_p (side w d SideA)))) (p_rating (w_pobj w (side_p (side w d SideB))))
       (case winner of None \<Rightarrow> Draw | Some SideA \<Rightarrow> AWins | Some SideB \<Rightarrow> BWins)
       (case winner of None \<Rightarrow> Margin_zero | Some i \<Rightarrow> duel_margin d i reason secs w)"

definition settled :: "dref \<Rightarrow> Result \<Rightarrow> world \<Rightarrow> world" where
  "settled d res w =
     setRating (side_p (side w d SideB)) (res_B res) (setRating (side_p (side w d SideA)) (res_A res) w)"

lemma settleRanked_eq:
  "settleRanked d winner reason secs ends w =
     (\<lambda>i. ranked_end (ranked_result d winner reason secs w) i (ends i),
      let res = ranked_result d winner reason secs w in
      (settled d res w)\<lparr>w_matches := w_matches w @
         (if w_OnRanked w then
            [\<lparr>mt_PlayedAt = w_now w, mt_A = p_charID (w_pobj w (side_p (side w d SideA))),
              mt_B = p_charID (w_pobj w (side_p (side w d SideB))),
              mt_Outcome = (case winner of None \<Rightarrow> Draw | Some SideA \<Rightarrow> AWins | Some SideB \<Rightarrow> BWins),
              mt_Reason = reason_code reason, mt_Result = res,
              mt_AGuesses = int (length (side_guesses (side w d SideA))),
              mt_BGuesses = int (length (side_guesses (side w d SideB))), mt_Seconds = secs\<rparr>]
          else [])\<rparr>)"
proof -
  have id: "w\<lparr>w_matches := w_matches w\<rparr> = w" for w by (cases w) simp
  have idm: "w = w\<lparr>w_matches := ms\<rparr>" if "w_matches w = ms" for w ms using that by (cases w) simp
  show ?thesis
    by (cases "w_OnRanked w")
      (simp_all add: settleRanked_def ranked_result_def settled_def Let_def idm [symmetric])
qed

lemma settled_frame [simp]:
  "w_Map (settled d r w) = w_Map w" "w_Duels (settled d r w) = w_Duels w"
  "w_entities (settled d r w) = w_entities w" "w_players (settled d r w) = w_players w"
  "w_grid (settled d r w) = w_grid w" "w_nextID (settled d r w) = w_nextID w"
  "w_tick (settled d r w) = w_tick w" "w_moved (settled d r w) = w_moved w"
  "w_challenges (settled d r w) = w_challenges w" "w_nextChallenge (settled d r w) = w_nextChallenge w"
  "w_duels (settled d r w) = w_duels w" "w_dobj (settled d r w) = w_dobj w"
  "w_praying (settled d r w) = w_praying w" "w_answered (settled d r w) = w_answered w"
  "w_now (settled d r w) = w_now w" "w_online (settled d r w) = w_online w"
  "w_out (settled d r w) = w_out w" "w_fresh (settled d r w) = w_fresh w"
  "w_rng (settled d r w) = w_rng w" "side (settled d r w) d' i = side w d' i"
  by (simp_all add: settled_def)

lemma settled_player [simp]:
  "p_client (w_pobj (settled d r w) q) = p_client (w_pobj w q)"
  "p_playerID (w_pobj (settled d r w) q) = p_playerID (w_pobj w q)"
  "p_charID (w_pobj (settled d r w) q) = p_charID (w_pobj w q)"
  "p_ent (w_pobj (settled d r w) q) = p_ent (w_pobj w q)"
  "p_known (w_pobj (settled d r w) q) = p_known (w_pobj w q)"
  "p_duel (w_pobj (settled d r w) q) = p_duel (w_pobj w q)"
  by (simp_all add: settled_def)

lemma settled_players_ok:
  assumes "players_ok w" and "\<And>i. side_p (side w d i) \<in> snd ` set (w_players w)"
    and "rating_ok (res_A r)" "rating_ok (res_B r)"
  shows "players_ok (settled d r w)"
  unfolding settled_def using assms by (intro setRating_players_ok) simp_all

text \<open>All of what \<open>endDuel\<close> does to the world.\<close>

definition end_msgs :: "dref \<Rightarrow> who option \<Rightarrow> DuelEndReason \<Rightarrow> world \<Rightarrow> who \<Rightarrow> DuelEnd" where
  "end_msgs d winner reason w i =
    (let secs = duration_Seconds (w_now w - d_start (w_dobj w d)); e = end_msg d winner reason secs w i in
     if d_ranked (w_dobj w d) then ranked_end (ranked_result d winner reason secs w) i e else e)"

lemma ranked_end_fields [simp]:
  "de_Outcome (ranked_end res i e) = de_Outcome e" "de_Reason (ranked_end res i e) = de_Reason e"
  "de_Solution (ranked_end res i e) = de_Solution e"
  by (simp_all add: ranked_end_def split_beta)

lemma end_msgs_fields:
  "de_Outcome (end_msgs d x r w i) = (case x of None \<Rightarrow> DuelDraw | Some j \<Rightarrow> if j = i then DuelWin else DuelLose)"
  "de_Reason (end_msgs d x r w i) = r" "de_Solution (end_msgs d x r w i) = side_word (side w d i)"
  by (simp_all add: end_msgs_def Let_def) (simp_all add: end_msg_def)

definition end_world :: "dref \<Rightarrow> who option \<Rightarrow> DuelEndReason \<Rightarrow> world \<Rightarrow> world" where
  "end_world d winner reason w =
    (let secs = duration_Seconds (w_now w - d_start (w_dobj w d)) in
     if d_ranked (w_dobj w d) then snd (settleRanked d winner reason secs (end_msg d winner reason secs w) w)
     else w)"

lemma end_world_frame [simp]:
  "w_Map (end_world d x r w) = w_Map w" "w_Duels (end_world d x r w) = w_Duels w"
  "w_entities (end_world d x r w) = w_entities w" "w_players (end_world d x r w) = w_players w"
  "w_grid (end_world d x r w) = w_grid w" "w_nextID (end_world d x r w) = w_nextID w"
  "w_tick (end_world d x r w) = w_tick w" "w_moved (end_world d x r w) = w_moved w"
  "w_challenges (end_world d x r w) = w_challenges w" "w_nextChallenge (end_world d x r w) = w_nextChallenge w"
  "w_duels (end_world d x r w) = w_duels w" "w_dobj (end_world d x r w) = w_dobj w"
  "w_praying (end_world d x r w) = w_praying w" "w_answered (end_world d x r w) = w_answered w"
  "w_now (end_world d x r w) = w_now w" "w_online (end_world d x r w) = w_online w"
  "w_out (end_world d x r w) = w_out w" "w_fresh (end_world d x r w) = w_fresh w"
  "w_rng (end_world d x r w) = w_rng w" "side (end_world d x r w) d' i = side w d' i"
  by (simp_all add: end_world_def settleRanked_eq side_def Let_def)

lemma end_world_player [simp]:
  "p_client (w_pobj (end_world d x r w) q) = p_client (w_pobj w q)"
  "p_playerID (w_pobj (end_world d x r w) q) = p_playerID (w_pobj w q)"
  "p_charID (w_pobj (end_world d x r w) q) = p_charID (w_pobj w q)"
  "p_ent (w_pobj (end_world d x r w) q) = p_ent (w_pobj w q)"
  "p_known (w_pobj (end_world d x r w) q) = p_known (w_pobj w q)"
  "p_duel (w_pobj (end_world d x r w) q) = p_duel (w_pobj w q)"
  by (simp_all add: end_world_def settleRanked_eq Let_def)

lemma upd_player_send: "upd_player p f (send c m w) = send c m (upd_player p f w)"
  by (simp add: upd_player_def send_def)

lemma upd_two_players:
  assumes "\<And>x. f (f x) = f x"
  shows "upd_player b f (upd_player a f w) =
    w\<lparr>w_pobj := (\<lambda>q. if q = a \<or> q = b then f (w_pobj w q) else w_pobj w q)\<rparr>"
proof -
  have "(w_pobj w)(a := f (w_pobj w a), b := f (((w_pobj w)(a := f (w_pobj w a))) b)) =
      (\<lambda>q. if q = a \<or> q = b then f (w_pobj w q) else w_pobj w q)"
    using assms by (auto simp: fun_eq_iff)
  then show ?thesis by (simp add: upd_player_def)
qed

lemma endDuel_eq:
  "endDuel d winner reason w =
    (let a = side_p (side w d SideA); b = side_p (side w d SideB); ends = end_msgs d winner reason w;
         w1 = end_world d winner reason w
     in w1\<lparr>w_pobj := (\<lambda>q. if q = a \<or> q = b then (w_pobj w1 q)\<lparr>p_duel := None\<rparr> else w_pobj w1 q),
           w_out := w_out w @ [(p_client (w_pobj w a), ServerDuelEnd (ends SideA)),
                (p_client (w_pobj w b), ServerDuelEnd (ends SideB))],
           w_duels := filter (\<lambda>d'. d' \<noteq> d) (w_duels w)\<rparr>)"
proof -
  define secs where "secs = duration_Seconds (w_now w - d_start (w_dobj w d))"
  have ends: "fst (if d_ranked (w_dobj w d)
      then settleRanked d winner reason secs (end_msg d winner reason secs w) w
      else (end_msg d winner reason secs w, w)) = end_msgs d winner reason w"
    by (auto simp: end_msgs_def settleRanked_eq secs_def Let_def fun_eq_iff)
  have wd: "snd (if d_ranked (w_dobj w d)
      then settleRanked d winner reason secs (end_msg d winner reason secs w) w
      else (end_msg d winner reason secs w, w)) = end_world d winner reason w"
    by (simp add: end_world_def secs_def Let_def)
  define w1 where "w1 = end_world d winner reason w"
  have f: "side w1 = side w" "w_out w1 = w_out w" "w_duels w1 = w_duels w"
    "p_client (w_pobj w1 q) = p_client (w_pobj w q)" for q
    by (simp_all add: w1_def fun_eq_iff)
  have s: "side (upd_player p g w) = side w" "side (send c m w) = side w" for p g c m w
    by (simp_all add: upd_player_def send_def side_def fun_eq_iff)
  have c: "p_client (w_pobj (upd_player p (\<lambda>p. p\<lparr>p_duel := None\<rparr>) w) q) = p_client (w_pobj w q)"
    "w_pobj (send x m w) = w_pobj w" for p q w x m
    by (simp_all add: upd_player_def send_def)
  have two: "upd_player b (\<lambda>p. p\<lparr>p_duel := None\<rparr>) (upd_player a (\<lambda>p. p\<lparr>p_duel := None\<rparr>) w) =
    w\<lparr>w_pobj := (\<lambda>q. if q = a \<or> q = b then (w_pobj w q)\<lparr>p_duel := None\<rparr> else w_pobj w q)\<rparr>" for a b w
    by (rule upd_two_players) simp
  have "endDuel d winner reason w = (let w = each_side (\<lambda>i w. upd_player (side_p (side w d i)) (\<lambda>p. p\<lparr>p_duel := None\<rparr>)
               (send_side d i (ServerDuelEnd (end_msgs d winner reason w0 i)) w)) w1
     in w\<lparr>w_duels := filter (\<lambda>d'. d' \<noteq> d) (w_duels w)\<rparr>)" if "w0 = w" for w0
    unfolding endDuel_def Let_def secs_def [symmetric] split_beta ends wd w1_def that ..
  then show ?thesis
    unfolding each_side_def send_side_def s upd_player_send two Let_def w1_def [symmetric]
    by (simp add: send_def c f two s)
qed


lemma endDuel_frame [simp]:
  "w_Map (endDuel d x r w) = w_Map w" "w_Duels (endDuel d x r w) = w_Duels w"
  "w_entities (endDuel d x r w) = w_entities w" "w_players (endDuel d x r w) = w_players w"
  "w_grid (endDuel d x r w) = w_grid w" "w_nextID (endDuel d x r w) = w_nextID w"
  "w_tick (endDuel d x r w) = w_tick w" "w_moved (endDuel d x r w) = w_moved w"
  "w_challenges (endDuel d x r w) = w_challenges w" "w_nextChallenge (endDuel d x r w) = w_nextChallenge w"
  "w_dobj (endDuel d x r w) = w_dobj w" "w_duels (endDuel d x r w) = filter (\<lambda>d'. d' \<noteq> d) (w_duels w)"
  "w_praying (endDuel d x r w) = w_praying w" "w_answered (endDuel d x r w) = w_answered w"
  "w_now (endDuel d x r w) = w_now w" "w_online (endDuel d x r w) = w_online w"
  "w_fresh (endDuel d x r w) = w_fresh w" "w_rng (endDuel d x r w) = w_rng w"
  "side (endDuel d x r w) d' i = side w d' i"
  by (simp_all add: endDuel_eq side_def Let_def)

lemma endDuel_player [simp]:
  "p_client (w_pobj (endDuel d x r w) q) = p_client (w_pobj w q)"
  "p_playerID (w_pobj (endDuel d x r w) q) = p_playerID (w_pobj w q)"
  "p_charID (w_pobj (endDuel d x r w) q) = p_charID (w_pobj w q)"
  "p_ent (w_pobj (endDuel d x r w) q) = p_ent (w_pobj w q)"
  "p_known (w_pobj (endDuel d x r w) q) = p_known (w_pobj w q)"
  "p_rating (w_pobj (endDuel d x r w) q) = p_rating (w_pobj (end_world d x r w) q)"
  "w_eobj (endDuel d x r w) = w_eobj (end_world d x r w)"
  "w_matches (endDuel d x r w) = w_matches (end_world d x r w)"
  "p_duel (w_pobj (endDuel d x r w) q) = (if \<exists>i. side_p (side w d i) = q then None else p_duel (w_pobj w q))"
  by (auto simp: endDuel_eq Let_def) (metis who.exhaust)+

lemma Settle_ok:
  "rating_ok a \<Longrightarrow> rating_ok (res_A (Settle a b x m))" "rating_ok b \<Longrightarrow> rating_ok (res_B (Settle a b x m))"
  by (simp_all add: Settle_simps apply_change_ok)

lemma end_world_players_ok:
  assumes "players_ok w" and sides: "\<And>i. side_p (side w d i) \<in> snd ` set (w_players w)"
  shows "players_ok (end_world d x r w)"
proof -
  have r: "rating_ok (p_rating (w_pobj w (side_p (side w d i))))" for i
    using sides [of i] players_okD(2) [OF assms(1)] by force
  have m: "players_ok (v\<lparr>w_matches := w_matches w @ ms\<rparr>)" if "players_ok v" "list_all saved_ok ms" for v ms
    using that assms(1) by (simp add: players_ok_def ent_of_def)
  have res: "rating_ok (res_A (ranked_result d x r secs w))" "rating_ok (res_B (ranked_result d x r secs w))" for secs
    by (simp_all add: ranked_result_def Settle_ok r)
  show ?thesis
    using assms(1) settled_players_ok [OF assms res]
    by (simp add: end_world_def settleRanked_eq Let_def m res saved_ok_def)
qed

lemma endDuel_players_ok:
  assumes "players_ok w" and "\<And>i. side_p (side w d i) \<in> snd ` set (w_players w)"
  shows "players_ok (endDuel d x r w)"
  using end_world_players_ok [OF assms, of x r] by (simp add: players_ok_def ent_of_def split_def)

lemma endDuel_dueling_ok:
  assumes "dueling_ok w" and "d \<in> set (w_duels w)"
  shows "dueling_ok (endDuel d x r w)"
proof -
  note D = dueling_okD [OF assms(1)]
  have "side_p (side w d' i) \<noteq> side_p (side w d j)" if "d' \<in> set (w_duels w)" "d' \<noteq> d" for d' i j
    using D(4) [OF that(1), of i] D(4) [OF assms(2), of j] that(2) by auto
  then show ?thesis
    using assms D(6) unfolding dueling_ok_def by (auto; metis)
qed

lemma endDuel_world_ok:
  assumes "world_ok P n w" and "d \<in> set (w_duels w)" and "stays d w w1"
  shows "world_ok P n (endDuel d x r w1)"
proof -
  note s = staysD [OF assms(3)] and D = dueling_okD [OF world_okD(3) [OF assms(1)]]
  have p: "players_ok w1" "dueling_ok w1" "challenges_ok w1" "prayers_ok w1" "w_Duels w1 = Some P"
    using world_okD(1-5) [OF assms(1)] assms(3)
    by (simp_all add: stays_players_ok stays_dueling_ok stays_challenges_ok stays_prayers_ok s(2))
  have sides: "side_p (side w1 d i) \<in> snd ` set (w_players w1)" for i
    using D(3) [OF assms(2)] by (simp add: stays_sides [OF assms(3)] s(8))
  have "challenges_ok (endDuel d x r w1)" "prayers_ok (endDuel d x r w1)"
    using p(3,4) by (auto simp: challenges_ok_def challenge_ok_def prayers_ok_def)
  moreover have "duel_ok P n (w_dobj w1 d')" if "d' \<in> set (w_duels w)" "d' \<noteq> d" for d'
    using world_okD(6) [OF assms(1) that(1)] s(24) [OF that(2)] by simp
  ultimately show ?thesis
    using p endDuel_players_ok [OF p(1) sides] endDuel_dueling_ok [OF p(2)] assms(2)
    by (simp add: world_ok_def s(17))
qed

section \<open>The scene\<close>

text \<open>
  What no duel operation touches: the entities and where they are, who is in the world and what
  they know. Only elo and its flag may change, and a flagged entity is on the list to clear.
\<close>

definition flags_listed :: "world \<Rightarrow> bool" where
  "flags_listed w \<longleftrightarrow> (\<forall>e. e_moved (w_eobj w e) \<longrightarrow> e \<in> set (w_moved w)) \<and>
     (\<forall>e. e_eloChanged (w_eobj w e) \<longrightarrow> e \<in> set (w_eloChanged w))"

text \<open>An entity whose elo differs is flagged.\<close>

definition same_entity :: "Entity \<Rightarrow> Entity \<Rightarrow> bool" where
  "same_entity a b \<longleftrightarrow> b = a\<lparr>e_Elo := e_Elo b, e_eloChanged := e_eloChanged b\<rparr> \<and>
     (e_eloChanged a \<longrightarrow> e_eloChanged b) \<and> (e_Elo b \<noteq> e_Elo a \<longrightarrow> e_eloChanged b)"

definition same_player :: "player \<Rightarrow> player \<Rightarrow> bool" where
  "same_player a b \<longleftrightarrow> b = a\<lparr>p_rating := p_rating b, p_duel := p_duel b\<rparr>"

definition scene :: "world \<Rightarrow> world \<Rightarrow> bool" where
  "scene w w' \<longleftrightarrow> w_Map w' = w_Map w \<and> w_Duels w' = w_Duels w \<and> w_entities w' = w_entities w \<and>
     w_players w' = w_players w \<and> w_grid w' = w_grid w \<and> w_nextID w' = w_nextID w \<and> w_tick w' = w_tick w \<and>
     w_moved w' = w_moved w \<and> w_online w' = w_online w \<and> w_now w' = w_now w \<and> w_fresh w \<le> w_fresh w' \<and>
     (\<forall>e. same_entity (w_eobj w e) (w_eobj w' e)) \<and> (\<forall>p. same_player (w_pobj w p) (w_pobj w' p)) \<and>
     (flags_listed w \<longrightarrow> flags_listed w') \<and> tells UNIV w w'"

lemma same_entity_refl [simp]: "same_entity a a" and same_player_refl [simp]: "same_player p p"
  by (simp_all add: same_entity_def same_player_def)

lemma same_entityD:
  assumes "same_entity a b"
  shows "e_ID b = e_ID a" "e_Kind b = e_Kind a" "e_Name b = e_Name a" "e_Char b = e_Char a"
    "e_Class b = e_Class a" "e_Sprite b = e_Sprite a" "e_Pos b = e_Pos a" "e_moved b = e_moved a"
    "e_cell b = e_cell a" "e_eloChanged a \<Longrightarrow> e_eloChanged b" "e_Elo b \<noteq> e_Elo a \<Longrightarrow> e_eloChanged b"
proof -
  obtain x y where "b = a\<lparr>e_Elo := x, e_eloChanged := y\<rparr>"
    using assms unfolding same_entity_def by blast
  then show "e_ID b = e_ID a" "e_Kind b = e_Kind a" "e_Name b = e_Name a" "e_Char b = e_Char a"
    "e_Class b = e_Class a" "e_Sprite b = e_Sprite a" "e_Pos b = e_Pos a" "e_moved b = e_moved a"
    "e_cell b = e_cell a" by simp_all
  show "e_eloChanged a \<Longrightarrow> e_eloChanged b" "e_Elo b \<noteq> e_Elo a \<Longrightarrow> e_eloChanged b"
    using assms unfolding same_entity_def by blast+
qed

lemma same_playerD:
  assumes "same_player a b"
  shows "p_client b = p_client a" "p_playerID b = p_playerID a" "p_charID b = p_charID a"
    "p_ent b = p_ent a" "p_known b = p_known a" "p_budget b = p_budget a" "p_budgetAt b = p_budgetAt a"
proof -
  obtain x y where "b = a\<lparr>p_rating := x, p_duel := y\<rparr>"
    using assms unfolding same_player_def by blast
  then show "p_client b = p_client a" "p_playerID b = p_playerID a" "p_charID b = p_charID a"
    "p_ent b = p_ent a" "p_known b = p_known a" "p_budget b = p_budget a" "p_budgetAt b = p_budgetAt a"
    by simp_all
qed

lemma same_entity_trans: "same_entity a b \<Longrightarrow> same_entity b c \<Longrightarrow> same_entity a c"
proof -
  assume ab: "same_entity a b" and bc: "same_entity b c"
  obtain x y where b: "b = a\<lparr>e_Elo := x, e_eloChanged := y\<rparr>" using ab unfolding same_entity_def by blast
  obtain u v where c: "c = b\<lparr>e_Elo := u, e_eloChanged := v\<rparr>" using bc unfolding same_entity_def by blast
  show "same_entity a c" using ab bc unfolding b c same_entity_def by auto
qed

lemma same_player_trans: "same_player a b \<Longrightarrow> same_player b c \<Longrightarrow> same_player a c"
proof -
  assume ab: "same_player a b" and bc: "same_player b c"
  obtain x y where b: "b = a\<lparr>p_rating := x, p_duel := y\<rparr>" using ab unfolding same_player_def by blast
  obtain u v where c: "c = b\<lparr>p_rating := u, p_duel := v\<rparr>" using bc unfolding same_player_def by blast
  show "same_player a c" unfolding b c same_player_def by simp
qed

lemma scene_refl [simp]: "scene w w"
  by (simp add: scene_def)

lemma scene_trans: "scene w w' \<Longrightarrow> scene w' w'' \<Longrightarrow> scene w w''"
  unfolding scene_def by (auto intro: same_entity_trans same_player_trans tells_trans)

lemma sceneD:
  assumes "scene w w'"
  shows "w_Map w' = w_Map w" "w_Duels w' = w_Duels w" "w_entities w' = w_entities w"
    "w_players w' = w_players w" "w_grid w' = w_grid w" "w_nextID w' = w_nextID w" "w_tick w' = w_tick w"
    "w_moved w' = w_moved w" "w_online w' = w_online w" "w_now w' = w_now w" "w_fresh w \<le> w_fresh w'"
    "same_entity (w_eobj w e) (w_eobj w' e)" "same_player (w_pobj w p) (w_pobj w' p)"
    "flags_listed w \<Longrightarrow> flags_listed w'" "tells UNIV w w'"
  using assms unfolding scene_def by blast+

lemma scene_stays:
  assumes "stays d w w'"
  shows "scene w w'"
proof -
  have "tells UNIV w w'" using staysD(27) [OF assms] unfolding tells_def by fastforce
  then show ?thesis using staysD [OF assms] by (simp add: scene_def flags_listed_def)
qed

lemma scene_setRating: "scene w (setRating p r w)"
  by (auto simp: scene_def setRating_eq same_entity_def same_player_def flags_listed_def tells_same)

lemma scene_endDuel: "scene w (endDuel d x r w)"
proof -
  have 1: "scene w (settled d res w)" for res
    unfolding settled_def by (rule scene_trans [OF scene_setRating scene_setRating])
  have m: "scene w (v\<lparr>w_matches := ms\<rparr>) = scene w v" for v ms
    by (simp add: scene_def flags_listed_def tells_def)
  have 2: "scene w (end_world d x r w)"
    by (simp add: end_world_def settleRanked_eq Let_def m 1)
  have "same_player (w_pobj w q) ((w_pobj (end_world d x r w) q)\<lparr>p_duel := None\<rparr>)" for q
    by (rule same_player_trans [OF sceneD(13) [OF 2]]) (simp add: same_player_def)
  then show ?thesis
    using 2 by (simp add: endDuel_eq scene_def Let_def flags_listed_def tells_def)
qed

text \<open>An operation of the duels: the invariant after it, the scene as it was.\<close>

definition evolves :: "puzzle \<Rightarrow> nat \<Rightarrow> world \<Rightarrow> world \<Rightarrow> bool" where
  "evolves P n w w' \<longleftrightarrow> world_ok P n w' \<and> scene w w'"

lemma evolvesD: "evolves P n w w' \<Longrightarrow> world_ok P n w'" "evolves P n w w' \<Longrightarrow> scene w w'"
  by (simp_all add: evolves_def)

lemma evolves_refl: "world_ok P n w \<Longrightarrow> evolves P n w w"
  by (simp add: evolves_def)

lemma evolves_trans: "scene w w' \<Longrightarrow> evolves P n w' w'' \<Longrightarrow> evolves P n w w''"
  by (auto simp: evolves_def intro: scene_trans)

lemma keeps_evolves: "world_ok P n w \<Longrightarrow> keeps P n d w w' \<Longrightarrow> evolves P n w w'"
  by (simp add: evolves_def keeps_world_ok scene_stays [OF keepsD(1)])

lemma endDuel_evolves:
  "world_ok P n w \<Longrightarrow> d \<in> set (w_duels w) \<Longrightarrow> stays d w w1 \<Longrightarrow> evolves P n w (endDuel d x r w1)"
  by (simp add: evolves_def endDuel_world_ok scene_trans [OF scene_stays scene_endDuel])

lemma handler_evolves:
  assumes "world_ok P n w" and "find_duel c w = None \<Longrightarrow> m = Some w"
    and "\<And>q d me them. find_duel c w = Some (q, d, me, them) \<Longrightarrow> runs m (keeps P n d w)"
  shows "runs m (evolves P n w)"
proof (cases "find_duel c w")
  case None
  then show ?thesis using assms(1,2) evolves_refl by simp
next
  case (Some x)
  obtain q d me them where x: "x = (q, d, me, them)" by (cases x)
  show ?thesis
    by (rule runs_conseq [OF assms(3) [OF Some [unfolded x]]]) (rule keeps_evolves [OF assms(1)])
qed

lemma ForfeitDuel_evolves:
  assumes "world_ok P n w"
  shows "evolves P n w (ForfeitDuel c w)"
  using evolves_refl [OF assms] endDuel_evolves [OF assms _ stays_refl] find_duelD(1) [OF assms]
  by (auto simp: ForfeitDuel_def split: option.splits)

end
