(* ===== verification/Lobby.thy ===== *)
theory Lobby
  imports Duel_World
begin

text \<open>
  Challenges and how a duel starts: the pending challenges are only changed by operations that touch
  nothing else (\<open>lobby\<close>), at most one is pending from each player, and a duel only starts between
  two players who are free.
\<close>

section \<open>Challenges\<close>

text \<open>An operation on the pending challenges: it changes them and appends messages, nothing else.\<close>

definition lobby :: "world \<Rightarrow> world \<Rightarrow> bool" where
  "lobby w w' \<longleftrightarrow> w' = w\<lparr>w_challenges := w_challenges w', w_nextChallenge := w_nextChallenge w',
     w_out := w_out w'\<rparr> \<and> tells UNIV w w'"

lemma lobbyD:
  assumes "lobby w w'"
  shows "w_Map w' = w_Map w" "w_Duels w' = w_Duels w" "w_entities w' = w_entities w"
    "w_eobj w' = w_eobj w" "w_players w' = w_players w" "w_pobj w' = w_pobj w" "w_grid w' = w_grid w"
    "w_nextID w' = w_nextID w" "w_tick w' = w_tick w" "w_moved w' = w_moved w"
    "w_eloChanged w' = w_eloChanged w" "w_duels w' = w_duels w" "w_dobj w' = w_dobj w"
    "w_praying w' = w_praying w" "w_answered w' = w_answered w" "w_now w' = w_now w" "w_matches w' = w_matches w"
    "w_online w' = w_online w" "w_fresh w' = w_fresh w" "w_rng w' = w_rng w" "side w' = side w"
    "ent_of w' = ent_of w"
proof -
  obtain chs k ms where "w' = w\<lparr>w_challenges := chs, w_nextChallenge := k, w_out := ms\<rparr>"
    using assms unfolding lobby_def by blast
  then show "w_Map w' = w_Map w" "w_Duels w' = w_Duels w" "w_entities w' = w_entities w"
    "w_eobj w' = w_eobj w" "w_players w' = w_players w" "w_pobj w' = w_pobj w" "w_grid w' = w_grid w"
    "w_nextID w' = w_nextID w" "w_tick w' = w_tick w" "w_moved w' = w_moved w"
    "w_eloChanged w' = w_eloChanged w" "w_duels w' = w_duels w" "w_dobj w' = w_dobj w"
    "w_praying w' = w_praying w" "w_answered w' = w_answered w" "w_now w' = w_now w" "w_matches w' = w_matches w"
    "w_online w' = w_online w" "w_fresh w' = w_fresh w" "w_rng w' = w_rng w" "side w' = side w"
    "ent_of w' = ent_of w"
    by (simp_all add: side_def ent_of_def fun_eq_iff)
qed

lemma lobby_refl [simp]: "lobby w w"
  by (simp add: lobby_def)

lemma lobby_trans:
  assumes "lobby w w'" and "lobby w' w''"
  shows "lobby w w''"
proof -
  obtain chs k ms where 1: "w' = w\<lparr>w_challenges := chs, w_nextChallenge := k, w_out := ms\<rparr>"
    using assms(1) unfolding lobby_def by blast
  obtain chs' k' ms' where 2: "w'' = w'\<lparr>w_challenges := chs', w_nextChallenge := k', w_out := ms'\<rparr>"
    using assms(2) unfolding lobby_def by blast
  have "tells UNIV w w''" using assms tells_trans unfolding lobby_def by blast
  then show ?thesis unfolding lobby_def 2 1 by simp
qed

lemma lobby_send [simp]: "\<not> paints m \<Longrightarrow> lobby w (send c m w)"
  by (simp add: lobby_def) (simp add: send_def)

lemma lobby_simps [simp]:
  "lobby w (challengeUpdate p i q st w)" "lobby w (delete_challenge i w)"
  "w_challenges (challengeUpdate p i q st w) = w_challenges w"
  "w_challenges (send c m w) = w_challenges w"
  "w_nextChallenge (challengeUpdate p i q st w) = w_nextChallenge w"
  "w_challenges (delete_challenge i w) = amap_del i (w_challenges w)"
  by (simp_all add: challengeUpdate_def delete_challenge_def lobby_def) (simp_all add: send_def tells_def)

lemma lobby_then [intro]:
  "lobby w w' \<Longrightarrow> lobby w (challengeUpdate p i q st w')"
  "lobby w w' \<Longrightarrow> lobby w (delete_challenge i w')" "lobby w w' \<Longrightarrow> \<not> paints m \<Longrightarrow> lobby w (send c m w')"
  by (blast intro: lobby_trans lobby_simps(1,2) lobby_send)+

lemma lobby_world_ok:
  assumes "world_ok P n w" and "lobby w w'" and "challenges_ok w'"
  shows "world_ok P n w'"
  using assms(1,3) lobbyD [OF assms(2)]
  unfolding world_ok_def players_ok_def dueling_ok_def prayers_ok_def by simp

lemma scene_lobby:
  assumes "lobby w w'"
  shows "scene w w'"
  using assms lobbyD [OF assms] unfolding lobby_def scene_def flags_listed_def by simp

lemma lobby_evolves: "world_ok P n w \<Longrightarrow> lobby w w' \<Longrightarrow> challenges_ok w' \<Longrightarrow> evolves P n w w'"
  by (simp add: evolves_def lobby_world_ok scene_lobby)

lemma challenge_ok_lobby: "lobby w w' \<Longrightarrow> challenge_ok w' = challenge_ok w"
  by (simp add: challenge_ok_def lobbyD)

lemma challenges_ok_filter:
  assumes "challenges_ok w" and "lobby w w'" and "w_challenges w' = filter Q (w_challenges w)"
  shows "challenges_ok w'"
  using assms(1) unfolding challenges_ok_def assms(3) challenge_ok_lobby [OF assms(2)]
  by (auto simp: distinct_map_filter)

text \<open>A loop over the challenges that deletes those it hits.\<close>

lemma fold_challenges:
  assumes "\<And>e w. lobby w (one e w)"
    and "\<And>e w. w_challenges (one e w) = (if hit e then amap_del (fst e) (w_challenges w) else w_challenges w)"
  shows "lobby w (fold one es w) \<and> w_challenges (fold one es w) =
    filter (\<lambda>e. \<forall>e' \<in> set es. hit e' \<longrightarrow> fst e \<noteq> fst e') (w_challenges w)"
proof (induction es arbitrary: w)
  case (Cons e es)
  have "lobby w (fold one es (one e w))" using Cons.IH lobby_trans [OF assms(1)] by blast
  then show ?case using Cons.IH [of "one e w"] assms(2) by (auto simp: amap_del_def intro!: filter_cong)
qed simp

lemma filter_unhit:
  assumes "distinct (map fst es)"
  shows "filter (\<lambda>e. \<forall>e' \<in> set es. hit e' \<longrightarrow> fst e \<noteq> fst e') es = filter (\<lambda>e. \<not> hit e) es"
proof (rule filter_cong [OF refl])
  fix e assume "e \<in> set es"
  then show "(\<forall>e' \<in> set es. hit e' \<longrightarrow> fst e \<noteq> fst e') \<longleftrightarrow> \<not> hit e"
    using assms by (auto simp: distinct_map dest: inj_onD)
qed

definition involves :: "pref \<Rightarrow> 32 word \<times> challenge \<Rightarrow> bool" where
  "involves p e \<longleftrightarrow> ch_from (snd e) = p \<or> ch_to (snd e) = p"

lemma cancelChallenges_effect:
  shows "lobby w (cancelChallenges p w)"
    and "distinct (map fst (w_challenges w)) \<Longrightarrow>
      w_challenges (cancelChallenges p w) = filter (\<lambda>e. \<not> involves p e) (w_challenges w)"
proof -
  have 1: "lobby w (cancel_one p e w)" for e w
    by (auto simp: cancel_one_def split_def intro!: lobby_then)
  have 2: "w_challenges (cancel_one p e w) =
      (if involves p e then amap_del (fst e) (w_challenges w) else w_challenges w)" for e w
    by (auto simp: cancel_one_def split_def involves_def)
  note f = fold_challenges [where one = "cancel_one p" and hit = "involves p", OF 1 2, of w "w_challenges w"]
  show "lobby w (cancelChallenges p w)" using f by (simp add: cancelChallenges_def)
  show "w_challenges (cancelChallenges p w) = filter (\<lambda>e. \<not> involves p e) (w_challenges w)"
    if "distinct (map fst (w_challenges w))"
    using f filter_unhit [OF that, of "involves p"] by (simp add: cancelChallenges_def)
qed

lemma expireChallenges_effect:
  shows "lobby w (expireChallenges w)"
    and "distinct (map fst (w_challenges w)) \<Longrightarrow>
      w_challenges (expireChallenges w) = filter (\<lambda>e. w_now w < ch_expires (snd e)) (w_challenges w)"
proof -
  let ?hit = "\<lambda>e :: 32 word \<times> challenge. \<not> w_now w < ch_expires (snd e)"
  have 1: "lobby v (expire_one (w_now w) e v)" for e v
    by (auto simp: expire_one_def split_def intro!: lobby_then)
  have 2: "w_challenges (expire_one (w_now w) e v) =
      (if ?hit e then amap_del (fst e) (w_challenges v) else w_challenges v)" for e v
    by (auto simp: expire_one_def split_def)
  note f = fold_challenges [where one = "expire_one (w_now w)" and hit = ?hit, OF 1 2, of w "w_challenges w"]
  show "lobby w (expireChallenges w)" using f by (simp add: expireChallenges_def)
  show "w_challenges (expireChallenges w) = filter (\<lambda>e. w_now w < ch_expires (snd e)) (w_challenges w)"
    if "distinct (map fst (w_challenges w))"
    using f filter_unhit [OF that, of ?hit] by (simp add: expireChallenges_def not_less [symmetric])
qed

text \<open>An operation on the challenges that only takes some of them away.\<close>

lemma filter_evolves:
  assumes "world_ok P n w" and "lobby w w'" and "w_challenges w' = filter Q (w_challenges w)"
  shows "evolves P n w w'"
  by (rule lobby_evolves [OF assms(1,2) challenges_ok_filter [OF world_okD(4) [OF assms(1)] assms(2,3)]])

lemma ids_distinct: "world_ok P n w \<Longrightarrow> distinct (map fst (w_challenges w))"
  using world_okD(4) challenges_ok_def by blast

lemma expireChallenges_evolves: "world_ok P n w \<Longrightarrow> evolves P n w (expireChallenges w)"
  using filter_evolves [OF _ expireChallenges_effect(1) expireChallenges_effect(2)] ids_distinct by blast

lemma cancelChallenges_evolves: "world_ok P n w \<Longrightarrow> evolves P n w (cancelChallenges p w)"
  using filter_evolves [OF _ cancelChallenges_effect(1) cancelChallenges_effect(2)] ids_distinct by blast

lemma leaveDuels_evolves:
  assumes "world_ok P n w"
  shows "evolves P n w (leaveDuels p w)"
proof -
  let ?w1 = "case p_duel (w_pobj w p) of None \<Rightarrow> w
    | Some d \<Rightarrow> endDuel d (Some (snd (sidesOf w d p))) DuelDisconnect w"
  have 1: "evolves P n w ?w1"
    using evolves_refl [OF assms] endDuel_evolves [OF assms _ stays_refl] dueling_okD(5) [OF world_okD(3) [OF assms]]
    by (auto split: option.splits)
  show ?thesis
    unfolding leaveDuels_def
    by (rule evolves_trans [OF evolvesD(2) [OF 1] cancelChallenges_evolves [OF evolvesD(1) [OF 1]]])
qed


subsection \<open>Challenging\<close>

lemma replace_challenges_lobby: "lobby w (snd (replace_challenges p t r es w))"
proof (induction p t r es w rule: replace_challenges.induct)
  case (2 p t r i ch rest w)
  have "lobby w (challengeUpdate (ch_to ch) i p DuelCancelled (delete_challenge i w))"
    by (intro lobby_then) simp
  then show ?case using "2.IH" lobby_trans by simp
qed simp

lemma replace_challenges_waiting:
  assumes "distinct (map (\<lambda>e. ch_from (snd e)) es)"
  shows "case replace_challenges p t r es w of (waiting, w') \<Rightarrow>
    if waiting then w' = w \<and> (\<exists>e \<in> set es. ch_from (snd e) = p \<and> ch_to (snd e) = t \<and> ch_ranked (snd e) = r)
    else w_challenges w' = filter (\<lambda>e. \<forall>e' \<in> set es. ch_from (snd e') = p \<longrightarrow> fst e \<noteq> fst e') (w_challenges w)"
  using assms
proof (induction p t r es w rule: replace_challenges.induct)
  case (2 p t r i ch rest w)
  have none: "replace_challenges p t r rest v = (False, v)" if "\<forall>e \<in> set rest. ch_from (snd e) \<noteq> p" for v
    using that by (induction rest arbitrary: v) auto
  show ?case
  proof (cases "ch_from ch = p")
    case False
    then show ?thesis using "2.IH"(1) "2.prems" by (auto split: prod.splits if_splits)
  next
    case True
    then have rest: "\<forall>e \<in> set rest. ch_from (snd e) \<noteq> p" using "2.prems" by (auto simp: image_iff)
    show ?thesis
      using True rest by (simp add: none [OF rest] amap_del_def)
  qed
qed simp

lemma amap_put_in: "e \<in> set (amap_put k v m) \<Longrightarrow> e = (k, v) \<or> e \<in> set m"
  by (induction k v m rule: amap_put.induct) (auto split: if_splits)

lemma amap_put_distinct_by:
  "distinct (map f m) \<Longrightarrow> f (k, v) \<notin> f ` set m \<Longrightarrow> distinct (map f (amap_put k v m))"
proof (induction k v m rule: amap_put.induct)
  case (2 k v k' v' m)
  then show ?case using amap_put_in [of _ k v m] by (auto split: if_splits; force)
qed simp

lemma playerByEntity_in: "playerByEntity w i = Some t \<Longrightarrow> t \<in> snd ` set (w_players w)"
  by (auto simp: playerByEntity_def find_Some_iff in_set_conv_nth) (metis nth_mem snd_conv image_eqI)

lemma new_challenge_effect:
  "lobby w (new_challenge p t r w)"
  "w_challenges (new_challenge p t r w) =
     amap_put (w_nextChallenge w + 1) \<lparr>ch_id = w_nextChallenge w + 1, ch_from = p, ch_to = t,
               ch_expires = w_now w + ChallengeTimeout, ch_ranked = r\<rparr> (w_challenges w)"
proof -
  show "w_challenges (new_challenge p t r w) =
     amap_put (w_nextChallenge w + 1) \<lparr>ch_id = w_nextChallenge w + 1, ch_from = p, ch_to = t,
               ch_expires = w_now w + ChallengeTimeout, ch_ranked = r\<rparr> (w_challenges w)"
    by (simp add: new_challenge_def Let_def)
  have "lobby w (w\<lparr>w_nextChallenge := k, w_challenges := c\<rparr>)" for k c
    by (simp add: lobby_def tells_same)
  then show "lobby w (new_challenge p t r w)"
    unfolding new_challenge_def Let_def by (intro lobby_then) simp_all
qed

lemma new_challenge_ok:
  assumes "challenges_ok w" and "p \<notin> (\<lambda>e. ch_from (snd e)) ` set (w_challenges w)" and "p \<noteq> t"
    and "p \<in> snd ` set (w_players w)" "t \<in> snd ` set (w_players w)"
    and "p_duel (w_pobj w p) = None" "p_duel (w_pobj w t) = None"
  shows "challenges_ok (new_challenge p t r w)"
proof -
  let ?k = "w_nextChallenge w + 1"
  let ?ch = "\<lparr>ch_id = ?k, ch_from = p, ch_to = t, ch_expires = w_now w + ChallengeTimeout, ch_ranked = r\<rparr>"
  have "challenge_ok w (?k, ?ch)" using assms(3-) by (simp add: challenge_ok_def)
  then have "challenge_ok w e" if "e \<in> set (amap_put ?k ?ch (w_challenges w))" for e
    using amap_put_in [OF that] assms(1) by (auto simp: challenges_ok_def)
  moreover have "distinct (map (\<lambda>e. ch_from (snd e)) (amap_put ?k ?ch (w_challenges w)))"
    by (rule amap_put_distinct_by) (use assms(1,2) in \<open>simp_all add: challenges_ok_def\<close>)
  ultimately show ?thesis
    using assms(1)
    unfolding challenges_ok_def challenge_ok_lobby [OF new_challenge_effect(1)] new_challenge_effect(2)
    by simp
qed

lemma Challenge_evolves:
  assumes "world_ok P n w"
  shows "evolves P n w (Challenge c target r w)"
proof -
  have send: "evolves P n w w'" if "lobby w w'" "w_challenges w' = w_challenges w" for w'
    using filter_evolves [OF assms that(1), of "\<lambda>_. True"] that(2) by simp
  have new: "evolves P n w (if waiting then w' else new_challenge p t r w')"
    if r: "replace_challenges p t r (w_challenges w) w = (waiting, w')" and t: "playerByEntity w target = Some t" "t \<noteq> p"
      and d: "p_duel (w_pobj w p) = None" "p_duel (w_pobj w t) = None" and p: "map_of (w_players w) c = Some p"
    for waiting w' p t
  proof (cases waiting)
    case True
    then show ?thesis
      using evolves_refl [OF assms] r world_okD(4) [OF assms]
        replace_challenges_waiting [where es = "w_challenges w" and p = p and t = t and r = r and w = w]
      by (simp add: challenges_ok_def)
  next
    case False
    let ?hit = "\<lambda>e :: 32 word \<times> challenge. ch_from (snd e) = p"
    have lob: "lobby w w'" using replace_challenges_lobby [where es = "w_challenges w" and p = p and t = t and r = r and w = w] r by simp
    have f: "w_challenges w' = filter (\<lambda>e. \<not> ?hit e) (w_challenges w)"
      using r False replace_challenges_waiting [where es = "w_challenges w" and p = p and t = t and r = r and w = w]
        filter_unhit [OF ids_distinct [OF assms], of ?hit] world_okD(4) [OF assms] by (simp add: challenges_ok_def)
    have ev: "evolves P n w w'" by (rule filter_evolves [OF assms lob f])
    have "challenges_ok (new_challenge p t r w')"
      by (rule new_challenge_ok [OF world_okD(4) [OF evolvesD(1) [OF ev]]])
        (use f t d playerByEntity_in [OF t(1)] map_of_SomeD [OF p] in \<open>force simp: lobbyD [OF lob]\<close>)+
    then show ?thesis
      using evolves_trans [OF evolvesD(2) [OF ev] lobby_evolves [OF evolvesD(1) [OF ev] new_challenge_effect(1)]] False
      by simp
  qed
  show ?thesis
    unfolding Challenge_def Let_def
    using evolves_refl [OF assms] new
    by (auto split: option.splits prod.splits intro!: send)
qed


section \<open>Starting a duel\<close>

lemma new_side_ok:
  assumes "length word = n" and "0 < rows"
  shows "side_ok P n (new_side p word rows)"
  using assms by (simp add: side_ok_def pattern_ok_def keys_ok_def illusion_ok_def)

lemma new_duel_ok:
  assumes "length word = n" and "0 < rows" and "a \<noteq> b"
  shows "duel_ok P n (new_duel now a b word rows r)"
proof (rule duel_okI)
  fix i
  show "side_ok P n (d_side i (new_duel now a b word rows r))"
    "eyes_ok (d_side i (new_duel now a b word rows r)) (d_side (other i) (new_duel now a b word rows r))"
    "\<not> side_solved (d_side i (new_duel now a b word rows r))"
    using assms by (cases i; simp add: new_duel_def new_side_ok eyes_ok_def)+
qed (use assms in \<open>simp_all add: new_duel_def side_out_def\<close>)

text \<open>The new duel on the board, before anybody is told.\<close>

definition begun :: "pref \<Rightarrow> pref \<Rightarrow> duel \<Rightarrow> world \<Rightarrow> world" where
  "begun a b D w =
     w\<lparr>w_dobj := (w_dobj w)(w_fresh w := D), w_fresh := Suc (w_fresh w),
       w_pobj := (\<lambda>q. if q = a \<or> q = b then (w_pobj w q)\<lparr>p_duel := Some (w_fresh w)\<rparr> else w_pobj w q),
       w_duels := w_fresh w # w_duels w\<rparr>"

lemma begun_side: "side (begun a b D w) d i = (if d = w_fresh w then d_side i D else side w d i)"
  by (simp add: begun_def side_def)

lemma begun_world_ok:
  assumes "world_ok P n w" and "duel_ok P n D" and "side_p (d_sideA D) = a" "side_p (d_sideB D) = b"
    and "a \<in> snd ` set (w_players w)" "b \<in> snd ` set (w_players w)"
    and free: "p_duel (w_pobj w a) = None" "p_duel (w_pobj w b) = None"
    and ch: "\<And>e. e \<in> set (w_challenges w) \<Longrightarrow> \<not> involves a e \<and> \<not> involves b e"
  shows "world_ok P n (begun a b D w)"
proof -
  note ok = world_okD [OF assms(1)] and Du = dueling_okD [OF world_okD(3) [OF assms(1)]]
  have fresh: "d \<in> set (w_duels w) \<Longrightarrow> d \<noteq> w_fresh w" for d using Du(2) by blast
  have pl: "players_ok (begun a b D w)"
    using ok(2) by (simp add: players_ok_def ent_of_def begun_def split_def o_def cong: if_cong)
      (simp add: if_distrib [where f = p_ent] cong: if_cong)
  have DA: "side_p (d_side i D) = (case i of SideA \<Rightarrow> a | SideB \<Rightarrow> b)" for i
    using assms(3,4) by (cases i) simp_all
  have old: "side_p (side w d i) \<noteq> a \<and> side_p (side w d i) \<noteq> b" if "d \<in> set (w_duels w)" for d i
    using Du(4) [OF that, of i] free by auto
  have du: "dueling_ok (begun a b D w)"
    unfolding dueling_ok_def begun_side
  proof (intro conjI ballI allI impI)
    show "distinct (w_duels (begun a b D w))" using Du(1) fresh by (auto simp: begun_def)
    fix d i assume d: "d \<in> set (w_duels (begun a b D w))"
    then show "d < w_fresh (begun a b D w)" using Du(2) by (auto simp: begun_def less_Suc_eq)
    show "side_p (if d = w_fresh w then d_side i D else side w d i) \<in> snd ` set (w_players (begun a b D w))"
      "p_duel (w_pobj (begun a b D w) (side_p (if d = w_fresh w then d_side i D else side w d i))) = Some d"
      using d assms(5,6) Du(3,4) old by (auto simp: begun_def DA split: who.splits)
  next
    fix q d assume pd: "p_duel (w_pobj (begun a b D w) q) = Some d"
    show "d \<in> set (w_duels (begun a b D w))"
      using pd Du(5) by (auto simp: begun_def split: if_splits)
    show "\<exists>i. side_p (if d = w_fresh w then d_side i D else side w d i) = q"
    proof (cases "q = a \<or> q = b")
      case True
      then have "d = w_fresh w" using pd by (simp add: begun_def)
      then show ?thesis using True DA who.case by metis
    next
      case False
      then have "p_duel (w_pobj w q) = Some d" using pd by (simp add: begun_def)
      then show ?thesis using Du(6) fresh [OF Du(5)] by auto
    qed
  qed
  have "challenge_ok (begun a b D w) e" if "e \<in> set (w_challenges w)" for e
    using ok(4) that ch [OF that] by (auto simp: challenges_ok_def challenge_ok_def begun_def involves_def split_def)
  then have "challenges_ok (begun a b D w)"
    using ok(4) by (simp add: challenges_ok_def begun_def)
  moreover have "prayers_ok (begun a b D w)"
    using ok(5) by (simp add: prayers_ok_def begun_def)
  moreover have "duel_ok P n (w_dobj (begun a b D w) d)" if "d \<in> set (w_duels (begun a b D w))" for d
    using that ok(6) assms(2) fresh by (auto simp: begun_def)
  ultimately show ?thesis
    using pl du ok(1) by (simp add: world_ok_def) (simp add: begun_def)
qed

lemma begun_eq:
  "upd_player b (\<lambda>p. p\<lparr>p_duel := Some d\<rparr>) (upd_player a (\<lambda>p. p\<lparr>p_duel := Some d\<rparr>)
     (w\<lparr>w_dobj := (w_dobj w)(d := D), w_fresh := Suc d\<rparr>))\<lparr>w_duels := d # w_duels w\<rparr> = begun a b D w"
  if "d = w_fresh w"
  using upd_two_players [of "\<lambda>p. p\<lparr>p_duel := Some d\<rparr>" b a] that by (simp add: begun_def cong: if_cong)

lemma scene_begun: "scene w (begun a b D w)"
  by (simp add: scene_def begun_def same_player_def flags_listed_def tells_same)

lemma scene_set_rng: "scene w (set_rng r w)"
  by (simp add: scene_def set_rng_def flags_listed_def tells_same)

lemma duel_start_msg_stays: "stays d w (duel_start_msg d word r i w)"
  by (simp add: duel_start_msg_def Let_def)

context duel_puzzle
begin

lemma startDuel_evolves:
  assumes inv: "invar p" and ok: "world_ok (puz p) (wlen p) w" and "a \<noteq> b"
    and "a \<in> snd ` set (w_players w)" "b \<in> snd ` set (w_players w)"
    and "p_duel (w_pobj w a) = None" "p_duel (w_pobj w b) = None"
  shows "runs (startDuel a b r w) (\<lambda>w'. evolves (puz p) (wlen p) w w' \<and>
    p_duel (w_pobj w' a) = Some (w_fresh w) \<and> p_duel (w_pobj w' b) = Some (w_fresh w) \<and>
    (\<exists>word rows. w_dobj w' (w_fresh w) = new_duel (w_now w) a b word rows r))"
proof -
  let ?P = "puz p" and ?n = "wlen p" and ?w1 = "cancelChallenges b (cancelChallenges a w)"
  let ?d = "w_fresh w"
  have ok0: "world_ok ?P ?n (cancelChallenges a w)" by (rule evolvesD(1) [OF cancelChallenges_evolves [OF ok]])
  have ok1: "world_ok ?P ?n ?w1" by (rule evolvesD(1) [OF cancelChallenges_evolves [OF ok0]])
  have lob: "lobby w ?w1" by (rule lobby_trans [OF cancelChallenges_effect(1) cancelChallenges_effect(1)])
  have ch: "\<not> involves a e \<and> \<not> involves b e" if "e \<in> set (w_challenges ?w1)" for e
    using that
    unfolding cancelChallenges_effect(2) [OF ids_distinct [OF ok0]] cancelChallenges_effect(2) [OF ids_distinct [OF ok]]
    by simp
  obtain word rn where nw: "NewWord ?P (w_rng ?w1) = Some (word, rn)" "length word = ?n"
    using new_wordE [OF inv] by blast
  let ?D = "new_duel (w_now w) a b word (MaxGuesses ?P) r"
  let ?w2 = "set_rng rn ?w1"
  have f: "w_fresh ?w2 = ?d" "w_now ?w2 = w_now w" by (simp_all add: set_rng_def lobbyD [OF lob])
  have ok2: "world_ok ?P ?n ?w2"
    using ok1 unfolding world_ok_def players_ok_def dueling_ok_def challenges_ok_def challenge_ok_def prayers_ok_def
    by (simp add: set_rng_def side_def ent_of_def)
  have D: "duel_ok ?P ?n ?D" by (rule new_duel_ok [OF nw(2) max_guesses [OF inv] assms(3)])
  have ok3: "world_ok ?P ?n (begun a b ?D ?w2)"
    by (rule begun_world_ok [OF ok2 D]) (use assms ch in \<open>auto simp: new_duel_def set_rng_def lobbyD [OF lob]\<close>)
  let ?w4 = "syncDuel ?d (each_side (duel_start_msg ?d word r) (begun a b ?D ?w2))"
  have st: "stays ?d (begun a b ?D ?w2) ?w4"
    by (rule stays_trans [OF stays_each_side [OF duel_start_msg_stays] syncDuel_simps(3)])
  have dobj: "w_dobj (each_side f v) = w_dobj v" if "\<And>i v. w_dobj (f i v) = w_dobj v" for f v
    by (simp add: each_side_def that)
  have "w_dobj (duel_start_msg ?d word r i v) = w_dobj v" for i v
    by (simp add: duel_start_msg_def Let_def)
  then have "w_dobj ?w4 = w_dobj (begun a b ?D ?w2)" by (simp add: dobj)
  moreover have D4: "w_dobj ?w4 ?d = ?D" unfolding calculation by (simp add: begun_def f)
  ultimately have "keeps ?P ?n ?d (begun a b ?D ?w2) ?w4"
    using D st by (simp add: keeps_def)
  then have 4: "evolves ?P ?n (begun a b ?D ?w2) ?w4" by (rule keeps_evolves [OF ok3])
  have "scene w (begun a b ?D ?w2)"
    by (rule scene_trans [OF scene_lobby [OF lob] scene_trans [OF scene_set_rng scene_begun]])
  then have "evolves ?P ?n w ?w4" by (rule evolves_trans [OF _ 4])
  moreover have "p_duel (w_pobj ?w4 q) = Some ?d" if "q = a \<or> q = b" for q
    using that staysD(9) [OF st] f by (auto simp: begun_def)
  moreover have "startDuel a b r w = Some ?w4"
    using begun_eq [of ?d ?w2 b a ?D] world_okD(1) [OF ok1] nw(1) f
    by (simp add: startDuel_def Let_def) (simp add: upd_player_def)
  ultimately show ?thesis using D4 by simp blast
qed

lemma RespondDuel_evolves:
  assumes inv: "invar p" and ok: "world_ok (puz p) (wlen p) w"
  shows "runs (RespondDuel c i accept w) (evolves (puz p) (wlen p) w)"
proof (cases "\<exists>q ch. map_of (w_players w) c = Some q \<and> map_of (w_challenges w) i = Some ch \<and> ch_to ch = q")
  case False
  then show ?thesis using evolves_refl [OF ok] by (auto simp: RespondDuel_def split: option.splits)
next
  case True
  then obtain q ch where q: "map_of (w_players w) c = Some q" and ch: "map_of (w_challenges w) i = Some ch"
    and to: "ch_to ch = q" by blast
  let ?w1 = "delete_challenge i w"
  have co: "challenge_ok w (i, ch)"
    using world_okD(4) [OF ok] map_of_SomeD [OF ch] by (auto simp: challenges_ok_def)
  have ev: "evolves (puz p) (wlen p) w ?w1"
    by (rule filter_evolves [OF ok lobby_simps(2)]) (simp add: amap_del_def)
  note then_ev = evolves_trans [OF evolvesD(2) [OF ev]]
  have say: "evolves (puz p) (wlen p) w (challengeUpdate x j y st ?w1)" for x j y st
    by (rule then_ev [OF filter_evolves [OF evolvesD(1) [OF ev] lobby_simps(1), of _ _ _ _ "\<lambda>_. True"]])
      simp
  have "runs (startDuel (ch_from ch) q (ch_ranked ch) ?w1) (evolves (puz p) (wlen p) w)"
    by (rule runs_conseq [OF startDuel_evolves [OF inv evolvesD(1) [OF ev]]])
      (use co to then_ev in \<open>auto simp: challenge_ok_def lobbyD [OF lobby_simps(2)]\<close>)
  then show ?thesis
    using q ch to evolves_refl [OF ok] say by (simp add: RespondDuel_def Let_def)
qed

end

end
