(* ===== verification/Duel_Safety.thy ===== *)
theory Duel_Safety
  imports Lobby
begin

text \<open>
  The handlers and systems of a running duel: guesses, abilities, prayers and the tick. None
  panics, each keeps \<open>world_ok\<close>, and a duel ends only for one of the reasons of the code.
\<close>

section \<open>Guessing\<close>

lemma guess_row_fields [simp]:
  "gr_word (guess_row g cs s) = toUpper g" "gr_colors (guess_row g cs s) = cs"
  "gr_seen (guess_row g cs s) = (if solves cs then cs else case falseNext s of None \<Rightarrow> cs | Some f \<Rightarrow> f)"
  "gr_shown (guess_row g cs s) = (if solves cs then cs else case feint s of None \<Rightarrow> cs | Some f \<Rightarrow> f)"
  by (simp_all add: guess_row_def newGuessRow_def Let_def split: option.splits)

lemma take_guess_fields [simp]:
  "side_p (take_guess row cs s) = side_p s" "side_word (take_guess row cs s) = side_word s"
  "side_guesses (take_guess row cs s) = side_guesses s @ [row]" "side_rows (take_guess row cs s) = side_rows s"
  "side_solved (take_guess row cs s) = (side_solved s \<or> solves cs)"
  "side_best (take_guess row cs s) = max (side_best s) (Closeness cs)"
  "energy (take_guess row cs s) = energy s" "greens (take_guess row cs s) = greens s"
  "found (take_guess row cs s) = found s" "destroyed (take_guess row cs s) = destroyed s"
  "eyes (take_guess row cs s) = eyes s" "illusion (take_guess row cs s) = illusion s"
  "reshape (take_guess row cs s) = reshape s" "missiles (take_guess row cs s) = missiles s"
  "shield (take_guess row cs s) = shield s" "stunnedUntil (take_guess row cs s) = stunnedUntil s"
  "silencedUntil (take_guess row cs s) = silencedUntil s" "used_once (take_guess row cs s) = used_once s"
  "cheat (take_guess row cs s) = False" "feint (take_guess row cs s) = None"
  "falseNext (take_guess row cs s) = None"
  by (simp_all add: take_guess_def Let_def)

lemma take_guess_keys:
  "scrambledGuesses (take_guess row cs s) = (if 0 < scrambledGuesses s then scrambledGuesses s - 1 else scrambledGuesses s)"
  "keymap (take_guess row cs s) = (if scrambledGuesses s = 1 then None else keymap s)"
  by (simp_all add: take_guess_def Let_def)

lemma on_board_append:
  assumes "on_board s t" and "side_guesses s' = side_guesses s @ [row]"
  shows "on_board s' t"
  using assms by (auto simp: on_board_def nth_append nat_less_iff)

lemma watchable_append:
  assumes "watchable s t" and "side_guesses s' = side_guesses s @ [row]" and "destroyed s' = destroyed s"
  shows "watchable s' t"
  using assms on_board_append [of s t s' row]
  by (auto simp: watchable_def on_board_def nth_append nat_less_iff)

lemma guess_row_ok:
  assumes "side_ok P n s" and "rescorable P n (toUpper g)" and "length cs = n"
  shows "row_ok P n (guess_row g cs s)"
  using assms side_okD(8,9) [OF assms(1)]
  by (auto simp: row_ok_def pattern_ok_def split: option.splits)

lemma take_guess_ok:
  assumes "side_ok P n s" and "row_ok P n row" and "0 < unusedRows s"
  shows "side_ok P n (take_guess row cs s)"
proof -
  have "keys_ok (keymap (take_guess row cs s)) (scrambledGuesses (take_guess row cs s))"
    using side_okD(10) [OF assms(1)] by (auto simp: take_guess_keys keys_ok_def split: option.splits)
  moreover have "on_board (take_guess row cs s) t" if "t \<in> destroyed s" for t
    by (rule on_board_append [OF side_okD(13) [OF assms(1) that]]) simp
  moreover have "int (Suc (length (side_guesses s))) \<le> side_rows s"
    using assms(3) by (simp add: unusedRows_def)
  ultimately show ?thesis
    using assms(1,2) by (simp add: side_ok_def pattern_ok_def)
qed

text \<open>A valid guess that does not end the duel leaves it well-formed.\<close>

lemma take_guess_duel_ok:
  assumes ok: "duel_ok P n (w_dobj w d)" and "row_ok P n row" and "0 < unusedRows (side w d me)"
    and "\<not> solves cs"
    and "\<not> (side_out (take_guess row cs (side w d me)) \<and> side_out (side w d (other me)))"
  shows "duel_ok P n (d_upd me (take_guess row cs) (w_dobj w d))"
proof (rule duel_ok_upd [OF ok])
  let ?s = "d_side me (w_dobj w d)"
  show "side_ok P n (take_guess row cs ?s)"
    using take_guess_ok [OF side_okI [OF ok] assms(2,3)] by (simp add: side_def)
  show "eyes_ok (take_guess row cs ?s) (d_side (other me) (w_dobj w d))"
    using duel_okD(2) [OF ok, of me] by (subst eyes_ok_cong) simp_all
  have "eyes_ok (d_side (other me) (w_dobj w d)) ?s" using duel_okD(2) [OF ok, of "other me"] by simp
  then show "eyes_ok (d_side (other me) (w_dobj w d)) (take_guess row cs ?s)"
    unfolding eyes_ok_def using watchable_append [where s = ?s and s' = "take_guess row cs ?s" and row = row] by simp
  show "\<not> side_solved (take_guess row cs ?s)" using assms(4) duel_okD(3) [OF ok] by simp
  show False if "side_out (take_guess row cs ?s)" "side_out (d_side (other me) (w_dobj w d))"
    using that assms(5) by (simp add: side_def)
qed simp

lemma DuelTyping_evolves:
  assumes "world_ok P n w"
  shows "evolves P n w (DuelTyping c k w)"
proof -
  have "runs (Some (DuelTyping c k w)) (evolves P n w)"
  proof (rule handler_evolves [OF assms])
    fix q d me them assume "find_duel c w = Some (q, d, me, them)"
    then show "runs (Some (DuelTyping c k w)) (keeps P n d w)"
      using find_duelD(2) [OF assms] keeps_refl keeps_send_side by (simp add: DuelTyping_def Let_def)
  qed (simp add: DuelTyping_def)
  then show ?thesis by simp
qed

context duel_puzzle
begin

lemma score_row_ok:
  assumes "invar p" and "length word = wlen p"
    and "(if b then pScoreAny (puz p) else pScore (puz p)) g word = (True, cs)"
  shows "length cs = wlen p" "rescorable (puz p) (wlen p) (toUpper g)" "solves cs \<longleftrightarrow> toUpper g = word"
  using score_row [OF assms(1,2)] score_any_row [OF assms(1,2)] assms(3)
    score_solves [OF assms(1)] score_any_solves [OF assms(1)] word_nonempty [OF assms(1,2)]
  by (cases b; fastforce)+

text \<open>
  A guess either keeps the duel, or ends it from a world where only the guess was added: won by
  the guesser when the guess is their word, drawn when it took the last row of both.
\<close>

lemma DuelGuess_runs:
  assumes inv: "invar p" and ok: "world_ok (puz p) (wlen p) w" and f: "find_duel c w = Some (q, d, me, them)"
  shows "runs (DuelGuess c guess w) (\<lambda>w'. keeps (puz p) (wlen p) d w w' \<or>
    (\<exists>w1 winner reason. stays d w w1 \<and> w' = endDuel d winner reason w1 \<and>
       (winner = Some me \<and> reason = DuelSolved \<and> toUpper guess = side_word (side w d me) \<or>
        winner = None \<and> reason = DuelOutOfGuesses \<and> side_out (side w1 d me) \<and> side_out (side w1 d them))))"
proof -
  let ?P = "puz p" and ?n = "wlen p" and ?s = "side w d me"
  note fd = find_duelD [OF ok f]
  note snd = keeps_then_client [OF keeps_refl [OF fd(2)] fd(5)]
  show ?thesis
  proof (cases "side_done ?s \<or> blocked (w_now w) ?s")
    case True
    then show ?thesis using f snd keeps_refl [OF fd(2)] by (auto simp: DuelGuess_def Let_def)
  next
    case play: False
    obtain valid cs where sc: "(if cheat ?s then pScoreAny ?P else pScore ?P) guess (side_word ?s) = (valid, cs)"
      by (cases "(if cheat ?s then pScoreAny ?P else pScore ?P) guess (side_word ?s)")
    show ?thesis
    proof (cases valid)
      case False
      then show ?thesis using f snd play sc world_okD(1) [OF ok] by (auto simp: DuelGuess_def Let_def)
    next
      case True
      note so = side_okI [OF fd(2), of me]
      have sct: "(if cheat ?s then pScoreAny ?P else pScore ?P) guess (side_word ?s) = (True, cs)"
        using sc True by simp
      note row = score_row_ok [OF inv side_okD(1) [OF so] sct]
      let ?row = "guess_row guess cs ?s"
      have rok: "row_ok ?P ?n ?row" by (rule guess_row_ok [OF so row(2,1)])
      have unused: "0 < unusedRows ?s"
        using play duel_okD(3) [OF fd(2), of me] by (auto simp: side_done_def side_out_def unusedRows_def side_def)
      define w1 where "w1 = upd_side d me (take_guess ?row cs) w"
      have s1: "stays d w w1" unfolding w1_def by (rule stays_upd_side) simp
      have side1: "side w1 d me = take_guess ?row cs ?s" "side w1 d them = side w d them"
        by (simp_all add: w1_def fd(4))
      define res where "res = WordleRes_zero\<lparr>wr_Status := WordleInGame\<rparr>"
      define status where "status = (if solves cs then WordleWin
                         else if side_out (side w1 d me) then WordleLose else WordleInGame)"
      define w2 where "w2 = send_side d them (ServerDuelOpponentGuess (gr_shown ?row))
        (send c (ServerDuelGuess (res\<lparr>wr_Valid := True, wr_Colors := gr_seen ?row,
                     wr_Seconds := duration_Seconds (w_now w1 - d_start (w_dobj w1 d)),
                     wr_Status := status\<rparr>)) w1)"
      have s2: "stays d w w2"
        unfolding w2_def
        by (intro stays_trans [OF s1 stays_trans [OF stays_send stays_send_side]])
          (use fd(5) stays_side_p(2) [OF s1] in simp_all)
      have side2: "side w2 d i = side w1 d i" "w_dobj w2 = w_dobj w1" for i by (simp_all add: w2_def)
      have run: "DuelGuess c guess w = (if side_solved (side w2 d me) then Some (endDuel d (Some me) DuelSolved w2)
           else if side_out (side w2 d me) \<and> side_out (side w2 d them) then Some (endDuel d None DuelOutOfGuesses w2)
           else afterGuess d me them w2)"
        using f play True sc world_okD(1) [OF ok]
        by (simp add: DuelGuess_def Let_def w2_def w1_def status_def res_def)
      have nsol: "\<not> side_solved ?s" using duel_okD(3) [OF fd(2)] by (simp add: side_def)
      show ?thesis
      proof (cases "solves cs")
        case True
        then have "DuelGuess c guess w = Some (endDuel d (Some me) DuelSolved w2)"
          by (simp add: run side2 side1)
        then show ?thesis using True row(3) s2 by auto
      next
        case no: False
        show ?thesis
        proof (cases "side_out (side w2 d me) \<and> side_out (side w2 d them)")
          case True
          then have "DuelGuess c guess w = Some (endDuel d None DuelOutOfGuesses w2)"
            using no nsol by (simp add: run side2 side1)
          then show ?thesis using True s2 by auto
        next
          case False
          have "duel_ok ?P ?n (w_dobj w2 d)"
            using take_guess_duel_ok [OF fd(2) rok unused no] False by (simp add: side2 side1 fd(4) w1_def)
          then have "runs (afterGuess d me (other me) w2) (keeps ?P ?n d w2)"
            by (rule afterGuess_keeps) (simp add: side2 side1)
          then have "runs (DuelGuess c guess w) (keeps ?P ?n d w2)"
            using no nsol False by (auto simp: run side2 side1 fd(4))
          then show ?thesis by (rule runs_conseq) (use keeps_trans [OF s2] in blast)
        qed
      qed
    qed
  qed
qed

lemma DuelGuess_evolves:
  assumes inv: "invar p" and ok: "world_ok (puz p) (wlen p) w"
  shows "runs (DuelGuess c guess w) (evolves (puz p) (wlen p) w)"
proof (cases "find_duel c w")
  case None
  then show ?thesis using evolves_refl [OF ok] by (simp add: DuelGuess_def)
next
  case (Some x)
  obtain q d me them where x: "x = (q, d, me, them)" by (cases x)
  show ?thesis
    by (rule runs_conseq [OF DuelGuess_runs [OF inv ok Some [unfolded x]]])
      (use keeps_evolves [OF ok] endDuel_evolves [OF ok find_duelD(1) [OF ok Some [unfolded x]]] in blast)
qed

lemma CastAbility_evolves:
  assumes inv: "invar p" and ok: "world_ok (puz p) (wlen p) w"
  shows "runs (CastAbility c req w) (evolves (puz p) (wlen p) w)"
proof (rule handler_evolves [OF ok])
  fix q d me them assume f: "find_duel c w = Some (q, d, me, them)"
  note fd = find_duelD [OF ok f]
  show "runs (CastAbility c req w) (keeps (puz p) (wlen p) d w)"
    by (rule CastAbility_keeps [OF inv world_okD(1) [OF ok] f fd(2,3,5)])
qed (simp add: CastAbility_def)

lemma ReshapeReality_evolves:
  assumes inv: "invar p" and ok: "world_ok (puz p) (wlen p) w"
  shows "runs (ReshapeReality_pick c word w) (evolves (puz p) (wlen p) w)"
proof (rule handler_evolves [OF ok])
  fix q d me them assume f: "find_duel c w = Some (q, d, me, them)"
  show "runs (ReshapeReality_pick c word w) (keeps (puz p) (wlen p) d w)"
    by (rule ReshapeReality_keeps [OF inv world_okD(1) [OF ok] f find_duelD(2) [OF ok f]])
qed (simp add: ReshapeReality_pick_def)

lemma IllusionGuess_evolves:
  assumes inv: "invar p" and ok: "world_ok (puz p) (wlen p) w"
  shows "runs (IllusionGuess c guess w) (evolves (puz p) (wlen p) w)"
proof (rule handler_evolves [OF ok])
  fix q d me them assume f: "find_duel c w = Some (q, d, me, them)"
  note fd = find_duelD [OF ok f]
  show "runs (IllusionGuess c guess w) (keeps (puz p) (wlen p) d w)"
    by (rule IllusionGuess_keeps [OF inv world_okD(1) [OF ok] f fd(2,5)])
qed (simp add: IllusionGuess_def)

lemmas handlers_evolve = RespondDuel_evolves DuelGuess_evolves CastAbility_evolves
  ReshapeReality_evolves IllusionGuess_evolves

end


section \<open>Prayers\<close>

lemma prayer_answer_keeps:
  assumes "duel_ok P n (w_dobj w (pj_duel j))" and "0 \<le> pj_cost j"
  shows "keeps P n (pj_duel j) w (prayer_answer j ans w)"
proof -
  have refund: "keeps P n (pj_duel j) w (syncDuel (pj_duel j)
      (unanswered (pj_duel j) (pj_me j) (pj_id j) (pj_kind j) (pj_cost j) w))"
    by (rule keeps_then_sync [OF keeps_unanswered [OF assms]])
  then show ?thesis
    using keeps_refl [OF assms(1)] keeps_send_side [OF _ assms(1)]
    by (simp add: prayer_answer_def Let_def split: option.splits)
qed

lemma prayer_answer_evolves:
  assumes "world_ok P n w" and "0 \<le> pj_cost j"
  shows "evolves P n w (prayer_answer j ans w)"
proof (cases "p_duel (w_pobj w (side_p (side w (pj_duel j) (pj_me j)))) = Some (pj_duel j)")
  case True
  then have "duel_ok P n (w_dobj w (pj_duel j))"
    using world_okD(6) [OF assms(1)] dueling_okD(5) [OF world_okD(3) [OF assms(1)]] by blast
  then show ?thesis by (rule keeps_evolves [OF assms(1) prayer_answer_keeps [OF _ assms(2)]])
qed (use evolves_refl [OF assms(1)] in \<open>simp add: prayer_answer_def Let_def\<close>)

section \<open>The tick\<close>

text \<open>Energy comes in whole intervals.\<close>

lemma energy_loop_keeps_fields:
  "energy_loop now D = (D', b) \<Longrightarrow> duel_ok P n D \<Longrightarrow>
     duel_ok P n D' \<and> same_duel D D' \<and> d_deadline D' = d_deadline D \<and> now < d_nextEnergy D'"
proof (induction now D arbitrary: D' b rule: energy_loop.induct)
  case (1 now D)
  show ?case
  proof (cases "d_nextEnergy D \<le> now")
    case False
    then show ?thesis using 1 by (simp add: energy_loop.simps)
  next
    case True
    let ?D1 = "pay_energy D"
    obtain D2 b2 where e: "energy_loop now ?D1 = (D2, b2)" by (cases "energy_loop now ?D1")
    have D': "D' = D2" using 1(2) True e by (subst (asm) energy_loop.simps) simp
    have up: "duel_ok P n (d_upd i (\<lambda>s. s\<lparr>energy := energy s + 1\<rparr>) E)" if "duel_ok P n E" for i E
    proof (rule duel_ok_upd_effects [OF that])
      show "side_ok P n ((d_side i E)\<lparr>energy := energy (d_side i E) + 1\<rparr>)"
        by (rule side_ok_energy [OF duel_okD(1) [OF that]])
          (use side_okD(7) [OF duel_okD(1) [OF that, of i]] in simp)
    qed simp_all
    have next': "duel_ok P n (E\<lparr>d_nextEnergy := t\<rparr>) = duel_ok P n E" for E t
      by (simp add: duel_ok_def)
    have "duel_ok P n ?D1" unfolding pay_energy_def next' by (intro up 1(3))
    moreover have "same_duel D ?D1"
    proof -
      have "side_p (d_side i ?D1) = side_p (d_side i D)" for i
        by (cases i) (simp_all add: pay_energy_def)
      then show ?thesis by (simp add: same_duel_def) (simp add: pay_energy_def)
    qed
    moreover have "d_deadline ?D1 = d_deadline D" by (simp add: pay_energy_def)
    ultimately show ?thesis
      using 1(1) [OF True e] same_duel_trans D' by auto
  qed
qed

lemma clear_keeps:
  assumes "duel_ok P n (w_dobj w d)"
  shows "keeps P n d w (fst (clear_stun d i w))" "keeps P n d w (fst (clear_silence d i w))"
proof -
  have "keeps P n d w (upd_side d i (\<lambda>s. s\<lparr>stunnedUntil := 0\<rparr>) w)"
    "keeps P n d w (upd_side d i (\<lambda>s. s\<lparr>silencedUntil := 0\<rparr>) w)"
    by (rule keeps_effect [OF assms]; simp add: side_okI [OF assms])+
  then show "keeps P n d w (fst (clear_stun d i w))" "keeps P n d w (fst (clear_silence d i w))"
    using keeps_refl [OF assms] by (simp_all add: clear_stun_def clear_silence_def Let_def)
qed

lemma land_missiles_keeps:
  assumes "duel_ok P n (w_dobj w d)"
  shows "keeps P n d w (fst (land_missiles d i j w))"
proof -
  have "keeps P n d w (fold (\<lambda>_. landMissile d j i) ms w)" if "duel_ok P n (w_dobj w d)" for ms :: "gotime list" and w
    using that
  proof (induction ms arbitrary: w)
    case (Cons m ms)
    have k: "keeps P n d w (landMissile d j i w)" by (rule landMissile_keeps [OF Cons.prems])
    show ?case using keeps_trans [OF keepsD(1) [OF k] Cons.IH [OF keepsD(2) [OF k]]] by simp
  qed (simp add: keeps_refl)
  from this [OF assms] show ?thesis
    unfolding land_missiles_def Let_def fst_conv by (rule keeps_effect_trans) (rule keeps_missiles)
qed

lemma move_eyes_keeps:
  assumes "duel_ok P n (w_dobj w d)"
  shows "runs (move_eyes d i (other i) w) (keeps P n d w)"
proof -
  let ?n = "length (eyes (side w d i))" and ?t = "side w d (other i)"
  let ?I = "\<lambda>(k :: nat) (w', moved :: bool). aimed d i w w' \<and> (\<forall>m < ?n. good_eye ?t (eyes (side w' d i) ! m))"
  let ?f = "\<lambda>k (w, moved). if eye_next (eyes (side w d i) ! k) \<le> w_now w then do {
          w \<leftarrow> aimEye d i (other i) k w;
          Some (w, True)
        } else Some (w, moved)"
  have good: "\<forall>m < ?n. good_eye ?t (eyes (side w d i) ! m)"
    using duel_ok_eyes(1) [OF assms, of i] by (simp add: eyes_ok_nth)
  have loop: "runs (fold_opt ?f [0..<?n] (w, False)) (?I ?n)"
  proof (rule runs_fold_upt [where I = ?I])
    fix k x
    assume k: "k < ?n" and Ix: "?I k x"
    obtain w' moved where x: "x = (w', moved)" by (cases x)
    have I: "aimed d i w w'" "\<forall>m < ?n. good_eye ?t (eyes (side w' d i) ! m)" using Ix by (simp_all add: x)
    have "runs (aimEye d i (other i) k w') (\<lambda>w. ?I (Suc k) (w, True))"
      by (rule runs_conseq [OF aimEye_step [OF I(1) k]]) (use I(2) in force)
    then show "runs (?f k x) (?I (Suc k))" using I by (simp add: x)
  qed (use good in simp)
  have rest: "runs (if moved then sendEyes d i (other i) w' else Some w') (keeps P n d w)" if "?I ?n (w', moved)" for w' moved
  proof -
    have "eyes_ok (side w' d i) (side w' d (other i))"
      using that aimed_side(2,3) [of d i w w'] by (simp add: eyes_ok_nth)
    from aimed_keeps [OF assms _ this] that have k: "keeps P n d w w'" by simp
    then show ?thesis
      using runs_conseq [OF sendEyes_keeps [OF keepsD(2) [OF k], of i] keeps_trans [OF keepsD(1) [OF k]]] by simp
  qed
  show ?thesis
    unfolding move_eyes_def runs_bind
  proof (rule runs_conseq [OF loop])
    fix x assume "?I ?n x"
    then show "runs (case x of (w, moved) \<Rightarrow> if moved then sendEyes d i (other i) w else Some w) (keeps P n d w)"
      using rest by (cases x) simp
  qed
qed

lemma tick_side_keeps:
  assumes "duel_ok P n (w_dobj w d)"
  shows "runs (tick_side d i (w, changed)) (\<lambda>(w', b). keeps P n d w w')"
proof -
  define w1 where "w1 = fst (clear_stun d i w)"
  define w2 where "w2 = fst (clear_silence d i w1)"
  define w3 where "w3 = fst (land_missiles d i (other i) w2)"
  have 1: "keeps P n d w w1" unfolding w1_def by (rule clear_keeps(1) [OF assms])
  have 2: "keeps P n d w w2" unfolding w2_def by (rule keeps_effect_trans [OF 1 clear_keeps(2)])
  have 3: "keeps P n d w w3" unfolding w3_def by (rule keeps_effect_trans [OF 2 land_missiles_keeps])
  have 4: "runs (move_eyes d i (other i) w3) (keeps P n d w)"
    by (rule keeps_runs_trans [OF 3 move_eyes_keeps])
  have "tick_side d i (w, changed) = do { w \<leftarrow> move_eyes d i (other i) w3;
      Some (w, changed \<or> snd (clear_stun d i w0) \<or> snd (clear_silence d i w1) \<or> snd (land_missiles d i (other i) w2)) }"
    if "w0 = w" for w0
    by (simp add: tick_side_def opponent_other [OF assms] split_beta Let_def w1_def w2_def w3_def that)
  then show ?thesis using 4 by simp
qed

text \<open>Sudden death has run out.\<close>

definition over :: "world \<Rightarrow> dref \<Rightarrow> bool" where
  "over w d \<longleftrightarrow> \<not> isZero (d_deadline (w_dobj w d)) \<and> d_deadline (w_dobj w d) \<le> w_now w"

lemma tick_duel_runs:
  assumes ok: "duel_ok P n (w_dobj w d)"
  shows "runs (tick_duel d w) (\<lambda>w'. if over w d then w' = endDuel d None DuelTimeUp w else keeps P n d w w')"
proof (cases "over w d")
  case True
  then show ?thesis by (simp add: tick_duel_def Let_def over_def)
next
  case False
  obtain D b where e: "energy_loop (w_now w) (w_dobj w d) = (D, b)" by (cases "energy_loop (w_now w) (w_dobj w d)")
  have D: "duel_ok P n D" "same_duel (w_dobj w d) D" using energy_loop_keeps_fields [OF e ok] by simp_all
  let ?w1 = "upd_duel d (\<lambda>_. D) w"
  have 1: "keeps P n d w ?w1" using keeps_upd_duel D by (simp add: keeps_def stays_def upd_duel_def tells_same)
  have tick: "runs (tick_side d i (w', c)) (\<lambda>(w'', b). keeps P n d w w'')" if "keeps P n d w w'" for i w' c
    by (rule runs_conseq [OF tick_side_keeps [OF keepsD(2) [OF that]]])
      (use keeps_trans [OF keepsD(1) [OF that]] in \<open>auto split: prod.splits\<close>)
  have "runs (do { (w, changed) \<leftarrow> tick_side d SideA (?w1, b);
       (w, changed) \<leftarrow> tick_side d SideB (w, changed);
       Some (if changed then syncDuel d w else w) }) (keeps P n d w)"
    unfolding runs_bind
  proof (rule runs_conseq [OF tick [OF 1]])
    fix x :: "world \<times> bool" assume x: "case x of (w', b) \<Rightarrow> keeps P n d w w'"
    obtain w2 c2 where x2: "x = (w2, c2)" by (cases x)
    have "runs (tick_side d SideB (w2, c2)) (\<lambda>x. runs (case x of (w, changed) \<Rightarrow>
        Some (if changed then syncDuel d w else w)) (keeps P n d w))"
      by (rule runs_conseq [OF tick]) (use x x2 in \<open>auto intro: keeps_then_sync split: prod.splits\<close>)
    then show "runs (case x of (w, changed) \<Rightarrow> Option.bind (tick_side d SideB (w, changed))
        (\<lambda>(w, changed). Some (if changed then syncDuel d w else w))) (keeps P n d w)"
      by (simp add: x2)
  qed
  then have "runs (tick_duel d w) (keeps P n d w)"
    unfolding tick_duel_def Let_def using False e by (simp only: over_def if_False prod.case)
  then show ?thesis using False by simp
qed

text \<open>A tick ends exactly the duels whose time is up.\<close>

lemma tickDuels_effect:
  assumes "world_ok P n w"
  shows "runs (tickDuels w) (\<lambda>w'. evolves P n w w' \<and> w_challenges w' = w_challenges w \<and>
    w_duels w' = filter (\<lambda>d. \<not> over w d) (w_duels w))"
proof -
  have "runs (fold_opt tick_duel ds w) (\<lambda>w'. evolves P n w w' \<and> w_challenges w' = w_challenges w \<and>
      w_duels w' = filter (\<lambda>d. \<not> (d \<in> set ds \<and> over w d)) (w_duels w))"
    if "world_ok P n w" "set ds \<subseteq> set (w_duels w)" "distinct ds" for ds w
    using that
  proof (induction ds arbitrary: w)
    case (Cons d ds)
    have d: "d \<in> set (w_duels w)" using Cons.prems by simp
    have "runs (tick_duel d w) (\<lambda>w1. evolves P n w w1 \<and> w_challenges w1 = w_challenges w \<and>
        w_duels w1 = filter (\<lambda>d'. \<not> (d' = d \<and> over w d)) (w_duels w) \<and> (\<forall>d'. d' \<noteq> d \<longrightarrow> over w1 d' = over w d'))"
    proof (rule runs_conseq [OF tick_duel_runs [OF world_okD(6) [OF Cons.prems(1) d]]])
      fix w1 assume w1: "if over w d then w1 = endDuel d None DuelTimeUp w else keeps P n d w w1"
      show "evolves P n w w1 \<and> w_challenges w1 = w_challenges w \<and>
        w_duels w1 = filter (\<lambda>d'. \<not> (d' = d \<and> over w d)) (w_duels w) \<and> (\<forall>d'. d' \<noteq> d \<longrightarrow> over w1 d' = over w d')"
      proof (cases "over w d")
        case True
        then show ?thesis using w1 endDuel_evolves [OF Cons.prems(1) d stays_refl] by (simp add: over_def)
      next
        case False
        then have k: "keeps P n d w w1" using w1 by simp
        note s = staysD [OF keepsD(1) [OF k]]
        show ?thesis using keeps_evolves [OF Cons.prems(1) k] False by (simp add: s(15,17,19,24) over_def)
      qed
    qed
    then show ?case
      unfolding fold_opt.simps runs_bind
    proof (rule runs_conseq)
      fix w1 assume w1: "evolves P n w w1 \<and> w_challenges w1 = w_challenges w \<and>
        w_duels w1 = filter (\<lambda>d'. \<not> (d' = d \<and> over w d)) (w_duels w) \<and> (\<forall>d'. d' \<noteq> d \<longrightarrow> over w1 d' = over w d')"
      then have ev: "evolves P n w w1" by simp
      have "runs (fold_opt tick_duel ds w1) (\<lambda>w'. evolves P n w1 w' \<and> w_challenges w' = w_challenges w1 \<and>
          w_duels w' = filter (\<lambda>d. \<not> (d \<in> set ds \<and> over w1 d)) (w_duels w1))"
        by (rule Cons.IH [OF evolvesD(1) [OF ev]]) (use w1 Cons.prems in auto)
      then show "runs (fold_opt tick_duel ds w1) (\<lambda>w'. evolves P n w w' \<and> w_challenges w' = w_challenges w \<and>
          w_duels w' = filter (\<lambda>d'. \<not> (d' \<in> set (d # ds) \<and> over w d')) (w_duels w))"
      proof (rule runs_conseq)
        fix w' assume w': "evolves P n w1 w' \<and> w_challenges w' = w_challenges w1 \<and>
          w_duels w' = filter (\<lambda>d. \<not> (d \<in> set ds \<and> over w1 d)) (w_duels w1)"
        have "filter (\<lambda>d'. \<not> (d' \<in> set ds \<and> over w1 d')) (w_duels w1) =
            filter (\<lambda>d'. \<not> (d' \<in> set (d # ds) \<and> over w d')) (w_duels w)"
          using w1 Cons.prems(3) by (auto intro!: filter_cong)
        then show "evolves P n w w' \<and> w_challenges w' = w_challenges w \<and>
            w_duels w' = filter (\<lambda>d'. \<not> (d' \<in> set (d # ds) \<and> over w d')) (w_duels w)"
          using w' w1 evolves_trans [OF evolvesD(2) [OF ev]] by simp
      qed
    qed
  qed (simp add: evolves_refl)
  from this [OF assms, of "w_duels w"] show ?thesis
    using dueling_okD(1) [OF world_okD(3) [OF assms]] by (simp add: tickDuels_def cong: filter_cong)
qed

lemma tickDuels_evolves: "world_ok P n w \<Longrightarrow> runs (tickDuels w) (evolves P n w)"
  by (rule runs_conseq [OF tickDuels_effect]) blast+

end
