(* ===== verification/Grid.thy ===== *)
theory Grid
  imports World_State
begin

text \<open>
  The spatial grid (\<open>internal/game/grid.go\<close>) and the entities that live in it (\<open>newEntity\<close>,
  \<open>removeEntity\<close>, \<open>entityMoved\<close> of \<open>world.go\<close>). The grid is a map of maps: the entities of a cell,
  by their ID. The locale \<open>spatial_index\<close> is what replication relies on: looking around a point finds
  exactly the tracked entities of the cells around it, each once.
\<close>

section \<open>Cells\<close>

text \<open>Go's \<open>/\<close> and \<open>%\<close> on \<open>int32\<close> truncate toward zero.\<close>

definition i32_quot :: "i32 \<Rightarrow> i32 \<Rightarrow> i32" where
  "i32_quot a b = word_of_int (go_quot (sint a) (sint b))"

definition i32_rem :: "i32 \<Rightarrow> i32 \<Rightarrow> i32" where
  "i32_rem a b = word_of_int (go_rem (sint a) (sint b))"

type_synonym cellKey = "i32 \<times> i32"

definition cellSize :: i32 where "cellSize = 1024"

definition floorDiv :: "i32 \<Rightarrow> i32 \<Rightarrow> i32" where
  "floorDiv a b =
    (let q = i32_quot a b in
     if i32_rem a b \<noteq> 0 \<and> (sint a < 0) \<noteq> (sint b < 0) then q - 1 else q)"

definition cellOf :: "Vec \<Rightarrow> cellKey" where
  "cellOf p = (floorDiv (X p) cellSize, floorDiv (Y p) cellSize)"

section \<open>The grid\<close>

type_synonym cell_map = "(EntityID \<times> eref) list"

definition cell_at :: "world \<Rightarrow> cellKey \<Rightarrow> cell_map" where
  "cell_at w k = (case map_of (w_grid w) k of None \<Rightarrow> [] | Some m \<Rightarrow> m)"

definition grid_insert :: "eref \<Rightarrow> world \<Rightarrow> world" where
  "grid_insert e w =
    (let k = cellOf (e_Pos (w_eobj w e));
         w = upd_entity e (\<lambda>en. en\<lparr>e_cell := k\<rparr>) w
     in w\<lparr>w_grid := amap_put k (amap_put (e_ID (w_eobj w e)) e (cell_at w k)) (w_grid w)\<rparr>)"

text \<open>Deleting from a cell that is not there is a no-op on a nil map.\<close>

definition grid_remove :: "eref \<Rightarrow> world \<Rightarrow> world" where
  "grid_remove e w =
    (let k = e_cell (w_eobj w e); m = amap_del (e_ID (w_eobj w e)) (cell_at w k) in
     if m = [] then w\<lparr>w_grid := amap_del k (w_grid w)\<rparr>
     else w\<lparr>w_grid := amap_put k m (w_grid w)\<rparr>)"

definition grid_moved :: "eref \<Rightarrow> world \<Rightarrow> world" where
  "grid_moved e w =
    (if cellOf (e_Pos (w_eobj w e)) \<noteq> e_cell (w_eobj w e)
     then grid_insert e (grid_remove e w) else w)"

text \<open>The cells around \<open>c\<close>, in the order of the two loops, and the entities \<open>near\<close> visits.\<close>

definition around :: "cellKey \<Rightarrow> cellKey list" where
  "around c = [(fst c + dx, snd c + dy). dx \<leftarrow> [-1, 0, 1], dy \<leftarrow> [-1, 0, 1]]"

definition near :: "world \<Rightarrow> Vec \<Rightarrow> eref list" where
  "near w p = concat (map (\<lambda>k. map snd (cell_at w k)) (around (cellOf p)))"

section \<open>Entities\<close>

definition newEntity :: "EntityKind \<Rightarrow> string \<Rightarrow> string \<Rightarrow> Vec \<Rightarrow> world \<Rightarrow> eref \<times> world" where
  "newEntity kind name sprite pos w =
    (let w = w\<lparr>w_nextID := w_nextID w + 1\<rparr>;
         e = w_fresh w;
         w = w\<lparr>w_eobj := (w_eobj w)(e := \<lparr>e_ID = w_nextID w, e_Kind = kind, e_Name = name,
               e_Char = [], e_Class = [], e_Sprite = sprite, e_Pos = pos, e_Elo = 0,
               e_moved = False, e_eloChanged = False, e_cell = (0, 0)\<rparr>), w_fresh := Suc e\<rparr>;
         w = w\<lparr>w_entities := amap_put (e_ID (w_eobj w e)) e (w_entities w)\<rparr>
     in (e, grid_insert e w))"

definition removeEntity :: "eref \<Rightarrow> world \<Rightarrow> world" where
  "removeEntity e w =
    (let w = grid_remove e w in w\<lparr>w_entities := amap_del (e_ID (w_eobj w e)) (w_entities w)\<rparr>)"

definition entityMoved :: "eref \<Rightarrow> world \<Rightarrow> world" where
  "entityMoved e w =
    (let w = grid_moved e w in
     if \<not> e_moved (w_eobj w e)
     then (upd_entity e (\<lambda>en. en\<lparr>e_moved := True\<rparr>) w)\<lparr>w_moved := w_moved w @ [e]\<rparr>
     else w)"

definition spawnMsg :: "Entity \<Rightarrow> EntitySpawn" where
  "spawnMsg e = \<lparr>es_ID = e_ID e, es_Kind = e_Kind e, es_Name = e_Name e, es_Char = e_Char e,
     es_Class = e_Class e, es_Sprite = e_Sprite e, es_Pos = e_Pos e, es_Elo = e_Elo e\<rparr>"

section \<open>Floor division\<close>

lemma sint_small: "- (2 ^ 31) \<le> k \<Longrightarrow> k < 2 ^ 31 \<Longrightarrow> sint (word_of_int k :: i32) = k"
  by (simp add: sint_sbintrunc' signed_take_bit_int_eq_self)

lemma sint_range: "- (2 ^ 31) \<le> sint (a :: i32)" "sint (a :: i32) < 2 ^ 31"
  using sint_ge [of a] sint_lt [of a] by simp_all

lemma int_div_le:
  fixes a b :: int
  assumes "0 \<le> a" and "0 < b"
  shows "a div b \<le> a"
proof -
  have "0 \<le> a div b" using assms by (simp add: pos_imp_zdiv_nonneg_iff)
  then have "a div b * 1 \<le> a div b * b" using assms by (intro mult_left_mono) simp_all
  also have "\<dots> \<le> a" using pos_mod_sign [OF assms(2), of a] minus_mod_eq_div_mult [of a b] by linarith
  finally show ?thesis by simp
qed

lemma truncation_bounds:
  fixes a b :: int
  assumes "0 < b"
  shows "min a 0 \<le> go_quot a b" "go_quot a b \<le> max a 0" "min a 0 \<le> go_rem a b" "go_rem a b \<le> max a 0"
proof -
  show "min a 0 \<le> go_quot a b" "go_quot a b \<le> max a 0" "min a 0 \<le> go_rem a b" "go_rem a b \<le> max a 0"
  proof (atomize (full), cases "0 \<le> a")
    case True
    then show "(min a 0 \<le> go_quot a b \<and> go_quot a b \<le> max a 0) \<and> min a 0 \<le> go_rem a b \<and> go_rem a b \<le> max a 0"
      using assms int_div_le [of a b] zmod_le_nonneg_dividend [of a b]
      by (simp add: go_quot_nonneg go_rem_nonneg pos_imp_zdiv_nonneg_iff)
  next
    case False
    have "go_quot a b = - (- a div b)" using False assms by (simp add: go_quot_def)
    moreover from this have "go_rem a b = - (- a mod b)"
      unfolding go_rem_def using minus_div_mult_eq_mod [of "- a" b] by simp
    ultimately show "(min a 0 \<le> go_quot a b \<and> go_quot a b \<le> max a 0) \<and> min a 0 \<le> go_rem a b \<and> go_rem a b \<le> max a 0"
      using assms False int_div_le [of "- a" b] zmod_le_nonneg_dividend [of "- a" b]
        pos_imp_zdiv_nonneg_iff [of b "- a"] pos_mod_sign [of b "- a"] by simp
  qed
qed

lemma floor_by_truncation:
  fixes a b :: int
  assumes "0 < b"
  shows "a div b = (if go_rem a b \<noteq> 0 \<and> a < 0 then go_quot a b - 1 else go_quot a b)"
proof (cases "0 \<le> a")
  case True
  then show ?thesis using assms by (simp add: go_quot_nonneg)
next
  case False
  have q: "go_quot a b = - (- a div b)" using False assms by (simp add: go_quot_def)
  have r: "go_rem a b = - (- a mod b)"
    unfolding go_rem_def q using minus_div_mult_eq_mod [of "- a" b] by simp
  show ?thesis
    using False assms by (simp add: q r zdiv_zminus1_eq_if mod_eq_0_iff_dvd)
qed

lemma div_small:
  fixes a b :: int
  assumes "0 < b"
  shows "min a 0 \<le> a div b" "a div b \<le> max a 0"
proof -
  have "min a 0 \<le> a div b \<and> a div b \<le> max a 0"
  proof (cases "0 \<le> a")
    case True
    then show ?thesis using assms int_div_le [of a b] by (simp add: pos_imp_zdiv_nonneg_iff)
  next
    case False
    have q: "a div b \<le> -1" using False assms div_neg_pos_less0 [of a b] by linarith
    then have "a div b * (b - 1) \<le> -1 * (b - 1)" using assms by (intro mult_right_mono) simp_all
    then have "a div b * b - a div b \<le> 1 - b" by (simp add: algebra_simps)
    then have "a \<le> a div b"
      using pos_mod_bound [OF assms, of a] minus_mod_eq_div_mult [of a b] by linarith
    then show ?thesis using False q by simp
  qed
  then show "min a 0 \<le> a div b" "a div b \<le> max a 0" by simp_all
qed

lemma floorDiv_floor:
  assumes "0 < sint b"
  shows "sint (floorDiv a b) = sint a div sint b"
proof -
  let ?a = "sint a" and ?b = "sint b"
  note t = truncation_bounds [OF assms, of ?a] and d = div_small [OF assms, of ?a] and r = sint_range [of a]
  have "sint (i32_quot a b) = go_quot ?a ?b" "sint (i32_rem a b) = go_rem ?a ?b"
    unfolding i32_quot_def i32_rem_def using t r by (intro sint_small; linarith)+
  then have rem: "i32_rem a b = 0 \<longleftrightarrow> go_rem ?a ?b = 0" by (metis signed_eq_0_iff)
  have "i32_quot a b - 1 = word_of_int (go_quot ?a ?b - 1)" by (simp add: i32_quot_def)
  then have "floorDiv a b = word_of_int (?a div ?b)"
    using assms rem by (simp add: floorDiv_def floor_by_truncation [OF assms] i32_quot_def)
  then show ?thesis using d r by (simp only: sint_small)
qed


section \<open>What the grid holds\<close>

text \<open>
  \<open>grid_of w E\<close>: the grid holds exactly the entities \<open>E\<close> (with their IDs), each in its own cell,
  and keeps no empty cell.
\<close>

definition grid_of :: "world \<Rightarrow> (EntityID \<times> eref) set \<Rightarrow> bool" where
  "grid_of w E \<longleftrightarrow> distinct (map fst (w_grid w)) \<and>
     (\<forall>k. map_of (w_grid w) k \<noteq> Some []) \<and>
     (\<forall>k. distinct (map fst (cell_at w k))) \<and>
     (\<forall>k i e. (i, e) \<in> set (cell_at w k) \<longleftrightarrow> (i, e) \<in> E \<and> e_cell (w_eobj w e) = k) \<and>
     (\<forall>i e. (i, e) \<in> E \<longrightarrow> e_ID (w_eobj w e) = i) \<and>
     (\<forall>i e e'. (i, e) \<in> E \<longrightarrow> (i, e') \<in> E \<longrightarrow> e = e')"

lemma grid_ofD:
  assumes "grid_of w E"
  shows "distinct (map fst (w_grid w))" "map_of (w_grid w) k \<noteq> Some []"
    "distinct (map fst (cell_at w k))"
    "(i, e) \<in> set (cell_at w k) \<longleftrightarrow> (i, e) \<in> E \<and> e_cell (w_eobj w e) = k"
    "(i, e) \<in> E \<Longrightarrow> e_ID (w_eobj w e) = i" "(i, e) \<in> E \<Longrightarrow> (i, e') \<in> E \<Longrightarrow> e = e'"
  using assms unfolding grid_of_def by blast+

lemma grid_ofI:
  assumes "distinct (map fst (w_grid w))" and "\<And>k. map_of (w_grid w) k \<noteq> Some []"
    and "\<And>k. distinct (map fst (cell_at w k))"
    and "\<And>k i e. (i, e) \<in> set (cell_at w k) \<longleftrightarrow> (i, e) \<in> E \<and> e_cell (w_eobj w e) = k"
    and "\<And>i e. (i, e) \<in> E \<Longrightarrow> e_ID (w_eobj w e) = i"
    and "\<And>i e e'. (i, e) \<in> E \<Longrightarrow> (i, e') \<in> E \<Longrightarrow> e = e'"
  shows "grid_of w E"
  using assms unfolding grid_of_def by blast

lemma cell_at_put: "cell_at (w\<lparr>w_grid := amap_put k m g\<rparr>) k' = (if k' = k then m else cell_at (w\<lparr>w_grid := g\<rparr>) k')"
  by (simp add: cell_at_def)

lemma cell_at_del: "cell_at (w\<lparr>w_grid := amap_del k g\<rparr>) k' = (if k' = k then [] else cell_at (w\<lparr>w_grid := g\<rparr>) k')"
  by (simp add: cell_at_def)

lemma cell_at_cong: "w_grid w' = w_grid w \<Longrightarrow> cell_at w' k = cell_at w k"
  by (simp add: cell_at_def)

lemma in_amap_put: "e \<in> set (amap_put k v m) \<longleftrightarrow> e = (k, v) \<or> e \<in> set m \<and> fst e \<noteq> k" if "distinct (map fst m)"
  using that by (induction k v m rule: amap_put.induct) auto

lemma amap_put_not_Nil [simp]: "amap_put k v m \<noteq> []"
  by (cases "(k, v, m)" rule: amap_put.cases) auto

lemma grid_remove_fields [simp]:
  "w_eobj (grid_remove e w) = w_eobj w" "w_entities (grid_remove e w) = w_entities w"
  "w_fresh (grid_remove e w) = w_fresh w" "w_moved (grid_remove e w) = w_moved w"
  by (simp_all add: grid_remove_def Let_def)

lemma grid_remove_of:
  assumes "grid_of w E" and "(i, e) \<in> E"
  shows "grid_of (grid_remove e w) (E - {(i, e)})"
proof -
  note g = grid_ofD [OF assms(1)]
  let ?k = "e_cell (w_eobj w e)" and ?w = "grid_remove e w"
  have i: "e_ID (w_eobj w e) = i" by (rule g(5) [OF assms(2)])
  have c: "cell_at ?w k = (if k = ?k then amap_del i (cell_at w ?k) else cell_at w k)" for k
    by (simp add: grid_remove_def Let_def cell_at_put cell_at_del i cong: if_cong)
  have ne: "map_of (w_grid ?w) k \<noteq> Some []" for k
    using g(2) [of k] by (simp add: grid_remove_def Let_def)
  show ?thesis
  proof (rule grid_ofI)
    show "distinct (map fst (w_grid ?w))" using g(1) by (simp add: grid_remove_def Let_def)
    show "distinct (map fst (cell_at ?w k))" for k using g(3) by (simp add: c)
    show "(j, e') \<in> set (cell_at ?w k) \<longleftrightarrow> (j, e') \<in> E - {(i, e)} \<and> e_cell (w_eobj ?w e') = k" for k j e'
      using g(4,6) assms(2) by (auto simp: c amap_set_del)
  qed (use g(5,6) ne in auto)
qed

lemma grid_insert_fields [simp]:
  "e_ID (w_eobj (grid_insert e w) e') = e_ID (w_eobj w e')"
  "e_Pos (w_eobj (grid_insert e w) e') = e_Pos (w_eobj w e')"
  "e_moved (w_eobj (grid_insert e w) e') = e_moved (w_eobj w e')"
  "e_eloChanged (w_eobj (grid_insert e w) e') = e_eloChanged (w_eobj w e')"
  "e_Elo (w_eobj (grid_insert e w) e') = e_Elo (w_eobj w e')"
  "e_Name (w_eobj (grid_insert e w) e') = e_Name (w_eobj w e')"
  "e_Char (w_eobj (grid_insert e w) e') = e_Char (w_eobj w e')"
  "e_Class (w_eobj (grid_insert e w) e') = e_Class (w_eobj w e')"
  "e_cell (w_eobj (grid_insert e w) e') = (if e' = e then cellOf (e_Pos (w_eobj w e)) else e_cell (w_eobj w e'))"
  "w_entities (grid_insert e w) = w_entities w" "w_fresh (grid_insert e w) = w_fresh w"
  "w_moved (grid_insert e w) = w_moved w"
  by (simp_all add: grid_insert_def Let_def upd_entity_def)

lemma grid_insert_of:
  assumes "grid_of w E" and new: "\<And>i e'. (i, e') \<in> E \<Longrightarrow> e' \<noteq> e \<and> i \<noteq> e_ID (w_eobj w e)"
  shows "grid_of (grid_insert e w) (insert (e_ID (w_eobj w e), e) E)"
proof -
  note g = grid_ofD [OF assms(1)]
  let ?k = "cellOf (e_Pos (w_eobj w e))" and ?w = "grid_insert e w" and ?i = "e_ID (w_eobj w e)"
  have c: "cell_at ?w k = (if k = ?k then amap_put ?i e (cell_at w ?k) else cell_at w k)" for k
    by (simp add: grid_insert_def Let_def cell_at_put upd_entity_def) (simp add: cell_at_def)
  have new1: "(j, e) \<notin> E" and new2: "(?i, e') \<notin> E" for j e' using new by blast+
  have ne: "map_of (w_grid ?w) k \<noteq> Some []" for k
    using g(2) [of k] by (simp add: grid_insert_def Let_def upd_entity_def)
  show ?thesis
  proof (rule grid_ofI)
    show "distinct (map fst (w_grid ?w))" using g(1) by (simp add: grid_insert_def Let_def upd_entity_def)
    show "distinct (map fst (cell_at ?w k))" for k using g(3) by (simp add: c)
    show "(j, e') \<in> set (cell_at ?w k) \<longleftrightarrow> (j, e') \<in> insert (?i, e) E \<and> e_cell (w_eobj ?w e') = k" for k j e'
      using new1 new2 by (auto simp: c in_amap_put [OF g(3)] g(4))
    show "(j, e') \<in> insert (?i, e) E \<Longrightarrow> e_ID (w_eobj ?w e') = j" for j e' using g(5) by auto
    show "(j, e1) \<in> insert (?i, e) E \<Longrightarrow> (j, e2) \<in> insert (?i, e) E \<Longrightarrow> e1 = e2" for j e1 e2
      using g(6) new by blast
  qed (rule ne)
qed

text \<open>Only cells, positions and identities of entities matter.\<close>

lemma grid_of_cong:
  assumes "w_grid w' = w_grid w" and "\<And>i e. (i, e) \<in> E \<Longrightarrow> e_cell (w_eobj w' e) = e_cell (w_eobj w e)"
    and "\<And>i e. (i, e) \<in> E \<Longrightarrow> e_ID (w_eobj w' e) = e_ID (w_eobj w e)"
  shows "grid_of w' E = grid_of w E"
  unfolding grid_of_def cell_at_def assms(1) using assms(2,3) by (auto; metis)


section \<open>Looking around\<close>

text \<open>Cells that touch, or are the same.\<close>

definition adjacent :: "cellKey \<Rightarrow> cellKey \<Rightarrow> bool" where
  "adjacent a b \<longleftrightarrow> \<bar>sint (fst a) - sint (fst b)\<bar> \<le> 1 \<and> \<bar>sint (snd a) - sint (snd b)\<bar> \<le> 1"

text \<open>
  What replication uses of the grid: what is tracked and where, looking around a point, moving
  something and taking it out.
\<close>

locale spatial_index =
  fixes invar :: "'w \<Rightarrow> bool"
    and tracked :: "'w \<Rightarrow> 'e set"
    and place :: "'w \<Rightarrow> 'e \<Rightarrow> Vec"
    and look :: "'w \<Rightarrow> Vec \<Rightarrow> 'e list"
    and shift :: "'e \<Rightarrow> Vec \<Rightarrow> 'w \<Rightarrow> 'w"
    and remove_at :: "'e \<Rightarrow> 'w \<Rightarrow> 'w"
  assumes look_distinct: "invar w \<Longrightarrow> distinct (look w p)"
    and look_set: "invar w \<Longrightarrow>
      set (look w p) = {e \<in> tracked w. adjacent (cellOf (place w e)) (cellOf p)}"
    and shift: "invar w \<Longrightarrow> e \<in> tracked w \<Longrightarrow> invar (shift e p w) \<and>
      tracked (shift e p w) = tracked w \<and> place (shift e p w) = (place w)(e := p)"
    and remove_at: "invar w \<Longrightarrow> e \<in> tracked w \<Longrightarrow> invar (remove_at e w) \<and>
      tracked (remove_at e w) = tracked w - {e} \<and> place (remove_at e w) = place w"
begin

text \<open>Everything within a cell's width in both directions is seen, nothing two widths away is.\<close>

lemma cell_sint: "sint (fst (cellOf p)) = sint (X p) div 1024" "sint (snd (cellOf p)) = sint (Y p) div 1024"
proof -
  have c: "sint cellSize = 1024" by (simp add: cellSize_def)
  show "sint (fst (cellOf p)) = sint (X p) div 1024" "sint (snd (cellOf p)) = sint (Y p) div 1024"
    using floorDiv_floor [of cellSize] by (simp_all add: cellOf_def c)
qed

lemma within_seen:
  assumes "invar w" and "e \<in> tracked w"
    and "\<bar>sint (X (place w e)) - sint (X p)\<bar> \<le> 1024" and "\<bar>sint (Y (place w e)) - sint (Y p)\<bar> \<le> 1024"
  shows "e \<in> set (look w p)"
proof -
  have "\<bar>a div 1024 - b div 1024\<bar> \<le> 1" if "\<bar>a - b\<bar> \<le> 1024" for a b :: int using that by linarith
  then show ?thesis using assms by (simp add: look_set adjacent_def cell_sint)
qed

lemma beyond_unseen:
  assumes "invar w"
    and "2048 \<le> \<bar>sint (X (place w e)) - sint (X p)\<bar> \<or> 2048 \<le> \<bar>sint (Y (place w e)) - sint (Y p)\<bar>"
  shows "e \<notin> set (look w p)"
proof -
  have "\<not> \<bar>a div 1024 - b div 1024\<bar> \<le> 1" if "2048 \<le> \<bar>a - b\<bar>" for a b :: int using that by linarith
  then show ?thesis using assms by (auto simp: look_set adjacent_def cell_sint)
qed

lemma moved_there: "invar w \<Longrightarrow> e \<in> tracked w \<Longrightarrow> e \<in> set (look (shift e p w) p)"
  using shift [of w e p] by (intro within_seen) auto

lemma others_stay:
  "invar w \<Longrightarrow> e \<in> tracked w \<Longrightarrow> e' \<noteq> e \<Longrightarrow> e' \<in> set (look (shift e p w) q) \<longleftrightarrow> e' \<in> set (look w q)"
  using shift [of w e p] by (simp add: look_set)

lemma removed_gone: "invar w \<Longrightarrow> e \<in> tracked w \<Longrightarrow> e \<notin> set (look (remove_at e w) p)"
  using remove_at [of w e] by (simp add: look_set)

end

section \<open>The grid is a spatial index\<close>

definition entities_ok :: "world \<Rightarrow> bool" where
  "entities_ok w \<longleftrightarrow> grid_of w (set (w_entities w)) \<and> distinct (map fst (w_entities w)) \<and>
     (\<forall>i e. (i, e) \<in> set (w_entities w) \<longrightarrow>
        e_cell (w_eobj w e) = cellOf (e_Pos (w_eobj w e)) \<and> e < w_fresh w)"

text \<open>What \<open>Move\<close> does to an entity.\<close>

definition place_entity :: "eref \<Rightarrow> Vec \<Rightarrow> world \<Rightarrow> world" where
  "place_entity e p w = entityMoved e (upd_entity e (\<lambda>en. en\<lparr>e_Pos := p\<rparr>) w)"

lemma entities_okD:
  assumes "entities_ok w"
  shows "grid_of w (set (w_entities w))" "distinct (map fst (w_entities w))"
    "(i, e) \<in> set (w_entities w) \<Longrightarrow> e_cell (w_eobj w e) = cellOf (e_Pos (w_eobj w e))"
    "(i, e) \<in> set (w_entities w) \<Longrightarrow> e < w_fresh w"
    "(i, e) \<in> set (w_entities w) \<Longrightarrow> e_ID (w_eobj w e) = i"
  using assms grid_ofD(5) unfolding entities_ok_def by blast+

lemma in_own_cell:
  assumes "entities_ok w" and "(i, e) \<in> set (w_entities w)"
  shows "(i, e) \<in> set (cell_at w k) \<longleftrightarrow> k = cellOf (e_Pos (w_eobj w e))"
  using grid_ofD(4) [OF entities_okD(1) [OF assms(1)], of i e k] entities_okD(3) [OF assms] assms(2) by auto

lemma shift_small:
  fixes a c :: i32
  assumes "\<bar>sint c\<bar> \<le> 2 ^ 30" and "\<bar>d\<bar> \<le> 1"
  shows "a = c + word_of_int d \<longleftrightarrow> sint a - sint c = d"
proof -
  have "sint (c + word_of_int d) = sint c + d"
  proof -
    have "c + word_of_int d = word_of_int (sint c + d)" by simp
    moreover have "- (2 ^ 31) \<le> sint c + d" "sint c + d < 2 ^ 31" using assms by (auto simp: abs_le_iff)
    ultimately show ?thesis by (simp only: sint_small)
  qed
  then show ?thesis using signed_word_eqI by (metis add_diff_cancel_left' diff_add_cancel add.commute)
qed

lemma around_iff:
  assumes "\<bar>sint (fst c)\<bar> \<le> 2 ^ 30" and "\<bar>sint (snd c)\<bar> \<le> 2 ^ 30"
  shows "k \<in> set (around c) \<longleftrightarrow> adjacent k c"
proof -
  have step: "a = b + (-1) \<or> a = b + 0 \<or> a = b + 1 \<longleftrightarrow> \<bar>sint a - sint b\<bar> \<le> 1" if "\<bar>sint b\<bar> \<le> 2 ^ 30" for a b :: i32
    using shift_small [OF that, of "-1" a] shift_small [OF that, of 0 a] shift_small [OF that, of 1 a] by auto
  have "k \<in> set (around c) \<longleftrightarrow>
      (fst k = fst c + (-1) \<or> fst k = fst c + 0 \<or> fst k = fst c + 1) \<and>
      (snd k = snd c + (-1) \<or> snd k = snd c + 0 \<or> snd k = snd c + 1)"
    by (cases k) (auto simp: around_def)
  then show ?thesis by (simp only: step [OF assms(1)] step [OF assms(2)] adjacent_def)
qed

lemma around_distinct: "distinct (around c)"
proof (cases c)
  case (Pair x y)
  have "c + -1 \<noteq> c" "c + -1 \<noteq> c + 1" "c \<noteq> c + 1" for c :: i32 by simp_all
  then show ?thesis by (simp add: around_def Pair)
qed

lemma cellOf_small: "\<bar>sint (fst (cellOf p))\<bar> \<le> 2 ^ 30" "\<bar>sint (snd (cellOf p))\<bar> \<le> 2 ^ 30"
proof -
  have c: "sint cellSize = 1024" by (simp add: cellSize_def)
  have "\<bar>sint (a :: i32) div 1024\<bar> \<le> 2 ^ 30" for a
    using sint_range [of a] by (simp add: abs_le_iff) linarith
  then show "\<bar>sint (fst (cellOf p))\<bar> \<le> 2 ^ 30" "\<bar>sint (snd (cellOf p))\<bar> \<le> 2 ^ 30"
    using floorDiv_floor [of cellSize] by (simp_all add: cellOf_def c)
qed

lemma near_set:
  assumes "entities_ok w"
  shows "set (near w p) = {e \<in> snd ` set (w_entities w). adjacent (cellOf (e_Pos (w_eobj w e))) (cellOf p)}"
proof -
  note g = grid_ofD [OF entities_okD(1) [OF assms]]
  have cell: "e \<in> snd ` set (cell_at w k) \<longleftrightarrow> e \<in> snd ` set (w_entities w) \<and> e_cell (w_eobj w e) = k" for e k
    using g(4) [of _ e k] by (auto simp: image_iff)
  have "e \<in> set (near w p) \<longleftrightarrow> (\<exists>k \<in> set (around (cellOf p)). e \<in> snd ` set (cell_at w k))" for e
    by (simp add: near_def)
  then have "e \<in> set (near w p) \<longleftrightarrow> e \<in> snd ` set (w_entities w) \<and> adjacent (e_cell (w_eobj w e)) (cellOf p)" for e
    by (simp add: cell around_iff [OF cellOf_small] Bex_def conj_commute)
  moreover have "e_cell (w_eobj w e) = cellOf (e_Pos (w_eobj w e))" if "e \<in> snd ` set (w_entities w)" for e
    using that entities_okD(3) [OF assms] by auto
  ultimately show ?thesis by (intro set_eqI) (simp cong: conj_cong)
qed

lemma near_distinct:
  assumes "entities_ok w"
  shows "distinct (near w p)"
proof -
  note g = grid_ofD [OF entities_okD(1) [OF assms]]
  have inj: "distinct (map snd (cell_at w k))" for k
  proof -
    have "inj_on snd (set (cell_at w k))"
      by (rule inj_onI) (metis g(4,5) prod.collapse)
    moreover have "distinct (cell_at w k)" using g(3) [of k] by (simp add: distinct_map)
    ultimately show ?thesis by (simp add: distinct_map)
  qed
  have "distinct (concat (map (\<lambda>k. map snd (cell_at w k)) ks))" if "distinct ks" for ks
    using that by (induction ks) (auto simp: inj g(4))
  then show ?thesis using around_distinct by (simp add: near_def)
qed


lemma entityMoved_entities [simp]:
  "w_entities (entityMoved e w) = w_entities w" "w_fresh (entityMoved e w) = w_fresh w"
  "e_ID (w_eobj (entityMoved e w) e') = e_ID (w_eobj w e')"
  "e_Pos (w_eobj (entityMoved e w) e') = e_Pos (w_eobj w e')"
  "e_Elo (w_eobj (entityMoved e w) e') = e_Elo (w_eobj w e')"
  "e_Name (w_eobj (entityMoved e w) e') = e_Name (w_eobj w e')"
  "e_Char (w_eobj (entityMoved e w) e') = e_Char (w_eobj w e')"
  "e_Class (w_eobj (entityMoved e w) e') = e_Class (w_eobj w e')"
  "e_eloChanged (w_eobj (entityMoved e w) e') = e_eloChanged (w_eobj w e')"
  "e_moved (w_eobj (entityMoved e w) e') = (e' = e \<or> e_moved (w_eobj w e'))"
  "w_moved (entityMoved e w) = (if e_moved (w_eobj w e) then w_moved w else w_moved w @ [e])"
  by (auto simp: entityMoved_def grid_moved_def upd_entity_def Let_def)

lemma grid_moved_of:
  assumes "grid_of w E" and "(i, e) \<in> E"
  shows "grid_of (grid_moved e w) E"
    and "e_cell (w_eobj (grid_moved e w) e') = (if e' = e then cellOf (e_Pos (w_eobj w e)) else e_cell (w_eobj w e'))"
proof -
  note g = grid_ofD [OF assms(1)]
  have "grid_of (grid_insert e (grid_remove e w)) (insert (e_ID (w_eobj (grid_remove e w) e), e) (E - {(i, e)}))"
  proof (rule grid_insert_of [OF grid_remove_of [OF assms]])
    fix j e' assume j: "(j, e') \<in> E - {(i, e)}"
    then have "e' \<noteq> e" using g(5) [OF assms(2)] g(5) [of j e'] by auto
    then show "e' \<noteq> e \<and> j \<noteq> e_ID (w_eobj (grid_remove e w) e)"
      using g(5) [OF assms(2)] g(6) [OF assms(2), of e'] j by auto
  qed
  moreover have "insert (e_ID (w_eobj (grid_remove e w) e), e) (E - {(i, e)}) = E"
    using g(5) [OF assms(2)] assms(2) by auto
  ultimately show "grid_of (grid_moved e w) E" using assms(1) by (simp add: grid_moved_def)
  show "e_cell (w_eobj (grid_moved e w) e') = (if e' = e then cellOf (e_Pos (w_eobj w e)) else e_cell (w_eobj w e'))"
    by (auto simp: grid_moved_def)
qed

lemma grid_moved_fields [simp]:
  "w_entities (grid_moved e w) = w_entities w" "w_fresh (grid_moved e w) = w_fresh w"
  "e_ID (w_eobj (grid_moved e w) e') = e_ID (w_eobj w e')"
  "e_Pos (w_eobj (grid_moved e w) e') = e_Pos (w_eobj w e')"
  by (simp_all add: grid_moved_def)

lemma place_entity_ok:
  assumes "entities_ok w" and "(i, e) \<in> set (w_entities w)"
  shows "entities_ok (place_entity e p w)"
proof -
  note ok = entities_okD [OF assms(1)]
  let ?w1 = "upd_entity e (\<lambda>en. en\<lparr>e_Pos := p\<rparr>) w" and ?E = "set (w_entities w)"
  let ?w2 = "grid_moved e ?w1"
  have g1: "grid_of ?w1 ?E" using ok(1) by (subst grid_of_cong) (simp_all add: upd_entity_def)
  note m = grid_moved_of [OF g1 assms(2)]
  have pl: "w_grid (place_entity e p w) = w_grid ?w2"
    "e_cell (w_eobj (place_entity e p w) e') = e_cell (w_eobj ?w2 e')"
    "e_ID (w_eobj (place_entity e p w) e') = e_ID (w_eobj ?w2 e')"
    "w_entities (place_entity e p w) = w_entities w" "w_fresh (place_entity e p w) = w_fresh w"
    "e_Pos (w_eobj (place_entity e p w) e') = e_Pos (w_eobj ?w1 e')" for e'
    by (simp_all add: place_entity_def entityMoved_def Let_def upd_entity_def)
  have "grid_of (place_entity e p w) ?E" using m(1) by (subst grid_of_cong) (simp_all add: pl)
  moreover have "e_cell (w_eobj (place_entity e p w) e') = (if e' = e then cellOf p else e_cell (w_eobj w e'))" for e'
    unfolding pl m(2) by (simp add: upd_entity_def)
  ultimately show ?thesis
    using ok by (auto simp: entities_ok_def pl) (simp_all add: upd_entity_def)
qed

lemma removeEntity_ok:
  assumes "entities_ok w" and "(i, e) \<in> set (w_entities w)"
  shows "entities_ok (removeEntity e w)" "set (w_entities (removeEntity e w)) = set (w_entities w) - {(i, e)}"
proof -
  note ok = entities_okD [OF assms(1)]
  show es: "set (w_entities (removeEntity e w)) = set (w_entities w) - {(i, e)}"
    using ok(5) [OF assms(2)] assms(2) grid_ofD(6) [OF ok(1)]
    by (auto simp: removeEntity_def Let_def amap_set_del)
  have "grid_of (removeEntity e w) (set (w_entities w) - {(i, e)})"
    using grid_remove_of [OF ok(1) assms(2)] by (subst grid_of_cong) (simp_all add: removeEntity_def Let_def)
  moreover have "distinct (map fst (w_entities (removeEntity e w)))"
    using ok(2) by (simp add: removeEntity_def Let_def)
  moreover have "w_eobj (removeEntity e w) = w_eobj w" "w_fresh (removeEntity e w) = w_fresh w"
    by (simp_all add: removeEntity_def Let_def)
  ultimately show "entities_ok (removeEntity e w)"
    using ok(3,4) by (auto simp: entities_ok_def es)
qed

text \<open>A new entity is in the grid, as long as its ID is new.\<close>

lemma newEntity_ok:
  assumes "entities_ok w" and "w_nextID w + 1 \<notin> fst ` set (w_entities w)"
  shows "entities_ok (snd (newEntity k nm sp pos w))"
    and "set (w_entities (snd (newEntity k nm sp pos w))) = insert (w_nextID w + 1, w_fresh w) (set (w_entities w))"
    and "fst (newEntity k nm sp pos w) = w_fresh w"
proof -
  note ok = entities_okD [OF assms(1)]
  let ?e = "w_fresh w" and ?i = "w_nextID w + 1"
  let ?en = "\<lparr>e_ID = ?i, e_Kind = k, e_Name = nm, e_Char = [], e_Class = [], e_Sprite = sp, e_Pos = pos,
      e_Elo = 0, e_moved = False, e_eloChanged = False, e_cell = (0, 0)\<rparr>"
  define w1 where "w1 = w\<lparr>w_nextID := ?i, w_eobj := (w_eobj w)(?e := ?en), w_fresh := Suc ?e,
      w_entities := amap_put ?i ?e (w_entities w)\<rparr>"
  have new: "newEntity k nm sp pos w = (?e, grid_insert ?e w1)"
    by (simp add: newEntity_def Let_def w1_def)
  have old: "e \<noteq> ?e" "w_eobj w1 e = w_eobj w e" if "(i, e) \<in> set (w_entities w)" for i e
    using ok(4) [OF that] by (simp_all add: w1_def)
  have "grid_of w1 (set (w_entities w))"
    using ok(1) by (subst grid_of_cong) (simp_all add: w1_def old)
  moreover have "e' \<noteq> ?e \<and> i \<noteq> e_ID (w_eobj w1 ?e)" if "(i, e') \<in> set (w_entities w)" for i e'
    using ok(4) [OF that] assms(2) that by (auto simp: w1_def image_iff)
  ultimately have g: "grid_of (grid_insert ?e w1) (insert (?i, ?e) (set (w_entities w)))"
    using grid_insert_of [of w1 "set (w_entities w)" ?e] by (simp add: w1_def)
  have es: "set (amap_put ?i ?e (w_entities w)) = insert (?i, ?e) (set (w_entities w))"
    using ok(2) assms(2) by (auto simp: in_amap_put image_iff)
  show "set (w_entities (snd (newEntity k nm sp pos w))) = insert (?i, ?e) (set (w_entities w))"
    by (simp add: new) (simp add: w1_def es)
  show "fst (newEntity k nm sp pos w) = w_fresh w" by (simp add: new)
  let ?w2 = "grid_insert ?e w1"
  have w2: "w_entities ?w2 = amap_put ?i ?e (w_entities w)" "w_fresh ?w2 = Suc ?e" by (simp_all add: w1_def)
  have "e_cell (w_eobj ?w2 e) = cellOf (e_Pos (w_eobj ?w2 e)) \<and> e < Suc ?e"
    if "(i, e) \<in> insert (?i, ?e) (set (w_entities w))" for i e
  proof (cases "e = ?e")
    case False
    then have "(i, e) \<in> set (w_entities w)" using that by simp
    then show ?thesis using False ok(3,4) old(2) by (simp add: less_SucI)
  qed simp
  note cells = this
  show "entities_ok (snd (newEntity k nm sp pos w))"
    unfolding entities_ok_def new snd_conv w2 es
    by (intro conjI [OF g] conjI [OF amap_distinct_put [OF ok(2)]] allI impI cells)
qed

interpretation grid: spatial_index entities_ok "\<lambda>w. snd ` set (w_entities w)" "\<lambda>w e. e_Pos (w_eobj w e)"
  near place_entity removeEntity
proof unfold_locales
  fix w e p assume ok: "entities_ok w" and e: "e \<in> snd ` set (w_entities w)"
  then obtain i where i: "(i, e) \<in> set (w_entities w)" by auto
  have "w_eobj (removeEntity e w) = w_eobj w" by (simp add: removeEntity_def Let_def)
  moreover have "snd ` (set (w_entities w) - {(i, e)}) = snd ` set (w_entities w) - {e}"
  proof -
    have "j = i" if "(j, e) \<in> set (w_entities w)" for j
      using entities_okD(5) [OF ok that] entities_okD(5) [OF ok i] by simp
    then have "e' \<in> snd ` (set (w_entities w) - {(i, e)}) \<longleftrightarrow> e' \<in> snd ` set (w_entities w) \<and> e' \<noteq> e" for e'
      unfolding image_iff Bex_def using i by (metis Diff_iff insertE insertI1 prod.collapse snd_conv empty_iff)
    then show ?thesis by blast
  qed
  ultimately show "entities_ok (removeEntity e w) \<and>
      snd ` set (w_entities (removeEntity e w)) = snd ` set (w_entities w) - {e} \<and>
      (\<lambda>e'. e_Pos (w_eobj (removeEntity e w) e')) = (\<lambda>e. e_Pos (w_eobj w e))"
    using removeEntity_ok [OF ok i] by simp
  show "entities_ok (place_entity e p w) \<and> snd ` set (w_entities (place_entity e p w)) = snd ` set (w_entities w) \<and>
      (\<lambda>e'. e_Pos (w_eobj (place_entity e p w) e')) = (\<lambda>e. e_Pos (w_eobj w e))(e := p)"
    using place_entity_ok [OF ok i] by (auto simp: place_entity_def upd_entity_def fun_eq_iff)
qed (simp_all add: near_distinct near_set)

text \<open>Dividing into cells rounds down. The code's division corrects Go's truncation exactly for every
32-bit coordinate, negative ones too: it is the mathematical floor, and never overflows.\<close>

theorem floorDiv_is_floor:
  assumes "0 < sint b"
  shows "sint (floorDiv a b) = \<lfloor>real_of_int (sint a) / real_of_int (sint b)\<rfloor>"
  unfolding floorDiv_floor [OF assms] floor_divide_of_int_eq ..

theorem floorDiv_is_floor_witness: "sint (floorDiv (-1) cellSize) = \<lfloor>real_of_int (-1) / 1024\<rfloor>"
proof -
  have "sint cellSize = 1024" "sint (-1 :: i32) = -1" by (simp_all add: cellSize_def)
  then show ?thesis using floorDiv_is_floor [of cellSize "-1"] by simp
qed

end
