(* ===== verification/World.thy ===== *)
theory World
  imports Duel_Safety Grid
begin

text \<open>
  The world around the duels: joining and leaving (\<open>world.go\<close>), movement (\<open>movement.go\<close>),
  replication (\<open>replication.go\<close>), who is online (\<open>presence.go\<close>), profiles (\<open>profile.go\<close>), the
  map (\<open>worldmap.go\<close>) and one tick.
\<close>

section \<open>The map\<close>

definition inBounds :: "WorldMap \<Rightarrow> Vec \<Rightarrow> bool" where
  "inBounds m p \<longleftrightarrow> 0 \<le> sint (X p) \<and> 0 \<le> sint (Y p) \<and> sint (X p) \<le> sint (Width m) \<and>
     sint (Y p) \<le> sint (Height m)"

definition findInteractable :: "WorldMap \<Rightarrow> string \<Rightarrow> Interactable option" where
  "findInteractable m i = find (\<lambda>it. it_ID it = i) (Interactables m)"

definition max_i32 :: "i32 \<Rightarrow> i32 \<Rightarrow> i32" where
  "max_i32 a b = (if sint a < sint b then b else a)"

definition distToInteractable :: "Vec \<Rightarrow> Interactable \<Rightarrow> real" where
  "distToInteractable p it =
    (let dx = max_i32 (max_i32 (X (it_Pos it) - X p) 0) (X p - (X (it_Pos it) + it_W it));
         dy = max_i32 (max_i32 (Y (it_Pos it) - Y p) 0) (Y p - (Y (it_Pos it) + it_H it))
     in math_Hypot (of_int (sint dx)) (of_int (sint dy)))"

definition InRange :: "client \<Rightarrow> string \<Rightarrow> world \<Rightarrow> bool" where
  "InRange c i w =
    (case findInteractable (w_Map w) i of
      None \<Rightarrow> False
    | Some it \<Rightarrow>
       if it_Range it = 0 then True
       else (case map_of (w_players w) c of
              None \<Rightarrow> False
            | Some p \<Rightarrow> distToInteractable (e_Pos (ent_of w p)) it \<le> of_int (sint (it_Range it))))"

text \<open>What \<open>LoadMap\<close> checks of a decoded map file.\<close>

definition map_valid :: "WorldMap \<Rightarrow> bool" where
  "map_valid m \<longleftrightarrow> \<not> (sint (Width m) \<le> 0 \<or> sint (Height m) \<le> 0) \<and> inBounds m (Spawn m)"

section \<open>Movement\<close>

definition MoveSpeed :: real where "MoveSpeed = 450"
definition moveTolerance :: real where "moveTolerance = 5 / 4"
definition maxMoveBank :: real where "maxMoveBank = 1"

definition moveBudget_reset :: "gotime \<Rightarrow> player \<Rightarrow> player" where
  "moveBudget_reset now p =
     p\<lparr>p_budget := MoveSpeed * moveTolerance * maxMoveBank / 2, p_budgetAt := now\<rparr>"

definition spend :: "real \<Rightarrow> gotime \<Rightarrow> player \<Rightarrow> bool \<times> player" where
  "spend far now p =
    (let rate = MoveSpeed * moveTolerance;
         p = p\<lparr>p_budget := min (fmul rate maxMoveBank)
               (fadd (p_budget p) (fmul rate (duration_Seconds (now - p_budgetAt p))))\<rparr>;
         p = p\<lparr>p_budgetAt := now\<rparr>
     in if p_budget p < far then (False, p)
        else (True, p\<lparr>p_budget := fsub (p_budget p) far\<rparr>))"

definition Move :: "client \<Rightarrow> Vec \<Rightarrow> world \<Rightarrow> world" where
  "Move c pos w =
    (case map_of (w_players w) c of
      None \<Rightarrow> w
    | Some p \<Rightarrow>
       let e = p_ent (w_pobj w p); here = e_Pos (w_eobj w e) in
       if pos = here then w
       else
         let far = math_Hypot (of_int (sint (X pos - X here))) (of_int (sint (Y pos - Y here)));
             reject = (\<lambda>w. send c (ServerCorrection here) (w\<lparr>w_rejected := w_rejected w + 1\<rparr>)) in
         if \<not> inBounds (w_Map w) pos then reject w
         else
           let (ok, pl) = spend far (w_now w) (w_pobj w p);
               w = upd_player p (\<lambda>_. pl) w in
           if \<not> ok then reject w
           else entityMoved e (upd_entity e (\<lambda>en. en\<lparr>e_Pos := pos\<rparr>) w))"

section \<open>Who is online\<close>

definition ClaimOnline :: "int \<Rightarrow> world \<Rightarrow> bool \<times> world" where
  "ClaimOnline i w = (if i \<in> set (w_online w) then (False, w)
                      else (True, w\<lparr>w_online := i # w_online w\<rparr>))"

definition ReleaseOnline :: "int \<Rightarrow> world \<Rightarrow> world" where
  "ReleaseOnline i w = w\<lparr>w_online := filter (\<lambda>j. j \<noteq> i) (w_online w)\<rparr>"

definition IsOnline :: "int \<Rightarrow> world \<Rightarrow> bool" where
  "IsOnline i w \<longleftrightarrow> i \<in> set (w_online w)"

definition Count :: "world \<Rightarrow> int" where
  "Count w = int (length (w_online w))"

section \<open>Joining and leaving\<close>

definition TickRate :: int where "TickRate = 20"
definition spawnSpread :: i32 where "spawnSpread = 100"

definition clamp :: "i32 \<Rightarrow> i32 \<Rightarrow> i32 \<Rightarrow> i32" where
  "clamp v lo hi = (if sint v < sint lo then lo else if sint hi < sint v then hi else v)"

definition Int31n :: "i32 \<Rightarrow> rng \<Rightarrow> (i32 \<times> rng) option" where
  "Int31n n r = do { (k, r) \<leftarrow> Intn (sint n) r; Some (word_of_int k, r) }"

text \<open>A world with no one in it. The stores of pointers are blank.\<close>

definition blank_player :: player where
  "blank_player = \<lparr>p_client = 0, p_playerID = 0, p_charID = 0,
     p_rating = \<lparr>Elo = 0, Peak = 0, Games = 0, Wins = 0, Losses = 0, Draws = 0\<rparr>, p_ent = 0,
     p_known = [], p_budget = 0, p_budgetAt = 0, p_duel = None\<rparr>"

definition blank_entity :: Entity where
  "blank_entity = \<lparr>e_ID = 0, e_Kind = 0, e_Name = [], e_Char = [], e_Class = [], e_Sprite = [],
     e_Pos = \<lparr>X = 0, Y = 0\<rparr>, e_Elo = 0, e_moved = False, e_eloChanged = False, e_cell = (0, 0)\<rparr>"

definition NewWorld :: "WorldMap \<Rightarrow> gotime \<Rightarrow> rng \<Rightarrow> world" where
  "NewWorld m now r =
    \<lparr>w_Map = m, w_Duels = None, w_OnRanked = False, w_matches = [], w_Oracle = None, w_entities = [],
     w_eobj = (\<lambda>_. blank_entity), w_players = [], w_pobj = (\<lambda>_. blank_player), w_grid = [], w_nextID = 0,
     w_tick = 0, w_moved = [], w_eloChanged = [], w_challenges = [], w_nextChallenge = 0, w_duels = [],
     w_dobj = (\<lambda>_. new_duel 0 0 0 [] 0 False), w_praying = [], w_answered = [], w_nextPrayer = 0, w_now = now,
     w_rng = r, w_fate = None, w_online = [], w_rejected = 0, w_out = [], w_fresh = 0\<rparr>"

definition welcome_msg :: "int \<Rightarrow> string \<Rightarrow> Entity \<Rightarrow> Vec \<Rightarrow> WorldMap \<Rightarrow> CharacterInfo \<Rightarrow> Rating \<Rightarrow> Welcome" where
  "welcome_msg playerID username e spawn m ch rating =
    \<lparr>we_PlayerID = playerID, we_Username = username, we_EntityID = e_ID e, we_Pos = spawn, we_Map = m,
     we_MoveSpeed = MoveSpeed, we_TickRate = TickRate, we_Character = ch, we_Classes = Infos,
     we_Elo = Elo rating, we_Ladder = Ladder\<rparr>"

definition Join :: "client \<Rightarrow> int \<Rightarrow> string \<Rightarrow> CharacterInfo \<Rightarrow> Rating \<Rightarrow> world \<Rightarrow> world option" where
  "Join c playerID username ch rating w = do {
    let spawn = Spawn (w_Map w);
    (dx, r) \<leftarrow> Int31n (2 * spawnSpread + 1) (w_rng w);
    let spawn = spawn\<lparr>X := clamp (X spawn + dx - spawnSpread) 0 (Width (w_Map w))\<rparr>;
    (dy, r) \<leftarrow> Int31n (2 * spawnSpread + 1) r;
    let spawn = spawn\<lparr>Y := clamp (Y spawn + dy - spawnSpread) 0 (Height (w_Map w))\<rparr>;
    let w = set_rng r w;
    let (e, w) = newEntity EntityPlayer username (Sprite (chi_Class ch)) spawn w;
    let p = w_fresh w;
    let pl = moveBudget_reset (w_now w)
      \<lparr>p_client = c, p_playerID = playerID, p_charID = chi_ID ch, p_rating = rating, p_ent = e,
       p_known = [], p_budget = 0, p_budgetAt = 0, p_duel = None\<rparr>;
    let w = w\<lparr>w_pobj := (w_pobj w)(p := pl), w_fresh := Suc p\<rparr>;
    let w = upd_entity e (\<lambda>en. en\<lparr>e_Char := chi_Name ch, e_Class := chi_Class ch, e_Elo := Elo rating\<rparr>) w;
    let w = w\<lparr>w_players := amap_put c p (w_players w)\<rparr>;
    Some (send c (ServerWelcome (welcome_msg playerID username (w_eobj w e) spawn (w_Map w) ch rating)) w)
  }"

definition Leave :: "client \<Rightarrow> world \<Rightarrow> world" where
  "Leave c w =
    (case map_of (w_players w) c of
      None \<Rightarrow> w
    | Some p \<Rightarrow>
       let w = leaveDuels p w;
           w = removeEntity (p_ent (w_pobj w p)) w;
           w = w\<lparr>w_players := amap_del c (w_players w)\<rparr>
       in ReleaseOnline (p_playerID (w_pobj w p)) w)"

section \<open>Replication\<close>

definition no_update :: WorldUpdate where
  "no_update = \<lparr>wu_Spawn = [], wu_Move = [], wu_Despawn = [], wu_Elo = []\<rparr>"

text \<open>The callback of \<open>near\<close>: what a player is told about one entity in view.\<close>

definition see :: "world \<Rightarrow> pref \<Rightarrow> eref \<Rightarrow> WorldUpdate \<times> (EntityID \<times> 64 word) list \<Rightarrow>
    WorldUpdate \<times> (EntityID \<times> 64 word) list" where
  "see w p e = (\<lambda>(upd, known). let en = w_eobj w e in
     if e = p_ent (w_pobj w p) then (upd, known)
     else
       let upd = (if map_of known (e_ID en) = None
                  then upd\<lparr>wu_Spawn := wu_Spawn upd @ [spawnMsg en]\<rparr>
                  else
                    let upd = (if e_moved en
                               then upd\<lparr>wu_Move := wu_Move upd @ [\<lparr>em_ID = e_ID en, em_X = X (e_Pos en), em_Y = Y (e_Pos en)\<rparr>]\<rparr>
                               else upd)
                    in if e_eloChanged en
                       then upd\<lparr>wu_Elo := wu_Elo upd @ [\<lparr>ee_ID = e_ID en, ee_Elo = e_Elo en\<rparr>]\<rparr>
                       else upd)
       in (upd, amap_put (e_ID en) (w_tick w) known))"

text \<open>Known but not seen this tick: out of view or gone.\<close>

definition forget :: "64 word \<Rightarrow> WorldUpdate \<times> (EntityID \<times> 64 word) list \<Rightarrow>
    WorldUpdate \<times> (EntityID \<times> 64 word) list" where
  "forget tick = (\<lambda>(upd, known).
     (upd\<lparr>wu_Despawn := wu_Despawn upd @ map fst (filter (\<lambda>(i, seen). seen \<noteq> tick) known)\<rparr>,
      filter (\<lambda>(i, seen). seen = tick) known))"

definition player_update :: "world \<Rightarrow> pref \<Rightarrow> WorldUpdate \<times> (EntityID \<times> 64 word) list" where
  "player_update w p = forget (w_tick w)
     (fold (see w p) (near w (e_Pos (ent_of w p))) (no_update, p_known (w_pobj w p)))"

definition replicate_one :: "client \<times> pref \<Rightarrow> world \<Rightarrow> world" where
  "replicate_one = (\<lambda>(c, p) w.
     let (upd, known) = player_update w p;
         w = upd_player p (\<lambda>pl. pl\<lparr>p_known := known\<rparr>) w
     in if wu_Spawn upd = [] \<and> wu_Move upd = [] \<and> wu_Despawn upd = [] \<and> wu_Elo upd = [] then w
        else send (p_client (w_pobj w p)) (ServerWorld upd) w)"

definition clear_flags :: "world \<Rightarrow> world" where
  "clear_flags w =
    (let w = fold (\<lambda>e. upd_entity e (\<lambda>en. en\<lparr>e_moved := False\<rparr>)) (w_moved w) w;
         w = w\<lparr>w_moved := []\<rparr>;
         w = fold (\<lambda>e. upd_entity e (\<lambda>en. en\<lparr>e_eloChanged := False\<rparr>)) (w_eloChanged w) w
     in w\<lparr>w_eloChanged := []\<rparr>)"

definition replicate_world :: "world \<Rightarrow> world" where
  "replicate_world w = clear_flags (fold replicate_one (w_players w) w)"

section \<open>The tick\<close>

definition world_step :: "world \<Rightarrow> world option" where
  "world_step w = do {
    let w = w\<lparr>w_tick := w_tick w + 1\<rparr>;
    let w = expireChallenges w;
    w \<leftarrow> tickDuels w;
    Some (replicate_world w)
  }"

section \<open>Profiles\<close>

definition profileOf :: "client \<Rightarrow> EntityID \<Rightarrow> world \<Rightarrow> (Profile \<times> int) option" where
  "profileOf c target w = do {
    p \<leftarrow> map_of (w_players w) c;
    t \<leftarrow> (if target \<noteq> e_ID (ent_of w p) then
            if map_of (p_known (w_pobj w p)) target = None then None else playerByEntity w target
          else Some p);
    let r = p_rating (w_pobj w t);
    let e = ent_of w t;
    Some (\<lparr>pr_ID = e_ID e, pr_Name = e_Name e, pr_Char = e_Char e, pr_Class = e_Class e, pr_Elo = Elo r,
           pr_Peak = Peak r, pr_Games = Games r, pr_Wins = Wins r, pr_Losses = Losses r,
           pr_Draws = Draws r, pr_Recent = [],
           pr_Stakes = (if t \<noteq> p then Some (ranked_Stakes (p_rating (w_pobj w p)) r) else None)\<rparr>,
          p_charID (w_pobj w t))
  }"

definition Profile_of :: "(int \<Rightarrow> RankedMatchInfo list) option \<Rightarrow> client \<Rightarrow> EntityID \<Rightarrow> world \<Rightarrow> Profile option" where
  "Profile_of history c target w =
    (case profileOf c target w of
      None \<Rightarrow> None
    | Some (prof, charID) \<Rightarrow>
       Some (case history of None \<Rightarrow> prof | Some recent \<Rightarrow> prof\<lparr>pr_Recent := recent charID\<rparr>))"

end
