(* ===== verification/World_Roster.thy ===== *)
theory World_Roster
  imports World
begin

text \<open>
  Who is in the world and where: the entities are exactly the players' and the grid holds each in
  its cell, every player is on the map, IDs are never reused, and what has changed since the last
  tick is on the lists replication clears. Joining, leaving, moving, the duels and the tick keep it.
\<close>

section \<open>The invariant\<close>

definition roster_ok :: "world \<Rightarrow> bool" where
  "roster_ok w \<longleftrightarrow> entities_ok w \<and> flags_listed w \<and> map_valid (w_Map w) \<and>
     snd ` set (w_entities w) = (\<lambda>p. p_ent (w_pobj w p)) ` snd ` set (w_players w) \<and>
     (\<forall>i \<in> fst ` set (w_entities w). i \<le> w_nextID w) \<and>
     (\<forall>p \<in> snd ` set (w_players w). p < w_fresh w \<and> inBounds (w_Map w) (e_Pos (ent_of w p)) \<and>
        distinct (map fst (p_known (w_pobj w p))))"

definition sound :: "puzzle \<Rightarrow> nat \<Rightarrow> world \<Rightarrow> bool" where
  "sound P n w \<longleftrightarrow> world_ok P n w \<and> roster_ok w"

lemma roster_okD:
  assumes "roster_ok w"
  shows "entities_ok w" "flags_listed w" "map_valid (w_Map w)"
    "snd ` set (w_entities w) = (\<lambda>p. p_ent (w_pobj w p)) ` snd ` set (w_players w)"
    "i \<in> fst ` set (w_entities w) \<Longrightarrow> i \<le> w_nextID w"
    "p \<in> snd ` set (w_players w) \<Longrightarrow> p < w_fresh w"
    "p \<in> snd ` set (w_players w) \<Longrightarrow> inBounds (w_Map w) (e_Pos (ent_of w p))"
    "p \<in> snd ` set (w_players w) \<Longrightarrow> distinct (map fst (p_known (w_pobj w p)))"
  using assms unfolding roster_ok_def by blast+

lemma soundD: "sound P n w \<Longrightarrow> world_ok P n w" "sound P n w \<Longrightarrow> roster_ok w"
  by (simp_all add: sound_def)

text \<open>A player's entity is one of the world's.\<close>

lemma player_entity:
  assumes "roster_ok w" and "p \<in> snd ` set (w_players w)"
  shows "(e_ID (ent_of w p), p_ent (w_pobj w p)) \<in> set (w_entities w)"
proof -
  have "p_ent (w_pobj w p) \<in> snd ` set (w_entities w)" using roster_okD(4) [OF assms(1)] assms(2) by blast
  then obtain i where "(i, p_ent (w_pobj w p)) \<in> set (w_entities w)" by auto
  then show ?thesis using entities_okD(5) [OF roster_okD(1) [OF assms(1)]] by (simp add: ent_of_def)
qed

section \<open>What the duels leave alone\<close>

lemma entities_ok_cong:
  assumes "entities_ok w" and "w_grid w' = w_grid w" "w_entities w' = w_entities w" "w_fresh w \<le> w_fresh w'"
    and "\<And>e. e_ID (w_eobj w' e) = e_ID (w_eobj w e)" "\<And>e. e_cell (w_eobj w' e) = e_cell (w_eobj w e)"
    and "\<And>e. e_Pos (w_eobj w' e) = e_Pos (w_eobj w e)"
  shows "entities_ok w'"
proof -
  have "grid_of w' (set (w_entities w)) = grid_of w (set (w_entities w))"
    by (rule grid_of_cong) (simp_all add: assms)
  then show ?thesis using assms(1,4) unfolding entities_ok_def assms(3,5,6,7) by fastforce
qed

lemma roster_scene:
  assumes "roster_ok w" and "scene w w'"
  shows "roster_ok w'"
proof -
  note s = sceneD [OF assms(2)] and r = roster_okD [OF assms(1)]
  have e: "entities_ok w'"
    by (rule entities_ok_cong [OF r(1) s(5,3,11)]) (simp_all add: same_entityD [OF s(12)])
  have p: "p_ent (w_pobj w' p) = p_ent (w_pobj w p)" "p_known (w_pobj w' p) = p_known (w_pobj w p)" for p
    by (simp_all add: same_playerD [OF s(13)])
  have "e_Pos (ent_of w' p) = e_Pos (ent_of w p)" for p
    by (simp add: ent_of_def p same_entityD [OF s(12)])
  moreover have "p < w_fresh w'" if "p \<in> snd ` set (w_players w)" for p
    using r(6) [OF that] s(11) by (rule less_le_trans)
  ultimately show ?thesis
    using r e s(14) [OF r(2)] unfolding roster_ok_def s(1,3,4,6) p by simp
qed

lemma evolves_sound: "sound P n w \<Longrightarrow> evolves P n w w' \<Longrightarrow> sound P n w'"
  using roster_scene by (auto simp: sound_def evolves_def)

lemma runs_sound: "sound P n w \<Longrightarrow> runs m (evolves P n w) \<Longrightarrow> runs m (sound P n)"
  by (blast intro: runs_conseq evolves_sound)

text \<open>The duels are not touched by an operation that leaves these parts alone.\<close>

definition off_duels :: "world \<Rightarrow> world \<Rightarrow> bool" where
  "off_duels w w' \<longleftrightarrow> w_Duels w' = w_Duels w \<and> w_players w' = w_players w \<and> w_duels w' = w_duels w \<and>
     w_dobj w' = w_dobj w \<and> w_challenges w' = w_challenges w \<and> w_praying w' = w_praying w \<and>
     w_answered w' = w_answered w \<and> w_fresh w' = w_fresh w \<and> w_now w \<le> w_now w' \<and> w_matches w' = w_matches w \<and>
     (\<forall>p. p_client (w_pobj w' p) = p_client (w_pobj w p) \<and> p_rating (w_pobj w' p) = p_rating (w_pobj w p) \<and>
        p_ent (w_pobj w' p) = p_ent (w_pobj w p) \<and> p_duel (w_pobj w' p) = p_duel (w_pobj w p) \<and>
        p_playerID (w_pobj w' p) = p_playerID (w_pobj w p)) \<and>
     (\<forall>e. e_Elo (w_eobj w' e) = e_Elo (w_eobj w e))"

lemma off_duels_refl [simp]: "off_duels w w"
  by (simp add: off_duels_def)

lemma off_duels_trans: "off_duels w w' \<Longrightarrow> off_duels w' w'' \<Longrightarrow> off_duels w w''"
  by (simp add: off_duels_def)

lemma off_duels_world_ok:
  assumes "world_ok P n w" and "off_duels w w'"
  shows "world_ok P n w'"
proof -
  note o = assms(2) [unfolded off_duels_def]
  have s: "side w' = side w" using o by (simp add: side_def fun_eq_iff)
  have "players_ok w' = players_ok w" using o by (simp add: players_ok_def ent_of_def)
  moreover have "challenges_ok w'"
    using world_okD(4) [OF assms(1)] o by (fastforce simp: challenges_ok_def challenge_ok_def split_def)
  moreover have "dueling_ok w' = dueling_ok w" "prayers_ok w' = prayers_ok w"
    using o s by (simp_all add: dueling_ok_def prayers_ok_def)
  ultimately show ?thesis using assms(1) o by (simp add: world_ok_def)
qed

section \<open>Joining\<close>

lemma clamp_range: "sint lo \<le> sint hi \<Longrightarrow> sint lo \<le> sint (clamp v lo hi) \<and> sint (clamp v lo hi) \<le> sint hi"
  by (simp add: clamp_def)

text \<open>The new player and entity on the board, before the welcome.\<close>

definition joined :: "client \<Rightarrow> int \<Rightarrow> string \<Rightarrow> CharacterInfo \<Rightarrow> Rating \<Rightarrow> Vec \<Rightarrow> world \<Rightarrow> world" where
  "joined c playerID username ch rating spawn w =
    (let (e, w) = newEntity EntityPlayer username (Sprite (chi_Class ch)) spawn w;
         p = w_fresh w;
         pl = moveBudget_reset (w_now w)
           \<lparr>p_client = c, p_playerID = playerID, p_charID = chi_ID ch, p_rating = rating, p_ent = e,
            p_known = [], p_budget = 0, p_budgetAt = 0, p_duel = None\<rparr>;
         w = w\<lparr>w_pobj := (w_pobj w)(p := pl), w_fresh := Suc p\<rparr>;
         w = upd_entity e (\<lambda>en. en\<lparr>e_Char := chi_Name ch, e_Class := chi_Class ch, e_Elo := Elo rating\<rparr>) w
     in w\<lparr>w_players := amap_put c p (w_players w)\<rparr>)"

lemma Join_joined:
  assumes "map_valid (w_Map w)"
  shows "runs (Join c pid user ch rating w) (\<lambda>w'. \<exists>spawn r msg. inBounds (w_Map w) spawn \<and>
    w' = send c (ServerWelcome msg) (joined c pid user ch rating spawn (set_rng r w)))"
proof -
  have wh: "sint 0 \<le> sint (Width (w_Map w))" "sint 0 \<le> sint (Height (w_Map w))"
    using assms by (simp_all add: map_valid_def)
  have i31: "runs (Int31n (2 * spawnSpread + 1) r) Q \<longleftrightarrow>
      Q (word_of_int (int (draws r (drawn r)) mod 201), r\<lparr>drawn := Suc (drawn r)\<rparr>)" for r Q
    by (simp add: Int31n_def spawnSpread_def runs_Intn)
  have b: "inBounds (w_Map w) \<lparr>X = clamp x 0 (Width (w_Map w)), Y = clamp y 0 (Height (w_Map w))\<rparr>" for x y
    using clamp_range [OF wh(1), of x] clamp_range [OF wh(2), of y] by (simp add: inBounds_def)
  have s: "s\<lparr>X := x, Y := y\<rparr> = \<lparr>X = x, Y = y\<rparr>" for s :: Vec and x y by (cases s) simp
  show ?thesis
    unfolding Join_def Let_def runs_bind i31 prod.case
    by (simp add: joined_def Let_def split_beta s) (use b in blast)
qed

definition new_player :: "client \<Rightarrow> int \<Rightarrow> CharacterInfo \<Rightarrow> Rating \<Rightarrow> world \<Rightarrow> player" where
  "new_player c pid ch rating w = moveBudget_reset (w_now w)
     \<lparr>p_client = c, p_playerID = pid, p_charID = chi_ID ch, p_rating = rating, p_ent = w_fresh w,
      p_known = [], p_budget = 0, p_budgetAt = 0, p_duel = None\<rparr>"

lemma new_player_fields [simp]:
  "p_client (new_player c pid ch r w) = c" "p_playerID (new_player c pid ch r w) = pid"
  "p_rating (new_player c pid ch r w) = r" "p_ent (new_player c pid ch r w) = w_fresh w"
  "p_known (new_player c pid ch r w) = []" "p_duel (new_player c pid ch r w) = None"
  by (simp_all add: new_player_def moveBudget_reset_def)

lemma newEntity_fields:
  "fst (newEntity k nm sp pos w) = w_fresh w"
  "w_fresh (snd (newEntity k nm sp pos w)) = Suc (w_fresh w)"
  "e' \<noteq> w_fresh w \<Longrightarrow> w_eobj (snd (newEntity k nm sp pos w)) e' = w_eobj w e'"
  "e_Pos (w_eobj (snd (newEntity k nm sp pos w)) (w_fresh w)) = pos"
  "\<not> e_moved (w_eobj (snd (newEntity k nm sp pos w)) (w_fresh w))"
  "\<not> e_eloChanged (w_eobj (snd (newEntity k nm sp pos w)) (w_fresh w))"
  "w_Map (snd (newEntity k nm sp pos w)) = w_Map w" "w_Duels (snd (newEntity k nm sp pos w)) = w_Duels w"
  "w_players (snd (newEntity k nm sp pos w)) = w_players w" "w_pobj (snd (newEntity k nm sp pos w)) = w_pobj w"
  "w_nextID (snd (newEntity k nm sp pos w)) = w_nextID w + 1" "w_moved (snd (newEntity k nm sp pos w)) = w_moved w"
  "w_eloChanged (snd (newEntity k nm sp pos w)) = w_eloChanged w"
  "w_duels (snd (newEntity k nm sp pos w)) = w_duels w" "w_dobj (snd (newEntity k nm sp pos w)) = w_dobj w"
  "w_challenges (snd (newEntity k nm sp pos w)) = w_challenges w"
  "w_praying (snd (newEntity k nm sp pos w)) = w_praying w" "w_answered (snd (newEntity k nm sp pos w)) = w_answered w"
  "w_online (snd (newEntity k nm sp pos w)) = w_online w" "w_now (snd (newEntity k nm sp pos w)) = w_now w"
  "w_tick (snd (newEntity k nm sp pos w)) = w_tick w" "w_matches (snd (newEntity k nm sp pos w)) = w_matches w"
  by (simp_all add: newEntity_def Let_def) (simp_all add: grid_insert_def Let_def upd_entity_def)

text \<open>What is new after a join, and what is not.\<close>

lemma joined_fields:
  fixes w :: world
  defines "e \<equiv> w_fresh w" and "p \<equiv> Suc (w_fresh w)"
  shows "w_players (joined c pid user ch r sp w) = amap_put c p (w_players w)"
    "w_pobj (joined c pid user ch r sp w) = (w_pobj w)(p := new_player c pid ch r w)"
    "w_fresh (joined c pid user ch r sp w) = Suc p"
    "w_nextID (joined c pid user ch r sp w) = w_nextID w + 1"
    "e' \<noteq> e \<Longrightarrow> w_eobj (joined c pid user ch r sp w) e' = w_eobj w e'"
    "e_Pos (w_eobj (joined c pid user ch r sp w) e) = sp" "e_Elo (w_eobj (joined c pid user ch r sp w) e) = Elo r"
    "\<not> e_moved (w_eobj (joined c pid user ch r sp w) e)" "\<not> e_eloChanged (w_eobj (joined c pid user ch r sp w) e)"
    "w_Map (joined c pid user ch r sp w) = w_Map w" "w_Duels (joined c pid user ch r sp w) = w_Duels w"
    "w_moved (joined c pid user ch r sp w) = w_moved w" "w_eloChanged (joined c pid user ch r sp w) = w_eloChanged w"
    "w_duels (joined c pid user ch r sp w) = w_duels w" "w_dobj (joined c pid user ch r sp w) = w_dobj w"
    "w_challenges (joined c pid user ch r sp w) = w_challenges w"
    "w_praying (joined c pid user ch r sp w) = w_praying w" "w_answered (joined c pid user ch r sp w) = w_answered w"
    "w_online (joined c pid user ch r sp w) = w_online w" "w_tick (joined c pid user ch r sp w) = w_tick w"
    "side (joined c pid user ch r sp w) = side w" "w_now (joined c pid user ch r sp w) = w_now w"
    "w_matches (joined c pid user ch r sp w) = w_matches w"
  unfolding e_def p_def
  by (simp_all add: joined_def Let_def split_beta newEntity_fields upd_entity_def new_player_def side_def fun_eq_iff)

lemma joined_entities:
  assumes "entities_ok w" and "w_nextID w + 1 \<notin> fst ` set (w_entities w)"
  shows "entities_ok (joined c pid user ch r sp w)"
    and "set (w_entities (joined c pid user ch r sp w)) = insert (w_nextID w + 1, w_fresh w) (set (w_entities w))"
proof -
  let ?N = "snd (newEntity EntityPlayer user (Sprite (chi_Class ch)) sp w)"
  note N = newEntity_ok [OF assms, of EntityPlayer user "Sprite (chi_Class ch)" sp]
  show es: "set (w_entities (joined c pid user ch r sp w)) = insert (w_nextID w + 1, w_fresh w) (set (w_entities w))"
    using N(2) by (simp add: joined_def Let_def split_beta upd_entity_def)
  show "entities_ok (joined c pid user ch r sp w)"
    by (rule entities_ok_cong [OF N(1)])
      (simp_all add: joined_def Let_def split_beta upd_entity_def newEntity_fields(1,2))
qed

lemma id_fresh:
  assumes "roster_ok w" and "w_nextID w + 1 \<noteq> 0"
  shows "w_nextID w + 1 \<notin> fst ` set (w_entities w)"
proof
  assume "w_nextID w + 1 \<in> fst ` set (w_entities w)"
  then have "w_nextID w + 1 \<le> w_nextID w" by (rule roster_okD(5) [OF assms(1)])
  then show False
    using assms(2) unatSuc [of "w_nextID w"] by (simp add: word_le_nat_alt add.commute)
qed

lemma amap_put_new: "k \<notin> fst ` set m \<Longrightarrow> amap_put k v m = m @ [(k, v)]"
  by (induction k v m rule: amap_put.induct) auto

lemma joined_world_ok:
  assumes "sound P n w" and "rating_ok r" and "c \<notin> fst ` set (w_players w)"
  shows "world_ok P n (joined c pid user ch r sp w)"
proof -
  let ?w = "joined c pid user ch r sp w" and ?p = "Suc (w_fresh w)" and ?e = "w_fresh w"
  note ok = world_okD [OF soundD(1) [OF assms(1)]] and ro = roster_okD [OF soundD(2) [OF assms(1)]]
  note D = dueling_okD [OF ok(3)]
  note j = joined_fields [where c = c and pid = pid and user = user and ch = ch and r = r and sp = sp and w = w]
  have old: "p \<noteq> ?p" if "p \<in> snd ` set (w_players w)" for p using ro(6) [OF that] by simp
  have pe: "p_ent (w_pobj w p) \<noteq> ?e" if "p \<in> snd ` set (w_players w)" for p
    using entities_okD(4) [OF ro(1) player_entity [OF soundD(2) [OF assms(1)] that]] by simp
  have pl: "w_players ?w = w_players w @ [(c, ?p)]" by (simp add: j amap_put_new assms(3))
  have eo: "ent_of ?w p = ent_of w p" if "p \<in> snd ` set (w_players w)" for p
    using pe [OF that] old [OF that] by (simp add: ent_of_def j)
  have dist: "distinct (map (\<lambda>p. p_ent (w_pobj ?w p)) (map snd (w_players ?w)))"
  proof -
    have "map (\<lambda>p. p_ent (w_pobj ?w p)) (map snd (w_players w)) = map (\<lambda>p. p_ent (w_pobj w p)) (map snd (w_players w))" (is "?new = ?old")
      by (rule map_cong [OF refl]) (use old in \<open>simp add: j\<close>)
    then have "map (\<lambda>p. p_ent (w_pobj ?w p)) (map snd (w_players ?w)) = ?old @ [?e]"
      by (simp only: pl map_append) (simp add: j)
    moreover have "distinct ?old" using ok(2) by (simp add: players_ok_def)
    moreover have "?e \<notin> set ?old" using pe by force
    ultimately show ?thesis by (simp only:) simp
  qed
  have each: "p_client (w_pobj ?w p) = c' \<and> rating_ok (p_rating (w_pobj ?w p)) \<and>
      e_Elo (ent_of ?w p) = Elo (p_rating (w_pobj ?w p))" if "(c', p) \<in> set (w_players ?w)" for c' p
  proof (cases "p = ?p")
    case True
    then have "c' = c" using that old by (force simp: pl)
    then show ?thesis using True assms(2) by (simp add: j ent_of_def)
  next
    case False
    then have "(c', p) \<in> set (w_players w)" using that by (simp add: pl)
    then show ?thesis using False players_okD [OF ok(2), of c' p] eo [of p] by (force simp: j)
  qed
  have "distinct (map fst (w_players ?w))" "distinct (map snd (w_players ?w))"
    using ok(2) assms(3) old unfolding players_ok_def pl by auto
  moreover have "list_all saved_ok (w_matches ?w)" using ok(2) by (simp add: j players_ok_def)
  ultimately have "players_ok ?w" unfolding players_ok_def using dist each by auto
  moreover have "dueling_ok ?w"
    unfolding dueling_ok_def j(14,21)
  proof (intro conjI ballI allI impI)
    fix d i assume d: "d \<in> set (w_duels w)"
    show "d < w_fresh ?w" using D(2) [OF d] by (simp add: j)
    show "side_p (side w d i) \<in> snd ` set (w_players ?w)" using D(3) [OF d, of i] by (auto simp: pl)
    show "p_duel (w_pobj ?w (side_p (side w d i))) = Some d"
      using D(4) [OF d, of i] old [OF D(3) [OF d, of i]] by (simp add: j)
  next
    fix p d assume "p_duel (w_pobj ?w p) = Some d"
    then have "p_duel (w_pobj w p) = Some d" by (simp add: j split: if_splits)
    then show "d \<in> set (w_duels w)" "\<exists>i. side_p (side w d i) = p" by (rule D(5), rule D(6))
  qed (rule D(1))
  moreover have "challenge_ok ?w e" if "e \<in> set (w_challenges w)" for e
  proof -
    have "challenge_ok w e" using ok(4) that by (simp add: challenges_ok_def)
    then show ?thesis using old unfolding challenge_ok_def pl by (auto simp: j)
  qed
  moreover have "prayers_ok ?w" using ok(5) by (simp add: prayers_ok_def j)
  ultimately show ?thesis using ok by (simp add: world_ok_def challenges_ok_def j)
qed

lemma joined_roster_ok:
  assumes "roster_ok w" and "c \<notin> fst ` set (w_players w)" and "w_nextID w + 1 \<noteq> 0" and "inBounds (w_Map w) sp"
  shows "roster_ok (joined c pid user ch r sp w)"
proof -
  let ?w = "joined c pid user ch r sp w" and ?p = "Suc (w_fresh w)" and ?e = "w_fresh w"
  note ro = roster_okD [OF assms(1)]
  note j = joined_fields [where c = c and pid = pid and user = user and ch = ch and r = r and sp = sp and w = w]
  note en = joined_entities [OF ro(1) id_fresh [OF assms(1,3)], where c = c and pid = pid and user = user and ch = ch and r = r and sp = sp]
  have old: "p \<noteq> ?p" "p \<noteq> ?e" if "p \<in> snd ` set (w_players w)" for p using ro(6) [OF that] by simp_all
  have pe: "p_ent (w_pobj w p) \<noteq> ?e" if "p \<in> snd ` set (w_players w)" for p
    using entities_okD(4) [OF ro(1) player_entity [OF assms(1) that]] by simp
  have pl: "set (w_players ?w) = insert (c, ?p) (set (w_players w))"
    by (simp add: j amap_put_new assms(2))
  have "w_nextID w \<le> w_nextID w + 1"
    using assms(3) unatSuc [of "w_nextID w"] by (simp add: word_le_nat_alt add.commute)
  then have ids: "i \<le> w_nextID ?w" if "i \<in> fst ` set (w_entities ?w)" for i
    using that ro(5) [of i] by (auto simp: en(2) j image_iff intro: order_trans)
  have "snd ` set (w_entities ?w) = insert ?e ((\<lambda>p. p_ent (w_pobj w p)) ` snd ` set (w_players w))"
    by (simp add: en(2) ro(4))
  also have "\<dots> = (\<lambda>p. p_ent (w_pobj ?w p)) ` snd ` set (w_players ?w)"
    unfolding pl using old by (auto simp: j image_iff; force)
  finally have ents: "snd ` set (w_entities ?w) = (\<lambda>p. p_ent (w_pobj ?w p)) ` snd ` set (w_players ?w)" .
  have fl: "flags_listed ?w"
    using ro(2) j(5,8,9) unfolding flags_listed_def j(12,13) by metis
  have "p < w_fresh ?w \<and> inBounds (w_Map ?w) (e_Pos (ent_of ?w p)) \<and> distinct (map fst (p_known (w_pobj ?w p)))"
    if "p \<in> snd ` set (w_players ?w)" for p
  proof (cases "p = ?p")
    case False
    then have p: "p \<in> snd ` set (w_players w)" using that by (auto simp: pl)
    then show ?thesis using False pe [OF p] ro(6-8) [OF p] by (simp add: j ent_of_def)
  qed (use assms(4) in \<open>simp add: j ent_of_def\<close>)
  then show ?thesis
    unfolding roster_ok_def using en(1) fl ids ents ro(3) by (simp add: j(10))
qed

lemma off_duels_simps [simp]:
  "off_duels w (send c m w)" "off_duels w (set_rng r w)"
  by (simp_all add: off_duels_def send_def set_rng_def)

lemma roster_send [simp]: "roster_ok (send c m w) = roster_ok w" "roster_ok (set_rng r w) = roster_ok w"
  by (simp_all add: roster_ok_def entities_ok_def grid_of_def cell_at_def flags_listed_def ent_of_def send_def set_rng_def)

lemma sound_send [simp]: "sound P n (send c m w) = sound P n w" "sound P n (set_rng r w) = sound P n w"
proof -
  have 1: "world_ok P n (send c m w) = world_ok P n w"
    unfolding world_ok_def players_ok_def dueling_ok_def challenges_ok_def challenge_ok_def prayers_ok_def
    by (simp add: send_def side_def ent_of_def)
  have 2: "world_ok P n (set_rng r w) = world_ok P n w"
    unfolding world_ok_def players_ok_def dueling_ok_def challenges_ok_def challenge_ok_def prayers_ok_def
    by (simp add: set_rng_def side_def ent_of_def)
  show "sound P n (send c m w) = sound P n w" "sound P n (set_rng r w) = sound P n w"
    by (simp_all add: sound_def 1 2)
qed

text \<open>Who plays in the world: connections and their accounts.\<close>

definition accounts :: "world \<Rightarrow> (client \<times> int) list" where
  "accounts w = map (\<lambda>(c, p). (c, p_playerID (w_pobj w p))) (w_players w)"

lemma accounts_clients [simp]: "map fst (accounts w) = map fst (w_players w)"
  by (simp add: accounts_def split_def o_def)

lemma accounts_scene: "scene w w' \<Longrightarrow> accounts w' = accounts w"
  by (simp add: accounts_def sceneD(4) same_playerD [OF sceneD(13)])

lemma accounts_off: "off_duels w w' \<Longrightarrow> accounts w' = accounts w"
  by (simp add: accounts_def off_duels_def)

lemma Join_sound:
  assumes ok: "sound P n w" and "rating_ok r" and c: "c \<notin> fst ` set (w_players w)" and "w_nextID w + 1 \<noteq> 0"
  shows "runs (Join c pid user ch r w) (\<lambda>w'. sound P n w' \<and> accounts w' = accounts w @ [(c, pid)] \<and>
    w_online w' = w_online w)"
proof (rule runs_conseq [OF Join_joined [OF roster_okD(3) [OF soundD(2) [OF ok]]]])
  fix w' assume "\<exists>spawn rn msg. inBounds (w_Map w) spawn \<and>
    w' = send c (ServerWelcome msg) (joined c pid user ch r spawn (set_rng rn w))"
  then obtain sp rn msg where sp: "inBounds (w_Map w) sp"
    and w': "w' = send c (ServerWelcome msg) (joined c pid user ch r sp (set_rng rn w))" by blast
  let ?w = "set_rng rn w"
  have f: "w_players ?w = w_players w" "w_nextID ?w = w_nextID w" "w_Map ?w = w_Map w" "w_pobj ?w = w_pobj w"
    "w_online ?w = w_online w" "w_fresh ?w = w_fresh w" by (simp_all add: set_rng_def)
  have ok': "sound P n ?w" using ok by simp
  have new: "p \<noteq> Suc (w_fresh w)" if "(c', p) \<in> set (w_players w)" for c' p
    using roster_okD(6) [OF soundD(2) [OF ok], of p] that by force
  have "sound P n (joined c pid user ch r sp ?w)"
    unfolding sound_def
    by (intro conjI joined_world_ok [OF ok' assms(2)] joined_roster_ok [OF soundD(2) [OF ok']])
      (simp_all add: f c assms(4) sp)
  then have "sound P n w'" by (simp add: w')
  moreover have "accounts w' = accounts w @ [(c, pid)]"
    using new unfolding w' accounts_off [OF off_duels_simps(1)]
    by (auto simp: accounts_def joined_fields(1,2) f amap_put_new [OF c])
  ultimately show "sound P n w' \<and> accounts w' = accounts w @ [(c, pid)] \<and> w_online w' = w_online w"
    by (simp add: w' send_def joined_fields(19) f)
qed

section \<open>Leaving\<close>

lemma leaveDuels_free:
  assumes "world_ok P n w"
  shows "p_duel (w_pobj (leaveDuels p w) p) = None"
    and "e \<in> set (w_challenges (leaveDuels p w)) \<Longrightarrow> \<not> involves p e"
proof -
  let ?w1 = "case p_duel (w_pobj w p) of None \<Rightarrow> w
    | Some d \<Rightarrow> endDuel d (Some (snd (sidesOf w d p))) DuelDisconnect w"
  have "p_duel (w_pobj ?w1 p) = None"
    using dueling_okD(6) [OF world_okD(3) [OF assms]] by (auto split: option.splits)
  then show "p_duel (w_pobj (leaveDuels p w) p) = None"
    by (simp add: leaveDuels_def lobbyD(6) [OF cancelChallenges_effect(1)])
  have "w_challenges ?w1 = w_challenges w" by (simp split: option.splits)
  then have "distinct (map fst (w_challenges ?w1))" using ids_distinct [OF assms] by simp
  then show "e \<in> set (w_challenges (leaveDuels p w)) \<Longrightarrow> \<not> involves p e"
    by (simp add: leaveDuels_def cancelChallenges_effect(2))
qed

lemma removeEntity_players [simp]:
  "w_players (removeEntity e w) = w_players w" "w_pobj (removeEntity e w) = w_pobj w"
  by (simp_all add: removeEntity_def grid_remove_def Let_def)

text \<open>Taking a free player off the board.\<close>

definition departed :: "client \<Rightarrow> pref \<Rightarrow> world \<Rightarrow> world" where
  "departed c p w = (removeEntity (p_ent (w_pobj w p)) w)\<lparr>w_players := amap_del c (w_players w)\<rparr>"

lemma departed_fields:
  "w_players (departed c p w) = amap_del c (w_players w)" "w_pobj (departed c p w) = w_pobj w"
  "w_eobj (departed c p w) = w_eobj w" "w_fresh (departed c p w) = w_fresh w" "w_Map (departed c p w) = w_Map w"
  "w_Duels (departed c p w) = w_Duels w" "w_duels (departed c p w) = w_duels w" "w_dobj (departed c p w) = w_dobj w"
  "w_challenges (departed c p w) = w_challenges w" "w_praying (departed c p w) = w_praying w"
  "w_answered (departed c p w) = w_answered w" "w_nextID (departed c p w) = w_nextID w"
  "w_online (departed c p w) = w_online w" "w_moved (departed c p w) = w_moved w"
  "w_eloChanged (departed c p w) = w_eloChanged w" "side (departed c p w) = side w" "ent_of (departed c p w) = ent_of w"
  "w_entities (departed c p w) = w_entities (removeEntity (p_ent (w_pobj w p)) w)"
  "w_grid (departed c p w) = w_grid (removeEntity (p_ent (w_pobj w p)) w)" "w_now (departed c p w) = w_now w"
  "w_matches (departed c p w) = w_matches w"
  by (simp_all add: departed_def side_def ent_of_def fun_eq_iff)
    (simp_all add: removeEntity_def Let_def grid_remove_def)

lemma departed_players:
  assumes "distinct (map fst (w_players w))" and "distinct (map snd (w_players w))" and "(c, p) \<in> set (w_players w)"
  shows "snd ` set (amap_del c (w_players w)) = snd ` set (w_players w) - {p}"
proof -
  have "c' = c \<longleftrightarrow> q = p" if "(c', q) \<in> set (w_players w)" for c' q
    using that assms by (metis eq_key_imp_eq_value fst_conv snd_conv inj_onD distinct_map prod.inject)
  then show ?thesis by (force simp: amap_set_del image_iff)
qed

lemma departed_sound:
  assumes ok: "sound P n w" and cp: "(c, p) \<in> set (w_players w)" and free: "p_duel (w_pobj w p) = None"
    and ch: "\<And>e. e \<in> set (w_challenges w) \<Longrightarrow> \<not> involves p e"
  shows "sound P n (departed c p w)"
proof -
  let ?w = "departed c p w" and ?e = "p_ent (w_pobj w p)"
  note wo = world_okD [OF soundD(1) [OF ok]] and ro = roster_okD [OF soundD(2) [OF ok]]
  note f = departed_fields [where c = c and p = p and w = w]
  have dist: "distinct (map fst (w_players w))" "distinct (map snd (w_players w))"
    "distinct (map (\<lambda>p. p_ent (w_pobj w p)) (map snd (w_players w)))"
    using wo(2) by (simp_all add: players_ok_def)
  note pl = departed_players [OF dist(1,2) cp]
  have pin: "p \<in> snd ` set (w_players w)" using cp by force
  have ent: "(e_ID (ent_of w p), ?e) \<in> set (w_entities w)" by (rule player_entity [OF soundD(2) [OF ok] pin])
  have sub: "set (amap_del c (w_players w)) \<subseteq> set (w_players w)" by (auto simp: amap_set_del)
  have "players_ok ?w"
    using wo(2) sub unfolding players_ok_def f amap_del_def
    by (auto simp: distinct_map_filter inj_on_def distinct_map)
  moreover have "dueling_ok ?w"
    using wo(3) dueling_okD(4) [OF wo(3)] free unfolding dueling_ok_def f pl by fastforce
  moreover have "challenge_ok ?w e" if "e \<in> set (w_challenges w)" for e
    using wo(4) that ch [OF that] unfolding challenges_ok_def challenge_ok_def f pl by (auto simp: involves_def)
  moreover have "prayers_ok ?w" using wo(5) by (simp add: prayers_ok_def f)
  ultimately have 1: "world_ok P n ?w" using wo by (simp add: world_ok_def challenges_ok_def f)
  note rem = removeEntity_ok [OF ro(1) ent]
  have es: "set (w_entities ?w) = set (w_entities w) - {(e_ID (ent_of w p), ?e)}" by (simp add: f rem(2))
  have "entities_ok ?w"
    by (rule entities_ok_cong [OF rem(1)]) (simp_all add: f removeEntity_def Let_def)
  moreover have "flags_listed ?w" using ro(2) by (simp add: flags_listed_def f)
  moreover have "snd ` set (w_entities ?w) = (\<lambda>q. p_ent (w_pobj ?w q)) ` snd ` set (w_players ?w)"
  proof -
    have "j = e_ID (ent_of w p)" if "(j, ?e) \<in> set (w_entities w)" for j
      using entities_okD(5) [OF ro(1) that] by (simp add: ent_of_def)
    then have "snd ` set (w_entities ?w) = snd ` set (w_entities w) - {?e}"
      unfolding es by (force simp: image_iff)
    also have "\<dots> = (\<lambda>q. p_ent (w_pobj w q)) ` (snd ` set (w_players w) - {p})"
    proof -
      have "inj_on (\<lambda>q. p_ent (w_pobj w q)) (snd ` set (w_players w))"
        using distinct_map [THEN iffD1, OF dist(3)] by simp
      then show ?thesis using pin unfolding ro(4) by (subst inj_on_image_set_diff) auto
    qed
    finally show ?thesis by (simp add: f pl)
  qed
  moreover have "\<forall>i \<in> fst ` set (w_entities ?w). i \<le> w_nextID ?w"
    using ro(5) unfolding es f(12) by auto
  moreover have "\<forall>q \<in> snd ` set (w_players ?w). q < w_fresh ?w \<and> inBounds (w_Map ?w) (e_Pos (ent_of ?w q)) \<and>
      distinct (map fst (p_known (w_pobj ?w q)))"
    using ro(6-8) unfolding f(1,2,4,5,17) pl by simp
  moreover have "map_valid (w_Map ?w)" using ro(3) by (simp add: f)
  ultimately have "roster_ok ?w" unfolding roster_ok_def by (intro conjI)
  then show ?thesis using 1 by (simp add: sound_def)
qed

lemma Leave_sound:
  assumes ok: "sound P n w"
  shows "sound P n (Leave c w)"
    and "accounts (Leave c w) = filter (\<lambda>a. fst a \<noteq> c) (accounts w)"
    and "set (w_online (Leave c w)) = set (w_online w) - {i. (c, i) \<in> set (accounts w)}"
    and "distinct (w_online w) \<Longrightarrow> distinct (w_online (Leave c w))"
proof -
  have dist: "distinct (map fst (w_players w))" "distinct (map snd (w_players w))"
    using world_okD(2) [OF soundD(1) [OF ok]] by (simp_all add: players_ok_def)
  have all: "sound P n (Leave c w) \<and> accounts (Leave c w) = filter (\<lambda>a. fst a \<noteq> c) (accounts w) \<and>
    set (w_online (Leave c w)) = set (w_online w) - {i. (c, i) \<in> set (accounts w)} \<and>
    (distinct (w_online w) \<longrightarrow> distinct (w_online (Leave c w)))"
  proof (cases "map_of (w_players w) c")
    case None
    then have "c \<notin> fst ` set (accounts w)"
      using accounts_clients [of w] by (metis list.set_map map_of_eq_None_iff)
    then have "filter (\<lambda>a. fst a \<noteq> c) (accounts w) = accounts w" "{i. (c, i) \<in> set (accounts w)} = {}"
      by (force intro: filter_True)+
    then show ?thesis using None ok by (simp add: Leave_def)
  next
    case (Some p)
    let ?w1 = "leaveDuels p w"
    have cp: "(c, p) \<in> set (w_players w)" using Some by (rule map_of_SomeD)
    have ev: "evolves P n w ?w1" by (rule leaveDuels_evolves [OF soundD(1) [OF ok]])
    note sc = evolvesD(2) [OF ev] and ok1 = evolves_sound [OF ok ev] and free = leaveDuels_free [OF soundD(1) [OF ok]]
    have d: "sound P n (departed c p ?w1)"
      by (rule departed_sound [OF ok1 _ free]) (simp_all add: sceneD(4) [OF sc] cp)
    have L: "Leave c w = ReleaseOnline (p_playerID (w_pobj w p)) (departed c p ?w1)"
      using Some by (simp add: Leave_def Let_def departed_def same_playerD(2) [OF sceneD(13) [OF sc]])
    have rel: "sound P n (ReleaseOnline i v) = sound P n v" "accounts (ReleaseOnline i v) = accounts v" for i v
      unfolding sound_def world_ok_def players_ok_def dueling_ok_def challenges_ok_def challenge_ok_def prayers_ok_def
        roster_ok_def entities_ok_def grid_of_def cell_at_def flags_listed_def accounts_def
      by (simp_all add: ReleaseOnline_def side_def ent_of_def)
    have acc: "accounts (departed c p ?w1) = filter (\<lambda>a. fst a \<noteq> c) (accounts w)"
      by (simp add: accounts_def departed_fields amap_del_def filter_map o_def split_def
          sceneD(4) [OF sc] same_playerD(2) [OF sceneD(13) [OF sc]])
    have "{i. (c, i) \<in> set (accounts w)} = {p_playerID (w_pobj w p)}"
      using cp eq_key_imp_eq_value [OF dist(1)] by (auto simp: accounts_def)
    then have "set (w_online (Leave c w)) = set (w_online w) - {i. (c, i) \<in> set (accounts w)}"
      by (auto simp: L ReleaseOnline_def departed_fields sceneD(9) [OF sc])
    then show ?thesis
      using d acc by (simp add: L rel) (simp add: ReleaseOnline_def departed_fields sceneD(9) [OF sc])
  qed
  from all show "sound P n (Leave c w)" "accounts (Leave c w) = filter (\<lambda>a. fst a \<noteq> c) (accounts w)"
    "set (w_online (Leave c w)) = set (w_online w) - {i. (c, i) \<in> set (accounts w)}"
    "distinct (w_online w) \<Longrightarrow> distinct (w_online (Leave c w))" by blast+
qed

section \<open>Moving\<close>

lemma spend_fields [simp]:
  "p_client (snd (spend far now p)) = p_client p" "p_playerID (snd (spend far now p)) = p_playerID p"
  "p_charID (snd (spend far now p)) = p_charID p" "p_rating (snd (spend far now p)) = p_rating p"
  "p_ent (snd (spend far now p)) = p_ent p" "p_known (snd (spend far now p)) = p_known p"
  "p_duel (snd (spend far now p)) = p_duel p"
  by (simp_all add: spend_def Let_def)

text \<open>What a player may move now: up to a second's worth.\<close>

definition allowance :: "gotime \<Rightarrow> player \<Rightarrow> real" where
  "allowance now p = min (fmul (MoveSpeed * moveTolerance) maxMoveBank)
     (fadd (p_budget p) (fmul (MoveSpeed * moveTolerance) (duration_Seconds (now - p_budgetAt p))))"

lemma spend_allowance:
  "fst (spend far now p) \<longleftrightarrow> far \<le> allowance now p"
  "far \<le> allowance now p \<Longrightarrow> p_budget (snd (spend far now p)) = fsub (allowance now p) far"
  by (simp_all add: spend_def allowance_def [symmetric] Let_def not_less)

lemma allowance_le: "allowance now p \<le> 1125 / 2"
proof -
  have "fmul (MoveSpeed * moveTolerance) maxMoveBank = 1125 / 2"
    using fl64_exact [of 1125 "-1"] by (simp add: fmul_def MoveSpeed_def moveTolerance_def maxMoveBank_def powr_minus)
  then show ?thesis by (simp add: allowance_def)
qed

lemma place_entity_pos:
  "e_Pos (w_eobj (place_entity e p w) e') = (if e' = e then p else e_Pos (w_eobj w e'))"
  "w_pobj (place_entity e p w) = w_pobj w"
  by (simp_all add: place_entity_def entityMoved_def grid_moved_def grid_insert_def grid_remove_def upd_entity_def Let_def)

lemma entityMoved_frame [simp]:
  "w_matches (entityMoved e w) = w_matches w"
  "w_Map (entityMoved e w) = w_Map w" "w_Duels (entityMoved e w) = w_Duels w"
  "w_players (entityMoved e w) = w_players w" "w_pobj (entityMoved e w) = w_pobj w"
  "w_duels (entityMoved e w) = w_duels w" "w_dobj (entityMoved e w) = w_dobj w"
  "w_challenges (entityMoved e w) = w_challenges w" "w_praying (entityMoved e w) = w_praying w"
  "w_answered (entityMoved e w) = w_answered w" "w_nextID (entityMoved e w) = w_nextID w"
  "w_online (entityMoved e w) = w_online w" "w_eloChanged (entityMoved e w) = w_eloChanged w"
  "w_tick (entityMoved e w) = w_tick w" "w_out (entityMoved e w) = w_out w"
  "w_now (entityMoved e w) = w_now w"
  by (simp_all add: entityMoved_def grid_moved_def grid_insert_def grid_remove_def upd_entity_def Let_def)

text \<open>The three ways a move ends.\<close>

lemma Move_cases:
  obtains (stayed) "Move c pos w = w"
  | (refused) p pl k where "map_of (w_players w) c = Some p" "pl = w_pobj w p \<or> (\<exists>far now. pl = snd (spend far now (w_pobj w p)))"
      "Move c pos w = send c (ServerCorrection (e_Pos (ent_of w p))) ((upd_player p (\<lambda>_. pl) w)\<lparr>w_rejected := k\<rparr>)"
  | (moved) p far where "map_of (w_players w) c = Some p" "inBounds (w_Map w) pos" "fst (spend far (w_now w) (w_pobj w p))"
      "far = math_Hypot (of_int (sint (X pos - X (e_Pos (ent_of w p))))) (of_int (sint (Y pos - Y (e_Pos (ent_of w p)))))"
      "Move c pos w = place_entity (p_ent (w_pobj w p)) pos (upd_player p (\<lambda>_. snd (spend far (w_now w) (w_pobj w p))) w)"
proof (cases "map_of (w_players w) c")
  case None
  then show ?thesis using stayed by (simp add: Move_def)
next
  case (Some p)
  let ?here = "e_Pos (ent_of w p)"
  define far where "far = math_Hypot (of_int (sint (X pos - X ?here))) (of_int (sint (Y pos - Y ?here)))"
  define sp where "sp = spend far (w_now w) (w_pobj w p)"
  have id: "upd_player p (\<lambda>_. w_pobj w p) w = w" by (simp add: upd_player_def)
  consider "pos = ?here" | "pos \<noteq> ?here" "\<not> inBounds (w_Map w) pos"
    | "pos \<noteq> ?here" "inBounds (w_Map w) pos" "\<not> fst sp" | "pos \<noteq> ?here" "inBounds (w_Map w) pos" "fst sp" by blast
  then show ?thesis
  proof cases
    case 1
    then show ?thesis using stayed Some by (simp add: Move_def ent_of_def)
  next
    case 2
    then have "Move c pos w = send c (ServerCorrection ?here) ((upd_player p (\<lambda>_. w_pobj w p) w)\<lparr>w_rejected := w_rejected w + 1\<rparr>)"
      unfolding id using Some by (simp add: Move_def ent_of_def Let_def)
    then show ?thesis using refused [OF Some, of "w_pobj w p"] by simp
  next
    case 3
    then have "Move c pos w = send c (ServerCorrection ?here) ((upd_player p (\<lambda>_. snd sp) w)\<lparr>w_rejected := w_rejected w + 1\<rparr>)"
      using Some by (simp add: Move_def ent_of_def Let_def far_def sp_def split_beta upd_player_def)
    then show ?thesis using refused [OF Some, of "snd sp"] sp_def by blast
  next
    case 4
    then have "Move c pos w = place_entity (p_ent (w_pobj w p)) pos (upd_player p (\<lambda>_. snd sp) w)"
      using Some by (simp add: Move_def ent_of_def Let_def far_def sp_def split_beta place_entity_def)
    then show ?thesis using moved [OF Some] 4 far_def sp_def by simp
  qed
qed

text \<open>Only the allowance of a player, or where their entity is.\<close>

lemma upd_budget:
  assumes "pl = w_pobj w p \<or> (\<exists>far now. pl = snd (spend far now (w_pobj w p)))"
  shows "off_duels w (upd_player p (\<lambda>_. pl) w)" "roster_ok (upd_player p (\<lambda>_. pl) w) = roster_ok w"
    "p_ent pl = p_ent (w_pobj w p)" "p_known pl = p_known (w_pobj w p)"
proof -
  have f: "p_client pl = p_client (w_pobj w p)" "p_playerID pl = p_playerID (w_pobj w p)"
    "p_rating pl = p_rating (w_pobj w p)" "p_duel pl = p_duel (w_pobj w p)"
    "p_ent pl = p_ent (w_pobj w p)" "p_known pl = p_known (w_pobj w p)"
    using assms by auto
  show "off_duels w (upd_player p (\<lambda>_. pl) w)" by (simp add: off_duels_def upd_player_def f)
  have "p_ent (w_pobj (upd_player p (\<lambda>_. pl) w) q) = p_ent (w_pobj w q)"
    "p_known (w_pobj (upd_player p (\<lambda>_. pl) w) q) = p_known (w_pobj w q)" for q
    by (simp_all add: upd_player_def f)
  then show "roster_ok (upd_player p (\<lambda>_. pl) w) = roster_ok w"
    unfolding roster_ok_def entities_ok_def grid_of_def cell_at_def flags_listed_def ent_of_def
    by (simp add: upd_player_def)
  show "p_ent pl = p_ent (w_pobj w p)" "p_known pl = p_known (w_pobj w p)" by (rule f)+
qed

lemma place_entity_fields [simp]:
  "w_Map (place_entity e pos w) = w_Map w" "w_players (place_entity e pos w) = w_players w"
  "w_pobj (place_entity e pos w) = w_pobj w" "w_nextID (place_entity e pos w) = w_nextID w"
  "w_entities (place_entity e pos w) = w_entities w" "w_fresh (place_entity e pos w) = w_fresh w"
  "w_eloChanged (place_entity e pos w) = w_eloChanged w" "w_online (place_entity e pos w) = w_online w"
  "w_moved (place_entity e pos w) = (if e_moved (w_eobj w e) then w_moved w else w_moved w @ [e])"
  "e_moved (w_eobj (place_entity e pos w) e') = (e' = e \<or> e_moved (w_eobj w e'))"
  "e_eloChanged (w_eobj (place_entity e pos w) e') = e_eloChanged (w_eobj w e')"
  "e_Pos (w_eobj (place_entity e pos w) e') = (if e' = e then pos else e_Pos (w_eobj w e'))"
  "off_duels w (place_entity e pos w)"
  by (auto simp: place_entity_def upd_entity_def off_duels_def)

lemma place_roster_ok:
  assumes "roster_ok w" and "p \<in> snd ` set (w_players w)" and "inBounds (w_Map w) pos"
  shows "roster_ok (place_entity (p_ent (w_pobj w p)) pos w)"
proof -
  note ro = roster_okD [OF assms(1)]
  have "flags_listed (place_entity (p_ent (w_pobj w p)) pos w)"
    using ro(2) by (auto simp: flags_listed_def)
  then show ?thesis
    using ro assms(3) place_entity_ok [OF ro(1) player_entity [OF assms(1,2)], of pos]
    unfolding roster_ok_def ent_of_def by simp
qed

lemma Move_sound:
  assumes "sound P n w"
  shows "sound P n (Move c pos w)" "accounts (Move c pos w) = accounts w" "w_online (Move c pos w) = w_online w"
proof -
  note wo = soundD(1) [OF assms] and ro = soundD(2) [OF assms]
  have rej: "off_duels v (v\<lparr>w_rejected := k\<rparr>)" "roster_ok (v\<lparr>w_rejected := k\<rparr>) = roster_ok v" for v k
    by (simp_all add: off_duels_def roster_ok_def entities_ok_def grid_of_def cell_at_def flags_listed_def ent_of_def)
  have "off_duels w (Move c pos w) \<and> roster_ok (Move c pos w) \<and> w_online (Move c pos w) = w_online w"
  proof (cases rule: Move_cases [of c pos w])
    case stayed
    then show ?thesis using ro by simp
  next
    case (refused p pl k)
    note u = upd_budget [OF refused(2)]
    show ?thesis
      using ro off_duels_trans [OF u(1) off_duels_trans [OF rej(1) off_duels_simps(1)]]
      by (simp add: refused(3) rej(2) u(2)) (simp add: send_def upd_player_def)
  next
    case (moved p far)
    let ?w = "upd_player p (\<lambda>_. snd (spend far (w_now w) (w_pobj w p))) w"
    have u: "off_duels w ?w" "roster_ok ?w = roster_ok w" by (rule upd_budget; blast)+
    have "p \<in> snd ` set (w_players ?w)" using map_of_SomeD [OF moved(1)] by (force simp: upd_player_def)
    then have "roster_ok (place_entity (p_ent (w_pobj ?w p)) pos ?w)"
      using ro moved(2) u(2) by (intro place_roster_ok) (simp_all add: upd_player_def)
    moreover have "p_ent (w_pobj ?w p) = p_ent (w_pobj w p)" "w_online ?w = w_online w" by (simp_all add: upd_player_def)
    ultimately show ?thesis using off_duels_trans [OF u(1) place_entity_fields(13)] by (simp add: moved(5))
  qed
  then show "sound P n (Move c pos w)" "accounts (Move c pos w) = accounts w" "w_online (Move c pos w) = w_online w"
    using off_duels_world_ok [OF wo] accounts_off by (simp_all add: sound_def)
qed

lemma Leave_players_subset: "set (w_players (Leave c w)) \<subseteq> set (w_players w)"
proof -
  have "w_players (leaveDuels p w) = w_players w" for p
    by (simp add: leaveDuels_def lobbyD(5) [OF cancelChallenges_effect(1)] split: option.split)
  then show ?thesis by (auto simp: Leave_def Let_def ReleaseOnline_def amap_set_del split: option.splits)
qed

lemma Leave_player:
  assumes ok: "sound P n w" and cp: "(c, p) \<in> set (w_players w)"
  shows "p \<notin> snd ` set (w_players (Leave c w)) \<and> (\<forall>q. p_ent (w_pobj (Leave c w) q) = p_ent (w_pobj w q))"
proof -
  have dist: "distinct (map fst (w_players w))" "distinct (map snd (w_players w))"
    using world_okD(2) [OF soundD(1) [OF ok]] by (simp_all add: players_ok_def)
  have c: "map_of (w_players w) c = Some p" using dist(1) cp by simp
  note sc = evolvesD(2) [OF leaveDuels_evolves [OF soundD(1) [OF ok], of p]]
  have "w_players (Leave c w) = amap_del c (w_players w)"
    using sceneD(4) [OF sc] by (simp add: Leave_def c Let_def ReleaseOnline_def)
  moreover have "w_pobj (Leave c w) = w_pobj (leaveDuels p w)" by (simp add: Leave_def c Let_def ReleaseOnline_def)
  ultimately show ?thesis
    using departed_players [OF dist cp] same_playerD(4) [OF sceneD(13) [OF sc]] by simp
qed

end
