(* ===== verification/Replication.thy ===== *)
theory Replication
  imports World_Roster
begin

text \<open>
  Replication: a tick sends each player exactly what makes the picture their client draws agree
  with what is around them. \<open>apply_update\<close> is what a client does with an update, \<open>truth\<close> what a
  player should see; the picture of a client is what all the messages to it have painted so far.
\<close>

section \<open>Loops that write a map\<close>

lemma fold_map_other:
  "i \<notin> key ` set xs \<Longrightarrow> fold (\<lambda>x m. m(key x := g x (m (key x)))) xs m i = m i"
  by (induction xs arbitrary: m) auto

lemma fold_map_at:
  "distinct (map key xs) \<Longrightarrow> x \<in> set xs \<Longrightarrow>
    fold (\<lambda>x m. m(key x := g x (m (key x)))) xs m (key x) = g x (m (key x))"
proof (induction xs arbitrary: m)
  case (Cons y ys)
  show ?case
  proof (cases "x = y")
    case True
    have "key y \<notin> key ` set ys" using Cons.prems(1) by simp
    from fold_map_other [OF this, where g = g and m = "m(key y := g y (m (key y)))"] show ?thesis
      unfolding True by (simp only: fold.simps comp_apply fun_upd_same)
  next
    case False
    then have "x \<in> set ys" "key x \<noteq> key y" using Cons.prems by (auto simp: image_iff)
    with Cons.IH [where m = "m(key y := g y (m (key y)))"] Cons.prems(1) show ?thesis
      by (simp del: fun_upd_apply add: fun_upd_other)
  qed
qed simp

lemma fold_map_result:
  assumes "distinct (map key xs)" and "\<And>x. x \<in> set xs \<Longrightarrow> key x = i \<Longrightarrow> g x (m i) = y"
    and "i \<notin> key ` set xs \<Longrightarrow> m i = y"
  shows "fold (\<lambda>x m. m(key x := g x (m (key x)))) xs m i = y"
proof (cases "i \<in> key ` set xs")
  case True
  then obtain x where "x \<in> set xs" "i = key x" by blast
  then show ?thesis using fold_map_at [OF assms(1), where g = g] assms(2) by simp
qed (use assms(3) in \<open>simp add: fold_map_other [where key = key and g = g]\<close>)

section \<open>A client's picture\<close>

type_synonym picture = "EntityID \<Rightarrow> EntitySpawn option"

definition apply_update :: "WorldUpdate \<Rightarrow> picture \<Rightarrow> picture" where
  "apply_update u m =
    (let m = fold (\<lambda>s m. m(es_ID s := Some s)) (wu_Spawn u) m;
         m = fold (\<lambda>v m. m(em_ID v := map_option (\<lambda>s. s\<lparr>es_Pos := \<lparr>X = em_X v, Y = em_Y v\<rparr>\<rparr>) (m (em_ID v)))) (wu_Move u) m;
         m = fold (\<lambda>v m. m(ee_ID v := map_option (\<lambda>s. s\<lparr>es_Elo := ee_Elo v\<rparr>) (m (ee_ID v)))) (wu_Elo u) m
     in fold (\<lambda>i m. m(i := None)) (wu_Despawn u) m)"

text \<open>What a player should see: everything else in the cells around them, as it is.\<close>

definition truth :: "world \<Rightarrow> pref \<Rightarrow> picture" where
  "truth w p i = (case map_of (w_entities w) i of
      None \<Rightarrow> None
    | Some e \<Rightarrow> if e \<noteq> p_ent (w_pobj w p) \<and> adjacent (cellOf (e_Pos (w_eobj w e))) (cellOf (e_Pos (ent_of w p)))
                then Some (spawnMsg (w_eobj w e)) else None)"

text \<open>
  Between ticks a picture shows what the player knows of; it may be behind only where an entity is
  flagged as moved or as having a new elo.
\<close>

definition up_to_flags :: "Entity \<Rightarrow> EntitySpawn \<Rightarrow> bool" where
  "up_to_flags en v \<longleftrightarrow> v\<lparr>es_Pos := e_Pos en, es_Elo := e_Elo en\<rparr> = spawnMsg en \<and>
     (\<not> e_moved en \<longrightarrow> es_Pos v = e_Pos en) \<and> (\<not> e_eloChanged en \<longrightarrow> es_Elo v = e_Elo en)"

definition faithful :: "picture \<Rightarrow> world \<Rightarrow> pref \<Rightarrow> bool" where
  "faithful m w p \<longleftrightarrow> dom m = fst ` set (p_known (w_pobj w p)) \<and>
     (\<forall>(i, e) \<in> set (w_entities w). \<forall>v. m i = Some v \<longrightarrow> up_to_flags (w_eobj w e) v)"

section \<open>What one player is told\<close>

lemma fold_see:
  fixes w :: world and p :: pref and es :: "eref list" and known :: "(EntityID \<times> 64 word) list"
  assumes "distinct (map (\<lambda>e. e_ID (w_eobj w e)) es)"
  defines "others \<equiv> filter (\<lambda>e. e \<noteq> p_ent (w_pobj w p)) es" and "ID \<equiv> \<lambda>e. e_ID (w_eobj w e)"
  shows "fold (see w p) es (u, known) =
    (u\<lparr>wu_Spawn := wu_Spawn u @ map (\<lambda>e. spawnMsg (w_eobj w e)) (filter (\<lambda>e. map_of known (ID e) = None) others),
       wu_Move := wu_Move u @ map (\<lambda>e. \<lparr>em_ID = ID e, em_X = X (e_Pos (w_eobj w e)), em_Y = Y (e_Pos (w_eobj w e))\<rparr>)
         (filter (\<lambda>e. map_of known (ID e) \<noteq> None \<and> e_moved (w_eobj w e)) others),
       wu_Elo := wu_Elo u @ map (\<lambda>e. \<lparr>ee_ID = ID e, ee_Elo = e_Elo (w_eobj w e)\<rparr>)
         (filter (\<lambda>e. map_of known (ID e) \<noteq> None \<and> e_eloChanged (w_eobj w e)) others)\<rparr>,
     fold (\<lambda>e. amap_put (ID e) (w_tick w)) others known)"
  using assms(1) unfolding others_def ID_def
proof (induction es arbitrary: u known)
  case (Cons e es)
  have ids: "e_ID (w_eobj w e') \<noteq> e_ID (w_eobj w e)" if "e' \<in> set es" for e'
    using Cons.prems that by (auto simp: image_iff)
  then have f: "filter (\<lambda>e'. map_of (amap_put (e_ID (w_eobj w e)) t known) (e_ID (w_eobj w e')) = None \<and> Q e') (filter R es) =
      filter (\<lambda>e'. map_of known (e_ID (w_eobj w e')) = None \<and> Q e') (filter R es)"
    "filter (\<lambda>e'. (\<exists>y. map_of (amap_put (e_ID (w_eobj w e)) t known) (e_ID (w_eobj w e')) = Some y) \<and> Q e') (filter R es) =
      filter (\<lambda>e'. (\<exists>y. map_of known (e_ID (w_eobj w e')) = Some y) \<and> Q e') (filter R es)" for Q R t
    by (auto intro!: filter_cong)
  have d: "distinct (map (\<lambda>e. e_ID (w_eobj w e)) es)" using Cons.prems by simp
  show ?case
    using f(1) [where Q = "\<lambda>_. True"] f(2)
    by (simp add: see_def [of w p e] Let_def Cons.IH [OF d])
qed simp

lemma fold_put_at:
  "map_of (fold (\<lambda>e. amap_put (f e) t) es known) i = (if i \<in> f ` set es then Some t else map_of known i)"
  by (induction es arbitrary: known) auto

lemma fold_put_distinct:
  "distinct (map fst known) \<Longrightarrow> distinct (map fst (fold (\<lambda>e. amap_put (f e) t) es known))"
  by (induction es arbitrary: known) auto

text \<open>Everything around a player but the player.\<close>

definition around_player :: "world \<Rightarrow> pref \<Rightarrow> eref list" where
  "around_player w p = filter (\<lambda>e. e \<noteq> p_ent (w_pobj w p)) (near w (e_Pos (ent_of w p)))"

lemma near_ids:
  assumes "entities_ok w"
  shows "distinct (map (\<lambda>e. e_ID (w_eobj w e)) (near w pos))"
proof -
  have "inj_on (\<lambda>e. e_ID (w_eobj w e)) (set (near w pos))"
  proof (rule inj_onI)
    fix a b assume "a \<in> set (near w pos)" "b \<in> set (near w pos)" and e: "e_ID (w_eobj w a) = e_ID (w_eobj w b)"
    then obtain i j where "(i, a) \<in> set (w_entities w)" "(j, b) \<in> set (w_entities w)"
      unfolding near_set [OF assms] by auto
    then show "a = b"
      using entities_okD(5) [OF assms] grid_ofD(6) [OF entities_okD(1) [OF assms]] e by metis
  qed
  then show ?thesis using near_distinct [OF assms] by (simp add: distinct_map)
qed

lemma truth_eq:
  assumes "entities_ok w"
  shows "e \<in> set (around_player w p) \<Longrightarrow> truth w p (e_ID (w_eobj w e)) = Some (spawnMsg (w_eobj w e))"
    and "i \<notin> (\<lambda>e. e_ID (w_eobj w e)) ` set (around_player w p) \<Longrightarrow> truth w p i = None"
proof -
  note ok = entities_okD [OF assms]
  show "truth w p (e_ID (w_eobj w e)) = Some (spawnMsg (w_eobj w e))" if e: "e \<in> set (around_player w p)"
  proof -
    obtain i where i: "(i, e) \<in> set (w_entities w)"
      using e by (auto simp: around_player_def near_set [OF assms])
    then have "map_of (w_entities w) (e_ID (w_eobj w e)) = Some e" using ok(2,5) by simp
    then show ?thesis using e by (simp add: around_player_def near_set [OF assms] truth_def)
  qed
  show "truth w p i = None" if "i \<notin> (\<lambda>e. e_ID (w_eobj w e)) ` set (around_player w p)"
  proof (cases "map_of (w_entities w) i")
    case (Some e)
    then have "(i, e) \<in> set (w_entities w)" by (rule map_of_SomeD)
    moreover have "e_ID (w_eobj w e) = i" using calculation by (rule ok(5))
    ultimately have "e \<notin> set (around_player w p)" "e \<in> snd ` set (w_entities w)" using that by force+
    then show ?thesis by (auto simp: around_player_def near_set [OF assms] truth_def Some)
  qed (simp add: truth_def)
qed

lemma player_update_eq:
  fixes w :: world and p :: pref
  assumes "entities_ok w"
  defines "known \<equiv> p_known (w_pobj w p)" and "others \<equiv> around_player w p" and "ID \<equiv> \<lambda>e. e_ID (w_eobj w e)"
  shows "player_update w p =
    (let known' = fold (\<lambda>e. amap_put (ID e) (w_tick w)) others known in
     (\<lparr>wu_Spawn = map (\<lambda>e. spawnMsg (w_eobj w e)) (filter (\<lambda>e. map_of known (ID e) = None) others),
       wu_Move = map (\<lambda>e. \<lparr>em_ID = ID e, em_X = X (e_Pos (w_eobj w e)), em_Y = Y (e_Pos (w_eobj w e))\<rparr>)
         (filter (\<lambda>e. map_of known (ID e) \<noteq> None \<and> e_moved (w_eobj w e)) others),
       wu_Despawn = map fst (filter (\<lambda>(i, seen). seen \<noteq> w_tick w) known'),
       wu_Elo = map (\<lambda>e. \<lparr>ee_ID = ID e, ee_Elo = e_Elo (w_eobj w e)\<rparr>)
         (filter (\<lambda>e. map_of known (ID e) \<noteq> None \<and> e_eloChanged (w_eobj w e)) others)\<rparr>,
      filter (\<lambda>(i, seen). seen = w_tick w) known'))"
  unfolding assms(2-) around_player_def
  by (simp add: player_update_def fold_see [OF near_ids [OF assms(1)]] forget_def Let_def no_update_def)

section \<open>Exactness\<close>

text \<open>A message that is not sent would have changed nothing.\<close>

lemma apply_empty:
  "wu_Spawn u = [] \<Longrightarrow> wu_Move u = [] \<Longrightarrow> wu_Despawn u = [] \<Longrightarrow> wu_Elo u = [] \<Longrightarrow> apply_update u m = m"
  by (simp add: apply_update_def)

lemma apply_despawned: "i \<in> set (wu_Despawn u) \<Longrightarrow> apply_update u m i = None"
proof -
  have "fold (\<lambda>i m. m(i := None)) is m i = None" if "i \<in> set is \<or> m i = None" for "is" and m :: picture
    using that by (induction "is" arbitrary: m) (auto; metis fun_upd_apply)+
  then show "i \<in> set (wu_Despawn u) \<Longrightarrow> apply_update u m i = None" by (simp add: apply_update_def Let_def)
qed

lemma apply_kept:
  "i \<notin> set (wu_Despawn u) \<Longrightarrow> apply_update u m i =
    fold (\<lambda>v m. m(ee_ID v := map_option (\<lambda>s. s\<lparr>es_Elo := ee_Elo v\<rparr>) (m (ee_ID v)))) (wu_Elo u)
      (fold (\<lambda>v m. m(em_ID v := map_option (\<lambda>s. s\<lparr>es_Pos := \<lparr>X = em_X v, Y = em_Y v\<rparr>\<rparr>) (m (em_ID v)))) (wu_Move u)
        (fold (\<lambda>s m. m(es_ID s := Some s)) (wu_Spawn u) m)) i"
proof -
  have "fold (\<lambda>i m. m(i := None)) is m i = m i" if "i \<notin> set is" for "is" and m :: picture
    using that by (induction "is" arbitrary: m) auto
  then show "i \<notin> set (wu_Despawn u) \<Longrightarrow> ?thesis" by (simp add: apply_update_def Let_def)
qed

text \<open>What an update does at an entity that stays in view, or comes into it.\<close>

lemma apply_update_at:
  fixes u :: WorldUpdate and m :: picture
  assumes kept: "i \<notin> set (wu_Despawn u)"
    and d: "distinct (map es_ID (wu_Spawn u))" "distinct (map em_ID (wu_Move u))" "distinct (map ee_ID (wu_Elo u))"
    and spawn: "\<And>s. s \<in> set (wu_Spawn u) \<Longrightarrow> es_ID s = i \<Longrightarrow> s = spawnMsg en"
      "i \<notin> es_ID ` set (wu_Spawn u) \<Longrightarrow> \<exists>v. m i = Some v \<and> v\<lparr>es_Pos := e_Pos en, es_Elo := e_Elo en\<rparr> = spawnMsg en \<and>
         (i \<notin> em_ID ` set (wu_Move u) \<longrightarrow> es_Pos v = e_Pos en) \<and> (i \<notin> ee_ID ` set (wu_Elo u) \<longrightarrow> es_Elo v = e_Elo en)"
    and move: "\<And>v. v \<in> set (wu_Move u) \<Longrightarrow> em_ID v = i \<Longrightarrow> \<lparr>X = em_X v, Y = em_Y v\<rparr> = e_Pos en"
    and elo: "\<And>v. v \<in> set (wu_Elo u) \<Longrightarrow> ee_ID v = i \<Longrightarrow> ee_Elo v = e_Elo en"
  shows "apply_update u m i = Some (spawnMsg en)"
proof -
  define m1 where "m1 = fold (\<lambda>s m. m(es_ID s := Some s)) (wu_Spawn u) m"
  define m2 where "m2 = fold (\<lambda>v m. m(em_ID v := map_option (\<lambda>s. s\<lparr>es_Pos := \<lparr>X = em_X v, Y = em_Y v\<rparr>\<rparr>) (m (em_ID v)))) (wu_Move u) m1"
  have "\<exists>v. m1 i = Some v \<and> v\<lparr>es_Pos := e_Pos en, es_Elo := e_Elo en\<rparr> = spawnMsg en \<and>
      (i \<notin> em_ID ` set (wu_Move u) \<longrightarrow> es_Pos v = e_Pos en) \<and> (i \<notin> ee_ID ` set (wu_Elo u) \<longrightarrow> es_Elo v = e_Elo en)"
  proof (cases "i \<in> es_ID ` set (wu_Spawn u)")
    case True
    have "m1 i = Some (spawnMsg en)"
      unfolding m1_def by (rule fold_map_result [where g = "\<lambda>s _. Some s", OF d(1)]) (use spawn(1) True in auto)
    then show ?thesis by (simp add: spawnMsg_def)
  next
    case False
    then have "m1 i = m i" unfolding m1_def by (rule fold_map_other [where g = "\<lambda>s _. Some s"])
    then show ?thesis using spawn(2) [OF False] by simp
  qed
  then obtain v where v: "m1 i = Some v" "v\<lparr>es_Pos := e_Pos en, es_Elo := e_Elo en\<rparr> = spawnMsg en"
    "i \<notin> em_ID ` set (wu_Move u) \<Longrightarrow> es_Pos v = e_Pos en" "i \<notin> ee_ID ` set (wu_Elo u) \<Longrightarrow> es_Elo v = e_Elo en" by blast
  have m2: "m2 i = Some (v\<lparr>es_Pos := e_Pos en\<rparr>)"
    unfolding m2_def
    by (rule fold_map_result [where g = "\<lambda>v. map_option (\<lambda>s. s\<lparr>es_Pos := \<lparr>X = em_X v, Y = em_Y v\<rparr>\<rparr>)", OF d(2)])
      (use move v in auto)
  have "fold (\<lambda>v m. m(ee_ID v := map_option (\<lambda>s. s\<lparr>es_Elo := ee_Elo v\<rparr>) (m (ee_ID v)))) (wu_Elo u) m2 i =
      Some (v\<lparr>es_Pos := e_Pos en, es_Elo := e_Elo en\<rparr>)"
    by (rule fold_map_result [where g = "\<lambda>v. map_option (\<lambda>s. s\<lparr>es_Elo := ee_Elo v\<rparr>)", OF d(3)]) (use elo v(4) m2 in auto)
  then show ?thesis using v(2) by (simp add: apply_kept [OF kept] m1_def m2_def)
qed

text \<open>
  The update of a player turns a faithful picture, all of it from before this tick, into the truth,
  and the player knows exactly what is in it.
\<close>

lemma player_update_exact:
  fixes w :: world and p :: pref
  assumes ok: "entities_ok w" and f: "faithful m w p" and old: "w_tick w \<notin> snd ` set (p_known (w_pobj w p))"
    and d: "distinct (map fst (p_known (w_pobj w p)))"
  defines "u \<equiv> fst (player_update w p)" and "known' \<equiv> snd (player_update w p)"
  shows "apply_update u m = truth w p" and "dom (truth w p) = fst ` set known'"
    and "snd ` set known' \<subseteq> {w_tick w}" and "distinct (map fst known')"
proof -
  let ?ID = "\<lambda>e. e_ID (w_eobj w e)" and ?known = "p_known (w_pobj w p)" and ?t = "w_tick w"
  let ?es = "around_player w p"
  define k where "k = fold (\<lambda>e. amap_put (?ID e) ?t) ?es ?known"
  note eq = player_update_eq [OF ok, of p, folded k_def]
  have kd: "distinct (map fst k)" unfolding k_def by (rule fold_put_distinct [OF d])
  have k_at: "map_of k i = (if i \<in> ?ID ` set ?es then Some ?t else map_of ?known i)" for i
    by (simp add: k_def fold_put_at)
  have known: "known' = filter (\<lambda>(i, seen). seen = ?t) k" by (simp add: known'_def eq k_def [symmetric])
  show "snd ` set known' \<subseteq> {w_tick w}" by (auto simp: known)
  show "distinct (map fst known')" using kd by (simp add: known distinct_map_filter)
  have seen: "(i, t) \<in> set k \<longleftrightarrow> (if i \<in> ?ID ` set ?es then t = ?t else (i, t) \<in> set ?known)" for i t
    using k_at [of i] map_of_eq_Some_iff [OF kd, of i t] map_of_eq_Some_iff [OF d, of i t] by auto
  have keys: "fst ` set known' = ?ID ` set ?es"
  proof -
    have "i \<in> fst ` set known' \<longleftrightarrow> (i, ?t) \<in> set k" for i by (force simp: known)
    moreover have "(i, ?t) \<in> set k \<longleftrightarrow> i \<in> ?ID ` set ?es" for i using old by (force simp: seen)
    ultimately show ?thesis by blast
  qed
  have "truth w p i \<noteq> None \<longleftrightarrow> i \<in> ?ID ` set ?es" for i
    using truth_eq [OF ok, where p = p] by (cases "i \<in> ?ID ` set ?es") auto
  then show "dom (truth w p) = fst ` set known'" unfolding keys by (auto simp: dom_def)
  have despawn: "i \<in> set (wu_Despawn u) \<longleftrightarrow> i \<in> fst ` set ?known \<and> i \<notin> ?ID ` set ?es" for i
  proof -
    have "i \<in> set (wu_Despawn u) \<longleftrightarrow> (\<exists>t. (i, t) \<in> set k \<and> t \<noteq> ?t)"
      by (force simp: u_def eq k_def [symmetric] Let_def)
    also have "\<dots> \<longleftrightarrow> i \<in> fst ` set ?known \<and> i \<notin> ?ID ` set ?es" using old by (force simp: seen)
    finally show ?thesis .
  qed
  have ids: "distinct (map ?ID ?es)"
    using near_ids [OF ok] unfolding around_player_def by (simp add: distinct_map_filter)
  let ?new = "\<lambda>e. map_of ?known (?ID e) = None"
  have us: "wu_Spawn u = map (\<lambda>e. spawnMsg (w_eobj w e)) (filter ?new ?es)"
    "wu_Move u = map (\<lambda>e. \<lparr>em_ID = ?ID e, em_X = X (e_Pos (w_eobj w e)), em_Y = Y (e_Pos (w_eobj w e))\<rparr>)
      (filter (\<lambda>e. \<not> ?new e \<and> e_moved (w_eobj w e)) ?es)"
    "wu_Elo u = map (\<lambda>e. \<lparr>ee_ID = ?ID e, ee_Elo = e_Elo (w_eobj w e)\<rparr>)
      (filter (\<lambda>e. \<not> ?new e \<and> e_eloChanged (w_eobj w e)) ?es)"
    by (simp_all add: u_def eq Let_def)
  have spID: "es_ID (spawnMsg (w_eobj w e)) = ?ID e" for e by (simp add: spawnMsg_def)
  have inj: "e' = e" if "e \<in> set ?es" "e' \<in> set ?es" "?ID e' = ?ID e" for e e'
    using ids that by (auto simp: distinct_map dest: inj_onD)
  have keysD: "distinct (map es_ID (wu_Spawn u))" "distinct (map em_ID (wu_Move u))" "distinct (map ee_ID (wu_Elo u))"
    using ids by (simp_all add: us spID o_def distinct_map_filter)
  show "apply_update u m = truth w p"
  proof
    fix i
    show "apply_update u m i = truth w p i"
    proof (cases "i \<in> ?ID ` set ?es")
      case True
      then obtain e where e: "e \<in> set ?es" and i: "i = ?ID e" by blast
      have ent: "(i, e) \<in> set (w_entities w)"
        using e entities_okD(5) [OF ok] by (force simp: around_player_def near_set [OF ok] i)
      have old_at: "\<exists>v. m i = Some v \<and> up_to_flags (w_eobj w e) v" if "\<not> ?new e"
      proof -
        have "i \<in> dom m" using that f by (simp add: faithful_def i map_of_eq_None_iff)
        then show ?thesis using f ent unfolding faithful_def by blast
      qed
      have "apply_update u m i = Some (spawnMsg (w_eobj w e))"
      proof (rule apply_update_at [OF _ keysD])
        show "i \<notin> set (wu_Despawn u)" using despawn True by simp
        show "s = spawnMsg (w_eobj w e)" if "s \<in> set (wu_Spawn u)" "es_ID s = i" for s
          using that by (auto simp: us spID i dest: inj [OF e])
        show "\<lparr>X = em_X v, Y = em_Y v\<rparr> = e_Pos (w_eobj w e)" if "v \<in> set (wu_Move u)" "em_ID v = i" for v
          using that by (auto simp: us i dest: inj [OF e])
        show "ee_Elo v = e_Elo (w_eobj w e)" if "v \<in> set (wu_Elo u)" "ee_ID v = i" for v
          using that by (auto simp: us i dest: inj [OF e])
        have known_e: "\<not> ?new e" if "i \<notin> es_ID ` set (wu_Spawn u)"
          using that e by (force simp: us spID i)
        have moved: "i \<in> em_ID ` set (wu_Move u)" if "\<not> ?new e" "e_moved (w_eobj w e)"
          using that e by (force simp: us i)
        have elo: "i \<in> ee_ID ` set (wu_Elo u)" if "\<not> ?new e" "e_eloChanged (w_eobj w e)"
          using that e by (force simp: us i)
        show "\<exists>v. m i = Some v \<and> v\<lparr>es_Pos := e_Pos (w_eobj w e), es_Elo := e_Elo (w_eobj w e)\<rparr> = spawnMsg (w_eobj w e) \<and>
            (i \<notin> em_ID ` set (wu_Move u) \<longrightarrow> es_Pos v = e_Pos (w_eobj w e)) \<and>
            (i \<notin> ee_ID ` set (wu_Elo u) \<longrightarrow> es_Elo v = e_Elo (w_eobj w e))"
          if "i \<notin> es_ID ` set (wu_Spawn u)"
          using old_at [OF known_e [OF that]] moved [OF known_e [OF that]] elo [OF known_e [OF that]]
          unfolding up_to_flags_def by blast
      qed
      then show ?thesis using truth_eq(1) [OF ok e] by (simp add: i)
    next
      case False
      have gone: "truth w p i = None" by (rule truth_eq(2) [OF ok False])
      have new: "i \<notin> es_ID ` set (wu_Spawn u)" "i \<notin> em_ID ` set (wu_Move u)" "i \<notin> ee_ID ` set (wu_Elo u)"
        using False by (auto simp: us spID)
      show ?thesis
      proof (cases "i \<in> fst ` set ?known")
        case True
        then show ?thesis using despawn False apply_despawned gone by simp
      next
        case unknown: False
        have "m i = None" using f unknown by (auto simp: faithful_def)
        then show ?thesis
          using despawn unknown gone
          by (simp add: apply_kept fold_map_other [where g = "\<lambda>s _. Some s", OF new(1)]
              fold_map_other [where key = em_ID and g = "\<lambda>v. map_option (\<lambda>s. s\<lparr>es_Pos := \<lparr>X = em_X v, Y = em_Y v\<rparr>\<rparr>)", OF new(2)]
              fold_map_other [where key = ee_ID and g = "\<lambda>v. map_option (\<lambda>s. s\<lparr>es_Elo := ee_Elo v\<rparr>)", OF new(3)])
      qed
    qed
  qed
qed

section \<open>Every player\<close>

text \<open>What the messages to a client have painted: a welcome starts with nothing.\<close>

fun paint :: "client \<Rightarrow> client \<times> ServerMsg \<Rightarrow> picture \<Rightarrow> picture" where
  "paint c (c', ServerWelcome _) m = (if c' = c then Map.empty else m)"
| "paint c (c', ServerWorld u) m = (if c' = c then apply_update u m else m)"
| "paint c _ m = m"

definition picture_of :: "client \<Rightarrow> world \<Rightarrow> picture" where
  "picture_of c w = fold (paint c) (w_out w) Map.empty"

lemma paint_other [simp]: "c' \<noteq> c \<Longrightarrow> paint c (c', msg) m = m"
  by (cases msg) auto

lemma paint_not: "\<not> paints msg \<Longrightarrow> paint c (c', msg) m = m"
  by (cases msg) auto

lemma fold_paint_not: "\<forall>(c', msg) \<in> set ms. \<not> paints msg \<Longrightarrow> fold (paint c) ms m = m"
  by (induction ms arbitrary: m) (auto simp: paint_not)

lemma picture_tells:
  assumes "tells cs w w'"
  shows "picture_of c w' = picture_of c w"
proof -
  obtain ms where "w_out w' = w_out w @ ms" "\<forall>(c, m) \<in> set ms. c \<in> cs \<and> \<not> paints m"
    using assms unfolding tells_def by blast
  then show ?thesis using fold_paint_not [of ms] by (fastforce simp: picture_of_def)
qed

text \<open>Replication changes what players know, and sends.\<close>

definition informs :: "world \<Rightarrow> world \<Rightarrow> bool" where
  "informs w w' \<longleftrightarrow> (\<exists>ks ms. w' = w\<lparr>w_pobj := (\<lambda>q. (w_pobj w q)\<lparr>p_known := ks q\<rparr>), w_out := ms\<rparr>)"

lemma informs_refl [simp]: "informs w w"
  unfolding informs_def by (intro exI [of _ "\<lambda>q. p_known (w_pobj w q)"] exI [of _ "w_out w"]) simp

lemma informs_trans:
  assumes "informs w w'" and "informs w' w''"
  shows "informs w w''"
proof -
  obtain ks ms where 1: "w' = w\<lparr>w_pobj := (\<lambda>q. (w_pobj w q)\<lparr>p_known := ks q\<rparr>), w_out := ms\<rparr>"
    using assms(1) unfolding informs_def by blast
  obtain ks' ms' where 2: "w'' = w'\<lparr>w_pobj := (\<lambda>q. (w_pobj w' q)\<lparr>p_known := ks' q\<rparr>), w_out := ms'\<rparr>"
    using assms(2) unfolding informs_def by blast
  show ?thesis unfolding informs_def 2 1 by (intro exI [of _ ks'] exI [of _ ms']) simp
qed

lemma informsD:
  assumes "informs w w'"
  shows "off_duels w w'" "w_entities w' = w_entities w" "w_eobj w' = w_eobj w" "w_tick w' = w_tick w"
    "w_nextID w' = w_nextID w" "w_moved w' = w_moved w" "w_eloChanged w' = w_eloChanged w" "w_Map w' = w_Map w"
    "w_online w' = w_online w" "p_ent (w_pobj w' p) = p_ent (w_pobj w p)" "p_client (w_pobj w' p) = p_client (w_pobj w p)"
    "ent_of w' = ent_of w" "near w' = near w" "entities_ok w' = entities_ok w" "truth w' p = truth w p"
    "flags_listed w' = flags_listed w" "w_players w' = w_players w" "w_fresh w' = w_fresh w" "w_now w' = w_now w"
proof -
  obtain ks ms where w': "w' = w\<lparr>w_pobj := (\<lambda>q. (w_pobj w q)\<lparr>p_known := ks q\<rparr>), w_out := ms\<rparr>"
    using assms unfolding informs_def by blast
  show "off_duels w w'" "w_entities w' = w_entities w" "w_eobj w' = w_eobj w" "w_tick w' = w_tick w"
    "w_nextID w' = w_nextID w" "w_moved w' = w_moved w" "w_eloChanged w' = w_eloChanged w" "w_Map w' = w_Map w"
    "w_online w' = w_online w" "p_ent (w_pobj w' p) = p_ent (w_pobj w p)" "p_client (w_pobj w' p) = p_client (w_pobj w p)"
    "w_players w' = w_players w" "w_fresh w' = w_fresh w" "w_now w' = w_now w"
    unfolding w' by (simp_all add: off_duels_def)
  show e: "ent_of w' = ent_of w" unfolding w' by (simp add: ent_of_def fun_eq_iff)
  have c: "cell_at w' = cell_at w" unfolding w' by (simp add: cell_at_def fun_eq_iff)
  show "near w' = near w" unfolding near_def c ..
  show "entities_ok w' = entities_ok w" unfolding entities_ok_def grid_of_def c unfolding w' by simp
  show "truth w' p = truth w p" unfolding truth_def e unfolding w' by (simp cong: option.case_cong if_cong)
  show "flags_listed w' = flags_listed w" unfolding w' flags_listed_def by simp
qed

lemma informs_update:
  assumes "informs w w'" and "p_known (w_pobj w' p) = p_known (w_pobj w p)"
  shows "player_update w' p = player_update w p"
proof -
  have "see w' p = see w p" unfolding see_def informsD(3,4,10) [OF assms(1)] ..
  then show ?thesis by (simp add: player_update_def informsD [OF assms(1)] assms(2))
qed

lemma informs_faithful:
  "informs w w' \<Longrightarrow> p_known (w_pobj w' p) = p_known (w_pobj w p) \<Longrightarrow> faithful m w' p = faithful m w p"
  by (simp add: faithful_def informsD)

lemma replicate_one_effect:
  assumes "p_client (w_pobj w p) = c"
  shows "informs w (replicate_one (c, p) w)"
    and "p_known (w_pobj (replicate_one (c, p) w) q) = (if q = p then snd (player_update w p) else p_known (w_pobj w q))"
    and "picture_of c' (replicate_one (c, p) w) =
      (if c' = c then apply_update (fst (player_update w p)) (picture_of c w) else picture_of c' w)"
proof -
  obtain u k where u: "player_update w p = (u, k)" by (cases "player_update w p")
  have w: "\<exists>ms. replicate_one (c, p) w = w\<lparr>w_pobj := (\<lambda>q. (w_pobj w q)\<lparr>p_known := if q = p then k else p_known (w_pobj w q)\<rparr>),
      w_out := ms\<rparr>"
  proof -
    let ?w1 = "w\<lparr>w_pobj := (\<lambda>q. (w_pobj w q)\<lparr>p_known := if q = p then k else p_known (w_pobj w q)\<rparr>)\<rparr>"
    have 1: "upd_player p (\<lambda>pl. pl\<lparr>p_known := k\<rparr>) w = ?w1" by (simp add: upd_player_def fun_eq_iff)
    have 2: "?w1 = ?w1\<lparr>w_out := w_out w\<rparr>" by simp
    show ?thesis
    proof (cases "wu_Spawn u = [] \<and> wu_Move u = [] \<and> wu_Despawn u = [] \<and> wu_Elo u = []")
      case True
      then have "replicate_one (c, p) w = ?w1\<lparr>w_out := w_out w\<rparr>" using 1 2 by (simp add: replicate_one_def u)
      then show ?thesis by blast
    next
      case False
      then have "replicate_one (c, p) w = send (p_client (w_pobj ?w1 p)) (ServerWorld u) ?w1"
        by (simp only: replicate_one_def u Let_def prod.case 1 if_False)
      then show ?thesis unfolding send_def by blast
    qed
  qed
  then obtain ms where "replicate_one (c, p) w = w\<lparr>w_pobj := (\<lambda>q. (w_pobj w q)\<lparr>p_known := (if q = p then k else p_known (w_pobj w q))\<rparr>), w_out := ms\<rparr>" ..
  then show "informs w (replicate_one (c, p) w)" unfolding informs_def by (intro exI)
  from w show "p_known (w_pobj (replicate_one (c, p) w) q) = (if q = p then snd (player_update w p) else p_known (w_pobj w q))"
    by (auto simp: u)
  show "picture_of c' (replicate_one (c, p) w) =
      (if c' = c then apply_update (fst (player_update w p)) (picture_of c w) else picture_of c' w)"
    using assms apply_empty [of u]
    by (simp add: replicate_one_def u Let_def upd_player_def send_def picture_of_def)
qed

lemma replicate_all:
  assumes "entities_ok w" and "distinct (map fst ps)" and "distinct (map snd ps)"
    and "\<forall>(c, p) \<in> set ps. p_client (w_pobj w p) = c \<and> faithful (picture_of c w) w p \<and>
      w_tick w \<notin> snd ` set (p_known (w_pobj w p)) \<and> distinct (map fst (p_known (w_pobj w p)))"
  shows "informs w (fold replicate_one ps w) \<and>
    (\<forall>(c, p) \<in> set ps. picture_of c (fold replicate_one ps w) = truth w p \<and>
      dom (truth w p) = fst ` set (p_known (w_pobj (fold replicate_one ps w) p)) \<and>
      snd ` set (p_known (w_pobj (fold replicate_one ps w) p)) \<subseteq> {w_tick w} \<and>
      distinct (map fst (p_known (w_pobj (fold replicate_one ps w) p)))) \<and>
    (\<forall>c. c \<notin> fst ` set ps \<longrightarrow> picture_of c (fold replicate_one ps w) = picture_of c w) \<and>
    (\<forall>q. q \<notin> snd ` set ps \<longrightarrow> p_known (w_pobj (fold replicate_one ps w) q) = p_known (w_pobj w q))"
  using assms
proof (induction ps arbitrary: w)
  case (Cons x ps)
  obtain c p where x: "x = (c, p)" by (cases x)
  let ?w = "replicate_one (c, p) w"
  have cp: "p_client (w_pobj w p) = c" "faithful (picture_of c w) w p"
    "w_tick w \<notin> snd ` set (p_known (w_pobj w p))" "distinct (map fst (p_known (w_pobj w p)))"
    and new: "c \<notin> fst ` set ps" "p \<notin> snd ` set ps"
    using Cons.prems by (auto simp: x)
  note one = replicate_one_effect [OF cp(1)] and exact = player_update_exact [OF Cons.prems(1) cp(2-4)]
  note i = informsD [OF one(1)]
  have "\<forall>(c', q) \<in> set ps. p_client (w_pobj ?w q) = c' \<and> faithful (picture_of c' ?w) ?w q \<and>
      w_tick ?w \<notin> snd ` set (p_known (w_pobj ?w q)) \<and> distinct (map fst (p_known (w_pobj ?w q)))"
  proof (intro ballI, clarify, rename_tac c' q)
    fix c' q assume q: "(c', q) \<in> set ps"
    then have "c' \<noteq> c" "q \<noteq> p" using new by force+
    then have "p_known (w_pobj ?w q) = p_known (w_pobj w q)" "picture_of c' ?w = picture_of c' w" by (simp_all add: one)
    then show "p_client (w_pobj ?w q) = c' \<and> faithful (picture_of c' ?w) ?w q \<and>
      w_tick ?w \<notin> snd ` set (p_known (w_pobj ?w q)) \<and> distinct (map fst (p_known (w_pobj ?w q)))"
      using Cons.prems(4) q informs_faithful [OF one(1)] by (auto simp: i)
  qed
  then have IH: "informs ?w (fold replicate_one ps ?w) \<and>
    (\<forall>(c, p) \<in> set ps. picture_of c (fold replicate_one ps ?w) = truth ?w p \<and>
      dom (truth ?w p) = fst ` set (p_known (w_pobj (fold replicate_one ps ?w) p)) \<and>
      snd ` set (p_known (w_pobj (fold replicate_one ps ?w) p)) \<subseteq> {w_tick ?w} \<and>
      distinct (map fst (p_known (w_pobj (fold replicate_one ps ?w) p)))) \<and>
    (\<forall>c. c \<notin> fst ` set ps \<longrightarrow> picture_of c (fold replicate_one ps ?w) = picture_of c ?w) \<and>
    (\<forall>q. q \<notin> snd ` set ps \<longrightarrow> p_known (w_pobj (fold replicate_one ps ?w) q) = p_known (w_pobj ?w q))"
    using Cons.prems(1-3) by (intro Cons.IH) (simp_all add: i x)
  let ?v = "fold replicate_one ps ?w"
  have "picture_of c ?v = truth w p" "p_known (w_pobj ?v p) = snd (player_update w p)"
    using IH new by (simp_all add: one exact(1))
  moreover have "informs w ?v" using IH informs_trans [OF one(1)] by blast
  ultimately show ?case using IH exact(2-4) new by (auto simp: x i(4,15) one)
qed simp

section \<open>Clearing the flags\<close>

lemma fold_upd_entity:
  assumes "\<And>x. f (f x) = f x"
  shows "fold (\<lambda>e. upd_entity e f) es w = w\<lparr>w_eobj := (\<lambda>e. if e \<in> set es then f (w_eobj w e) else w_eobj w e)\<rparr>"
proof (induction es arbitrary: w)
  case (Cons e es)
  show ?case unfolding fold.simps comp_apply Cons by (simp add: upd_entity_def assms fun_eq_iff)
qed simp

lemma clear_flags_eq:
  "clear_flags w = w\<lparr>w_eobj := (\<lambda>e. (w_eobj w e)\<lparr>e_moved := e_moved (w_eobj w e) \<and> e \<notin> set (w_moved w),
      e_eloChanged := e_eloChanged (w_eobj w e) \<and> e \<notin> set (w_eloChanged w)\<rparr>),
    w_moved := [], w_eloChanged := []\<rparr>"
proof -
  let ?f = "\<lambda>en :: Entity. en\<lparr>e_moved := False\<rparr>" and ?g = "\<lambda>en :: Entity. en\<lparr>e_eloChanged := False\<rparr>"
  have a: "en\<lparr>e_moved := e_moved en \<and> P, e_eloChanged := e_eloChanged en \<and> Q\<rparr> =
      (let en = if P then en else ?f en in if Q then en else ?g en)" for en P Q
    by (cases en) (simp add: Let_def)
  show ?thesis
    unfolding clear_flags_def Let_def
    by (simp add: fold_upd_entity [of ?f] fold_upd_entity [of ?g] a fun_eq_iff Let_def)
qed

lemma clear_flags_off: "off_duels w (clear_flags w)" "picture_of c (clear_flags w) = picture_of c w"
  "truth (clear_flags w) p = truth w p" "entities_ok (clear_flags w) = entities_ok w"
proof -
  let ?w = "clear_flags w"
  show "off_duels w ?w" "picture_of c ?w = picture_of c w" by (simp_all add: clear_flags_eq off_duels_def picture_of_def)
  have c: "cell_at ?w = cell_at w" by (simp add: cell_at_def fun_eq_iff clear_flags_eq)
  show "entities_ok ?w = entities_ok w"
    unfolding entities_ok_def grid_of_def c by (simp add: clear_flags_eq)
  show "truth ?w p = truth w p"
    by (simp add: truth_def ent_of_def clear_flags_eq spawnMsg_def fun_eq_iff split: option.split)
qed

text \<open>With every flag on a list, none is left.\<close>

lemma clear_flags_none:
  assumes "flags_listed w"
  shows "\<not> e_moved (w_eobj (clear_flags w) e)" "\<not> e_eloChanged (w_eobj (clear_flags w) e)"
  using assms by (auto simp: clear_flags_eq flags_listed_def)

section \<open>Pictures between ticks\<close>

definition pictures :: "64 word \<Rightarrow> world \<Rightarrow> bool" where
  "pictures t w \<longleftrightarrow> (\<forall>(c, p) \<in> set (w_players w). faithful (picture_of c w) w p \<and>
     snd ` set (p_known (w_pobj w p)) \<subseteq> {t} \<and> (\<forall>i \<in> fst ` set (p_known (w_pobj w p)). i \<le> w_nextID w))"

lemma picturesD:
  assumes "pictures t w" and "(c, p) \<in> set (w_players w)"
  shows "faithful (picture_of c w) w p" "snd ` set (p_known (w_pobj w p)) \<subseteq> {t}"
    "\<forall>i \<in> fst ` set (p_known (w_pobj w p)). i \<le> w_nextID w"
proof -
  note b = bspec [OF assms(1) [unfolded pictures_def] assms(2), unfolded prod.case]
  show "faithful (picture_of c w) w p" by (rule conjunct1 [OF b])
  show "snd ` set (p_known (w_pobj w p)) \<subseteq> {t}" by (rule conjunct1 [OF conjunct2 [OF b]])
  show "\<forall>i \<in> fst ` set (p_known (w_pobj w p)). i \<le> w_nextID w" by (rule conjunct2 [OF conjunct2 [OF b]])
qed

lemma picturesI:
  assumes "\<And>c p. (c, p) \<in> set (w_players w) \<Longrightarrow> faithful (picture_of c w) w p \<and>
    snd ` set (p_known (w_pobj w p)) \<subseteq> {t} \<and> (\<forall>i \<in> fst ` set (p_known (w_pobj w p)). i \<le> w_nextID w)"
  shows "pictures t w"
  unfolding pictures_def
proof
  fix x assume xs: "x \<in> set (w_players w)"
  obtain c p where x: "x = (c, p)" using surj_pair [of x] by blast
  show "case x of (c, p) \<Rightarrow> faithful (picture_of c w) w p \<and>
    snd ` set (p_known (w_pobj w p)) \<subseteq> {t} \<and> (\<forall>i \<in> fst ` set (p_known (w_pobj w p)). i \<le> w_nextID w)"
    unfolding x prod.case by (rule assms) (use xs x in simp)
qed

text \<open>An entity may move or change elo as long as it is flagged.\<close>

definition drifts :: "Entity \<Rightarrow> Entity \<Rightarrow> bool" where
  "drifts a b \<longleftrightarrow> spawnMsg b = (spawnMsg a)\<lparr>es_Pos := e_Pos b, es_Elo := e_Elo b\<rparr> \<and>
     (e_moved a \<or> e_Pos b \<noteq> e_Pos a \<longrightarrow> e_moved b) \<and> (e_eloChanged a \<or> e_Elo b \<noteq> e_Elo a \<longrightarrow> e_eloChanged b)"

lemma drifts_refl [simp]: "drifts a a"
  by (simp add: drifts_def spawnMsg_def)

lemma up_to_flags_drifts:
  assumes "up_to_flags a v" and "drifts a b"
  shows "up_to_flags b v"
proof -
  have "v\<lparr>es_Pos := e_Pos b, es_Elo := e_Elo b\<rparr> =
      (v\<lparr>es_Pos := e_Pos a, es_Elo := e_Elo a\<rparr>)\<lparr>es_Pos := e_Pos b, es_Elo := e_Elo b\<rparr>" by simp
  also have "\<dots> = spawnMsg b" using assms unfolding up_to_flags_def drifts_def by metis
  finally show ?thesis using assms unfolding up_to_flags_def drifts_def by metis
qed

lemma pictures_drift:
  assumes "pictures t w" and "set (w_players w') \<subseteq> set (w_players w)" and "set (w_entities w') \<subseteq> set (w_entities w)"
    and "\<And>e. drifts (w_eobj w e) (w_eobj w' e)" and "\<And>p. p_known (w_pobj w' p) = p_known (w_pobj w p)"
    and "\<And>c p. (c, p) \<in> set (w_players w') \<Longrightarrow> picture_of c w' = picture_of c w" and "w_nextID w \<le> w_nextID w'"
  shows "pictures t w'"
proof -
  have "faithful (picture_of c w') w' p \<and> snd ` set (p_known (w_pobj w' p)) \<subseteq> {t} \<and>
      (\<forall>i \<in> fst ` set (p_known (w_pobj w' p)). i \<le> w_nextID w')" if "(c, p) \<in> set (w_players w')" for c p
  proof -
    have cp: "(c, p) \<in> set (w_players w)" using that assms(2) by blast
    note D = picturesD [OF assms(1) cp]
    have "faithful (picture_of c w) w' p"
      unfolding faithful_def assms(5)
    proof (intro conjI ballI)
      show "dom (picture_of c w) = fst ` set (p_known (w_pobj w p))" using D(1) by (simp add: faithful_def)
      fix x assume "x \<in> set (w_entities w')"
      then have "case x of (i, e) \<Rightarrow> \<forall>v. picture_of c w i = Some v \<longrightarrow> up_to_flags (w_eobj w e) v"
        using D(1) assms(3) unfolding faithful_def by blast
      then show "case x of (i, e) \<Rightarrow> \<forall>v. picture_of c w i = Some v \<longrightarrow> up_to_flags (w_eobj w' e) v"
        using up_to_flags_drifts [OF _ assms(4)] by (cases x) simp
    qed
    moreover have "\<forall>i \<in> fst ` set (p_known (w_pobj w p)). i \<le> w_nextID w'"
      using D(3) assms(7) by (meson order_trans)
    ultimately show ?thesis unfolding assms(6) [OF that] assms(5) using D(2) by blast
  qed
  then show ?thesis by (rule picturesI)
qed

lemma drifts_same_entity: "same_entity a b \<Longrightarrow> drifts a b"
  using same_entityD [of a b] by (simp add: drifts_def spawnMsg_def)

lemma pictures_scene:
  assumes "pictures t w" and "scene w w'"
  shows "pictures t w'"
proof (rule pictures_drift [OF assms(1)])
  note s = sceneD [OF assms(2)]
  show "drifts (w_eobj w e) (w_eobj w' e)" for e by (rule drifts_same_entity [OF s(12)])
  show "p_known (w_pobj w' p) = p_known (w_pobj w p)" for p by (rule same_playerD(5) [OF s(13)])
  show "picture_of c w' = picture_of c w" for c by (rule picture_tells [OF s(15)])
qed (simp_all add: sceneD [OF assms(2)])

lemma pictures_Move:
  assumes "pictures t w"
  shows "pictures t (Move c pos w)"
proof (cases rule: Move_cases [of c pos w])
  case stayed
  then show ?thesis using assms by simp
next
  case (refused p pl k)
  note u = upd_budget [OF refused(2)]
  show ?thesis
    by (rule pictures_drift [OF assms])
      (simp_all add: refused(3) send_def upd_player_def picture_of_def u(4) cong: if_cong)
next
  case (moved p far)
  let ?w = "upd_player p (\<lambda>_. snd (spend far (w_now w) (w_pobj w p))) w"
  have o: "w_out (place_entity e pos v) = w_out v" for e v by (simp add: place_entity_def upd_entity_def)
  have d: "drifts (w_eobj v e) (w_eobj (place_entity e' pos v) e)" for e e' v
  proof -
    have "spawnMsg (w_eobj (place_entity e' pos v) e) = (spawnMsg (w_eobj v e))\<lparr>es_Pos := e_Pos (w_eobj (place_entity e' pos v) e)\<rparr>"
      by (simp add: place_entity_def spawnMsg_def entityMoved_def grid_moved_def grid_insert_def grid_remove_def upd_entity_def Let_def)
    then show ?thesis by (auto simp: drifts_def) (simp_all add: spawnMsg_def place_entity_def upd_entity_def)
  qed
  show ?thesis
  proof (rule pictures_drift [OF assms])
    show "drifts (w_eobj w e) (w_eobj (Move c pos w) e)" for e
      using d [of ?w e "p_ent (w_pobj w p)"] by (simp add: moved(5) upd_player_def)
  qed (simp_all add: moved(5) o upd_player_def picture_of_def cong: if_cong)
qed

lemma removeEntity_frame:
  "w_eobj (removeEntity e w) = w_eobj w" "w_out (removeEntity e w) = w_out w" "w_nextID (removeEntity e w) = w_nextID w"
  "set (w_entities (removeEntity e w)) \<subseteq> set (w_entities w)"
  by (auto simp: removeEntity_def grid_remove_def Let_def amap_set_del)

lemma pictures_Leave:
  assumes "sound P n w" and "pictures t w"
  shows "pictures t (Leave c w)"
proof (cases "map_of (w_players w) c")
  case None
  then show ?thesis using assms(2) by (simp add: Leave_def)
next
  case (Some p)
  let ?w1 = "leaveDuels p w"
  have "pictures t ?w1"
    by (rule pictures_scene [OF assms(2) evolvesD(2) [OF leaveDuels_evolves [OF soundD(1) [OF assms(1)]]]])
  then show ?thesis
  proof (rule pictures_drift)
    show "set (w_entities (Leave c w)) \<subseteq> set (w_entities ?w1)"
      using removeEntity_frame(4) by (simp add: Leave_def Some Let_def ReleaseOnline_def)
    show "set (w_players (Leave c w)) \<subseteq> set (w_players ?w1)"
      by (auto simp: Leave_def Some Let_def ReleaseOnline_def amap_set_del)
  qed (simp_all add: Leave_def Some Let_def ReleaseOnline_def picture_of_def removeEntity_frame)
qed

lemma joined_out [simp]: "w_out (joined c pid user ch r sp w) = w_out w"
  by (simp add: joined_def Let_def newEntity_def grid_insert_def upd_entity_def)

lemma pictures_Join:
  assumes ok: "sound P n w" and "pictures t w" and c: "c \<notin> fst ` set (w_players w)" and id: "w_nextID w + 1 \<noteq> 0"
  shows "runs (Join c pid user ch r w) (pictures t)"
proof (rule runs_conseq [OF Join_joined [OF roster_okD(3) [OF soundD(2) [OF ok]]]])
  fix w' assume "\<exists>spawn rn msg. inBounds (w_Map w) spawn \<and>
    w' = send c (ServerWelcome msg) (joined c pid user ch r spawn (set_rng rn w))"
  then obtain sp rn msg where w': "w' = send c (ServerWelcome msg) (joined c pid user ch r sp (set_rng rn w))" by blast
  let ?w = "set_rng rn w"
  note ro = roster_okD [OF soundD(2) [OF ok]]
  have f: "w_players ?w = w_players w" "w_nextID ?w = w_nextID w" "w_pobj ?w = w_pobj w" "w_eobj ?w = w_eobj w"
    "w_entities ?w = w_entities w" "w_fresh ?w = w_fresh w" "w_out ?w = w_out w" by (simp_all add: set_rng_def)
  note j = joined_fields [where c = c and pid = pid and user = user and ch = ch and r = r and sp = sp and w = ?w, unfolded f]
  have ro': "roster_ok ?w" using soundD(2) [OF ok] by simp
  have en: "set (w_entities w') = insert (w_nextID w + 1, w_fresh w) (set (w_entities w))"
    using joined_entities(2) [OF roster_okD(1) [OF ro'] id_fresh [OF ro'], unfolded f] id by (simp add: w' send_def)
  have lt: "w_nextID w < w_nextID w + 1"
    using id unatSuc [of "w_nextID w"] by (simp add: word_less_nat_alt add.commute)
  show "pictures t w'"
  proof (rule picturesI)
    fix c' p assume "(c', p) \<in> set (w_players w')"
    then consider "c' = c" "p = Suc (w_fresh w)" | "(c', p) \<in> set (w_players w)"
      by (auto simp: w' send_def j(1) amap_put_new [OF c])
    then show "faithful (picture_of c' w') w' p \<and> snd ` set (p_known (w_pobj w' p)) \<subseteq> {t} \<and>
      (\<forall>i \<in> fst ` set (p_known (w_pobj w' p)). i \<le> w_nextID w')"
    proof cases
      case 1
      then have "picture_of c' w' = Map.empty" "p_known (w_pobj w' p) = []"
        by (simp_all add: w' send_def j picture_of_def)
      then show ?thesis by (simp add: faithful_def split_def)
    next
      case 2
      note D = picturesD [OF assms(2) 2]
      have p: "p \<noteq> Suc (w_fresh w)" "c' \<noteq> c" using ro(6) [of p] 2 c by force+
      then have pic: "picture_of c' w' = picture_of c' w" and kn: "p_known (w_pobj w' p) = p_known (w_pobj w p)"
        by (simp_all add: w' send_def j picture_of_def f)
      have new: "picture_of c' w (w_nextID w + 1) = None"
      proof -
        have "w_nextID w + 1 \<notin> fst ` set (p_known (w_pobj w p))" using D(3) lt by (meson leD)
        then show ?thesis using D(1) unfolding faithful_def by blast
      qed
      have "faithful (picture_of c' w') w' p"
        unfolding faithful_def pic kn
      proof (intro conjI ballI)
        show "dom (picture_of c' w) = fst ` set (p_known (w_pobj w p))" using D(1) by (simp add: faithful_def)
        fix x assume x: "x \<in> set (w_entities w')"
        show "case x of (i, e) \<Rightarrow> \<forall>v. picture_of c' w i = Some v \<longrightarrow> up_to_flags (w_eobj w' e) v"
        proof (cases "x = (w_nextID w + 1, w_fresh w)")
          case False
          then have old: "x \<in> set (w_entities w)" using x en by simp
          then have "snd x < w_fresh w" using entities_okD(4) [OF ro(1), of "fst x" "snd x"] by simp
          then have "w_eobj w' (snd x) = w_eobj w (snd x)" by (simp add: w' send_def j(5))
          moreover have "case x of (i, e) \<Rightarrow> \<forall>v. picture_of c' w i = Some v \<longrightarrow> up_to_flags (w_eobj w e) v"
            using D(1) old unfolding faithful_def by blast
          ultimately show ?thesis by (simp add: split_def)
        qed (simp add: new)
      qed
      moreover have "\<forall>i \<in> fst ` set (p_known (w_pobj w p)). i \<le> w_nextID w'"
        using D(3) lt by (simp add: w' send_def j(4)) (meson order_less_imp_le order_trans)
      ultimately show ?thesis unfolding kn using D(2) by blast
    qed
  qed
qed

section \<open>The tick\<close>

text \<open>What everyone sees right after a tick, with nothing left flagged.\<close>

definition painted :: "world \<Rightarrow> bool" where
  "painted w \<longleftrightarrow> (\<forall>(c, p) \<in> set (w_players w). picture_of c w = truth w p \<and>
     dom (truth w p) = fst ` set (p_known (w_pobj w p))) \<and>
     (\<forall>e. \<not> e_moved (w_eobj w e) \<and> \<not> e_eloChanged (w_eobj w e))"

lemma truth_faithful:
  assumes "entities_ok w" and "dom (truth w p) = fst ` set (p_known (w_pobj w p))"
  shows "faithful (truth w p) w p"
proof -
  have "up_to_flags (w_eobj w e) v" if "(i, e) \<in> set (w_entities w)" "truth w p i = Some v" for i e v
    using that entities_okD(2) [OF assms(1)]
    by (auto simp: truth_def up_to_flags_def spawnMsg_def split: if_splits)
  then show ?thesis using assms(2) by (auto simp: faithful_def)
qed

lemma replicate_world_painted:
  assumes ok: "sound P n w" and "pictures t w" and t: "w_tick w \<noteq> t"
  shows "sound P n (replicate_world w)" "pictures (w_tick w) (replicate_world w)" "painted (replicate_world w)"
    "accounts (replicate_world w) = accounts w" "w_online (replicate_world w) = w_online w"
    "w_tick (replicate_world w) = w_tick w" "w_nextID (replicate_world w) = w_nextID w"
    "w_players (replicate_world w) = w_players w"
proof -
  let ?v = "fold replicate_one (w_players w) w" and ?w = "replicate_world w"
  note wo = soundD(1) [OF ok] and ro = roster_okD [OF soundD(2) [OF ok]]
  note pl = world_okD(2) [OF wo]
  have "\<forall>(c, p) \<in> set (w_players w). p_client (w_pobj w p) = c \<and> faithful (picture_of c w) w p \<and>
      w_tick w \<notin> snd ` set (p_known (w_pobj w p)) \<and> distinct (map fst (p_known (w_pobj w p)))"
  proof (intro ballI)
    fix x assume xs: "x \<in> set (w_players w)"
    obtain c p where x: "x = (c, p)" using surj_pair [of x] by blast
    have cp: "(c, p) \<in> set (w_players w)" using xs x by simp
    note D = picturesD [OF assms(2) cp]
    have "p \<in> snd ` set (w_players w)" using cp by force
    then show "case x of (c, p) \<Rightarrow> p_client (w_pobj w p) = c \<and> faithful (picture_of c w) w p \<and>
      w_tick w \<notin> snd ` set (p_known (w_pobj w p)) \<and> distinct (map fst (p_known (w_pobj w p)))"
      using D(1,2) t ro(8) players_okD(1) [OF pl cp] by (auto simp: x)
  qed
  from replicate_all [OF ro(1) _ _ this] pl
  have i: "informs w ?v" and all: "\<forall>(c, p) \<in> set (w_players w). picture_of c ?v = truth w p \<and>
      dom (truth w p) = fst ` set (p_known (w_pobj ?v p)) \<and> snd ` set (p_known (w_pobj ?v p)) \<subseteq> {w_tick w} \<and>
      distinct (map fst (p_known (w_pobj ?v p)))"
    by (simp_all add: players_ok_def)
  note I = informsD [OF i] and cf = clear_flags_off [where w = ?v]
  have off: "off_duels w ?w"
    unfolding replicate_world_def by (rule off_duels_trans [OF I(1) cf(1)])
  have each: "picture_of c ?w = truth ?w p \<and> dom (truth ?w p) = fst ` set (p_known (w_pobj ?w p)) \<and>
      snd ` set (p_known (w_pobj ?w p)) \<subseteq> {w_tick w} \<and> distinct (map fst (p_known (w_pobj ?w p)))"
    if "(c, p) \<in> set (w_players w)" for c p
  proof -
    have "w_pobj ?w p = w_pobj ?v p" by (simp add: replicate_world_def clear_flags_eq)
    then show ?thesis using bspec [OF all that, unfolded prod.case] by (simp add: replicate_world_def cf I)
  qed
  have e: "entities_ok ?w" using ro(1) by (simp add: replicate_world_def cf I)
  have f: "w_players ?w = w_players w" "w_entities ?w = w_entities w" "w_nextID ?w = w_nextID w" "w_Map ?w = w_Map w"
    "w_fresh ?w = w_fresh w" "e_Pos (ent_of ?w p) = e_Pos (ent_of w p)" "p_ent (w_pobj ?w p) = p_ent (w_pobj w p)" for p
    by (simp_all add: replicate_world_def clear_flags_eq I) (simp add: ent_of_def clear_flags_eq I)
  show "painted ?w"
    unfolding painted_def f
  proof (intro conjI ballI allI)
    fix x assume xs: "x \<in> set (w_players w)"
    obtain c p where x: "x = (c, p)" using surj_pair [of x] by blast
    have "(c, p) \<in> set (w_players w)" using xs x by simp
    then show "case x of (c, p) \<Rightarrow> picture_of c ?w = truth ?w p \<and> dom (truth ?w p) = fst ` set (p_known (w_pobj ?w p))"
      unfolding x prod.case using each by blast
  qed (simp_all add: replicate_world_def clear_flags_none I ro(2))
  have "flags_listed ?w" using clear_flags_none [of ?v] ro(2) by (simp add: flags_listed_def replicate_world_def I)
  moreover have "distinct (map fst (p_known (w_pobj ?w p)))" if p: "p \<in> snd ` set (w_players w)" for p
  proof -
    obtain c where "(c, p) \<in> set (w_players w)" using p by auto
    then show ?thesis using each by blast
  qed
  ultimately have "roster_ok ?w"
    unfolding roster_ok_def f by (intro conjI ballI e ro(3-7))
  then show "sound P n ?w" using off_duels_world_ok [OF wo off] by (simp add: sound_def)
  show "accounts ?w = accounts w" by (rule accounts_off [OF off])
  show "w_online ?w = w_online w" "w_tick ?w = w_tick w" "w_nextID ?w = w_nextID w" "w_players ?w = w_players w" by (simp_all add: replicate_world_def clear_flags_eq I)
  show "pictures (w_tick w) ?w"
  proof (rule picturesI, unfold f)
    fix c p assume cp: "(c, p) \<in> set (w_players w)"
    have "i \<le> w_nextID w" if "i \<in> dom (truth ?w p)" for i
    proof -
      have "i \<in> fst ` set (w_entities ?w)" using that by (force simp: truth_def dom_def dest: map_of_SomeD split: option.splits)
      then show ?thesis using ro(5) by (simp add: f)
    qed
    then show "faithful (picture_of c ?w) ?w p \<and> snd ` set (p_known (w_pobj ?w p)) \<subseteq> {w_tick w} \<and>
      (\<forall>i \<in> fst ` set (p_known (w_pobj ?w p)). i \<le> w_nextID w)"
      using each [OF cp] truth_faithful [OF e] by simp
  qed
qed

lemma world_step_painted:
  assumes ok: "sound P n w" and "pictures (w_tick w) w"
  shows "runs (world_step w) (\<lambda>w'. sound P n w' \<and> pictures (w_tick w') w' \<and> painted w' \<and>
    accounts w' = accounts w \<and> w_online w' = w_online w \<and> w_tick w' = w_tick w + 1 \<and> w_nextID w' = w_nextID w \<and>
    w_players w' = w_players w)"
proof -
  let ?w0 = "w\<lparr>w_tick := w_tick w + 1\<rparr>"
  have 0: "sound P n ?w0" "pictures (w_tick w) ?w0"
  proof -
    have "off_duels w ?w0" by (simp add: off_duels_def)
    moreover have "roster_ok ?w0 = roster_ok w"
      by (simp add: roster_ok_def entities_ok_def grid_of_def cell_at_def flags_listed_def ent_of_def)
    ultimately show "sound P n ?w0" using off_duels_world_ok soundD [OF ok] by (auto simp: sound_def)
    show "pictures (w_tick w) ?w0" by (rule pictures_drift [OF assms(2)]) (simp_all add: picture_of_def)
  qed
  have 1: "evolves P n ?w0 (expireChallenges ?w0)" by (rule expireChallenges_evolves [OF soundD(1) [OF 0(1)]])
  have "runs (tickDuels (expireChallenges ?w0)) (\<lambda>w'. sound P n w' \<and> scene ?w0 w')"
    by (rule runs_conseq [OF tickDuels_evolves [OF evolvesD(1) [OF 1]]])
      (use evolves_sound [OF evolves_sound [OF 0(1) 1]] scene_trans [OF evolvesD(2) [OF 1]] in \<open>auto simp: evolves_def\<close>)
  then show ?thesis
    unfolding world_step_def Let_def runs_bind runs_Some
  proof (rule runs_conseq)
    fix v assume "sound P n v \<and> scene ?w0 v"
    then have v: "sound P n v" "scene ?w0 v" by simp_all
    have p: "pictures (w_tick w) v" by (rule pictures_scene [OF 0(2) v(2)])
    have t: "w_tick v = w_tick w + 1" using sceneD(7) [OF v(2)] by simp
    then have "w_tick v \<noteq> w_tick w" by simp
    note R = replicate_world_painted [OF v(1) p this]
    have "accounts v = accounts w" using accounts_scene [OF v(2)] by (simp add: accounts_def)
    then show "sound P n (replicate_world v) \<and> pictures (w_tick (replicate_world v)) (replicate_world v) \<and>
      painted (replicate_world v) \<and> accounts (replicate_world v) = accounts w \<and>
      w_online (replicate_world v) = w_online w \<and> w_tick (replicate_world v) = w_tick w + 1 \<and>
      w_nextID (replicate_world v) = w_nextID w \<and> w_players (replicate_world v) = w_players w"
      using R t sceneD(4,6,9) [OF v(2)] by simp
  qed
qed

text \<open>What a tick does to the challenges and the duels.\<close>

lemma replicate_world_frame:
  "w_challenges (replicate_world w) = w_challenges w" "w_duels (replicate_world w) = w_duels w"
proof -
  have one: "w_challenges (replicate_one x w) = w_challenges w \<and> w_duels (replicate_one x w) = w_duels w" for x w
    by (cases x) (simp add: replicate_one_def Let_def split_beta upd_player_def send_def)
  have "w_challenges (fold replicate_one ps w) = w_challenges w \<and> w_duels (fold replicate_one ps w) = w_duels w" for ps w
    by (induction ps arbitrary: w) (simp_all add: one)
  then show "w_challenges (replicate_world w) = w_challenges w" "w_duels (replicate_world w) = w_duels w"
    by (simp_all add: replicate_world_def clear_flags_eq)
qed

lemma world_step_lobby:
  assumes ok: "world_ok P n w" and "world_step w = Some w'"
  shows "w_challenges w' = filter (\<lambda>e. w_now w < ch_expires (snd e)) (w_challenges w)"
    "w_duels w' = filter (\<lambda>d. \<not> over w d) (w_duels w)"
proof -
  let ?w0 = "w\<lparr>w_tick := w_tick w + 1\<rparr>" and ?w1 = "expireChallenges (w\<lparr>w_tick := w_tick w + 1\<rparr>)"
  have 0: "world_ok P n ?w0" by (rule off_duels_world_ok [OF ok]) (simp add: off_duels_def)
  have ev: "evolves P n ?w0 ?w1" by (rule expireChallenges_evolves [OF 0])
  obtain v where v: "tickDuels ?w1 = Some v" "w' = replicate_world v"
    using assms(2) by (auto simp: world_step_def Let_def bind_eq_Some_conv)
  have t: "w_challenges v = w_challenges ?w1" "w_duels v = filter (\<lambda>d. \<not> over ?w1 d) (w_duels ?w1)"
    using tickDuels_effect [OF evolvesD(1) [OF ev]] v(1) by simp_all
  note e = expireChallenges_effect [of ?w0] and l = lobbyD [OF expireChallenges_effect(1) [of ?w0]]
  show "w_challenges w' = filter (\<lambda>e. w_now w < ch_expires (snd e)) (w_challenges w)"
    using e(2) ids_distinct [OF 0] by (simp add: v(2) replicate_world_frame t)
  show "w_duels w' = filter (\<lambda>d. \<not> over w d) (w_duels w)"
    by (simp add: v(2) replicate_world_frame t over_def l)
qed

end
