(* ===== verification/Go_Utf8.thy ===== *)
theory Go_Utf8
  imports Go_Base
begin

text \<open>
  Text as Go reads it: \<open>unicode/utf8\<close>, the conversions between strings and \<open>[]rune\<close>, and
  \<open>strings.TrimSpace\<close>. A string is its bytes; a byte that starts no valid encoding decodes to
  \<open>RuneError\<close>, one byte at a time.
\<close>

section \<open>Decoding and encoding\<close>

definition byte :: "char \<Rightarrow> nat" where
  "byte c = of_char c"

definition RuneError :: nat where
  "RuneError = 0xFFFD"

text \<open>A leading byte beyond ASCII: how many bytes, and what the second may be.\<close>

definition lead_byte :: "nat \<Rightarrow> (nat \<times> nat \<times> nat) option" where
  "lead_byte b =
    (if b < 0xC2 then None
     else if b \<le> 0xDF then Some (2, 0x80, 0xBF)
     else if b = 0xE0 then Some (3, 0xA0, 0xBF)
     else if b \<le> 0xEC then Some (3, 0x80, 0xBF)
     else if b = 0xED then Some (3, 0x80, 0x9F)
     else if b \<le> 0xEF then Some (3, 0x80, 0xBF)
     else if b = 0xF0 then Some (4, 0x90, 0xBF)
     else if b \<le> 0xF3 then Some (4, 0x80, 0xBF)
     else if b = 0xF4 then Some (4, 0x80, 0x8F)
     else None)"

definition is_cont :: "nat \<Rightarrow> bool" where
  "is_cont b \<longleftrightarrow> 0x80 \<le> b \<and> b \<le> 0xBF"

text \<open>\<open>utf8.DecodeRuneInString\<close>: the first rune and its width in bytes.\<close>

definition decode_rune :: "string \<Rightarrow> nat \<times> nat" where
  "decode_rune s =
    (if s = [] then (RuneError, 0)
     else let b0 = byte (s ! 0) in
       if b0 < 0x80 then (b0, 1)
       else case lead_byte b0 of
         None \<Rightarrow> (RuneError, 1)
       | Some (sz, lo, hi) \<Rightarrow>
           if length s < sz then (RuneError, 1)
           else let b1 = byte (s ! 1) in
             if b1 < lo \<or> hi < b1 then (RuneError, 1)
             else if sz = 2 then (b0 mod 32 * 64 + b1 mod 64, 2)
             else let b2 = byte (s ! 2) in
               if \<not> is_cont b2 then (RuneError, 1)
               else if sz = 3 then (b0 mod 16 * 4096 + b1 mod 64 * 64 + b2 mod 64, 3)
               else let b3 = byte (s ! 3) in
                 if \<not> is_cont b3 then (RuneError, 1)
                 else (b0 mod 8 * 262144 + b1 mod 64 * 4096 + b2 mod 64 * 64 + b3 mod 64, 4))"

text \<open>Unicode scalar values; \<open>utf8.AppendRune\<close> writes anything else as \<open>RuneError\<close>.\<close>

definition valid_rune :: "nat \<Rightarrow> bool" where
  "valid_rune r \<longleftrightarrow> r < 0xD800 \<or> 0xE000 \<le> r \<and> r \<le> 0x10FFFF"

definition encode_rune :: "nat \<Rightarrow> string" where
  "encode_rune r =
    (if r \<le> 0x7F then [char_of r]
     else if r \<le> 0x7FF then [char_of (0xC0 + r div 64), char_of (0x80 + r mod 64)]
     else if \<not> valid_rune r then [char_of (0xEF::nat), char_of (0xBF::nat), char_of (0xBD::nat)]
     else if r \<le> 0xFFFF then
       [char_of (0xE0 + r div 4096), char_of (0x80 + r div 64 mod 64), char_of (0x80 + r mod 64)]
     else [char_of (0xF0 + r div 262144), char_of (0x80 + r div 4096 mod 64),
           char_of (0x80 + r div 64 mod 64), char_of (0x80 + r mod 64)])"

lemma decode_rune_width: "s \<noteq> [] \<Longrightarrow> 0 < snd (decode_rune s)"
  by (auto simp: decode_rune_def Let_def split: option.split)

text \<open>\<open>[]rune(s)\<close> and \<open>string(runes)\<close>\<close>

function runes :: "string \<Rightarrow> nat list" where
  "runes s = (if s = [] then [] else fst (decode_rune s) # runes (drop (snd (decode_rune s)) s))"
  by auto
termination
  by (relation "measure length") (simp_all add: decode_rune_width)

declare runes.simps [simp del]

definition of_runes :: "nat list \<Rightarrow> string" where
  "of_runes rs = concat (map encode_rune rs)"

text \<open>What is decoded is a scalar value.\<close>

lemma mod_between:
  fixes b c k :: nat
  assumes "k * c \<le> b" and "b < Suc k * c"
  shows "b mod c = b - k * c"
proof -
  have b: "b = k * c + (b - k * c)" using assms(1) by simp
  have "b - k * c < c" using assms unfolding mult_Suc by linarith
  then have "(k * c + (b - k * c)) mod c = b - k * c" by simp
  then show ?thesis using b by metis
qed

lemma decode_rune_valid: "valid_rune (fst (decode_rune s))"
proof -
  have m: "a mod 64 < 64" "a mod 32 < 32" for a :: nat by simp_all
  have err: "valid_rune RuneError" by (simp add: valid_rune_def RuneError_def)
  have two: "valid_rune (b0 mod 32 * 64 + b1 mod 64)" for b0 b1
    using m(1) [of b1] m(2) [of b0] unfolding valid_rune_def by linarith
  have three: "valid_rune (b0 mod 16 * 4096 + b1 mod 64 * 64 + b2 mod 64)"
    if b0: "0xE0 \<le> b0" "b0 \<le> 0xEF" and ed: "b0 = 0xED \<Longrightarrow> 0x80 \<le> b1 \<and> b1 \<le> 0x9F" for b0 b1 b2
  proof -
    have k: "b0 mod 16 = b0 - 0xE0" using mod_between [of 14 16 b0] b0 by simp
    consider "b0 \<le> 0xEC" | "b0 = 0xED" | "0xEE \<le> b0" by linarith
    then show ?thesis
    proof cases
      case 1
      then have "b0 mod 16 \<le> 12" using k b0 by linarith
      then have "b0 mod 16 * 4096 + b1 mod 64 * 64 + b2 mod 64 < 0xD800" using m(1) [of b1] m(1) [of b2] by linarith
      then show ?thesis by (simp add: valid_rune_def)
    next
      case 3
      then have "14 \<le> b0 mod 16" "b0 mod 16 \<le> 15" using k b0 by linarith+
      then have "0xE000 \<le> b0 mod 16 * 4096 + b1 mod 64 * 64 + b2 mod 64"
        "b0 mod 16 * 4096 + b1 mod 64 * 64 + b2 mod 64 \<le> 0x10FFFF"
        using m(1) [of b1] m(1) [of b2] by linarith+
      then show ?thesis by (simp add: valid_rune_def)
    next
      case 2
      then have "b1 mod 64 = b1 - 128" using mod_between [of 2 64 b1] ed by simp
      then have "b1 mod 64 \<le> 31" using ed [OF 2] by linarith
      moreover have "b0 mod 16 = 13" using k 2 by simp
      ultimately show ?thesis using m(1) [of b2] unfolding valid_rune_def by linarith
    qed
  qed
  have four: "valid_rune (b0 mod 8 * 262144 + b1 mod 64 * 4096 + b2 mod 64 * 64 + b3 mod 64)"
    if b0: "0xF0 \<le> b0" "b0 \<le> 0xF4" and f0: "b0 = 0xF0 \<Longrightarrow> 0x90 \<le> b1 \<and> b1 \<le> 0xBF"
      and f4: "b0 = 0xF4 \<Longrightarrow> 0x80 \<le> b1 \<and> b1 \<le> 0x8F" for b0 b1 b2 b3
  proof -
    have k: "b0 mod 8 = b0 - 0xF0" using mod_between [of 30 8 b0] b0 by simp
    have k1: "b1 mod 64 = b1 - 128" if "0x80 \<le> b1" "b1 \<le> 0xBF" using mod_between [of 2 64 b1] that by simp
    consider "b0 = 0xF0" | "0xF1 \<le> b0" "b0 \<le> 0xF3" | "b0 = 0xF4" using b0 by linarith
    then show ?thesis
    proof cases
      case 1
      then have "16 \<le> b1 mod 64" using k1 f0 by linarith
      then show ?thesis using m(1) [of b1] m(1) [of b2] m(1) [of b3] unfolding k valid_rune_def 1 by simp
    next
      case 3
      then have "b1 mod 64 \<le> 15" using k1 f4 by linarith
      then show ?thesis using m(1) [of b2] m(1) [of b3] unfolding k valid_rune_def 3 by simp
    next
      case 2
      then have "1 \<le> b0 mod 8" "b0 mod 8 \<le> 3" using k by linarith+
      then have "0xE000 \<le> b0 mod 8 * 262144 + b1 mod 64 * 4096 + b2 mod 64 * 64 + b3 mod 64"
        "b0 mod 8 * 262144 + b1 mod 64 * 4096 + b2 mod 64 * 64 + b3 mod 64 \<le> 0x10FFFF"
        using m(1) [of b1] m(1) [of b2] m(1) [of b3] by linarith+
      then show ?thesis by (simp add: valid_rune_def)
    qed
  qed
  show ?thesis
  proof (cases "s = [] \<or> byte (s ! 0) < 0x80 \<or> lead_byte (byte (s ! 0)) = None")
    case True
    moreover have "valid_rune b" if "b < 0x80" for b using that by (simp add: valid_rune_def)
    ultimately show ?thesis using err by (auto simp: decode_rune_def Let_def)
  next
    case False
    let ?b0 = "byte (s ! 0)" and ?b1 = "byte (s ! 1)"
    obtain sz lo hi where l: "lead_byte ?b0 = Some (sz, lo, hi)" using False by auto
    then have sz: "sz = 2 \<or> sz = 3 \<and> 0xE0 \<le> ?b0 \<and> ?b0 \<le> 0xEF \<and> (?b0 = 0xED \<longrightarrow> lo = 0x80 \<and> hi = 0x9F) \<or>
        sz = 4 \<and> 0xF0 \<le> ?b0 \<and> ?b0 \<le> 0xF4 \<and> (?b0 = 0xF0 \<longrightarrow> lo = 0x90 \<and> hi = 0xBF) \<and> (?b0 = 0xF4 \<longrightarrow> lo = 0x80 \<and> hi = 0x8F)"
      unfolding lead_byte_def by (auto split: if_splits)
    show ?thesis
    proof (cases "length s < sz \<or> ?b1 < lo \<or> hi < ?b1")
      case True
      then show ?thesis using False l err by (auto simp: decode_rune_def Let_def)
    next
      case ok: False
      show ?thesis
        using sz False l ok err two three [of ?b0 ?b1] four [of ?b0 ?b1]
        by (auto simp: decode_rune_def Let_def)
    qed
  qed
qed

section \<open>Encoding and decoding again\<close>

lemma byte_char_of: "n < 256 \<Longrightarrow> byte (char_of n) = n"
  by (simp add: byte_def)

lemma decode_ascii: "byte c < 0x80 \<Longrightarrow> decode_rune (c # s) = (byte c, 1)"
  by (simp add: decode_rune_def)

lemma decode_two:
  "lead_byte (byte a) = Some (2, lo, hi) \<Longrightarrow> lo \<le> byte b \<Longrightarrow> byte b \<le> hi \<Longrightarrow> 0x80 \<le> byte a \<Longrightarrow>
   decode_rune (a # b # s) = (byte a mod 32 * 64 + byte b mod 64, 2)"
  by (simp add: decode_rune_def Let_def)

lemma decode_three:
  "lead_byte (byte a) = Some (3, lo, hi) \<Longrightarrow> lo \<le> byte b \<Longrightarrow> byte b \<le> hi \<Longrightarrow> is_cont (byte c) \<Longrightarrow> 0x80 \<le> byte a \<Longrightarrow>
   decode_rune (a # b # c # s) = (byte a mod 16 * 4096 + byte b mod 64 * 64 + byte c mod 64, 3)"
  by (simp add: decode_rune_def Let_def)

lemma decode_four:
  "lead_byte (byte a) = Some (4, lo, hi) \<Longrightarrow> lo \<le> byte b \<Longrightarrow> byte b \<le> hi \<Longrightarrow> is_cont (byte c) \<Longrightarrow>
   is_cont (byte d) \<Longrightarrow> 0x80 \<le> byte a \<Longrightarrow>
   decode_rune (a # b # c # d # s) =
     (byte a mod 8 * 262144 + byte b mod 64 * 4096 + byte c mod 64 * 64 + byte d mod 64, 4)"
  by (simp add: decode_rune_def Let_def)

lemma decode_encode:
  assumes "valid_rune r"
  shows "decode_rune (encode_rune r @ s) = (r, length (encode_rune r))"
proof -
  have small: "k mod 64 < 64" for k :: nat by simp
  have c: "byte (char_of (0x80 + k mod 64)) = 0x80 + k mod 64" for k :: nat
    by (rule byte_char_of) (use small [of k] in linarith)
  have cont: "is_cont (0x80 + k mod 64)" for k :: nat
    using small [of k] unfolding is_cont_def by linarith
  have low: "(0x80 + k mod 64) mod 64 = k mod 64" for k :: nat
    using mod_between [of 2 64 "0x80 + k mod 64"] small [of k] by simp
  have split: "k = k div 64 * 64 + k mod 64" for k :: nat by simp
  consider "r \<le> 0x7F" | "0x7F < r" "r \<le> 0x7FF" | "0x7FF < r" "r \<le> 0xFFFF" | "0xFFFF < r" by linarith
  then show ?thesis
  proof cases
    case 1
    then show ?thesis using decode_ascii [of "char_of r" s] by (simp add: encode_rune_def byte_char_of)
  next
    case 2
    let ?q = "r div 64"
    have q: "2 \<le> ?q" "?q \<le> 31" using 2 by linarith+
    have a: "byte (char_of (0xC0 + ?q)) = 0xC0 + ?q" by (rule byte_char_of) (use q in linarith)
    have l: "lead_byte (0xC0 + ?q) = Some (2, 0x80, 0xBF)" using q by (simp add: lead_byte_def)
    have m: "(0xC0 + ?q) mod 32 = ?q" using mod_between [of 6 32 "0xC0 + ?q"] q by simp
    have "decode_rune (encode_rune r @ s) = (?q * 64 + r mod 64, 2)"
      using 2 decode_two [of "char_of (0xC0 + ?q)" "0x80" "0xBF" "char_of (0x80 + r mod 64)" s] q small [of r]
      by (simp add: encode_rune_def a c l m low)
    then show ?thesis using 2 by (simp add: encode_rune_def)
  next
    case 3
    let ?q = "r div 4096" and ?b = "0x80 + r div 64 mod 64"
    have q: "?q \<le> 15" using 3 by linarith
    have a: "byte (char_of (0xE0 + ?q)) = 0xE0 + ?q" by (rule byte_char_of) (use q in linarith)
    have m: "(0xE0 + ?q) mod 16 = ?q" using mod_between [of 14 16 "0xE0 + ?q"] q by simp
    have dd: "r div 64 div 64 = ?q" by (simp add: div_mult2_eq [symmetric])
    have e0: "0x20 \<le> r div 64 mod 64" if "?q = 0"
      using 3 that dd split [of "r div 64"] by linarith
    have ed: "r div 64 mod 64 < 0x20" if "?q = 13"
    proof -
      have "r < 0xD800" using assms that by (auto simp: valid_rune_def)
      then show ?thesis using that dd split [of "r div 64"] split [of r] by linarith
    qed
    obtain lo hi where l: "lead_byte (0xE0 + ?q) = Some (3, lo, hi)" "lo \<le> ?b" "?b \<le> hi"
    proof (cases "?q = 0 \<or> ?q = 13")
      case True
      then show ?thesis using that e0 ed small [of "r div 64"] by (auto simp: lead_byte_def)
    next
      case False
      then have "lead_byte (0xE0 + ?q) = Some (3, 0x80, 0xBF)" using q by (simp add: lead_byte_def)
      then show ?thesis using that small [of "r div 64"] by simp
    qed
    have "decode_rune (encode_rune r @ s) = (?q * 4096 + r div 64 mod 64 * 64 + r mod 64, 3)"
      using 3 assms decode_three [of "char_of (0xE0 + ?q)" lo hi "char_of ?b" "char_of (0x80 + r mod 64)" s] l cont
      by (simp add: encode_rune_def a c m low)
    moreover have "?q * 4096 + r div 64 mod 64 * 64 + r mod 64 = r"
      using split [of r] split [of "r div 64"] dd by linarith
    ultimately show ?thesis using 3 assms by (simp add: encode_rune_def)
  next
    case 4
    let ?q = "r div 262144" and ?b = "0x80 + r div 4096 mod 64"
    have r: "r \<le> 0x10FFFF" using 4 assms by (auto simp: valid_rune_def)
    have q: "?q \<le> 4" using r by linarith
    have a: "byte (char_of (0xF0 + ?q)) = 0xF0 + ?q" by (rule byte_char_of) (use q in linarith)
    have m: "(0xF0 + ?q) mod 8 = ?q" using mod_between [of 30 8 "0xF0 + ?q"] q by simp
    have d1: "r div 64 div 64 = r div 4096" by (simp add: div_mult2_eq [symmetric])
    have d2: "r div 4096 div 64 = ?q" by (simp add: div_mult2_eq [symmetric])
    have f0: "0x10 \<le> r div 4096 mod 64" if "?q = 0"
      using 4 that d2 split [of "r div 4096"] by linarith
    have f4: "r div 4096 mod 64 < 0x10" if "?q = 4"
      using r that d2 split [of "r div 4096"] by linarith
    obtain lo hi where l: "lead_byte (0xF0 + ?q) = Some (4, lo, hi)" "lo \<le> ?b" "?b \<le> hi"
    proof (cases "?q = 0 \<or> ?q = 4")
      case True
      then show ?thesis using that f0 f4 small [of "r div 4096"] by (auto simp: lead_byte_def)
    next
      case False
      then have "lead_byte (0xF0 + ?q) = Some (4, 0x80, 0xBF)" using q by (simp add: lead_byte_def)
      then show ?thesis using that small [of "r div 4096"] by simp
    qed
    have nf: "\<not> r \<le> 0xFFFF" using 4 by simp
    have "decode_rune (encode_rune r @ s) =
        (?q * 262144 + r div 4096 mod 64 * 4096 + r div 64 mod 64 * 64 + r mod 64, 4)"
      using 4 assms decode_four [of "char_of (0xF0 + ?q)" lo hi "char_of ?b" "char_of (0x80 + r div 64 mod 64)"
          "char_of (0x80 + r mod 64)" s] l cont
      by (simp add: encode_rune_def a c m low)
    moreover have "?q * 262144 + r div 4096 mod 64 * 4096 + r div 64 mod 64 * 64 + r mod 64 = r"
      using split [of r] split [of "r div 64"] split [of "r div 4096"] d1 d2 by linarith
    ultimately show ?thesis using 4 assms by (simp add: encode_rune_def)
  qed
qed

lemma runes_of_runes:
  assumes "\<forall>r \<in> set rs. valid_rune r"
  shows "runes (of_runes rs) = rs"
  using assms
proof (induction rs)
  case (Cons r rs)
  have ne: "encode_rune r \<noteq> []" by (simp add: encode_rune_def)
  have "runes (encode_rune r @ of_runes rs) = r # runes (of_runes rs)"
    using Cons.prems ne by (subst runes.simps) (simp add: decode_encode)
  then show ?case using Cons by (simp add: of_runes_def)
qed (simp add: of_runes_def runes.simps)

lemma runes_valid: "r \<in> set (runes s) \<Longrightarrow> valid_rune r"
proof (induction s rule: runes.induct)
  case (1 s)
  then show ?case using decode_rune_valid [of s] by (subst (asm) (2) runes.simps) (auto split: if_splits)
qed

text \<open>ASCII text is one rune per byte.\<close>

lemma runes_ascii: "ascii s \<Longrightarrow> runes s = map byte s"
proof (induction s)
  case (Cons c s)
  then have "decode_rune (c # s) = (byte c, 1)" by (intro decode_ascii) (simp add: ascii_def byte_def)
  then show ?case using Cons by (subst runes.simps) (simp add: ascii_def)
qed (simp add: runes.simps)

lemma runes_Nil_iff [simp]: "runes s = [] \<longleftrightarrow> s = []"
  by (subst runes.simps) simp

text \<open>\<open>string(runes[:n])\<close> has \<open>n\<close> runes when there were more.\<close>

lemma runes_take: "runes (of_runes (take n (runes s))) = take n (runes s)"
  by (rule runes_of_runes) (auto dest: in_set_takeD runes_valid)

section \<open>White space\<close>

text \<open>\<open>unicode.IsSpace\<close>\<close>

definition IsSpace :: "nat \<Rightarrow> bool" where
  "IsSpace r \<longleftrightarrow> r \<in> {0x09, 0x0A, 0x0B, 0x0C, 0x0D, 0x20, 0x85, 0xA0, 0x1680, 0x2028, 0x2029, 0x202F, 0x205F, 0x3000} \<or>
     0x2000 \<le> r \<and> r \<le> 0x200A"

text \<open>\<open>utf8.DecodeLastRuneInString\<close>: back to the nearest byte that can start a rune, at most three steps.\<close>

function rune_back :: "string \<Rightarrow> int \<Rightarrow> int \<Rightarrow> int" where
  "rune_back s lo start =
    (if start < lo then start
     else if \<not> is_cont (byte (s ! nat start)) then start
     else rune_back s lo (start - 1))"
  by auto
termination
  by (relation "measure (\<lambda>(s, lo, start). nat (start - lo + 1))") auto

declare rune_back.simps [simp del]

definition decode_last_rune :: "string \<Rightarrow> nat \<times> nat" where
  "decode_last_rune s =
    (if s = [] then (RuneError, 0)
     else let e = int (length s); r = byte (last s) in
       if r < 0x80 then (r, 1)
       else let lo = max 0 (e - 4);
                start = nat (rune_back s lo (e - 2));
                (r, size) = decode_rune (drop start s)
            in if start + size \<noteq> length s then (RuneError, 1) else (r, size))"

function trim_left :: "string \<Rightarrow> string" where
  "trim_left s =
    (if s = [] then []
     else let (r, n) = decode_rune s in if IsSpace r then trim_left (drop n s) else s)"
  by auto
termination
proof (relation "measure length")
  fix s x r n assume s: "s \<noteq> []" and "x = decode_rune s" "(r, n) = x" "IsSpace r"
  then have "0 < n" using decode_rune_width [of s] by (metis snd_conv)
  then show "(drop n s, s) \<in> measure length" using s by simp
qed simp

declare trim_left.simps [simp del]

lemma decode_last_width: "s \<noteq> [] \<Longrightarrow> 0 < snd (decode_last_rune s)"
proof -
  assume s: "s \<noteq> []"
  let ?st = "nat (rune_back s (max 0 (int (length s) - 4)) (int (length s) - 2))"
  show ?thesis
  proof (cases "?st + snd (decode_rune (drop ?st s)) = length s \<and> drop ?st s = []")
    case True
    then have "decode_rune (drop ?st s) = (RuneError, 0)" by (simp add: decode_rune_def)
    moreover have "rune_back s lo start \<le> start" for lo start
      by (induction s lo start rule: rune_back.induct) (subst rune_back.simps, auto)
    then have "rune_back s (max 0 (int (length s) - 4)) (int (length s) - 2) < int (length s)"
      by (rule le_less_trans) simp
    then have "?st < length s" using s by (cases s) (auto simp: nat_less_iff zless_nat_eq_int_zless not_le nat_eq_iff2)
    ultimately show ?thesis using True by simp
  next
    case False
    then show ?thesis
      using s decode_rune_width [of "drop ?st s"] by (auto simp: decode_last_rune_def Let_def split: prod.splits)
  qed
qed


function trim_right :: "string \<Rightarrow> string" where
  "trim_right s =
    (if s = [] then []
     else let (r, n) = decode_last_rune s in if IsSpace r then trim_right (take (length s - n) s) else s)"
  by auto
termination
proof (relation "measure length")
  fix s x r n assume s: "s \<noteq> []" and "x = decode_last_rune s" "(r, n) = x" "IsSpace r"
  then have "0 < n" using decode_last_width [of s] by (metis snd_conv)
  then show "(take (length s - n) s, s) \<in> measure length" using s by simp
qed simp

declare trim_right.simps [simp del]

text \<open>\<open>strings.TrimSpace\<close>\<close>

definition TrimSpace :: "string \<Rightarrow> string" where
  "TrimSpace s = trim_right (trim_left s)"

lemma trim_left_no_space: "trim_left s \<noteq> [] \<Longrightarrow> \<not> IsSpace (fst (decode_rune (trim_left s)))"
proof (induction s rule: trim_left.induct)
  case (1 s)
  then show ?case
    by (cases "s = []"; cases "IsSpace (fst (decode_rune s))") (auto simp: trim_left.simps [of s] trim_left.simps [of "[]"] split: prod.splits)
qed

lemma trim_right_no_space: "trim_right s \<noteq> [] \<Longrightarrow> \<not> IsSpace (fst (decode_last_rune (trim_right s)))"
proof (induction s rule: trim_right.induct)
  case (1 s)
  then show ?case
    by (cases "s = []"; cases "IsSpace (fst (decode_last_rune s))") (auto simp: trim_right.simps [of s] trim_right.simps [of "[]"] split: prod.splits)
qed

lemma TrimSpace_ends: "TrimSpace s \<noteq> [] \<Longrightarrow> \<not> IsSpace (fst (decode_last_rune (TrimSpace s)))"
  unfolding TrimSpace_def by (rule trim_right_no_space)

end
