(* ===== verification/Chat.thy ===== *)
theory Chat
  imports Replication Go_Utf8
begin

text \<open>
  Chat (\<open>chat.go\<close>): what is said is trimmed and cut to 200 characters, and everyone in the world
  hears it once.
\<close>

section \<open>The code\<close>

definition maxChatLen :: nat where "maxChatLen = 200"

definition cut_chat :: "string \<Rightarrow> string" where
  "cut_chat msg = (let rs = runes msg in if maxChatLen < length rs then of_runes (take maxChatLen rs) else msg)"

definition Chat :: "client \<Rightarrow> string \<Rightarrow> world \<Rightarrow> world" where
  "Chat c msg w =
    (let msg = TrimSpace msg in
     if msg = [] then w
     else let msg = cut_chat msg in
       case map_of (w_players w) c of
         None \<Rightarrow> w
       | Some speaker \<Rightarrow>
           let e = ent_of w speaker;
               out = ServerChat \<lparr>cm_ID = e_ID e, cm_Msg = msg, cm_Name = e_Name e, cm_Char = e_Char e, cm_Class = e_Class e\<rparr>
           in fold (\<lambda>(_, p) w. send (p_client (w_pobj w p)) out w) (w_players w) w)"

section \<open>What is heard\<close>

lemma cut_chat_length: "length (runes (cut_chat msg)) \<le> maxChatLen"
  by (simp add: cut_chat_def Let_def runes_take)

lemma cut_chat_runes: "runes (cut_chat msg) = take maxChatLen (runes msg)"
  by (simp add: cut_chat_def Let_def runes_take)

lemma cut_chat_short: "length (runes msg) \<le> maxChatLen \<Longrightarrow> cut_chat msg = msg"
  by (simp add: cut_chat_def)

lemma fold_send_all:
  "fold (\<lambda>(_, p) w. send (p_client (w_pobj w p)) m w) ps w =
    w\<lparr>w_out := w_out w @ map (\<lambda>(_, p). (p_client (w_pobj w p), m)) ps\<rparr>"
proof (induction ps arbitrary: w)
  case (Cons x ps)
  obtain c p where x: "x = (c, p)" using surj_pair [of x] by blast
  show ?case unfolding x fold.simps comp_apply prod.case Cons by (simp add: send_def)
qed simp

lemma Chat_scene: "scene w (Chat c msg w)"
proof -
  have "scene w (w\<lparr>w_out := w_out w @ map (\<lambda>(_, p). (p_client (w_pobj w p), ServerChat m)) ps\<rparr>)" for m and ps :: "(client \<times> pref) list"
    by (auto simp: scene_def flags_listed_def tells_def)
  then show ?thesis by (simp add: Chat_def Let_def fold_send_all split: option.split)
qed

lemma Chat_evolves:
  assumes "world_ok P n w"
  shows "evolves P n w (Chat c msg w)"
proof -
  have "world_ok P n (w\<lparr>w_out := ms\<rparr>)" for ms
    by (rule off_duels_world_ok [OF assms]) (simp add: off_duels_def)
  then have "world_ok P n (Chat c msg w)"
    using assms by (simp add: Chat_def Let_def fold_send_all split: option.split)
  then show ?thesis by (simp add: evolves_def Chat_scene)
qed

text \<open>With every player under their own connection, the world hears one copy each.\<close>

lemma Chat_heard:
  assumes "players_ok w" and "map_of (w_players w) c = Some p" and "TrimSpace msg \<noteq> []"
  shows "Chat c msg w = w\<lparr>w_out := w_out w @ map (\<lambda>(c', _). (c', ServerChat
    \<lparr>cm_ID = e_ID (ent_of w p), cm_Msg = cut_chat (TrimSpace msg), cm_Name = e_Name (ent_of w p),
     cm_Char = e_Char (ent_of w p), cm_Class = e_Class (ent_of w p)\<rparr>)) (w_players w)\<rparr>"
proof -
  have "map (\<lambda>(_, p). (p_client (w_pobj w p), m)) (w_players w) = map (\<lambda>(c', _). (c', m)) (w_players w)" for m :: ServerMsg
    using players_okD(1) [OF assms(1)] by (intro map_cong) auto
  then show ?thesis using assms(2,3) by (simp add: Chat_def Let_def fold_send_all)
qed

end
