(* ===== verification/Net_Session.thy ===== *)
theory Net_Session
  imports Protocol
begin

text \<open>
  One player's connection (\<open>internal/netconn/session.go\<close>): the queue of messages to it, the rate
  limits, the loop that reads from it, and the router that hands each message to its handler.

  MessagePack and the token buckets of \<open>golang.org/x/time/rate\<close> are third-party code, a field of
  \<open>libs\<close> each. The websocket is the list of messages that arrive before it ends. A handler is given
  the time and returns what it hands to the world; \<open>None\<close> is a panic.
\<close>

section \<open>Sessions\<close>

type_synonym bytes = "8 word list"

definition sendQueueSize :: nat where "sendQueueSize = 64"
definition maxMessageSize :: nat where "maxMessageSize = 4096"
definition msgRate :: real where "msgRate = 60"
definition msgBurst :: int where "msgBurst = 120"
definition maxDropped :: nat where "maxDropped = 100"

record 'l Session =
  sn_PlayerID :: int
  sn_Username :: string
  sn_CharacterID :: int
  sn_send :: "bytes list"
  sn_closed :: bool
  sn_msgLimit :: 'l
  sn_limits :: "(string \<times> 'l) list"

record NetStats =
  ns_Open :: int
  ns_Total :: int
  ns_SlowClientKicks :: int
  ns_FloodKicks :: int
  ns_RateLimited :: int
  ns_BadMessages :: int
  ns_HandlerPanics :: int

record 'l libs =
  NewLimiter :: "real \<Rightarrow> int \<Rightarrow> 'l"
  AllowAt :: "gotime \<Rightarrow> 'l \<Rightarrow> bool \<times> 'l"
  Unmarshal_envelope :: "bytes \<Rightarrow> (8 word \<times> bytes) option"
  Marshal_server :: "ServerMsg \<Rightarrow> bytes option"

definition newSession :: "'l libs \<Rightarrow> int \<Rightarrow> string \<Rightarrow> int \<Rightarrow> 'l Session" where
  "newSession L playerID username characterID =
    \<lparr>sn_PlayerID = playerID, sn_Username = username, sn_CharacterID = characterID, sn_send = [],
     sn_closed = False, sn_msgLimit = NewLimiter L msgRate msgBurst, sn_limits = []\<rparr>"

definition CloseSession :: "'l Session \<Rightarrow> 'l Session" where
  "CloseSession s = s\<lparr>sn_closed := True\<rparr>"

definition SendRaw :: "bytes \<Rightarrow> 'l Session \<times> NetStats \<Rightarrow> bool \<times> 'l Session \<times> NetStats" where
  "SendRaw msg = (\<lambda>(s, st).
     if sn_closed s then (False, s, st)
     else if length (sn_send s) < sendQueueSize then (True, s\<lparr>sn_send := sn_send s @ [msg]\<rparr>, st)
     else (False, CloseSession s, st\<lparr>ns_SlowClientKicks := ns_SlowClientKicks st + 1\<rparr>))"

definition SendMsg :: "'l libs \<Rightarrow> ServerMsg \<Rightarrow> 'l Session \<times> NetStats \<Rightarrow> bool \<times> 'l Session \<times> NetStats" where
  "SendMsg L m s = (case Marshal_server L m of None \<Rightarrow> (False, s) | Some msg \<Rightarrow> SendRaw msg s)"

text \<open>The first call for a key sets its limits.\<close>

definition Allow :: "'l libs \<Rightarrow> gotime \<Rightarrow> string \<Rightarrow> real \<Rightarrow> int \<Rightarrow> 'l Session \<Rightarrow> bool \<times> 'l Session" where
  "Allow L now key perSecond burst s =
    (let l = (case map_of (sn_limits s) key of Some l \<Rightarrow> l | None \<Rightarrow> NewLimiter L perSecond burst);
         (ok, l) = AllowAt L now l
     in (ok, s\<lparr>sn_limits := amap_put key l (sn_limits s)\<rparr>))"

section \<open>The router\<close>

type_synonym ('l, 'cmd) handler =
  "gotime \<Rightarrow> 'l Session \<times> NetStats \<Rightarrow> bytes \<Rightarrow> (('l Session \<times> NetStats) \<times> 'cmd list) option"

type_synonym ('l, 'cmd) router = "(8 word \<times> ('l, 'cmd) handler) list"

text \<open>Registering two handlers for one type is a panic.\<close>

definition Handle :: "8 word \<Rightarrow> ('l, 'cmd) handler \<Rightarrow> ('l, 'cmd) router \<Rightarrow> ('l, 'cmd) router option" where
  "Handle t h r = (if t \<in> fst ` set r then None else Some (amap_put t h r))"

definition bad_message :: "'l Session \<times> NetStats \<Rightarrow> 'l Session \<times> NetStats" where
  "bad_message = (\<lambda>(s, st). (s, st\<lparr>ns_BadMessages := ns_BadMessages st + 1\<rparr>))"

definition router_dispatch :: "'l libs \<Rightarrow> ('l, 'cmd) router \<Rightarrow> gotime \<Rightarrow> 'l Session \<times> NetStats \<Rightarrow> bytes \<Rightarrow>
    (('l Session \<times> NetStats) \<times> 'cmd list) option" where
  "router_dispatch L r now s raw =
    (case Unmarshal_envelope L raw of
      None \<Rightarrow> Some (bad_message s, [])
    | Some (t, data) \<Rightarrow>
        (case map_of r t of
          None \<Rightarrow> Some (bad_message s, [])
        | Some h \<Rightarrow> h now s data))"

text \<open>A panic in a handler ends the session, not the server.\<close>

definition session_dispatch :: "'l libs \<Rightarrow> ('l, 'cmd) router \<Rightarrow> gotime \<Rightarrow> 'l Session \<times> NetStats \<Rightarrow> bytes \<Rightarrow>
    bool \<times> ('l Session \<times> NetStats) \<times> 'cmd list" where
  "session_dispatch L r now s raw =
    (case router_dispatch L r now s raw of
      None \<Rightarrow> (False, (fst s, (snd s)\<lparr>ns_HandlerPanics := ns_HandlerPanics (snd s) + 1\<rparr>), [])
    | Some (s, cmds) \<Rightarrow> (True, s, cmds))"

text \<open>
  The reader: one message after the other until the connection ends. A message over the read limit
  ends it.
\<close>

fun readLoop :: "'l libs \<Rightarrow> ('l, 'cmd) router \<Rightarrow> (gotime \<times> bytes) list \<Rightarrow> nat \<Rightarrow> 'l Session \<times> NetStats \<Rightarrow>
    ('l Session \<times> NetStats) \<times> 'cmd list" where
  "readLoop L r [] dropped s = (s, [])"
| "readLoop L r ((now, data) # rest) dropped (s, st) =
    (if maxMessageSize < length data then ((s, st), []) else
     let (ok, l) = AllowAt L now (sn_msgLimit s); s = s\<lparr>sn_msgLimit := l\<rparr> in
     if \<not> ok then
       let st = st\<lparr>ns_RateLimited := ns_RateLimited st + 1\<rparr>; dropped = dropped + 1 in
       if maxDropped < dropped then ((s, st\<lparr>ns_FloodKicks := ns_FloodKicks st + 1\<rparr>), [])
       else readLoop L r rest dropped (s, st)
     else
       (case session_dispatch L r now (s, st) data of
         (True, s, cmds) \<Rightarrow> (let (s, more) = readLoop L r rest 0 s in (s, cmds @ more))
       | (False, s, cmds) \<Rightarrow> (s, cmds)))"

definition session_run :: "'l libs \<Rightarrow> ('l, 'cmd) router \<Rightarrow> (gotime \<times> bytes) list \<Rightarrow> 'l Session \<times> NetStats \<Rightarrow>
    ('l Session \<times> NetStats) \<times> 'cmd list" where
  "session_run L r incoming s =
    (let ((s, st), cmds) = readLoop L r incoming 0 s in ((CloseSession s, st), cmds))"

section \<open>The queue\<close>

lemma SendRaw_bounded:
  "length (sn_send s) \<le> sendQueueSize \<Longrightarrow> SendRaw m (s, st) = (b, s', st') \<Longrightarrow> length (sn_send s') \<le> sendQueueSize"
  by (auto simp: SendRaw_def CloseSession_def split: if_splits)

lemma SendRaw_result:
  "SendRaw m (s, st) = (b, s', st') \<Longrightarrow> b \<longleftrightarrow> \<not> sn_closed s \<and> sn_send s' = sn_send s @ [m]"
  by (auto simp: SendRaw_def CloseSession_def split: if_splits)

lemma SendRaw_closed: "SendRaw m (s, st) = (b, s', st') \<Longrightarrow> sn_closed s \<Longrightarrow> s' = s \<and> \<not> b"
  by (simp add: SendRaw_def)

section \<open>Flooding\<close>

text \<open>How the limiter answers each of a run of messages, if nothing else uses it.\<close>

fun limited :: "'l libs \<Rightarrow> (gotime \<times> bytes) list \<Rightarrow> 'l \<Rightarrow> bool list" where
  "limited L [] l = []"
| "limited L ((now, _) # rest) l = (let (ok, l) = AllowAt L now l in ok # limited L rest l)"

text \<open>A run of refused messages is dropped without reaching a handler, and one too many ends it.\<close>

lemma readLoop_flood:
  assumes "\<forall>ok \<in> set (limited L msgs (sn_msgLimit s)). \<not> ok"
    and "\<forall>m \<in> set msgs. length (snd m) \<le> maxMessageSize"
    and "maxDropped < dropped + length msgs" and "dropped \<le> maxDropped"
  shows "snd (readLoop L r (msgs @ rest) dropped (s, st)) = [] \<and>
    ns_FloodKicks (snd (fst (readLoop L r (msgs @ rest) dropped (s, st)))) = ns_FloodKicks st + 1"
  using assms
proof (induction msgs arbitrary: dropped s st)
  case (Cons x msgs)
  obtain now data where x: "x = (now, data)" by (cases x)
  obtain l where a: "AllowAt L now (sn_msgLimit s) = (False, l)"
    using Cons.prems(1) by (cases "AllowAt L now (sn_msgLimit s)") (auto simp: x)
  have rest: "\<forall>ok \<in> set (limited L msgs l). \<not> ok" using Cons.prems(1) by (simp add: x a)
  have len: "length data \<le> maxMessageSize" "\<forall>m \<in> set msgs. length (snd m) \<le> maxMessageSize"
    using Cons.prems(2) by (auto simp: x)
  show ?case
  proof (cases "maxDropped < dropped + 1")
    case False
    then show ?thesis
      using Cons.IH [of "s\<lparr>sn_msgLimit := l\<rparr>" "dropped + 1" "st\<lparr>ns_RateLimited := ns_RateLimited st + 1\<rparr>"] rest len Cons.prems(3)
      by (simp add: x a Let_def)
  qed (use len in \<open>simp add: x a Let_def\<close>)
qed simp

text \<open>Up to 100 refused messages in a row only cost those messages.\<close>

lemma readLoop_tolerates:
  assumes "\<forall>ok \<in> set (limited L msgs (sn_msgLimit s)). \<not> ok"
    and "\<forall>m \<in> set msgs. length (snd m) \<le> maxMessageSize" and "dropped + length msgs \<le> maxDropped"
  shows "\<exists>l. readLoop L r (msgs @ rest) dropped (s, st) =
    readLoop L r rest (dropped + length msgs) (s\<lparr>sn_msgLimit := l\<rparr>, st\<lparr>ns_RateLimited := ns_RateLimited st + int (length msgs)\<rparr>)"
  using assms
proof (induction msgs arbitrary: dropped s st)
  case Nil
  then show ?case by (intro exI [of _ "sn_msgLimit s"]) simp
next
  case (Cons x msgs)
  obtain now data where x: "x = (now, data)" by (cases x)
  obtain l where a: "AllowAt L now (sn_msgLimit s) = (False, l)"
    using Cons.prems(1) by (cases "AllowAt L now (sn_msgLimit s)") (auto simp: x)
  have rest: "\<forall>ok \<in> set (limited L msgs l). \<not> ok" using Cons.prems(1) by (simp add: x a)
  have len: "length data \<le> maxMessageSize" "\<forall>m \<in> set msgs. length (snd m) \<le> maxMessageSize"
    using Cons.prems(2) by (auto simp: x)
  from Cons.IH [of "s\<lparr>sn_msgLimit := l\<rparr>" "dropped + 1" "st\<lparr>ns_RateLimited := ns_RateLimited st + 1\<rparr>"] rest len Cons.prems(3)
  obtain l' where "readLoop L r (msgs @ rest) (dropped + 1) (s\<lparr>sn_msgLimit := l\<rparr>, st\<lparr>ns_RateLimited := ns_RateLimited st + 1\<rparr>) =
    readLoop L r rest (dropped + 1 + length msgs) (s\<lparr>sn_msgLimit := l'\<rparr>,
      st\<lparr>ns_RateLimited := ns_RateLimited st + 1 + int (length msgs)\<rparr>)" by auto
  then show ?case using len Cons.prems(3) by (intro exI [of _ l']) (simp add: x a Let_def add.assoc)
qed

section \<open>What a client can cost\<close>

lemma fold_SendRaw:
  assumes "sn_send s = []" and "\<not> sn_closed s"
  shows "fold (\<lambda>m x. snd (SendRaw m x)) ms (s, st) =
    (s\<lparr>sn_send := take sendQueueSize ms, sn_closed := sendQueueSize < length ms\<rparr>,
     st\<lparr>ns_SlowClientKicks := ns_SlowClientKicks st + (if sendQueueSize < length ms then 1 else 0)\<rparr>)"
proof (induction ms rule: rev_induct)
  case Nil
  then show ?case using assms by simp
next
  case (snoc m ms)
  then show ?case
    by (cases "length ms < sendQueueSize"; cases "length ms = sendQueueSize") (simp_all add: SendRaw_def CloseSession_def)
qed

text \<open>C18: A slow client costs at most its queue. Whatever is sent to a client that reads nothing, the first
64 messages wait in order, the next one closes the connection and counts as one kick, and everything after
is dropped: sending never blocks and the memory is bounded.\<close>

theorem slow_clients_are_kicked:
  "fold (\<lambda>m x. snd (SendRaw m x)) ms (newSession L playerID username characterID, st) =
    ((newSession L playerID username characterID)\<lparr>sn_send := take 64 ms, sn_closed := 64 < length ms\<rparr>,
     st\<lparr>ns_SlowClientKicks := ns_SlowClientKicks st + (if 64 < length ms then 1 else 0)\<rparr>)"
  using fold_SendRaw [of "newSession L playerID username characterID" ms st] by (simp add: newSession_def sendQueueSize_def)

text \<open>C17: A flood ends the session. A run of more than 100 messages that the limiter refuses never reaches
a handler and ends the session with one flood kick; a run of up to 100 costs only those messages, and the
next message that is allowed is handled and starts the count again.\<close>

theorem floods_end_the_session:
  assumes "\<forall>ok \<in> set (limited L msgs (sn_msgLimit s)). \<not> ok"
    and "\<forall>m \<in> set msgs. length (snd m) \<le> maxMessageSize"
  shows "if 100 < length msgs
    then snd (session_run L r (msgs @ rest) (s, st)) = [] \<and>
      ns_FloodKicks (snd (fst (session_run L r (msgs @ rest) (s, st)))) = ns_FloodKicks st + 1
    else \<exists>l. readLoop L r (msgs @ rest) 0 (s, st) = readLoop L r rest (length msgs)
      (s\<lparr>sn_msgLimit := l\<rparr>, st\<lparr>ns_RateLimited := ns_RateLimited st + int (length msgs)\<rparr>)"
proof (cases "100 < length msgs")
  case True
  then have "snd (readLoop L r (msgs @ rest) 0 (s, st)) = [] \<and>
      ns_FloodKicks (snd (fst (readLoop L r (msgs @ rest) 0 (s, st)))) = ns_FloodKicks st + 1"
    using readLoop_flood [OF assms, of 0 r rest st] by (simp add: maxDropped_def)
  then show ?thesis using True by (simp add: session_run_def split_beta)
next
  case False
  then show ?thesis using readLoop_tolerates [OF assms, of 0 r rest st] by (simp add: maxDropped_def)
qed

theorem floods_end_the_session_witness:
  "let L = \<lparr>NewLimiter = (\<lambda>_ _. ()), AllowAt = (\<lambda>_ l. (False, l)), Unmarshal_envelope = (\<lambda>_. None),
      Marshal_server = (\<lambda>_. None)\<rparr>; msgs = replicate 101 (0, []);
      st = \<lparr>ns_Open = 1, ns_Total = 1, ns_SlowClientKicks = 0, ns_FloodKicks = 0, ns_RateLimited = 0,
        ns_BadMessages = 0, ns_HandlerPanics = 0\<rparr>
    in ns_FloodKicks (snd (fst (session_run L ([] :: (unit, unit) router) msgs (newSession L 7 ''ada'' 3, st)))) = 1"
proof -
  let ?L = "\<lparr>NewLimiter = (\<lambda>_ _. ()), AllowAt = (\<lambda>_ l. (False, l)), Unmarshal_envelope = (\<lambda>_. None),
      Marshal_server = (\<lambda>_. None)\<rparr>" and ?msgs = "replicate 101 (0, []) :: (gotime \<times> bytes) list"
    and ?st = "\<lparr>ns_Open = 1, ns_Total = 1, ns_SlowClientKicks = 0, ns_FloodKicks = 0, ns_RateLimited = 0,
        ns_BadMessages = 0, ns_HandlerPanics = 0\<rparr>"
  have "limited ?L (replicate n (0, [])) l = replicate n False" for n l by (induction n) simp_all
  then have l: "\<forall>ok \<in> set (limited ?L ?msgs (sn_msgLimit (newSession ?L 7 ''ada'' 3))). \<not> ok" by simp
  have m: "\<forall>m \<in> set ?msgs. length (snd m) \<le> maxMessageSize" by simp
  have n: "100 < length ?msgs" by simp
  show ?thesis using floods_end_the_session [OF l m, of "[] :: (unit, unit) router" "[]" ?st] unfolding if_P [OF n] Let_def by simp
qed

end
