(* ===== verification/Handlers.thy ===== *)
theory Handlers
  imports Chat Net_Session
begin

text \<open>
  The messages the world handles (\<open>internal/game/handlers.go\<close>): each is decoded, rate limited and
  handed to the world goroutine as a command. MessagePack is a parameter, one decoder per payload
  type. The answer to a profile request is put in the outbox when the world is asked, the session
  sends it a moment later.
\<close>

section \<open>Commands\<close>

datatype command =
    DoMove Vec
  | DoChat string
  | DoChallenge EntityID bool
  | DoProfile EntityID
  | DoRespond "32 word" bool
  | DoGuess string
  | DoTyping int
  | DoCast DuelCastReq
  | DoReshape string
  | DoIllusion string
  | DoForfeit

type_synonym history = "(int \<Rightarrow> RankedMatchInfo list) option"

fun run_command :: "history \<Rightarrow> client \<Rightarrow> command \<Rightarrow> world \<Rightarrow> world option" where
  "run_command h c (DoMove pos) w = Some (Move c pos w)"
| "run_command h c (DoChat msg) w = Some (Chat c msg w)"
| "run_command h c (DoChallenge target isRanked) w = Some (Challenge c target isRanked w)"
| "run_command h c (DoProfile target) w =
    Some (case Profile_of h c target w of None \<Rightarrow> w | Some prof \<Rightarrow> send c (ServerProfile prof) w)"
| "run_command h c (DoRespond i accept) w = RespondDuel c i accept w"
| "run_command h c (DoGuess g) w = DuelGuess c g w"
| "run_command h c (DoTyping n) w = Some (DuelTyping c n w)"
| "run_command h c (DoCast req) w = CastAbility c req w"
| "run_command h c (DoReshape word) w = ReshapeReality_pick c word w"
| "run_command h c (DoIllusion g) w = IllusionGuess c g w"
| "run_command h c DoForfeit w = Some (ForfeitDuel c w)"

section \<open>The handlers\<close>





section \<open>What a message asks of the world\<close>


















section \<open>From a message to the world\<close>




end
