(* ===== verification/World_Safety.thy ===== *)
theory World_Safety
  imports Handlers "HOL-Library.Multiset"
begin

text \<open>
  The world under load: what the goroutines around it do, one step at a time, in any order, and what
  then always holds.

  Every connection claims its account's online slot, joins, makes requests and leaves, in that
  order (\<open>internal/server/server.go\<close>, \<open>internal/netconn/session.go\<close>); the claim and its release after a
  failed upgrade happen off the world goroutine, the rest are commands in its queue. An Oracle's
  answer gives its prayer's slot back and queues a command. The ticker runs \<open>step\<close>, the clock goes on,
  and Go may iterate a map in another order every time.
\<close>

section \<open>Steps\<close>

record live =
  lv_world :: world
  lv_claims :: "(client \<times> int) list"

datatype event =
    Claimed client int
  | Dropped client
  | Joined client string CharacterInfo Rating
  | Left client
  | Requested client command
  | Answered nat "Answer option"
  | Delivered
  | Ticked
  | Elapsed duration
  | Reordered "(client \<times> pref) list" "dref list" "(32 word \<times> challenge) list"

text \<open>
  When each can happen: a session is new when it claims and gets its rating from the ranked service;
  it leaves or asks for something only after it has asked to join.
\<close>

fun possible :: "event \<Rightarrow> live \<Rightarrow> bool" where
  "possible (Claimed c i) s \<longleftrightarrow> c \<notin> fst ` set (w_players (lv_world s)) \<and> c \<notin> fst ` set (lv_claims s)"
| "possible (Dropped c) s \<longleftrightarrow> c \<in> fst ` set (lv_claims s)"
| "possible (Joined c user ch r) s \<longleftrightarrow> c \<in> fst ` set (lv_claims s) \<and> rating_ok r"
| "possible (Left c) s \<longleftrightarrow> c \<notin> fst ` set (lv_claims s)"
| "possible (Requested c cmd) s \<longleftrightarrow> c \<notin> fst ` set (lv_claims s)"
| "possible (Answered k ans) s \<longleftrightarrow> k < length (w_praying (lv_world s))"
| "possible Delivered s \<longleftrightarrow> w_answered (lv_world s) \<noteq> []"
| "possible Ticked s \<longleftrightarrow> True"
| "possible (Elapsed dt) s \<longleftrightarrow> 0 \<le> dt"
| "possible (Reordered ps ds cs) s \<longleftrightarrow> mset ps = mset (w_players (lv_world s)) \<and>
     mset ds = mset (w_duels (lv_world s)) \<and> mset cs = mset (w_challenges (lv_world s))"

definition on_world :: "(world \<Rightarrow> world option) \<Rightarrow> live \<Rightarrow> live option" where
  "on_world f s = map_option (\<lambda>w. s\<lparr>lv_world := w\<rparr>) (f (lv_world s))"

text \<open>\<open>None\<close> is a panic on the world goroutine.\<close>

fun react :: "history \<Rightarrow> event \<Rightarrow> live \<Rightarrow> live option" where
  "react h (Claimed c i) s =
    (let (ok, w) = ClaimOnline i (lv_world s) in
     Some (if ok then \<lparr>lv_world = w, lv_claims = lv_claims s @ [(c, i)]\<rparr> else s))"
| "react h (Dropped c) s =
    Some (case map_of (lv_claims s) c of None \<Rightarrow> s
      | Some i \<Rightarrow> \<lparr>lv_world = ReleaseOnline i (lv_world s), lv_claims = amap_del c (lv_claims s)\<rparr>)"
| "react h (Joined c user ch r) s =
    (case map_of (lv_claims s) c of None \<Rightarrow> Some s
      | Some i \<Rightarrow> on_world (Join c i user ch r) (s\<lparr>lv_claims := amap_del c (lv_claims s)\<rparr>))"
| "react h (Left c) s = on_world (\<lambda>w. Some (Leave c w)) s"
| "react h (Requested c cmd) s = on_world (run_command h c cmd) s"
| "react h (Answered k ans) s = on_world (\<lambda>w. Some (w\<lparr>
      w_praying := take k (w_praying w) @ drop (Suc k) (w_praying w),
      w_answered := w_answered w @ [(w_praying w ! k, ans)]\<rparr>)) s"
| "react h Delivered s = on_world (\<lambda>w. case w_answered w of [] \<Rightarrow> Some w
      | (j, ans) # rest \<Rightarrow> Some (prayer_answer j ans (w\<lparr>w_answered := rest\<rparr>))) s"
| "react h Ticked s = on_world world_step s"
| "react h (Elapsed dt) s = on_world (\<lambda>w. Some (w\<lparr>w_now := w_now w + dt\<rparr>)) s"
| "react h (Reordered ps ds cs) s =
    on_world (\<lambda>w. Some (w\<lparr>w_players := ps, w_duels := ds, w_challenges := cs\<rparr>)) s"

text \<open>What the server is when it starts, and what it can become.\<close>

definition fresh_server :: "puzzle \<Rightarrow> WorldMap \<Rightarrow> Oracle option \<Rightarrow> gotime \<Rightarrow> rng \<Rightarrow> live" where
  "fresh_server P m gods now r =
    \<lparr>lv_world = (NewWorld m now r)\<lparr>w_Duels := Some P, w_OnRanked := True, w_Oracle := gods\<rparr>, lv_claims = []\<rparr>"

inductive reaches :: "history \<Rightarrow> live \<Rightarrow> event list \<Rightarrow> live \<Rightarrow> bool" for h s0 where
  start: "reaches h s0 [] s0"
| more: "reaches h s0 evs s \<Longrightarrow> possible ev s \<Longrightarrow> react h ev s = Some s' \<Longrightarrow> reaches h s0 (evs @ [ev]) s'"

inductive_cases reaches_snoc: "reaches h s0 (evs @ [ev]) s'"

text \<open>A run of the server on given events.\<close>

fun play :: "history \<Rightarrow> event list \<Rightarrow> live \<Rightarrow> live option" where
  "play h [] s = Some s"
| "play h (ev # evs) s = (if possible ev s then Option.bind (react h ev s) (play h evs) else None)"

lemma play_reaches: "reaches h s0 done s \<Longrightarrow> play h evs s = Some s' \<Longrightarrow> reaches h s0 (done @ evs) s'"
proof (induction evs arbitrary: "done" s)
  case (Cons ev evs)
  then obtain s1 where s1: "possible ev s" "react h ev s = Some s1" "play h evs s1 = Some s'"
    by (auto simp: bind_eq_Some_conv split: if_splits)
  show ?case using Cons.IH [OF reaches.more [OF Cons.prems(1) s1(1,2)] s1(3)] by simp
qed simp

definition is_join :: "event \<Rightarrow> bool" where
  "is_join ev = (case ev of Joined _ _ _ _ \<Rightarrow> True | _ \<Rightarrow> False)"

definition joins :: "event list \<Rightarrow> nat" where
  "joins evs = length (filter is_join evs)"

section \<open>The invariant\<close>

text \<open>Who has a seat: the players, and the connections about to join.\<close>

definition seats :: "live \<Rightarrow> (client \<times> int) list" where
  "seats s = accounts (lv_world s) @ lv_claims s"

definition live_ok :: "puzzle \<Rightarrow> nat \<Rightarrow> live \<Rightarrow> bool" where
  "live_ok P n s \<longleftrightarrow> sound P n (lv_world s) \<and> pictures (w_tick (lv_world s)) (lv_world s) \<and>
     distinct (map fst (seats s)) \<and> distinct (map snd (seats s)) \<and>
     distinct (w_online (lv_world s)) \<and> set (w_online (lv_world s)) = snd ` set (seats s)"

lemma live_okD:
  assumes "live_ok P n s"
  shows "sound P n (lv_world s)" "pictures (w_tick (lv_world s)) (lv_world s)" "distinct (map fst (seats s))"
    "distinct (map snd (seats s))" "distinct (w_online (lv_world s))" "set (w_online (lv_world s)) = snd ` set (seats s)"
  using assms by (simp_all add: live_ok_def)

text \<open>A step that leaves the seats as they are, in any order.\<close>

lemma live_ok_seats:
  assumes "live_ok P n s" and "sound P n (lv_world s')" and "pictures (w_tick (lv_world s')) (lv_world s')"
    and "mset (seats s') = mset (seats s)" and "w_online (lv_world s') = w_online (lv_world s)"
  shows "live_ok P n s'"
proof -
  have "mset (map f (seats s')) = mset (map f (seats s))" for f :: "client \<times> int \<Rightarrow> 'a" using assms(4) by simp
  note d = mset_eq_imp_distinct_iff [OF this]
  show ?thesis
    unfolding live_ok_def d mset_eq_setD [OF assms(4)] assms(5) using live_okD [OF assms(1)] assms(2,3) by blast
qed

lemma live_ok_same:
  assumes "live_ok P n s" and "sound P n w" and "pictures (w_tick w) w" and "accounts w = accounts (lv_world s)"
    and "w_online w = w_online (lv_world s)"
  shows "live_ok P n (s\<lparr>lv_world := w\<rparr>)"
  by (rule live_ok_seats [OF assms(1)]) (simp_all add: assms seats_def)

lemma live_ok_evolves:
  assumes "live_ok P n s" and "evolves P n (lv_world s) w"
  shows "live_ok P n (s\<lparr>lv_world := w\<rparr>)"
proof (rule live_ok_same [OF assms(1)])
  note s = live_okD [OF assms(1)] and sc = evolvesD(2) [OF assms(2)]
  show "sound P n w" by (rule evolves_sound [OF s(1) assms(2)])
  show "pictures (w_tick w) w" using pictures_scene [OF s(2) sc] sceneD(7) [OF sc] by simp
  show "accounts w = accounts (lv_world s)" by (rule accounts_scene [OF sc])
  show "w_online w = w_online (lv_world s)" by (rule sceneD(9) [OF sc])
qed

text \<open>What one step keeps, and what it does to the last ID.\<close>

definition moves_on :: "puzzle \<Rightarrow> nat \<Rightarrow> event \<Rightarrow> live \<Rightarrow> live \<Rightarrow> bool" where
  "moves_on P n ev s s' \<longleftrightarrow> live_ok P n s' \<and>
     w_nextID (lv_world s') = w_nextID (lv_world s) + (if is_join ev then 1 else 0)"

lemma runs_on_world:
  assumes "runs (f (lv_world s)) (\<lambda>w. live_ok P n (s\<lparr>lv_world := w\<rparr>) \<and> w_nextID w = w_nextID (lv_world s))"
    and "\<not> is_join ev"
  shows "runs (on_world f s) (moves_on P n ev s)"
  using assms by (auto simp: on_world_def moves_on_def runs_iff)

lemma evolves_moves:
  assumes "live_ok P n s" and "runs (f (lv_world s)) (evolves P n (lv_world s))" and "\<not> is_join ev"
  shows "runs (on_world f s) (moves_on P n ev s)"
proof (rule runs_on_world [OF _ assms(3)])
  show "runs (f (lv_world s)) (\<lambda>w. live_ok P n (s\<lparr>lv_world := w\<rparr>) \<and> w_nextID w = w_nextID (lv_world s))"
    by (rule runs_conseq [OF assms(2)]) (use live_ok_evolves [OF assms(1)] sceneD(6) [OF evolvesD(2)] in blast)
qed

section \<open>Every step keeps it\<close>

text \<open>Requests.\<close>

context duel_puzzle
begin

lemma run_command_evolves:
  assumes "invar p" and ok: "world_ok (puz p) (wlen p) w" and "\<nexists>pos. cmd = DoMove pos"
  shows "runs (run_command h c cmd w) (evolves (puz p) (wlen p) w)"
proof (cases cmd)
  case (DoProfile target)
  have "evolves (puz p) (wlen p) w (send c (ServerProfile prof) w)" for prof
    using off_duels_world_ok [OF ok off_duels_simps(1)]
    by (auto simp: evolves_def scene_def send_def flags_listed_def tells_def)
  then show ?thesis using evolves_refl [OF ok] by (simp add: DoProfile split: option.split)
qed (use assms handlers_evolve [OF assms(1) ok] Chat_evolves [OF ok] Challenge_evolves [OF ok]
  DuelTyping_evolves [OF ok] ForfeitDuel_evolves [OF ok] in simp_all)

lemma Requested_moves:
  assumes "invar p" and ok: "live_ok (puz p) (wlen p) s"
  shows "runs (react h (Requested c cmd) s) (moves_on (puz p) (wlen p) (Requested c cmd) s)"
proof (cases "\<exists>pos. cmd = DoMove pos")
  case False
  then show ?thesis
    using run_command_evolves [OF assms(1) soundD(1) [OF live_okD(1) [OF ok]] False]
    unfolding react.simps by (intro evolves_moves [OF ok]) (simp_all add: is_join_def)
next
  case True
  then obtain pos where cmd: "cmd = DoMove pos" ..
  let ?w = "lv_world s"
  note D = live_okD [OF ok]
  have f: "w_nextID (Move c pos ?w) = w_nextID ?w" "w_tick (Move c pos ?w) = w_tick ?w"
    by (cases rule: Move_cases [of c pos ?w];
      simp add: send_def upd_player_def place_entity_def upd_entity_def entityMoved_def grid_moved_def
        grid_insert_def grid_remove_def Let_def)+
  have "live_ok (puz p) (wlen p) (s\<lparr>lv_world := Move c pos ?w\<rparr>)"
    by (rule live_ok_same [OF ok]) (simp_all add: Move_sound [OF D(1)] pictures_Move [OF D(2)] f)
  then show ?thesis by (simp add: cmd on_world_def moves_on_def f is_join_def)
qed

end

text \<open>Connections. A claim takes a free account, and only its own connection gives it back.\<close>

lemma online_sound [simp]:
  "sound P n (w\<lparr>w_online := is\<rparr>) = sound P n w" "accounts (w\<lparr>w_online := is\<rparr>) = accounts w"
  "pictures t (w\<lparr>w_online := is\<rparr>) = pictures t w"
  unfolding sound_def world_ok_def players_ok_def dueling_ok_def challenges_ok_def challenge_ok_def prayers_ok_def
    roster_ok_def entities_ok_def grid_of_def cell_at_def flags_listed_def accounts_def pictures_def faithful_def
    picture_of_def
  by (simp_all add: side_def ent_of_def)

lemma amap_del_keys [simp]: "map fst (amap_del c m) = filter (\<lambda>x. x \<noteq> c) (map fst m)"
  by (simp add: amap_del_def filter_map o_def)

lemma account_keys: "fst ` set (accounts w) = fst ` set (w_players w)"
  by (force simp: accounts_def)

lemma Claimed_moves:
  assumes ok: "live_ok P n s" and "possible (Claimed c i) s"
  shows "runs (react h (Claimed c i) s) (moves_on P n (Claimed c i) s)"
proof (cases "i \<in> set (w_online (lv_world s))")
  case True
  then show ?thesis using ok by (simp add: ClaimOnline_def moves_on_def is_join_def)
next
  case False
  note D = live_okD [OF ok]
  have "c \<notin> fst ` set (seats s)" "i \<notin> snd ` set (seats s)"
    using assms(2) False D(6) by (simp_all add: seats_def image_Un account_keys)
  moreover have "seats \<lparr>lv_world = w\<lparr>w_online := is\<rparr>, lv_claims = lv_claims s @ [x]\<rparr> = seats s @ [x]"
    if "w = lv_world s" for w x "is" by (simp add: seats_def that)
  ultimately have "live_ok P n \<lparr>lv_world = (lv_world s)\<lparr>w_online := i # w_online (lv_world s)\<rparr>, lv_claims = lv_claims s @ [(c, i)]\<rparr>"
    using D False by (simp add: live_ok_def)
  then show ?thesis using False by (simp add: ClaimOnline_def moves_on_def is_join_def)
qed

text \<open>Giving up the seat of one connection frees its account and no other.\<close>

lemma seat_freed:
  assumes "distinct (map fst m)" and "distinct (map snd m)" and "(c, i) \<in> set m"
  shows "snd ` set (filter (\<lambda>a. fst a \<noteq> c) m) = snd ` set m - {i}"
proof -
  have "c' = c \<longleftrightarrow> j = i" if "(c', j) \<in> set m" for c' j
    using that assms by (metis eq_key_imp_eq_value fst_conv snd_conv inj_onD distinct_map prod.inject)
  then show ?thesis by (force simp: image_iff)
qed

lemma live_ok_freed:
  assumes ok: "live_ok P n s" and "sound P n (lv_world s')" and "pictures (w_tick (lv_world s')) (lv_world s')"
    and "(c, i) \<in> set (seats s)" and "seats s' = filter (\<lambda>a. fst a \<noteq> c) (seats s)"
    and "distinct (w_online (lv_world s'))"
    and "set (w_online (lv_world s')) = set (w_online (lv_world s)) - {i}"
  shows "live_ok P n s'"
proof -
  note D = live_okD [OF ok]
  show ?thesis
    unfolding live_ok_def assms(5) using assms(2,3,6,7) D(3,4,6) seat_freed [OF D(3,4) assms(4)]
    by (simp add: distinct_map_filter)
qed

lemma filter_accounts:
  assumes "c \<notin> fst ` set (w_players w)"
  shows "filter (\<lambda>a. fst a \<noteq> c) (accounts w) = accounts w"
  using assms by (intro filter_True) (force simp: accounts_def)

lemma claim_held:
  assumes "live_ok P n s" and "c \<in> fst ` set (lv_claims s)"
  obtains i where "map_of (lv_claims s) c = Some i" "(c, i) \<in> set (seats s)" "c \<notin> fst ` set (w_players (lv_world s))"
    "filter (\<lambda>a. fst a \<noteq> c) (seats s) = accounts (lv_world s) @ amap_del c (lv_claims s)"
proof -
  obtain i where i: "map_of (lv_claims s) c = Some i"
    using assms(2) by (cases "map_of (lv_claims s) c") (simp_all add: map_of_eq_None_iff)
  have c: "c \<notin> fst ` set (w_players (lv_world s))"
    using live_okD(3) [OF assms(1)] assms(2) account_keys [of "lv_world s"] by (auto simp: seats_def)
  show ?thesis
    by (rule that [OF i _ c]) (use map_of_SomeD [OF i] in \<open>simp_all add: seats_def filter_accounts [OF c] amap_del_def\<close>)
qed

lemma Dropped_moves:
  assumes ok: "live_ok P n s" and "possible (Dropped c) s"
  shows "runs (react h (Dropped c) s) (moves_on P n (Dropped c) s)"
proof -
  obtain i where i: "map_of (lv_claims s) c = Some i" "(c, i) \<in> set (seats s)"
    "filter (\<lambda>a. fst a \<noteq> c) (seats s) = accounts (lv_world s) @ amap_del c (lv_claims s)"
    using claim_held [OF ok assms(2) [unfolded possible.simps]] by metis
  have "live_ok P n \<lparr>lv_world = ReleaseOnline i (lv_world s), lv_claims = amap_del c (lv_claims s)\<rparr>"
    by (rule live_ok_freed [OF ok _ _ i(2)])
      (use live_okD [OF ok] in \<open>auto simp: ReleaseOnline_def i(3) seats_def [of "\<lparr>lv_world = _, lv_claims = _\<rparr>"]\<close>)
  then show ?thesis by (simp add: i(1) moves_on_def is_join_def ReleaseOnline_def)
qed

lemma Left_moves:
  assumes ok: "live_ok P n s" and "possible (Left c) s"
  shows "runs (react h (Left c) s) (moves_on P n (Left c) s)"
proof -
  let ?w = "lv_world s"
  note D = live_okD [OF ok] and L = Leave_sound [OF D(1), of c]
  have id: "w_nextID (Leave c ?w) = w_nextID ?w" "w_tick (Leave c ?w) = w_tick ?w"
    using sceneD(6,7) [OF evolvesD(2) [OF leaveDuels_evolves [OF soundD(1) [OF D(1)]]]]
    by (simp_all add: Leave_def Let_def ReleaseOnline_def removeEntity_def grid_remove_def split: option.split)
  have p: "pictures (w_tick (Leave c ?w)) (Leave c ?w)" unfolding id by (rule pictures_Leave [OF D(1,2)])
  have cl: "filter (\<lambda>a. fst a \<noteq> c) (lv_claims s) = lv_claims s"
    using assms(2) by (intro filter_True) force
  have "live_ok P n (s\<lparr>lv_world := Leave c ?w\<rparr>)"
  proof (cases "c \<in> fst ` set (w_players ?w)")
    case True
    then obtain i where i: "(c, i) \<in> set (accounts ?w)" using account_keys by (metis (no_types) imageE prod.collapse)
    have "{j. (c, j) \<in> set (accounts ?w)} = {i}"
      using i D(3) eq_key_imp_eq_value by (fastforce simp: seats_def)
    then show ?thesis
      by (intro live_ok_freed [OF ok, of _ c i]) (use i L p D(5) cl in \<open>simp_all add: seats_def\<close>)
  next
    case False
    then have "Leave c ?w = ?w" by (simp add: Leave_def map_of_eq_None_iff [THEN iffD2] split: option.split)
    then show ?thesis using live_ok_same [OF ok D(1,2)] by simp
  qed
  then show ?thesis by (simp add: on_world_def moves_on_def id is_join_def)
qed

lemma filter_key:
  assumes "distinct (map fst m)" and "(c, i) \<in> set m"
  shows "mset m = mset (filter (\<lambda>a. fst a \<noteq> c) m @ [(c, i)])"
  using assms
proof (induction m)
  case (Cons x m)
  show ?case
  proof (cases "fst x = c")
    case True
    then have "c \<notin> fst ` set m" using Cons.prems(1) by auto
    then have "x = (c, i)" "filter (\<lambda>a. fst a \<noteq> c) m = m"
      using Cons.prems(2) by (force simp: filter_id_conv)+
    then show ?thesis by simp
  next
    case False
    then show ?thesis using Cons by auto
  qed
qed simp

lemma Joined_moves:
  assumes ok: "live_ok P n s" and "possible (Joined c user ch r) s" and "w_nextID (lv_world s) + 1 \<noteq> 0"
  shows "runs (react h (Joined c user ch r) s) (moves_on P n (Joined c user ch r) s)"
proof -
  let ?w = "lv_world s"
  note D = live_okD [OF ok]
  have pc: "c \<in> fst ` set (lv_claims s)" "rating_ok r" using assms(2) by simp_all
  obtain i where i: "map_of (lv_claims s) c = Some i" "(c, i) \<in> set (seats s)" "c \<notin> fst ` set (w_players ?w)"
    "filter (\<lambda>a. fst a \<noteq> c) (seats s) = accounts ?w @ amap_del c (lv_claims s)"
    using claim_held [OF ok pc(1)] by metis
  note J = Join_sound [OF D(1) pc(2) i(3) assms(3), of i user ch] pictures_Join [OF D(1,2) i(3) assms(3), of i user ch r]
    Join_joined [OF roster_okD(3) [OF soundD(2) [OF D(1)]], of c i user ch r]
  obtain w' where w': "Join c i user ch r ?w = Some w'" using J(1) unfolding runs_iff by blast
  have j: "sound P n w'" "accounts w' = accounts ?w @ [(c, i)]" "w_online w' = w_online ?w" "pictures (w_tick ?w) w'"
    using J(1,2) by (simp_all add: w')
  have t: "w_tick w' = w_tick ?w" "w_nextID w' = w_nextID ?w + 1"
    using J(3) by (auto simp: w' send_def joined_fields set_rng_def)
  let ?s = "s\<lparr>lv_claims := amap_del c (lv_claims s), lv_world := w'\<rparr>"
  have "mset (seats ?s) = mset (seats s)"
    using filter_key [OF D(3) i(2)] unfolding i(4) by (simp add: seats_def j)
  then have "live_ok P n ?s" using j t by (intro live_ok_seats [OF ok]) simp_all
  then show ?thesis by (simp add: i(1) on_world_def w' moves_on_def t is_join_def)
qed

text \<open>Prayers, the ticker, the clock and the order of maps.\<close>

lemma off_duels_live:
  assumes ok: "live_ok P n s" and "world_ok P n w" and "roster_ok w = roster_ok (lv_world s)"
    and "w_players w = w_players (lv_world s)" "w_pobj w = w_pobj (lv_world s)" "w_eobj w = w_eobj (lv_world s)"
      "w_entities w = w_entities (lv_world s)" "w_out w = w_out (lv_world s)" "w_nextID w = w_nextID (lv_world s)"
      "w_tick w = w_tick (lv_world s)" "w_online w = w_online (lv_world s)"
  shows "live_ok P n (s\<lparr>lv_world := w\<rparr>)"
proof (rule live_ok_same [OF ok])
  note D = live_okD [OF ok]
  show "sound P n w" using assms(2,3) soundD(2) [OF D(1)] by (simp add: sound_def)
  show "pictures (w_tick w) w"
    unfolding assms(10) by (rule pictures_drift [OF D(2)]) (simp_all add: assms picture_of_def)
qed (simp_all add: assms accounts_def)

lemma Answered_moves:
  assumes ok: "live_ok P n s" and "possible (Answered k ans) s"
  shows "runs (react h (Answered k ans) s) (moves_on P n (Answered k ans) s)"
proof -
  let ?w = "lv_world s"
  let ?v = "?w\<lparr>w_praying := take k (w_praying ?w) @ drop (Suc k) (w_praying ?w),
      w_answered := w_answered ?w @ [(w_praying ?w ! k, ans)]\<rparr>"
  note wo = soundD(1) [OF live_okD(1) [OF ok]]
  have k: "k < length (w_praying ?w)" using assms(2) by simp
  have "prayers_ok ?v"
    using world_okD(5) [OF wo] k nth_mem [OF k] set_take_subset [of k "w_praying ?w"] set_drop_subset [of "Suc k" "w_praying ?w"]
    by (auto simp: prayers_ok_def)
  then have "world_ok P n ?v"
    using wo unfolding world_ok_def players_ok_def dueling_ok_def challenges_ok_def challenge_ok_def
    by (simp add: side_def ent_of_def)
  then have "live_ok P n (s\<lparr>lv_world := ?v\<rparr>)"
    by (rule off_duels_live [OF ok])
      (simp_all add: roster_ok_def entities_ok_def grid_of_def cell_at_def flags_listed_def ent_of_def)
  then show ?thesis by (simp add: on_world_def moves_on_def is_join_def)
qed

lemma Elapsed_moves:
  assumes ok: "live_ok P n s" and "possible (Elapsed dt) s"
  shows "runs (react h (Elapsed dt) s) (moves_on P n (Elapsed dt) s)"
proof -
  let ?v = "(lv_world s)\<lparr>w_now := w_now (lv_world s) + dt\<rparr>"
  have "world_ok P n ?v"
    by (rule off_duels_world_ok [OF soundD(1) [OF live_okD(1) [OF ok]]]) (use assms(2) in \<open>simp add: off_duels_def\<close>)
  then have "live_ok P n (s\<lparr>lv_world := ?v\<rparr>)"
    by (rule off_duels_live [OF ok])
      (simp_all add: roster_ok_def entities_ok_def grid_of_def cell_at_def flags_listed_def ent_of_def)
  then show ?thesis by (simp add: on_world_def moves_on_def is_join_def)
qed

lemma Ticked_moves:
  assumes ok: "live_ok P n s"
  shows "runs (react h Ticked s) (moves_on P n Ticked s)"
  unfolding react.simps
proof (rule runs_on_world)
  note D = live_okD [OF ok]
  show "runs (world_step (lv_world s)) (\<lambda>w. live_ok P n (s\<lparr>lv_world := w\<rparr>) \<and> w_nextID w = w_nextID (lv_world s))"
    by (rule runs_conseq [OF world_step_painted [OF D(1,2)]]) (use live_ok_same [OF ok] in blast)
qed (simp add: is_join_def)

lemma Delivered_moves:
  assumes ok: "live_ok P n s" and "possible Delivered s"
  shows "runs (react h Delivered s) (moves_on P n Delivered s)"
proof -
  let ?w = "lv_world s"
  obtain j ans rest where a: "w_answered ?w = (j, ans) # rest" using assms(2) by (cases "w_answered ?w") auto
  note wo = soundD(1) [OF live_okD(1) [OF ok]]
  have j: "0 \<le> pj_cost j" using world_okD(5) [OF wo] by (simp add: prayers_ok_def a)
  let ?v = "?w\<lparr>w_answered := rest\<rparr>"
  have v: "world_ok P n ?v"
    using wo unfolding world_ok_def players_ok_def dueling_ok_def challenges_ok_def challenge_ok_def prayers_ok_def
    by (simp add: side_def ent_of_def a)
  then have "live_ok P n (s\<lparr>lv_world := ?v\<rparr>)"
    by (rule off_duels_live [OF ok])
      (simp_all add: roster_ok_def entities_ok_def grid_of_def cell_at_def flags_listed_def ent_of_def)
  from live_ok_evolves [OF this, of "prayer_answer j ans ?v"] prayer_answer_evolves [OF v j, of ans]
  have "live_ok P n (s\<lparr>lv_world := prayer_answer j ans ?v\<rparr>)" by simp
  moreover have "w_nextID (prayer_answer j ans ?v) = w_nextID ?w"
    using sceneD(6) [OF evolvesD(2) [OF prayer_answer_evolves [OF v j, of ans]]] by simp
  ultimately show ?thesis by (simp add: on_world_def moves_on_def is_join_def a)
qed

lemma Reordered_moves:
  assumes ok: "live_ok P n s" and "possible (Reordered ps ds cs) s"
  shows "runs (react h (Reordered ps ds cs) s) (moves_on P n (Reordered ps ds cs) s)"
proof -
  let ?w = "lv_world s" and ?v = "(lv_world s)\<lparr>w_players := ps, w_duels := ds, w_challenges := cs\<rparr>"
  note D = live_okD [OF ok]
  have m: "mset ps = mset (w_players ?w)" "mset ds = mset (w_duels ?w)" "mset cs = mset (w_challenges ?w)"
    using assms(2) by simp_all
  note set_eq = mset_eq_setD [OF m(1)] mset_eq_setD [OF m(2)] mset_eq_setD [OF m(3)]
  have d: "distinct (map f ps) = distinct (map f (w_players ?w))" for f :: "client \<times> pref \<Rightarrow> 'a"
    by (rule mset_eq_imp_distinct_iff) (simp add: m)
  have dc: "distinct (map f cs) = distinct (map f (w_challenges ?w))" for f :: "32 word \<times> challenge \<Rightarrow> 'b"
    by (rule mset_eq_imp_distinct_iff) (simp add: m)
  note dd = mset_eq_imp_distinct_iff [OF m(2)]
  have "players_ok ?v = players_ok ?w" by (simp add: players_ok_def d set_eq ent_of_def)
  moreover have "dueling_ok ?v = dueling_ok ?w" by (simp add: dueling_ok_def dd set_eq side_def)
  moreover have "challenges_ok ?v = challenges_ok ?w" by (simp add: challenges_ok_def challenge_ok_def dc set_eq)
  moreover have "prayers_ok ?v = prayers_ok ?w" by (simp add: prayers_ok_def)
  moreover have "roster_ok ?v = roster_ok ?w"
    by (simp add: roster_ok_def set_eq entities_ok_def grid_of_def cell_at_def flags_listed_def ent_of_def)
  ultimately have "sound P n ?v" using D(1) by (simp add: sound_def world_ok_def set_eq)
  moreover have "pictures (w_tick ?v) ?v"
    by (rule pictures_drift [where w = ?w]) (simp_all add: D(2) set_eq picture_of_def)
  moreover have "mset (accounts ?v) = mset (accounts ?w)" by (simp add: accounts_def m)
  ultimately have "live_ok P n (s\<lparr>lv_world := ?v\<rparr>)"
    by (intro live_ok_seats [OF ok]) (simp_all add: seats_def)
  then show ?thesis by (simp add: on_world_def moves_on_def is_join_def)
qed

section \<open>Every reachable state\<close>

lemma fresh_server_ok:
  assumes "map_valid m"
  shows "live_ok P n (fresh_server P m gods now r)"
  using assms
  by (simp add: live_ok_def fresh_server_def NewWorld_def sound_def world_ok_def players_ok_def dueling_ok_def
      challenges_ok_def prayers_ok_def roster_ok_def entities_ok_def grid_of_def cell_at_def flags_listed_def pictures_def
      seats_def accounts_def blank_entity_def blank_player_def)

lemma joins_snoc [simp]: "joins [] = 0" "joins (evs @ [ev]) = joins evs + (if is_join ev then 1 else 0)"
  by (simp_all add: joins_def)

context duel_puzzle
begin

lemma react_moves:
  assumes "invar p" and ok: "live_ok (puz p) (wlen p) s" and "possible ev s"
    and "is_join ev \<Longrightarrow> w_nextID (lv_world s) + 1 \<noteq> 0"
  shows "runs (react h ev s) (moves_on (puz p) (wlen p) ev s)"
proof (cases ev)
  case (Joined c user ch r)
  then show ?thesis
    using Joined_moves [OF ok assms(3) [unfolded Joined]] assms(4) by (simp add: is_join_def del: react.simps)
qed (use Claimed_moves [OF ok] Dropped_moves [OF ok] Left_moves [OF ok] Requested_moves [OF assms(1) ok]
  Answered_moves [OF ok] Delivered_moves [OF ok] Ticked_moves [OF ok] Elapsed_moves [OF ok] Reordered_moves [OF ok]
  assms(3) in \<open>simp_all del: react.simps possible.simps\<close>)

text \<open>As long as entity IDs last, which is for \<open>2 ^ 32 - 1\<close> joins.\<close>

lemma next_id:
  assumes "joins evs + 1 < 2 ^ 32"
  shows "(of_nat (joins evs) :: 32 word) + 1 \<noteq> 0"
proof -
  have "(of_nat (joins evs + 1) :: 32 word) \<noteq> 0"
    using assms by (subst word_of_nat_eq_0_iff) (auto dest: dvd_imp_le)
  then show ?thesis by (simp add: add.commute)
qed

lemma reaches_ok:
  assumes "reaches h (fresh_server (puz p) m gods now r) evs s"
    and "invar p" and "map_valid m" and "joins evs < 2 ^ 32"
  shows "live_ok (puz p) (wlen p) s \<and> w_nextID (lv_world s) = of_nat (joins evs)"
  using assms
proof (induction rule: reaches.induct)
  case start
  then show ?case using fresh_server_ok by (simp add: fresh_server_def NewWorld_def)
next
  case (more evs s ev s')
  then have IH: "live_ok (puz p) (wlen p) s" "w_nextID (lv_world s) = of_nat (joins evs)"
    by (auto split: if_splits)
  have "is_join ev \<Longrightarrow> w_nextID (lv_world s) + 1 \<noteq> 0"
    using next_id [of evs] more.prems by (simp add: IH(2))
  from react_moves [OF more.prems(1) IH(1) more.hyps(2) this, of h]
  show ?case using more.hyps(3) IH(2) by (simp add: moves_on_def)
qed

lemma reaches_runs:
  assumes "reaches h (fresh_server (puz p) m gods now r) evs s"
    and "invar p" and "map_valid m" and "joins (evs @ [ev]) < 2 ^ 32" and "possible ev s"
  shows "runs (react h ev s) (moves_on (puz p) (wlen p) ev s)"
proof -
  have ok: "live_ok (puz p) (wlen p) s \<and> w_nextID (lv_world s) = of_nat (joins evs)"
    by (rule reaches_ok [OF assms(1-3)]) (use assms(4) in \<open>simp split: if_splits\<close>)
  show ?thesis
    by (rule react_moves [OF assms(2) conjunct1 [OF ok] assms(5)])
      (use next_id [of evs] assms(4) in \<open>simp add: conjunct2 [OF ok]\<close>)
qed

end

text \<open>The server on its word lists and map, after some events.\<close>

definition serving :: "DuelPuzzle \<Rightarrow> WorldMap \<Rightarrow> history \<Rightarrow> event list \<Rightarrow> live \<Rightarrow> bool" where
  "serving dp m h evs s \<longleftrightarrow> duel_words_ok dp \<and> map_valid m \<and> joins evs < 2 ^ 32 \<and>
     (\<exists>gods now r. reaches h (fresh_server (wordle_puzzle dp) m gods now r) evs s)"

lemma serving_ok:
  assumes "serving dp m h evs s"
  shows "live_ok (wordle_puzzle dp) (word_length dp) s"
  using assms wordle.reaches_ok unfolding serving_def by blast

lemma serving_sound:
  assumes "serving dp m h evs s"
  shows "sound (wordle_puzzle dp) (word_length dp) (lv_world s)"
    "world_ok (wordle_puzzle dp) (word_length dp) (lv_world s)" "roster_ok (lv_world s)"
    "pictures (w_tick (lv_world s)) (lv_world s)" "duel_words_ok dp"
proof -
  note D = live_okD [OF serving_ok [OF assms]]
  show "sound (wordle_puzzle dp) (word_length dp) (lv_world s)" by (rule D(1))
  show "world_ok (wordle_puzzle dp) (word_length dp) (lv_world s)" "roster_ok (lv_world s)" by (rule soundD [OF D(1)])+
  show "pictures (w_tick (lv_world s)) (lv_world s)" by (rule D(2))
  show "duel_words_ok dp" using assms by (simp add: serving_def)
qed

lemma serving_runs:
  assumes "serving dp m h evs s" and "possible ev s" and "joins (evs @ [ev]) < 2 ^ 32"
  shows "runs (react h ev s) (\<lambda>s'. moves_on (wordle_puzzle dp) (word_length dp) ev s s' \<and> serving dp m h (evs @ [ev]) s')"
proof -
  obtain gods now r where R: "duel_words_ok dp" "map_valid m"
      "reaches h (fresh_server (wordle_puzzle dp) m gods now r) evs s"
    using assms(1) unfolding serving_def by blast
  have "runs (react h ev s) (moves_on (wordle_puzzle dp) (word_length dp) ev s)"
    by (rule wordle.reaches_runs [OF R(3) R(1,2) assms(3,2)])
  then show ?thesis using reaches.more [OF R(3) assms(2)] R(1,2) assms(3) unfolding runs_iff serving_def by blast
qed

text \<open>Whoever made a waiting challenge, or is asked by one, is in the world under exactly one connection.\<close>

lemma challenge_present:
  assumes "serving dp m h evs s" and "(i, ch) \<in> set (w_challenges (lv_world s))"
  shows "\<forall>c. (c, ch_from ch) \<in> set (w_players (lv_world s)) \<longleftrightarrow> c = p_client (w_pobj (lv_world s) (ch_from ch))"
    "\<forall>c. (c, ch_to ch) \<in> set (w_players (lv_world s)) \<longleftrightarrow> c = p_client (w_pobj (lv_world s) (ch_to ch))"
proof -
  let ?w = "lv_world s"
  note S = serving_sound [OF assms(1)]
  have one: "\<forall>c. (c, p) \<in> set (w_players ?w) \<longleftrightarrow> c = p_client (w_pobj ?w p)" if "p \<in> snd ` set (w_players ?w)" for p
    using that players_okD(1) [OF world_okD(2) [OF S(2)]] by auto
  have "challenge_ok ?w (i, ch)" using world_okD(4) [OF S(2)] assms(2) by (auto simp: challenges_ok_def)
  then have "ch_from ch \<in> snd ` set (w_players ?w)" "ch_to ch \<in> snd ` set (w_players ?w)"
    by (auto simp: challenge_ok_def)
  from one [OF this(1)] one [OF this(2)]
  show "\<forall>c. (c, ch_from ch) \<in> set (w_players ?w) \<longleftrightarrow> c = p_client (w_pobj ?w (ch_from ch))"
    "\<forall>c. (c, ch_to ch) \<in> set (w_players ?w) \<longleftrightarrow> c = p_client (w_pobj ?w (ch_to ch))" .
qed

text \<open>Accepting a challenge in any of these states starts the duel.\<close>

lemma challenge_accepted:
  assumes "serving dp m h evs s" and "(i, ch) \<in> set (w_challenges (lv_world s))"
    and "(c, ch_to ch) \<in> set (w_players (lv_world s))"
  shows "\<exists>w' d. RespondDuel c i True (lv_world s) = Some w' \<and> d \<in> set (w_duels w') \<and>
    p_duel (w_pobj w' (ch_from ch)) = Some d \<and> p_duel (w_pobj w' (ch_to ch)) = Some d \<and>
    ch_from ch \<noteq> ch_to ch \<and> p_duel (w_pobj (lv_world s) (ch_from ch)) = None \<and>
    p_duel (w_pobj (lv_world s) (ch_to ch)) = None \<and> length (side_word (side w' d SideA)) = word_length dp \<and>
    side_p (side w' d SideA) = ch_from ch \<and> side_p (side w' d SideB) = ch_to ch \<and>
    side_word (side w' d SideB) = side_word (side w' d SideA) \<and> d_ranked (w_dobj w' d) = ch_ranked ch"
proof -
  let ?w = "lv_world s" and ?P = "wordle_puzzle dp" and ?n = "word_length dp"
  note S = serving_sound [OF assms(1)]
  have co: "challenge_ok ?w (i, ch)" and i: "map_of (w_challenges ?w) i = Some ch"
    using world_okD(4) [OF S(2)] assms(2) by (auto simp: challenges_ok_def)
  have c: "map_of (w_players ?w) c = Some (ch_to ch)"
    using players_okD(4) [OF world_okD(2) [OF S(2)] assms(3)] .
  let ?w1 = "delete_challenge i ?w"
  have ev: "evolves ?P ?n ?w ?w1"
    by (rule filter_evolves [OF S(2) lobby_simps(2)]) (simp add: amap_del_def)
  have f: "w_players ?w1 = w_players ?w" "w_pobj ?w1 = w_pobj ?w" by (simp_all add: delete_challenge_def)
  have "runs (startDuel (ch_from ch) (ch_to ch) (ch_ranked ch) ?w1) (\<lambda>w'. evolves ?P ?n ?w1 w' \<and>
      p_duel (w_pobj w' (ch_from ch)) = Some (w_fresh ?w1) \<and> p_duel (w_pobj w' (ch_to ch)) = Some (w_fresh ?w1) \<and>
      (\<exists>word rows. w_dobj w' (w_fresh ?w1) = new_duel (w_now ?w1) (ch_from ch) (ch_to ch) word rows (ch_ranked ch)))"
    using co by (intro wordle.startDuel_evolves [OF S(5) evolvesD(1) [OF ev]]) (auto simp: challenge_ok_def f)
  then obtain w' word rows where w': "startDuel (ch_from ch) (ch_to ch) (ch_ranked ch) ?w1 = Some w'" "evolves ?P ?n ?w1 w'"
      "p_duel (w_pobj w' (ch_from ch)) = Some (w_fresh ?w1)" "p_duel (w_pobj w' (ch_to ch)) = Some (w_fresh ?w1)"
      "w_dobj w' (w_fresh ?w1) = new_duel (w_now ?w1) (ch_from ch) (ch_to ch) word rows (ch_ranked ch)"
    by (auto simp: runs_iff)
  have "RespondDuel c i True ?w = Some w'"
    using co w'(1) by (simp add: RespondDuel_def c i f Let_def challenge_ok_def)
  moreover have d: "w_fresh ?w1 \<in> set (w_duels w')"
    by (rule dueling_okD(5) [OF world_okD(3) [OF evolvesD(1) [OF w'(2)]] w'(3)])
  moreover have "length (side_word (side w' (w_fresh ?w1) SideA)) = ?n"
    using side_okD(1) [OF duel_okD(1) [OF world_okD(6) [OF evolvesD(1) [OF w'(2)] d], of SideA]] by (simp add: side_def)
  moreover have "side_p (side w' (w_fresh ?w1) SideA) = ch_from ch" "side_p (side w' (w_fresh ?w1) SideB) = ch_to ch"
    "side_word (side w' (w_fresh ?w1) SideB) = side_word (side w' (w_fresh ?w1) SideA)"
    "d_ranked (w_dobj w' (w_fresh ?w1)) = ch_ranked ch"
    by (simp_all add: side_def w'(5) new_duel_def new_side_def side_effects.defs)
  ultimately show ?thesis using w'(3,4) co unfolding challenge_ok_def by auto
qed

end
