(* ===== verification/Store.thy ===== *)
theory Store
  imports Protocol "HOL-Library.Product_Lexorder"
begin

text \<open>
  The database (\<open>internal/store\<close>): the tables of the schema, its constraints, and every statement the
  package runs. SQLite itself is not code of the repository: a table is the list of its rows by ID,
  and each statement is translated from its SQL text. The schema's \<open>UNIQUE\<close>, \<open>CHECK\<close> and
  \<open>REFERENCES\<close> clauses are the conditions under which a statement fails. A statement may also fail for
  reasons of its own (a full disk, a lock, a closed database): \<open>db_faults\<close> says which of the next ones
  do, any list of them. A failed statement changes nothing; nor does a transaction that is rolled back.
\<close>

section \<open>Tables\<close>

record Player =
  pl_ID :: int
  pl_Username :: string

record Character =
  sc_ID :: int
  sc_PlayerID :: int
  sc_Slot :: int
  sc_Name :: string
  sc_Class :: string
  sc_Deleted :: bool

record WordleResult =
  wl_Date :: string
  wl_Win :: bool
  wl_Seconds :: real
  wl_GuessCount :: int
  wl_PlayerID :: int
  wl_CharacterID :: int

record StoreRating =
  sr_CharacterID :: int
  sr_Elo :: int
  sr_Peak :: int
  sr_Games :: int
  sr_Wins :: int
  sr_Losses :: int
  sr_Draws :: int

record RankedDuel =
  rd_PlayedAt :: int
  rd_A :: int
  rd_B :: int
  rd_Winner :: int
  rd_Reason :: int
  rd_ABefore :: int
  rd_AAfter :: int
  rd_BBefore :: int
  rd_BAfter :: int
  rd_AGuesses :: int
  rd_BGuesses :: int
  rd_Seconds :: real

text \<open>
  A player's row has the password's hash, a duel's row the winner's column, which is \<open>NULL\<close> for a
  draw. \<open>AUTOINCREMENT\<close> never gives an ID twice: each table remembers the last one.
\<close>

record tables =
  t_Player :: "(Player \<times> string) list"
  t_Character :: "Character list"
  t_Wordle :: "(int \<times> WordleResult) list"
  t_Rating :: "StoreRating list"
  t_RankedDuel :: "(int \<times> RankedDuel \<times> int option) list"
  seq_Player :: int
  seq_Character :: int
  seq_Wordle :: int
  seq_RankedDuel :: int

definition empty_tables :: tables where
  "empty_tables = \<lparr>t_Player = [], t_Character = [], t_Wordle = [], t_Rating = [], t_RankedDuel = [],
     seq_Player = 0, seq_Character = 0, seq_Wordle = 0, seq_RankedDuel = 0\<rparr>"

section \<open>Statements\<close>

datatype db_error = ErrUnique | ErrConstraint | ErrDB

record Store =
  db_tables :: tables
  db_faults :: "bool list"

type_synonym 'a query = "Store \<Rightarrow> (db_error + 'a) \<times> Store"

text \<open>One statement: what it does to the tables, unless it fails.\<close>

definition statement :: "(tables \<Rightarrow> db_error + ('a \<times> tables)) \<Rightarrow> 'a query" where
  "statement f s =
    (let s' = s\<lparr>db_faults := tl (db_faults s)\<rparr> in
     if db_faults s \<noteq> [] \<and> hd (db_faults s) then (Inl ErrDB, s')
     else (case f (db_tables s) of Inl e \<Rightarrow> (Inl e, s') | Inr (x, t) \<Rightarrow> (Inr x, s'\<lparr>db_tables := t\<rparr>)))"

definition select :: "(tables \<Rightarrow> 'a) \<Rightarrow> 'a query" where
  "select f = statement (\<lambda>t. Inr (f t, t))"

definition and_then :: "'a query \<Rightarrow> ('a \<Rightarrow> 'b query) \<Rightarrow> 'b query" where
  "and_then m f s = (case m s of (Inl e, s) \<Rightarrow> (Inl e, s) | (Inr x, s) \<Rightarrow> f x s)"

text \<open>\<open>Begin\<close> and \<open>Commit\<close> are statements too; the deferred \<open>Rollback\<close> undoes the rest.\<close>

definition transaction :: "'a query \<Rightarrow> 'a query" where
  "transaction body s =
    (case select (\<lambda>_. ()) s of
      (Inl e, s) \<Rightarrow> (Inl e, s)
    | (Inr _, s) \<Rightarrow>
        (case and_then body (\<lambda>x. and_then (select (\<lambda>_. ())) (\<lambda>_ s. (Inr x, s))) s of
          (Inl e, s') \<Rightarrow> (Inl e, s'\<lparr>db_tables := db_tables s\<rparr>)
        | (Inr x, s') \<Rightarrow> (Inr x, s')))"

section \<open>Players\<close>

definition player_by_name :: "string \<Rightarrow> tables \<Rightarrow> (Player \<times> string) option" where
  "player_by_name uname t = find (\<lambda>(p, _). pl_Username p = uname) (t_Player t)"

text \<open>No row is not an error: \<open>None\<close> stands for \<open>found = false\<close>.\<close>

definition PlayerByUsername :: "string \<Rightarrow> Player option query" where
  "PlayerByUsername uname = select (\<lambda>t. map_option fst (player_by_name uname t))"

definition PlayerAuth :: "string \<Rightarrow> (Player \<times> string) option query" where
  "PlayerAuth uname = select (player_by_name uname)"

definition insert_player :: "string \<Rightarrow> string \<Rightarrow> tables \<Rightarrow> db_error + (unit \<times> tables)" where
  "insert_player uname hash t =
    (if \<exists>(p, _) \<in> set (t_Player t). pl_Username p = uname then Inl ErrUnique
     else let i = seq_Player t + 1 in
       Inr ((), t\<lparr>t_Player := t_Player t @ [(\<lparr>pl_ID = i, pl_Username = uname\<rparr>, hash)], seq_Player := i\<rparr>))"

definition InsertPlayer :: "string \<Rightarrow> string \<Rightarrow> bool query" where
  "InsertPlayer uname hash s =
    (case statement (insert_player uname hash) s of
      (Inl ErrUnique, s) \<Rightarrow> (Inr True, s)
    | (Inl e, s) \<Rightarrow> (Inl e, s)
    | (Inr _, s) \<Rightarrow> (Inr False, s))"

section \<open>Characters\<close>

definition CharacterSlots :: int where "CharacterSlots = 4"

definition Characters :: "int \<Rightarrow> Character list query" where
  "Characters pid = select (\<lambda>t. sort_key sc_Slot
     (filter (\<lambda>c. sc_PlayerID c = pid \<and> \<not> sc_Deleted c) (t_Character t)))"

definition CharacterByID :: "int \<Rightarrow> Character option query" where
  "CharacterByID i = select (\<lambda>t. find (\<lambda>c. sc_ID c = i) (t_Character t))"

definition insert_character :: "int \<Rightarrow> int \<Rightarrow> string \<Rightarrow> string \<Rightarrow> tables \<Rightarrow> db_error + (Character \<times> tables)" where
  "insert_character pid slot name cls t =
    (if \<not> (0 \<le> slot \<and> slot \<le> 3) then Inl ErrConstraint
     else if \<exists>c \<in> set (t_Character t). sc_PlayerID c = pid \<and> sc_Slot c = slot \<and> \<not> sc_Deleted c then Inl ErrUnique
     else if pid \<notin> (pl_ID \<circ> fst) ` set (t_Player t) then Inl ErrConstraint
     else let i = seq_Character t + 1;
              c = \<lparr>sc_ID = i, sc_PlayerID = pid, sc_Slot = slot, sc_Name = name, sc_Class = cls, sc_Deleted = False\<rparr>
          in Inr (c, t\<lparr>t_Character := t_Character t @ [c], seq_Character := i\<rparr>))"

text \<open>\<open>None\<close> is \<open>taken = true\<close>.\<close>

definition InsertCharacter :: "int \<Rightarrow> int \<Rightarrow> string \<Rightarrow> string \<Rightarrow> Character option query" where
  "InsertCharacter pid slot name cls s =
    (case statement (insert_character pid slot name cls) s of
      (Inl ErrUnique, s) \<Rightarrow> (Inr None, s)
    | (Inl e, s) \<Rightarrow> (Inl e, s)
    | (Inr c, s) \<Rightarrow> (Inr (Some c), s))"

definition DeleteCharacter :: "int \<Rightarrow> int \<Rightarrow> bool query" where
  "DeleteCharacter pid i = statement (\<lambda>t.
     let hit = (\<lambda>c. sc_ID c = i \<and> sc_PlayerID c = pid \<and> \<not> sc_Deleted c);
         n = length (filter hit (t_Character t))
     in Inr (0 < n, t\<lparr>t_Character := map (\<lambda>c. if hit c then c\<lparr>sc_Deleted := True\<rparr> else c) (t_Character t)\<rparr>))"

section \<open>The daily puzzle\<close>

definition PlayedWordleOn :: "int \<Rightarrow> string \<Rightarrow> bool query" where
  "PlayedWordleOn pid date = select (\<lambda>t.
     let n = length (filter (\<lambda>(_, r). wl_PlayerID r = pid \<and> wl_Date r = date) (t_Wordle t)) in 0 < n)"

definition insert_wordle :: "WordleResult \<Rightarrow> tables \<Rightarrow> db_error + (unit \<times> tables)" where
  "insert_wordle r t =
    (if \<exists>(_, r') \<in> set (t_Wordle t). wl_PlayerID r' = wl_PlayerID r \<and> wl_Date r' = wl_Date r then Inl ErrUnique
     else if wl_PlayerID r \<notin> (pl_ID \<circ> fst) ` set (t_Player t) \<or> wl_CharacterID r \<notin> sc_ID ` set (t_Character t)
     then Inl ErrConstraint
     else let i = seq_Wordle t + 1 in Inr ((), t\<lparr>t_Wordle := t_Wordle t @ [(i, r)], seq_Wordle := i\<rparr>))"

definition InsertWordle :: "WordleResult \<Rightarrow> unit query" where
  "InsertWordle r = statement (insert_wordle r)"

record LeaderboardRow =
  lb_Place :: int
  lb_Uname :: string
  lb_CharacterID :: int
  lb_Char :: string
  lb_Class :: string
  lb_Guesses :: int
  lb_Time :: real

text \<open>
  The winners of a day in order: fewest guesses first, then the fastest. The statement does not say who
  comes first of two that tie, so SQLite may answer each query in another order: a \<open>scan\<close> is the order in
  which one query comes by the rows.
\<close>

type_synonym scan = "(int \<times> WordleResult) list \<Rightarrow> (int \<times> WordleResult) list"

definition scan_ok :: "scan \<Rightarrow> bool" where
  "scan_ok scan \<longleftrightarrow> (\<forall>rows. mset (scan rows) = mset rows)"

definition ranking :: "scan \<Rightarrow> string \<Rightarrow> tables \<Rightarrow> (int \<times> WordleResult) list" where
  "ranking scan date t = sort_key (\<lambda>(_, r). (wl_GuessCount r, wl_Seconds r))
     (scan (filter (\<lambda>(_, r). wl_Date r = date \<and> wl_Win r) (t_Wordle t)))"

definition leaderboard_rows :: "scan \<Rightarrow> string \<Rightarrow> tables \<Rightarrow> LeaderboardRow list" where
  "leaderboard_rows scan date t = concat (map (\<lambda>(_, r).
     concat (map (\<lambda>c. map (\<lambda>(p, _).
         \<lparr>lb_Place = 0, lb_Uname = pl_Username p, lb_CharacterID = sc_ID c, lb_Char = sc_Name c,
          lb_Class = sc_Class c, lb_Guesses = wl_GuessCount r, lb_Time = wl_Seconds r\<rparr>)
       (filter (\<lambda>(p, _). pl_ID p = sc_PlayerID c) (t_Player t)))
     (filter (\<lambda>c. sc_ID c = wl_CharacterID r) (t_Character t)))) (ranking scan date t))"

text \<open>A negative \<open>LIMIT\<close> is no limit, a negative \<open>OFFSET\<close> is none.\<close>

definition sql_page :: "int \<Rightarrow> int \<Rightarrow> 'a list \<Rightarrow> 'a list" where
  "sql_page limit offset xs = (let xs = drop (nat offset) xs in if limit < 0 then xs else take (nat limit) xs)"

fun number_rows :: "int \<Rightarrow> LeaderboardRow list \<Rightarrow> LeaderboardRow list" where
  "number_rows place [] = []"
| "number_rows place (row # rows) = row\<lparr>lb_Place := place\<rparr> # number_rows (place + 1) rows"

definition WordleLeaderboard :: "scan \<Rightarrow> string \<Rightarrow> int \<Rightarrow> int \<Rightarrow> (LeaderboardRow list \<times> int) query" where
  "WordleLeaderboard scan date limit offset =
    and_then (select (\<lambda>t. int (length (filter (\<lambda>(_, r). wl_Date r = date \<and> wl_Win r) (t_Wordle t))))) (\<lambda>total.
    and_then (select (\<lambda>t. sql_page limit offset (leaderboard_rows scan date t))) (\<lambda>rows s.
      (Inr (number_rows (offset + 1) rows, total), s)))"

section \<open>Ranked duels\<close>

definition StoredRating :: "int \<Rightarrow> StoreRating option query" where
  "StoredRating charID = select (\<lambda>t. find (\<lambda>r. sr_CharacterID r = charID) (t_Rating t))"

definition insert_duel :: "RankedDuel \<Rightarrow> tables \<Rightarrow> db_error + (unit \<times> tables)" where
  "insert_duel d t =
    (let winner = (if rd_Winner d \<noteq> 0 then Some (rd_Winner d) else None); known = sc_ID ` set (t_Character t) in
     if rd_A d \<notin> known \<or> rd_B d \<notin> known \<or> (case winner of None \<Rightarrow> False | Some c \<Rightarrow> c \<notin> known)
     then Inl ErrConstraint
     else let i = seq_RankedDuel t + 1 in
       Inr ((), t\<lparr>t_RankedDuel := t_RankedDuel t @ [(i, d, winner)], seq_RankedDuel := i\<rparr>))"

definition upsert_rating :: "StoreRating \<Rightarrow> tables \<Rightarrow> db_error + (unit \<times> tables)" where
  "upsert_rating r t =
    (if sr_CharacterID r \<in> sr_CharacterID ` set (t_Rating t)
     then Inr ((), t\<lparr>t_Rating := map (\<lambda>r'. if sr_CharacterID r' = sr_CharacterID r then r else r') (t_Rating t)\<rparr>)
     else if sr_CharacterID r \<notin> sc_ID ` set (t_Character t) then Inl ErrConstraint
     else Inr ((), t\<lparr>t_Rating := t_Rating t @ [r]\<rparr>))"

definition ApplyRankedDuel :: "RankedDuel \<Rightarrow> StoreRating \<Rightarrow> StoreRating \<Rightarrow> unit query" where
  "ApplyRankedDuel d a b = transaction
    (and_then (statement (insert_duel d)) (\<lambda>_.
     and_then (statement (upsert_rating a)) (\<lambda>_.
     statement (upsert_rating b))))"

record RankedDuelRow =
  rr_Opponent :: string
  rr_OpponentClass :: string
  rr_Won :: bool
  rr_Draw :: bool
  rr_Change :: int
  rr_PlayedAt :: int

definition duel_rows :: "int \<Rightarrow> tables \<Rightarrow> RankedDuelRow list" where
  "duel_rows charID t = concat (map (\<lambda>(_, d, winner).
     map (\<lambda>c. \<lparr>rr_Opponent = sc_Name c, rr_OpponentClass = sc_Class c, rr_Won = (winner = Some charID),
               rr_Draw = (winner = None),
               rr_Change = (if rd_A d = charID then rd_AAfter d - rd_ABefore d else rd_BAfter d - rd_BBefore d),
               rr_PlayedAt = rd_PlayedAt d\<rparr>)
       (filter (\<lambda>c. sc_ID c = (if rd_A d = charID then rd_B d else rd_A d)) (t_Character t)))
     (rev (sort_key (\<lambda>(i, d, _). (rd_PlayedAt d, i))
       (filter (\<lambda>(_, d, _). rd_A d = charID \<or> rd_B d = charID) (t_RankedDuel t)))))"

definition RecentRankedDuels :: "int \<Rightarrow> int \<Rightarrow> RankedDuelRow list query" where
  "RecentRankedDuels charID limit = select (\<lambda>t. sql_page limit 0 (duel_rows charID t))"

section \<open>What the schema keeps\<close>

definition player_ids :: "tables \<Rightarrow> int set" where "player_ids t = (pl_ID \<circ> fst) ` set (t_Player t)"
definition char_ids :: "tables \<Rightarrow> int set" where "char_ids t = sc_ID ` set (t_Character t)"

definition players_table :: "(Player \<times> string) list \<Rightarrow> int \<Rightarrow> bool" where
  "players_table ps n \<longleftrightarrow> distinct (map (pl_ID \<circ> fst) ps) \<and> distinct (map (pl_Username \<circ> fst) ps) \<and>
     (pl_ID \<circ> fst) ` set ps \<subseteq> {1..n} \<and> 0 \<le> n"

definition slots_free :: "Character list \<Rightarrow> bool" where
  "slots_free cs \<longleftrightarrow> distinct (map (\<lambda>c. (sc_PlayerID c, sc_Slot c)) (filter (\<lambda>c. \<not> sc_Deleted c) cs))"

definition characters_table :: "int set \<Rightarrow> Character list \<Rightarrow> int \<Rightarrow> bool" where
  "characters_table P cs n \<longleftrightarrow> distinct (map sc_ID cs) \<and> slots_free cs \<and> sc_ID ` set cs \<subseteq> {1..n} \<and>
     sc_PlayerID ` set cs \<subseteq> P \<and> sc_Slot ` set cs \<subseteq> {0..<CharacterSlots} \<and> 0 \<le> n"

definition wordle_table :: "int set \<Rightarrow> int set \<Rightarrow> (int \<times> WordleResult) list \<Rightarrow> bool" where
  "wordle_table P C ws \<longleftrightarrow> distinct (map (\<lambda>(_, r). (wl_PlayerID r, wl_Date r)) ws) \<and>
     (wl_PlayerID \<circ> snd) ` set ws \<subseteq> P \<and> (wl_CharacterID \<circ> snd) ` set ws \<subseteq> C"

definition ratings_table :: "int set \<Rightarrow> StoreRating list \<Rightarrow> bool" where
  "ratings_table C rs \<longleftrightarrow> distinct (map sr_CharacterID rs) \<and> sr_CharacterID ` set rs \<subseteq> C"

definition duels_table :: "int set \<Rightarrow> (int \<times> RankedDuel \<times> int option) list \<Rightarrow> int \<Rightarrow> bool" where
  "duels_table C ds n \<longleftrightarrow> sorted_wrt (<) (map fst ds) \<and> fst ` set ds \<subseteq> {..n} \<and>
     (rd_A \<circ> fst \<circ> snd) ` set ds \<subseteq> C \<and> (rd_B \<circ> fst \<circ> snd) ` set ds \<subseteq> C"

definition tables_ok :: "tables \<Rightarrow> bool" where
  "tables_ok t \<longleftrightarrow> players_table (t_Player t) (seq_Player t) \<and>
     characters_table (player_ids t) (t_Character t) (seq_Character t) \<and>
     wordle_table (player_ids t) (char_ids t) (t_Wordle t) \<and> ratings_table (char_ids t) (t_Rating t) \<and>
     duels_table (char_ids t) (t_RankedDuel t) (seq_RankedDuel t)"

text \<open>More players or characters never invalidate a reference.\<close>

lemma table_mono:
  "P \<subseteq> P' \<Longrightarrow> characters_table P cs n \<Longrightarrow> characters_table P' cs n"
  "P \<subseteq> P' \<Longrightarrow> C \<subseteq> C' \<Longrightarrow> wordle_table P C ws \<Longrightarrow> wordle_table P' C' ws"
  "C \<subseteq> C' \<Longrightarrow> ratings_table C rs \<Longrightarrow> ratings_table C' rs"
  "C \<subseteq> C' \<Longrightarrow> duels_table C ds k \<Longrightarrow> duels_table C' ds k"
  unfolding characters_table_def wordle_table_def ratings_table_def duels_table_def by (auto del: subsetI intro: order_trans)

lemma empty_tables_ok: "tables_ok empty_tables"
  by (simp add: tables_ok_def empty_tables_def players_table_def characters_table_def slots_free_def
      wordle_table_def ratings_table_def duels_table_def)

lemma insert_player_ok:
  assumes "tables_ok t" and "insert_player uname hash t = Inr (x, t')"
  shows "tables_ok t'"
proof -
  have free: "uname \<notin> (pl_Username \<circ> fst) ` set (t_Player t)"
    and t': "t' = t\<lparr>t_Player := t_Player t @ [(\<lparr>pl_ID = seq_Player t + 1, pl_Username = uname\<rparr>, hash)],
      seq_Player := seq_Player t + 1\<rparr>"
    using assms(2) by (auto simp: insert_player_def Let_def split: if_splits)
  have p: "players_table (t_Player t') (seq_Player t')"
    using assms(1) free by (auto simp: tables_ok_def players_table_def t')
  have sub: "player_ids t \<subseteq> player_ids t'" and ids: "char_ids t' = char_ids t"
    by (auto simp: player_ids_def char_ids_def t')
  have "t_Character t' = t_Character t" "seq_Character t' = seq_Character t" "t_Wordle t' = t_Wordle t"
    "t_Rating t' = t_Rating t" "t_RankedDuel t' = t_RankedDuel t" "seq_RankedDuel t' = seq_RankedDuel t"
    by (simp_all add: t')
  then show ?thesis
    using assms(1) p table_mono(1) [OF sub] table_mono(2) [OF sub order.refl] by (simp add: tables_ok_def ids)
qed

lemma insert_character_spec:
  assumes "insert_character pid slot name cls t = Inr (c, t')"
  shows "0 \<le> slot" "slot \<le> 3" "pid \<in> player_ids t"
    "\<forall>c \<in> set (t_Character t). sc_PlayerID c = pid \<and> sc_Slot c = slot \<longrightarrow> sc_Deleted c"
    "c = \<lparr>sc_ID = seq_Character t + 1, sc_PlayerID = pid, sc_Slot = slot, sc_Name = name, sc_Class = cls, sc_Deleted = False\<rparr>"
    "t' = t\<lparr>t_Character := t_Character t @ [c], seq_Character := seq_Character t + 1\<rparr>"
  using assms by (auto simp: insert_character_def Let_def player_ids_def split: if_splits)

lemma insert_character_ok:
  assumes "tables_ok t" and "insert_character pid slot name cls t = Inr (c, t')"
  shows "tables_ok t'"
proof -
  note s = insert_character_spec [OF assms(2)]
  have ids: "player_ids t' = player_ids t" "char_ids t \<subseteq> char_ids t'" by (auto simp: player_ids_def char_ids_def s(6))
  have old: "characters_table (player_ids t) (t_Character t) (seq_Character t)" using assms(1) by (simp add: tables_ok_def)
  then have "seq_Character t + 1 \<notin> sc_ID ` set (t_Character t)" by (auto simp: characters_table_def)
  moreover have "slots_free (t_Character t @ [c])" using old s(4) by (auto simp: characters_table_def slots_free_def s(5))
  moreover have "sc_ID c = seq_Character t + 1" "sc_PlayerID c = pid" "sc_Slot c = slot" by (simp_all add: s(5))
  moreover have "sc_ID ` set (t_Character t) \<subseteq> {1..seq_Character t + 1}" using old by (fastforce simp: characters_table_def)
  ultimately have "characters_table (player_ids t) (t_Character t @ [c]) (seq_Character t + 1)"
    using old s(1,2,3) unfolding characters_table_def CharacterSlots_def by auto
  moreover have "t_Player t' = t_Player t" "seq_Player t' = seq_Player t" "t_Wordle t' = t_Wordle t"
    "t_Character t' = t_Character t @ [c]" "seq_Character t' = seq_Character t + 1"
    "t_Rating t' = t_Rating t" "t_RankedDuel t' = t_RankedDuel t" "seq_RankedDuel t' = seq_RankedDuel t"
    by (simp_all add: s(6))
  ultimately show ?thesis
    using assms(1) table_mono(3,4) [OF ids(2)] table_mono(2) [OF order.refl ids(2)] by (simp add: tables_ok_def ids(1))
qed

definition delete_character :: "int \<Rightarrow> int \<Rightarrow> Character \<Rightarrow> Character" where
  "delete_character pid i c =
    (if sc_ID c = i \<and> sc_PlayerID c = pid \<and> \<not> sc_Deleted c then c\<lparr>sc_Deleted := True\<rparr> else c)"

lemma delete_character_fields [simp]:
  "sc_ID (delete_character pid i c) = sc_ID c" "sc_PlayerID (delete_character pid i c) = sc_PlayerID c"
  "sc_Slot (delete_character pid i c) = sc_Slot c" "sc_Name (delete_character pid i c) = sc_Name c"
  "sc_Class (delete_character pid i c) = sc_Class c"
  "sc_Deleted (delete_character pid i c) \<longleftrightarrow> sc_Deleted c \<or> sc_ID c = i \<and> sc_PlayerID c = pid"
  by (auto simp: delete_character_def)

lemma delete_slots_free: "slots_free cs \<Longrightarrow> slots_free (map (delete_character pid i) cs)"
proof -
  let ?key = "\<lambda>c. (sc_PlayerID c, sc_Slot c)" and ?hit = "\<lambda>c. sc_ID c = i \<and> sc_PlayerID c = pid"
  have "map ?key (filter (\<lambda>c. \<not> sc_Deleted c) (map (delete_character pid i) cs)) =
      map ?key (filter (\<lambda>c. \<not> ?hit c) (filter (\<lambda>c. \<not> sc_Deleted c) cs))"
    by (induction cs) auto
  then show "slots_free cs \<Longrightarrow> slots_free (map (delete_character pid i) cs)"
    unfolding slots_free_def by (simp only: distinct_map_filter)
qed

lemma delete_character_ok:
  assumes "tables_ok t"
  shows "tables_ok (t\<lparr>t_Character := map (delete_character pid i) (t_Character t)\<rparr>)"
proof -
  let ?t' = "t\<lparr>t_Character := map (delete_character pid i) (t_Character t)\<rparr>"
  have "char_ids ?t' = char_ids t" "player_ids ?t' = player_ids t"
    by (simp_all add: char_ids_def player_ids_def image_image)
  moreover have "characters_table (player_ids t) (map (delete_character pid i) (t_Character t)) (seq_Character t)"
    using assms delete_slots_free [of "t_Character t" pid i]
    by (simp add: tables_ok_def characters_table_def image_image o_def)
  ultimately show ?thesis using assms by (simp add: tables_ok_def)
qed

lemma insert_wordle_ok:
  assumes "tables_ok t" and "insert_wordle r t = Inr (x, t')"
  shows "tables_ok t'"
proof -
  have new: "wl_PlayerID r \<in> player_ids t" "wl_CharacterID r \<in> char_ids t"
    "\<forall>(_, r') \<in> set (t_Wordle t). \<not> (wl_PlayerID r' = wl_PlayerID r \<and> wl_Date r' = wl_Date r)"
    and t': "t' = t\<lparr>t_Wordle := t_Wordle t @ [(seq_Wordle t + 1, r)], seq_Wordle := seq_Wordle t + 1\<rparr>"
    using assms(2) by (auto simp: insert_wordle_def Let_def player_ids_def char_ids_def split: if_splits)
  have "player_ids t' = player_ids t" "char_ids t' = char_ids t" by (simp_all add: t' player_ids_def char_ids_def)
  moreover have "wordle_table (player_ids t) (char_ids t) (t_Wordle t')"
    using assms(1) new unfolding t' tables_ok_def wordle_table_def by fastforce
  ultimately show ?thesis using assms(1) by (simp add: tables_ok_def t')
qed

lemma insert_duel_ok:
  assumes "tables_ok t" and "insert_duel d t = Inr (x, t')"
  shows "tables_ok t'"
proof -
  obtain winner where new: "rd_A d \<in> char_ids t" "rd_B d \<in> char_ids t"
    and t': "t' = t\<lparr>t_RankedDuel := t_RankedDuel t @ [(seq_RankedDuel t + 1, d, winner)],
      seq_RankedDuel := seq_RankedDuel t + 1\<rparr>"
    using assms(2) by (auto simp: insert_duel_def Let_def char_ids_def split: if_splits)
  have "player_ids t' = player_ids t" "char_ids t' = char_ids t" by (simp_all add: t' player_ids_def char_ids_def)
  moreover have "duels_table (char_ids t) (t_RankedDuel t') (seq_RankedDuel t')"
  proof -
    have old: "duels_table (char_ids t) (t_RankedDuel t) (seq_RankedDuel t)" using assms(1) by (simp add: tables_ok_def)
    then have "\<forall>x \<in> set (t_RankedDuel t). fst x < seq_RankedDuel t + 1"
      by (auto simp: duels_table_def image_subset_iff)
    then show ?thesis
      using old new unfolding duels_table_def by (simp add: t' sorted_wrt_append image_subset_iff less_imp_le)
  qed
  ultimately show ?thesis using assms(1) by (simp add: tables_ok_def t')
qed

lemma upsert_rating_ok:
  assumes "tables_ok t" and "upsert_rating r t = Inr (x, t')"
  shows "tables_ok t'"
proof -
  let ?up = "\<lambda>r'. if sr_CharacterID r' = sr_CharacterID r then r else r'"
  have id: "map sr_CharacterID (map ?up rs) = map sr_CharacterID rs" for rs by (induction rs) simp_all
  have t': "t_Rating t' = map ?up (t_Rating t) \<or>
      sr_CharacterID r \<in> char_ids t \<and> sr_CharacterID r \<notin> sr_CharacterID ` set (t_Rating t) \<and> t_Rating t' = t_Rating t @ [r]"
    and rest: "t' = t\<lparr>t_Rating := t_Rating t'\<rparr>"
    using assms(2) by (auto simp: upsert_rating_def char_ids_def split: if_splits)
  have "player_ids t' = player_ids t" "char_ids t' = char_ids t"
    by (subst rest, simp add: player_ids_def char_ids_def)+
  moreover have "ratings_table (char_ids t) (t_Rating t)" using assms(1) by (simp add: tables_ok_def)
  then have "ratings_table (char_ids t) (t_Rating t')"
    using t'
  proof (elim disjE conjE)
    assume ok: "ratings_table (char_ids t) (t_Rating t)" and m: "t_Rating t' = map ?up (t_Rating t)"
    show ?thesis using ok unfolding ratings_table_def m id set_map [symmetric] .
  qed (auto simp: ratings_table_def image_subset_iff)
  moreover have "t_Player t' = t_Player t" "seq_Player t' = seq_Player t" "t_Wordle t' = t_Wordle t"
    "t_Character t' = t_Character t" "seq_Character t' = seq_Character t"
    "t_RankedDuel t' = t_RankedDuel t" "seq_RankedDuel t' = seq_RankedDuel t"
    by (subst rest, simp)+
  ultimately show ?thesis using assms(1) by (simp add: tables_ok_def)
qed

section \<open>What operations do to the tables\<close>

text \<open>Everything that writes.\<close>

datatype store_op =
    AddPlayer string string
  | AddCharacter int int string string
  | RemoveCharacter int int
  | AddWordle WordleResult
  | AddDuel RankedDuel StoreRating StoreRating

fun run_op :: "bool list \<times> store_op \<Rightarrow> tables \<Rightarrow> tables" where
  "run_op (fs, AddPlayer uname hash) t = db_tables (snd (InsertPlayer uname hash \<lparr>db_tables = t, db_faults = fs\<rparr>))"
| "run_op (fs, AddCharacter pid slot name cls) t =
    db_tables (snd (InsertCharacter pid slot name cls \<lparr>db_tables = t, db_faults = fs\<rparr>))"
| "run_op (fs, RemoveCharacter pid i) t = db_tables (snd (DeleteCharacter pid i \<lparr>db_tables = t, db_faults = fs\<rparr>))"
| "run_op (fs, AddWordle r) t = db_tables (snd (InsertWordle r \<lparr>db_tables = t, db_faults = fs\<rparr>))"
| "run_op (fs, AddDuel d a b) t = db_tables (snd (ApplyRankedDuel d a b \<lparr>db_tables = t, db_faults = fs\<rparr>))"

lemma snd_InsertPlayer: "snd (InsertPlayer u h s) = snd (statement (insert_player u h) s)"
  by (simp add: InsertPlayer_def split: prod.split sum.split db_error.split)

lemma snd_InsertCharacter:
  "snd (InsertCharacter pid slot name cls s) = snd (statement (insert_character pid slot name cls) s)"
  by (simp add: InsertCharacter_def split: prod.split sum.split db_error.split)

lemma DeleteCharacter_eq:
  "DeleteCharacter pid i = statement (\<lambda>t. Inr (\<exists>c \<in> set (t_Character t). sc_ID c = i \<and> sc_PlayerID c = pid \<and> \<not> sc_Deleted c,
     t\<lparr>t_Character := map (delete_character pid i) (t_Character t)\<rparr>))"
  unfolding DeleteCharacter_def delete_character_def [abs_def] Let_def
  by (rule arg_cong [where f = statement]) (auto simp: fun_eq_iff filter_empty_conv)

text \<open>A query moves the tables along a relation, whatever fails.\<close>

definition moves :: "(tables \<Rightarrow> tables \<Rightarrow> bool) \<Rightarrow> 'a query \<Rightarrow> bool" where
  "moves R q \<longleftrightarrow> (\<forall>s. R (db_tables s) (db_tables (snd (q s))))"

lemma movesD: "moves R q \<Longrightarrow> q s = (r, s') \<Longrightarrow> R (db_tables s) (db_tables s')"
  unfolding moves_def by (metis snd_conv)

lemma moves_run: "moves R q \<Longrightarrow> R t (db_tables (snd (q \<lparr>db_tables = t, db_faults = fs\<rparr>)))"
  unfolding moves_def by (drule spec [of _ "\<lparr>db_tables = t, db_faults = fs\<rparr>"]) simp

locale table_relation =
  fixes R :: "tables \<Rightarrow> tables \<Rightarrow> bool"
  assumes refl: "R t t"
    and trans: "R t t' \<Longrightarrow> R t' t'' \<Longrightarrow> R t t''"
begin

lemma moves_statement: "(\<And>t x t'. f t = Inr (x, t') \<Longrightarrow> R t t') \<Longrightarrow> moves R (statement f)"
  by (auto simp: moves_def statement_def Let_def refl split: sum.split prod.split)

lemma moves_select: "moves R (select f)"
  unfolding select_def by (rule moves_statement) (simp add: refl)

lemma moves_return: "moves R (\<lambda>s. (r, s))"
  by (simp add: moves_def refl)

lemma moves_and_then:
  assumes "moves R m" and "\<And>x. moves R (f x)"
  shows "moves R (and_then m f)"
  unfolding moves_def
proof
  fix s
  obtain r s1 where m: "m s = (r, s1)" by (cases "m s")
  then show "R (db_tables s) (db_tables (snd (and_then m f s)))"
    using movesD [OF assms(1) m] assms(2) trans by (cases r) (auto simp: and_then_def moves_def)
qed

lemma moves_transaction:
  assumes "moves R body"
  shows "moves R (transaction body)"
  unfolding moves_def
proof
  fix s
  let ?whole = "and_then body (\<lambda>x. and_then (select (\<lambda>_. ())) (\<lambda>_ s. (Inr x, s)))"
  have whole: "moves R ?whole" by (intro moves_and_then assms moves_select moves_return)
  obtain r s1 where b: "select (\<lambda>_. ()) s = (r, s1)" by (cases "select (\<lambda>_. ()) s")
  obtain r' s2 where w: "?whole s1 = (r', s2)" by (cases "?whole s1")
  have "R (db_tables s) (db_tables s1)" "R (db_tables s1) (db_tables s2)"
    using movesD [OF moves_select b] movesD [OF whole w] by simp_all
  then show "R (db_tables s) (db_tables (snd (transaction body s)))"
    using trans by (cases r; cases r') (auto simp: transaction_def b w)
qed

end

locale writes = table_relation +
  assumes player: "insert_player u h t = Inr (x, t') \<Longrightarrow> R t t'"
    and character: "insert_character pid slot name cls t = Inr (c, t') \<Longrightarrow> R t t'"
    and delete: "R t (t\<lparr>t_Character := map (delete_character pid i) (t_Character t)\<rparr>)"
    and result: "insert_wordle r t = Inr (x, t') \<Longrightarrow> R t t'"
    and duel: "insert_duel d t = Inr (x, t') \<Longrightarrow> R t t'"
    and rating: "upsert_rating sr t = Inr (x, t') \<Longrightarrow> R t t'"
begin

lemma moves_ops:
  "moves R (InsertPlayer u h)" "moves R (InsertCharacter pid slot name cls)" "moves R (DeleteCharacter pid i)"
  "moves R (InsertWordle r)" "moves R (ApplyRankedDuel d a b)"
proof -
  have "moves R (statement (insert_player u h))" by (rule moves_statement) (rule player)
  then show "moves R (InsertPlayer u h)" by (simp add: moves_def snd_InsertPlayer)
  have "moves R (statement (insert_character pid slot name cls))" by (rule moves_statement) (rule character)
  then show "moves R (InsertCharacter pid slot name cls)" by (simp add: moves_def snd_InsertCharacter)
  show "moves R (DeleteCharacter pid i)" unfolding DeleteCharacter_eq by (rule moves_statement) (auto simp: delete)
  show "moves R (InsertWordle r)" unfolding InsertWordle_def by (rule moves_statement) (rule result)
  have "moves R (statement (insert_duel d))" by (rule moves_statement) (rule duel)
  moreover have "moves R (statement (upsert_rating r))" for r by (rule moves_statement) (rule rating)
  ultimately show "moves R (ApplyRankedDuel d a b)"
    unfolding ApplyRankedDuel_def by (intro moves_transaction moves_and_then)
qed

lemma run_op: "R t (run_op x t)"
proof -
  obtain fs op where x: "x = (fs, op)" by (cases x)
  show ?thesis unfolding x by (cases op) (simp_all add: moves_ops moves_run)
qed

lemma run_ops: "R t (fold run_op ops t)"
proof (induction ops arbitrary: t)
  case (Cons x ops)
  show ?case using trans [OF run_op [of t x] Cons [of "run_op x t"]] by simp
qed (simp add: refl)

end

interpretation schema: writes "\<lambda>t t'. tables_ok t \<longrightarrow> tables_ok t'"
  by unfold_locales (auto simp: delete_character_ok intro: insert_player_ok insert_character_ok insert_wordle_ok
      insert_duel_ok upsert_rating_ok)

end
