(* ===== verification/Store_Facts.thy ===== *)
theory Store_Facts
  imports Store
begin

text \<open>
  What the database promises its callers: the schema is kept whatever runs and whatever fails, a ranked
  duel is saved whole or not at all, a day's result is kept for good and only once, the pages of the
  leaderboard make up the ranking, and a deleted character gives its slot back and keeps its results.
\<close>

section \<open>Queries without faults\<close>

abbreviation up :: "tables \<Rightarrow> Store" where "up t \<equiv> \<lparr>db_tables = t, db_faults = []\<rparr>"

lemma select_up [simp]: "select f (up t) = (Inr (f t), up t)"
  by (simp add: select_def statement_def Let_def)

lemma statement_up [simp]:
  "statement f (up t) = (case f t of Inl e \<Rightarrow> (Inl e, up t) | Inr (x, t') \<Rightarrow> (Inr x, up t'))"
  by (simp add: statement_def Let_def split: sum.split prod.split)

lemma find_map_key:
  "(\<And>x. key (f x) = key x) \<Longrightarrow> find (\<lambda>x. key x = k) (map f xs) = map_option f (find (\<lambda>x. key x = k) xs)"
  by (induction xs) simp_all

lemma find_append: "find P (xs @ ys) = (case find P xs of None \<Rightarrow> find P ys | Some x \<Rightarrow> Some x)"
  by (induction xs) simp_all

section \<open>Ratings\<close>

definition rating_of :: "int \<Rightarrow> tables \<Rightarrow> StoreRating option" where
  "rating_of c t = find (\<lambda>r. sr_CharacterID r = c) (t_Rating t)"

lemma rating_of_found: "rating_of c t = Some r \<Longrightarrow> sr_CharacterID r = c"
  by (auto simp: rating_of_def find_Some_iff)

lemma upsert_rating_of:
  assumes "upsert_rating r t = Inr (x, t')"
  shows "rating_of c t' = (if c = sr_CharacterID r then Some r else rating_of c t)"
    and "t' = t\<lparr>t_Rating := t_Rating t'\<rparr>"
proof -
  have none: "find (\<lambda>r'. sr_CharacterID r' = sr_CharacterID r) (t_Rating t) = None \<longleftrightarrow>
      sr_CharacterID r \<notin> sr_CharacterID ` set (t_Rating t)" unfolding find_None_iff image_iff by metis
  show "rating_of c t' = (if c = sr_CharacterID r then Some r else rating_of c t)"
  proof (cases "sr_CharacterID r \<in> sr_CharacterID ` set (t_Rating t)")
    case True
    let ?up = "\<lambda>r'. if sr_CharacterID r' = sr_CharacterID r then r else r'"
    have t': "t_Rating t' = map ?up (t_Rating t)" using assms True by (auto simp: upsert_rating_def)
    have "rating_of c t' = map_option ?up (rating_of c t)"
      unfolding rating_of_def t' by (rule find_map_key) simp
    moreover have "rating_of (sr_CharacterID r) t \<noteq> None" using none True by (simp add: rating_of_def)
    ultimately show ?thesis using rating_of_found [of c t] by (cases "rating_of c t") auto
  next
    case False
    then have "t_Rating t' = t_Rating t @ [r]" using assms by (auto simp: upsert_rating_def split: if_splits)
    then show ?thesis using False none by (auto simp: rating_of_def find_append split: option.split)
  qed
  show "t' = t\<lparr>t_Rating := t_Rating t'\<rparr>" using assms by (auto simp: upsert_rating_def split: if_splits)
qed

lemma insert_duel_spec:
  assumes "insert_duel d t = Inr (x, t')"
  shows "t' = t\<lparr>t_RankedDuel := t_RankedDuel t @ [(seq_RankedDuel t + 1, d,
      if rd_Winner d \<noteq> 0 then Some (rd_Winner d) else None)], seq_RankedDuel := seq_RankedDuel t + 1\<rparr>"
    and "rd_A d \<in> char_ids t" and "rd_B d \<in> char_ids t"
  using assms by (auto simp: insert_duel_def Let_def char_ids_def split: if_splits)

text \<open>How a transaction ends.\<close>

lemma transaction_cases:
  assumes "transaction body s = (res, s')"
  obtains (failed) e where "res = Inl e" "db_tables s' = db_tables s"
  | (committed) x s1 s2 where "res = Inr x" "db_tables s1 = db_tables s" "body s1 = (Inr x, s2)" "db_tables s' = db_tables s2"
proof -
  have sel: "db_tables (snd (select f s)) = db_tables s" for f :: "tables \<Rightarrow> unit" and s
    by (simp add: select_def statement_def Let_def)
  obtain b s1 where b: "select (\<lambda>_. ()) s = (b, s1)" by (cases "select (\<lambda>_. ()) s")
  have s1: "db_tables s1 = db_tables s" using sel [of "\<lambda>_. ()" s] b by simp
  show thesis
  proof (cases b)
    case (Inl e)
    then show thesis using assms failed s1 by (auto simp: transaction_def b)
  next
    case (Inr u)
    obtain r s2 where body: "body s1 = (r, s2)" by (cases "body s1")
    obtain c s3 where c: "select (\<lambda>_. ()) s2 = (c, s3)" by (cases "select (\<lambda>_. ()) s2")
    have s3: "db_tables s3 = db_tables s2" using sel [of "\<lambda>_. ()" s2] c by simp
    show thesis
      using assms failed committed [OF _ s1] s1 s3
      by (cases r; cases c) (auto simp: transaction_def b Inr and_then_def body c)
  qed
qed

lemma upsert_rating_known:
  "sr_CharacterID r \<in> char_ids t \<Longrightarrow> \<exists>t'. upsert_rating r t = Inr ((), t')"
  by (auto simp: upsert_rating_def char_ids_def)

text \<open>Without faults, a duel of two known characters is always saved.\<close>

lemma ApplyRankedDuel_up:
  assumes "rd_A d \<in> char_ids t" and "rd_B d \<in> char_ids t" and "rd_Winner d \<in> {0, rd_A d, rd_B d}"
    and "sr_CharacterID a = rd_A d" and "sr_CharacterID b = rd_B d" and "rd_A d \<noteq> rd_B d"
  shows "\<exists>t'. ApplyRankedDuel d a b (up t) = (Inr (), up t') \<and> t_Character t' = t_Character t \<and>
    (\<forall>c. rating_of c t' = (if c = rd_A d then Some a else if c = rd_B d then Some b else rating_of c t))"
proof -
  obtain t1 where 1: "insert_duel d t = Inr ((), t1)" "t_Character t1 = t_Character t" "t_Rating t1 = t_Rating t"
  proof -
    have "\<not> (case if rd_Winner d \<noteq> 0 then Some (rd_Winner d) else None of None \<Rightarrow> False | Some c \<Rightarrow> c \<notin> char_ids t)"
      using assms(1,2,3) by auto
    then show thesis using that assms(1,2) by (simp add: insert_duel_def char_ids_def [symmetric] Let_def)
  qed
  have "sr_CharacterID a \<in> char_ids t1" using assms(1,4) by (simp add: char_ids_def 1(2))
  then obtain t2 where 2: "upsert_rating a t1 = Inr ((), t2)" using upsert_rating_known by blast
  note c2 = arg_cong [OF upsert_rating_of(2) [OF 2], of t_Character, simplified]
  have "sr_CharacterID b \<in> char_ids t2" using assms(2,5) by (simp add: char_ids_def 1(2) c2)
  then obtain t3 where 3: "upsert_rating b t2 = Inr ((), t3)" using upsert_rating_known by blast
  note c3 = arg_cong [OF upsert_rating_of(2) [OF 3], of t_Character, simplified]
  have "rating_of c t1 = rating_of c t" for c by (simp add: rating_of_def 1(3))
  then have "rating_of c t3 = (if c = rd_A d then Some a else if c = rd_B d then Some b else rating_of c t)" for c
    using upsert_rating_of(1) [OF 2, of c] upsert_rating_of(1) [OF 3, of c] assms(4,5,6) by auto
  moreover have "ApplyRankedDuel d a b (up t) = (Inr (), up t3)"
    by (simp add: ApplyRankedDuel_def transaction_def and_then_def 1(1) 2 3)
  ultimately show ?thesis using 1(2) c2 c3 by (intro exI [of _ t3]) simp
qed

text \<open>C20: A ranked duel is saved whole or not at all. Whatever statement fails, the commit too, saving a duel
either reports an error and changes no table, or adds exactly that duel, with its winner, or none for a draw,
in the winner's column, and sets exactly its two characters' ratings, so that loading them gives what was
saved.\<close>

theorem ranked_duels_are_saved_whole:
  assumes "ApplyRankedDuel d a b s = (res, s')" and "sr_CharacterID a \<noteq> sr_CharacterID b"
  shows "case res of
      Inl e \<Rightarrow> db_tables s' = db_tables s
    | Inr _ \<Rightarrow> (let t = db_tables s; t' = db_tables s' in
        t' = t\<lparr>t_RankedDuel := t_RankedDuel t @ [(seq_RankedDuel t + 1, d, if rd_Winner d = 0 then None else Some (rd_Winner d))],
          seq_RankedDuel := seq_RankedDuel t + 1, t_Rating := t_Rating t'\<rparr> \<and>
        (\<forall>c. fst (StoredRating c (up t')) = Inr (if c = sr_CharacterID a then Some a
          else if c = sr_CharacterID b then Some b else rating_of c t)))"
  using assms(1) unfolding ApplyRankedDuel_def
proof (cases rule: transaction_cases)
  case failed
  then show ?thesis by simp
next
  case (committed x s1 s2)
  have st: "\<exists>t'. f (db_tables u) = Inr (y, t') \<and> db_tables u' = t'" if "statement f u = (Inr y, u')" for f u u' and y :: unit
    using that by (auto simp: statement_def Let_def split: if_splits sum.splits prod.splits)
  from committed(3) obtain u1 u2 where q: "statement (insert_duel d) s1 = (Inr (), u1)"
      "statement (upsert_rating a) u1 = (Inr (), u2)" "statement (upsert_rating b) u2 = (Inr (), s2)"
    by (auto simp: and_then_def split: sum.splits prod.splits)
  have 1: "insert_duel d (db_tables s) = Inr ((), db_tables u1)" using st [OF q(1)] committed(2) by auto
  have 2: "upsert_rating a (db_tables u1) = Inr ((), db_tables u2)" using st [OF q(2)] by auto
  have 3: "upsert_rating b (db_tables u2) = Inr ((), db_tables s')" using st [OF q(3)] committed(4) by auto
  define i where "i = seq_RankedDuel (db_tables s) + 1"
  define winner where "winner = (if rd_Winner d = 0 then None else Some (rd_Winner d))"
  have i: "db_tables u1 = (db_tables s)\<lparr>t_RankedDuel := t_RankedDuel (db_tables s) @ [(i, d, winner)], seq_RankedDuel := i\<rparr>"
    using insert_duel_spec(1) [OF 1] by (simp_all add: i_def winner_def)
  have "rating_of c (db_tables s') = (if c = sr_CharacterID a then Some a else if c = sr_CharacterID b then Some b
      else rating_of c (db_tables s))" for c
    using upsert_rating_of(1) [OF 2, of c] upsert_rating_of(1) [OF 3, of c] assms(2) by (auto simp: i rating_of_def)
  then have "fst (StoredRating c (up (db_tables s'))) = Inr (if c = sr_CharacterID a then Some a
      else if c = sr_CharacterID b then Some b else rating_of c (db_tables s))" for c
    by (simp add: StoredRating_def rating_of_def [symmetric])
  moreover have "db_tables s' = (db_tables s)\<lparr>t_RankedDuel := t_RankedDuel (db_tables s) @ [(i, d, winner)],
      seq_RankedDuel := i, t_Rating := t_Rating (db_tables s')\<rparr>"
  proof -
    obtain r2 r3 where "db_tables u2 = (db_tables u1)\<lparr>t_Rating := r2\<rparr>" "db_tables s' = (db_tables u2)\<lparr>t_Rating := r3\<rparr>"
      using upsert_rating_of(2) [OF 2] upsert_rating_of(2) [OF 3] by blast
    then show ?thesis by (simp add: i)
  qed
  ultimately show ?thesis unfolding committed(1) sum.case Let_def i_def winner_def by blast
qed

theorem ranked_duels_are_saved_whole_witness:
  "let a = \<lparr>sr_CharacterID = 1, sr_Elo = 1024, sr_Peak = 1024, sr_Games = 1, sr_Wins = 1, sr_Losses = 0, sr_Draws = 0\<rparr>;
       b = \<lparr>sr_CharacterID = 2, sr_Elo = 976, sr_Peak = 1000, sr_Games = 1, sr_Wins = 0, sr_Losses = 1, sr_Draws = 0\<rparr>;
       d = \<lparr>rd_PlayedAt = 5, rd_A = 1, rd_B = 2, rd_Winner = 1, rd_Reason = 0, rd_ABefore = 1000, rd_AAfter = 1024,
            rd_BBefore = 1000, rd_BAfter = 976, rd_AGuesses = 3, rd_BGuesses = 4, rd_Seconds = 60\<rparr>;
       t = empty_tables\<lparr>t_Character := [
            \<lparr>sc_ID = 1, sc_PlayerID = 1, sc_Slot = 0, sc_Name = ''Ada'', sc_Class = ''knight'', sc_Deleted = False\<rparr>,
            \<lparr>sc_ID = 2, sc_PlayerID = 2, sc_Slot = 0, sc_Name = ''Bob'', sc_Class = ''rogue'', sc_Deleted = False\<rparr>]\<rparr>;
       (res, s') = ApplyRankedDuel d a b \<lparr>db_tables = t, db_faults = [False, False, False, True]\<rparr>
   in db_tables s' = t"
proof -
  define a where "a = \<lparr>sr_CharacterID = 1, sr_Elo = 1024, sr_Peak = 1024, sr_Games = 1, sr_Wins = 1, sr_Losses = 0, sr_Draws = 0\<rparr>"
  define b where "b = \<lparr>sr_CharacterID = 2, sr_Elo = 976, sr_Peak = 1000, sr_Games = 1, sr_Wins = 0, sr_Losses = 1, sr_Draws = 0\<rparr>"
  define d where "d = \<lparr>rd_PlayedAt = 5, rd_A = 1, rd_B = 2, rd_Winner = 1, rd_Reason = 0, rd_ABefore = 1000, rd_AAfter = 1024,
            rd_BBefore = 1000, rd_BAfter = 976, rd_AGuesses = 3, rd_BGuesses = 4, rd_Seconds = 60\<rparr>"
  define t where "t = empty_tables\<lparr>t_Character := [
            \<lparr>sc_ID = 1, sc_PlayerID = 1, sc_Slot = 0, sc_Name = ''Ada'', sc_Class = ''knight'', sc_Deleted = False\<rparr>,
            \<lparr>sc_ID = 2, sc_PlayerID = 2, sc_Slot = 0, sc_Name = ''Bob'', sc_Class = ''rogue'', sc_Deleted = False\<rparr>]\<rparr>"
  obtain res s' where r: "ApplyRankedDuel d a b \<lparr>db_tables = t, db_faults = [False, False, False, True]\<rparr> = (res, s')"
    by (cases "ApplyRankedDuel d a b \<lparr>db_tables = t, db_faults = [False, False, False, True]\<rparr>")
  have ne: "sr_CharacterID a \<noteq> sr_CharacterID b" by (simp add: a_def b_def)
  have "isl (fst (ApplyRankedDuel d a b \<lparr>db_tables = t, db_faults = [False, False, False, True]\<rparr>))"
    by (simp add: ApplyRankedDuel_def transaction_def select_def statement_def and_then_def insert_duel_def
        upsert_rating_def a_def b_def d_def t_def empty_tables_def Let_def)
  then obtain e where "res = Inl e" using r by (cases res) simp_all
  then have "db_tables s' = t" using ranked_duels_are_saved_whole [OF r ne] by simp
  then show ?thesis
    using r unfolding a_def [symmetric] b_def [symmetric] d_def [symmetric] t_def [symmetric] Let_def by simp
qed

section \<open>The schema\<close>

text \<open>C19: The database stays consistent. Whatever is written, in any order, with any statements failing, no two
players share a name, no account has two live characters in a slot or two results for a day, every result and
rating and duel belongs to characters that exist, and characters are never forgotten.\<close>

theorem the_database_stays_consistent:
  "let t = fold run_op ops empty_tables in tables_ok t \<and>
     distinct (map (pl_Username \<circ> fst) (t_Player t)) \<and>
     distinct (map (\<lambda>c. (sc_PlayerID c, sc_Slot c)) (filter (\<lambda>c. \<not> sc_Deleted c) (t_Character t))) \<and>
     distinct (map (\<lambda>(_, r). (wl_PlayerID r, wl_Date r)) (t_Wordle t)) \<and>
     (wl_CharacterID \<circ> snd) ` set (t_Wordle t) \<subseteq> char_ids t \<and> sr_CharacterID ` set (t_Rating t) \<subseteq> char_ids t \<and>
     (rd_A \<circ> fst \<circ> snd) ` set (t_RankedDuel t) \<union> (rd_B \<circ> fst \<circ> snd) ` set (t_RankedDuel t) \<subseteq> char_ids t"
proof -
  have "tables_ok (fold run_op ops empty_tables)" using schema.run_ops empty_tables_ok by blast
  then show ?thesis
    by (simp add: Let_def tables_ok_def players_table_def characters_table_def slots_free_def wordle_table_def
        ratings_table_def duels_table_def)
qed

section \<open>The daily puzzle's results\<close>

text \<open>Nothing removes a result or forgets a character.\<close>

interpretation kept: writes "\<lambda>t t'. set (t_Wordle t) \<subseteq> set (t_Wordle t') \<and> char_ids t \<subseteq> char_ids t'"
proof (unfold_locales, goal_cases)
  case (3 u h t x t')
  then show ?case by (auto simp: insert_player_def Let_def char_ids_def split: if_splits)
next
  case (4 pid slot name cls t c t')
  then show ?case using insert_character_spec(6) [OF 4] by (auto simp: char_ids_def)
next
  case (5 t pid i)
  then show ?case by (simp add: char_ids_def image_image)
next
  case (6 r t x t')
  then show ?case by (auto simp: insert_wordle_def Let_def char_ids_def split: if_splits)
next
  case (7 d t x t')
  then show ?case using insert_duel_spec(1) [OF 7] by (simp add: char_ids_def)
next
  case (8 sr t x t')
  then obtain rs where "t' = t\<lparr>t_Rating := rs\<rparr>" using upsert_rating_of(2) by blast
  then show ?case by (simp add: char_ids_def)
qed auto

lemma inserted_result:
  assumes "InsertWordle r (up t) = (Inr (), s)"
  shows "s = up (db_tables s)" and "(seq_Wordle t + 1, r) \<in> set (t_Wordle (db_tables s))"
  using assms by (auto simp: InsertWordle_def insert_wordle_def Let_def split: if_splits)

lemma known_result:
  assumes "(i, r) \<in> set (t_Wordle t)"
  shows "PlayedWordleOn (wl_PlayerID r) (wl_Date r) (up t) = (Inr True, up t)"
proof -
  have "filter (\<lambda>(_, r'). wl_PlayerID r' = wl_PlayerID r \<and> wl_Date r' = wl_Date r) (t_Wordle t) \<noteq> []"
    using assms by (auto simp: filter_empty_conv)
  then show ?thesis by (simp add: PlayedWordleOn_def)
qed

lemma kept_result: "(i, r) \<in> set (t_Wordle t) \<Longrightarrow> (i, r) \<in> set (t_Wordle (fold run_op ops t))"
  using kept.run_ops [of t ops] by blast

text \<open>A day's result is kept for good, and is the only one. Once a result is saved, the account has played
that day, whatever is written later and whatever fails, and no other result of the account for that day can
ever be saved, whichever character it names.\<close>

theorem results_are_kept:
  assumes "InsertWordle r (up t) = (Inr (), s)"
  shows "let t' = fold run_op ops (db_tables s) in
    fst (PlayedWordleOn (wl_PlayerID r) (wl_Date r) (up t')) = Inr True \<and> r \<in> snd ` set (t_Wordle t') \<and>
    (\<forall>r'. wl_PlayerID r' = wl_PlayerID r \<and> wl_Date r' = wl_Date r \<longrightarrow> InsertWordle r' (up t') = (Inl ErrUnique, up t'))"
proof -
  note r = kept_result [OF inserted_result(2) [OF assms], of ops]
  then have "\<exists>(_, r') \<in> set (t_Wordle (fold run_op ops (db_tables s))). wl_PlayerID r' = wl_PlayerID r \<and> wl_Date r' = wl_Date r"
    by auto
  then show ?thesis using r known_result [OF r] by (force simp: Let_def InsertWordle_def insert_wordle_def)
qed

theorem results_are_kept_witness:
  "let t = fold run_op [([], AddPlayer ''ada'' ''hash''), ([], AddCharacter 1 0 ''Ada'' ''knight'')] empty_tables;
       r = \<lparr>wl_Date = ''2024-05-01'', wl_Win = True, wl_Seconds = 42, wl_GuessCount = 3, wl_PlayerID = 1, wl_CharacterID = 1\<rparr>
   in fst (PlayedWordleOn 1 ''2024-05-01'' (up (fold run_op [([], RemoveCharacter 1 1)] (db_tables (snd (InsertWordle r (up t))))))) = Inr True"
proof -
  define t where "t = fold run_op [([], AddPlayer ''ada'' ''hash''), ([], AddCharacter 1 0 ''Ada'' ''knight'')] empty_tables"
  define r where "r = \<lparr>wl_Date = ''2024-05-01'', wl_Win = True, wl_Seconds = 42, wl_GuessCount = 3, wl_PlayerID = 1, wl_CharacterID = 1\<rparr>"
  have "fst (InsertWordle r (up t)) = Inr ()"
    by (simp add: t_def r_def InsertWordle_def insert_wordle_def InsertPlayer_def insert_player_def InsertCharacter_def
        insert_character_def empty_tables_def Let_def)
  then obtain s where s: "InsertWordle r (up t) = (Inr (), s)" by (metis prod.collapse)
  have "wl_PlayerID r = 1" "wl_Date r = ''2024-05-01''" by (simp_all add: r_def)
  then show ?thesis
    using results_are_kept [OF s, of "[([], RemoveCharacter 1 1)]"] s
    unfolding t_def [symmetric] r_def [symmetric] Let_def by simp
qed

section \<open>The leaderboard\<close>

lemma filter_unique:
  "distinct (map f xs) \<Longrightarrow> x \<in> set xs \<Longrightarrow> filter (\<lambda>y. f y = f x) xs = [x]"
proof (induction xs)
  case (Cons y ys)
  show ?case
  proof (cases "x = y")
    case True
    then have "\<forall>z \<in> set ys. f z \<noteq> f x" using Cons.prems(1) by (auto simp: image_iff)
    then have "filter (\<lambda>z. f z = f x) ys = []" by (simp add: filter_empty_conv)
    then show ?thesis by (simp add: True)
  next
    case False
    then have "x \<in> set ys" using Cons.prems(2) by simp
    moreover from this have "f y \<noteq> f x" using Cons.prems(1) by (auto simp: image_iff)
    ultimately show ?thesis using Cons by simp
  qed
qed simp

lemma find_filter: "find P xs = (case filter P xs of [] \<Rightarrow> None | x # _ \<Rightarrow> Some x)"
  by (induction xs) simp_all

lemma map_concat_single:
  assumes "\<And>x. x \<in> set xs \<Longrightarrow> \<exists>row. g x = [row] \<and> f row = h x"
  shows "map f (concat (map g xs)) = map h xs"
  using assms
proof (induction xs)
  case (Cons x xs)
  obtain row where "g x = [row]" "f row = h x" using Cons.prems [of x] by auto
  moreover have "map f (concat (map g xs)) = map h xs" using Cons by simp
  ultimately show ?case by simp
qed simp

text \<open>A winner's line, without its place.\<close>

definition winner_line :: "LeaderboardRow \<Rightarrow> int \<times> int \<times> real" where
  "winner_line row = (lb_CharacterID row, lb_Guesses row, lb_Time row)"

definition result_line :: "int \<times> WordleResult \<Rightarrow> int \<times> int \<times> real" where
  "result_line x = (case x of (_, r) \<Rightarrow> (wl_CharacterID r, wl_GuessCount r, wl_Seconds r))"

definition winners :: "string \<Rightarrow> tables \<Rightarrow> (int \<times> WordleResult) list" where
  "winners date t = filter (\<lambda>(_, r). wl_Date r = date \<and> wl_Win r) (t_Wordle t)"

lemma ranking_winners: "ranking scan date t = sort_key (\<lambda>(_, r). (wl_GuessCount r, wl_Seconds r)) (scan (winners date t))"
  by (simp add: ranking_def winners_def)

lemma scan_set: "scan_ok scan \<Longrightarrow> set (scan rows) = set rows"
  unfolding scan_ok_def by (metis mset_eq_setD)

text \<open>Both joins find exactly one row.\<close>

lemma leaderboard_lines:
  assumes "tables_ok t" and "scan_ok scan"
  shows "map winner_line (leaderboard_rows scan date t) = map result_line (ranking scan date t)"
proof -
  have one: "\<exists>row. concat (map (\<lambda>c. map (\<lambda>(p, _).
         \<lparr>lb_Place = 0, lb_Uname = pl_Username p, lb_CharacterID = sc_ID c, lb_Char = sc_Name c,
          lb_Class = sc_Class c, lb_Guesses = wl_GuessCount r, lb_Time = wl_Seconds r\<rparr>)
       (filter (\<lambda>(p, _). pl_ID p = sc_PlayerID c) (t_Player t)))
     (filter (\<lambda>c. sc_ID c = wl_CharacterID r) (t_Character t))) = [row] \<and> winner_line row = result_line (i, r)"
    if "(i, r) \<in> set (t_Wordle t)" for i r
  proof -
    have "wl_CharacterID r \<in> char_ids t" using assms that by (auto simp: tables_ok_def wordle_table_def)
    then obtain c where c: "c \<in> set (t_Character t)" "sc_ID c = wl_CharacterID r" by (auto simp: char_ids_def)
    have "filter (\<lambda>c'. sc_ID c' = sc_ID c) (t_Character t) = [c]"
      by (rule filter_unique [OF _ c(1)]) (use assms in \<open>simp add: tables_ok_def characters_table_def\<close>)
    moreover have "sc_PlayerID c \<in> player_ids t" using assms c(1) by (auto simp: tables_ok_def characters_table_def)
    then obtain x where x: "x \<in> set (t_Player t)" "pl_ID (fst x) = sc_PlayerID c" by (auto simp: player_ids_def)
    have "filter (\<lambda>y. (pl_ID \<circ> fst) y = (pl_ID \<circ> fst) x) (t_Player t) = [x]"
      by (rule filter_unique [OF _ x(1)]) (use assms in \<open>simp add: tables_ok_def players_table_def o_def\<close>)
    then have "filter (\<lambda>(p, _). pl_ID p = sc_PlayerID c) (t_Player t) = [x]" by (simp add: split_def x(2))
    ultimately show ?thesis by (simp add: c(2) split_def winner_line_def result_line_def)
  qed
  have "set (ranking scan date t) \<subseteq> set (t_Wordle t)" by (auto simp: ranking_def scan_set [OF assms(2)])
  then show ?thesis unfolding leaderboard_rows_def by (intro map_concat_single) (use one in \<open>auto simp: split_def\<close>)
qed

text \<open>The whole board, numbered from 1.\<close>

definition board :: "scan \<Rightarrow> string \<Rightarrow> tables \<Rightarrow> LeaderboardRow list" where
  "board scan date t = number_rows 1 (leaderboard_rows scan date t)"

lemma number_rows_simps:
  "length (number_rows k rows) = length rows" "map winner_line (number_rows k rows) = map winner_line rows"
  "map lb_Place (number_rows k rows) = map (\<lambda>i. k + int i) [0..<length rows]"
  "take n (number_rows k rows) = number_rows k (take n rows)"
  "drop n (number_rows k rows) = number_rows (k + int n) (drop n rows)"
proof (induction k rows arbitrary: n rule: number_rows.induct)
  case (2 k row rows)
  {
    case 3
    have "[0..<Suc (length rows)] = 0 # map Suc [0..<length rows]" unfolding map_Suc_upt by (simp add: upt_conv_Cons del: upt_Suc)
    then show ?case using 2(3) by (simp add: o_def add.assoc)
  next
    case 4
    then show ?case using 2(4) by (cases n) simp_all
  next
    case 5
    then show ?case using 2(5) by (cases n) (simp_all add: add.assoc)
  }
qed (simp_all add: winner_line_def)

lemma scan_length: "scan_ok scan \<Longrightarrow> length (scan rows) = length rows"
  unfolding scan_ok_def by (metis size_mset)

lemma id_scan: "scan_ok id"
  by (simp add: scan_ok_def)

text \<open>Sorting leaves no choice if no two keys are equal.\<close>

lemma sort_key_distinct:
  assumes "mset xs = mset ys" and "distinct (map f xs)"
  shows "sort_key f xs = sort_key f ys"
proof (rule sym, rule properties_for_sort_key)
  show "mset (sort_key f xs) = mset ys" using assms(1) by simp
  have d: "distinct (map f ys)" "distinct (map f (sort_key f xs))"
    using assms mset_map mset_eq_imp_distinct_iff by (metis, metis mset_sort)
  show "filter (\<lambda>x. f k = f x) (sort_key f xs) = filter (\<lambda>x. f k = f x) ys" if "k \<in> set (sort_key f xs)" for k
  proof -
    have "k \<in> set ys" using that mset_eq_setD [OF assms(1)] by simp
    then show ?thesis using filter_unique [OF d(1)] filter_unique [OF d(2) that] by (simp add: eq_commute [of "f k"])
  qed
qed simp

text \<open>C30: A page is its part of the ranking. Whatever the order in which SQLite comes by the rows, the
leaderboard of a day has one line for each winner, whoever they were and even if their character was deleted
since, fewest guesses first and then the fastest, numbered from 1; a page is exactly its part of it, and the
total counts it. If no two winners tie, the order of the rows makes no difference, so that pages asked for one
by one make up the ranking.\<close>

theorem leaderboard_pages:
  assumes "t = fold run_op ops empty_tables" and "0 \<le> limit" and "0 \<le> offset" and "scan_ok scan"
  shows "WordleLeaderboard scan date limit offset (up t) =
      (Inr (take (nat limit) (drop (nat offset) (board scan date t)), int (length (winners date t))), up t) \<and>
    mset (map winner_line (board scan date t)) = mset (map result_line (winners date t)) \<and>
    sorted (map (\<lambda>row. (lb_Guesses row, lb_Time row)) (board scan date t)) \<and>
    map lb_Place (board scan date t) = map (\<lambda>i. 1 + int i) [0..<length (winners date t)] \<and>
    (distinct (map (\<lambda>(_, r). (wl_GuessCount r, wl_Seconds r)) (winners date t)) \<longrightarrow>
      (\<forall>scan'. scan_ok scan' \<longrightarrow> board scan' date t = board scan date t))"
proof -
  have lines: "map winner_line (board scan date t) = map result_line (ranking scan date t)"
    using leaderboard_lines [OF _ assms(4)] schema.run_ops empty_tables_ok
    unfolding board_def number_rows_simps(2) assms(1) by blast
  have key: "map (\<lambda>row. (lb_Guesses row, lb_Time row)) rows = map snd (map winner_line rows)" for rows
    by (simp add: winner_line_def)
  have "sorted (map (\<lambda>(_, r). (wl_GuessCount r, wl_Seconds r)) (ranking scan date t))"
    unfolding ranking_winners by (rule sorted_sort_key)
  then have s: "sorted (map (\<lambda>row. (lb_Guesses row, lb_Time row)) (board scan date t))"
    unfolding key lines by (simp add: result_line_def split_def o_def)
  have m: "mset (map result_line (ranking scan date t)) = mset (map result_line (winners date t))"
    using assms(4) by (simp add: ranking_winners scan_ok_def)
  have n: "length (board scan date t) = length (winners date t)"
    using arg_cong [OF lines, of length] assms(4) by (simp add: ranking_winners scan_length)
  then have page: "WordleLeaderboard scan date limit offset (up t) =
      (Inr (take (nat limit) (drop (nat offset) (board scan date t)), int (length (winners date t))), up t)"
    using assms(2,3)
    by (simp add: WordleLeaderboard_def and_then_def winners_def [symmetric] sql_page_def board_def number_rows_simps add.commute)
  have "board scan' date t = board scan date t"
    if "distinct (map (\<lambda>(_, r). (wl_GuessCount r, wl_Seconds r)) (winners date t))" "scan_ok scan'" for scan'
  proof -
    have "mset (scan' (winners date t)) = mset (winners date t)" "mset (scan (winners date t)) = mset (winners date t)"
      using that(2) assms(4) by (simp_all add: scan_ok_def)
    from sort_key_distinct [OF this(1) [symmetric] that(1)] sort_key_distinct [OF this(2) [symmetric] that(1)]
    have "ranking scan' date t = ranking scan date t" by (simp add: ranking_winners)
    then show ?thesis by (simp add: board_def leaderboard_rows_def)
  qed
  then show ?thesis
    using page s m lines n number_rows_simps(3) [of 1 "leaderboard_rows scan date t"] by (simp add: board_def number_rows_simps(1))
qed

theorem leaderboard_pages_witness:
  "let t = fold run_op [([], AddPlayer ''ada'' ''hash''), ([], AddCharacter 1 0 ''Ada'' ''knight''),
      ([], AddWordle \<lparr>wl_Date = ''2024-05-01'', wl_Win = True, wl_Seconds = 42, wl_GuessCount = 3, wl_PlayerID = 1,
        wl_CharacterID = 1\<rparr>)] empty_tables
   in fst (WordleLeaderboard rev ''2024-05-01'' 10 0 (up t)) =
        Inr (take 10 (board rev ''2024-05-01'' t), int (length (winners ''2024-05-01'' t)))"
  using leaderboard_pages [OF refl, of 10 0 rev "''2024-05-01''" "[([], AddPlayer ''ada'' ''hash''),
      ([], AddCharacter 1 0 ''Ada'' ''knight''), ([], AddWordle \<lparr>wl_Date = ''2024-05-01'', wl_Win = True, wl_Seconds = 42,
        wl_GuessCount = 3, wl_PlayerID = 1, wl_CharacterID = 1\<rparr>)]"] by (simp add: Let_def scan_ok_def del: fold_simps)

text \<open>Of winners that tie, one may be on two pages and another on none.\<close>

definition tied_tables :: tables where
  "tied_tables = empty_tables\<lparr>
     t_Player := [(\<lparr>pl_ID = 1, pl_Username = ''ada''\<rparr>, ''h''), (\<lparr>pl_ID = 2, pl_Username = ''bob''\<rparr>, ''h'')],
     t_Character := [
       \<lparr>sc_ID = 1, sc_PlayerID = 1, sc_Slot = 0, sc_Name = ''Ada'', sc_Class = ''knight'', sc_Deleted = False\<rparr>,
       \<lparr>sc_ID = 2, sc_PlayerID = 2, sc_Slot = 0, sc_Name = ''Bob'', sc_Class = ''rogue'', sc_Deleted = False\<rparr>],
     t_Wordle := map (\<lambda>i. (i, \<lparr>wl_Date = ''2024-05-01'', wl_Win = True, wl_Seconds = 42, wl_GuessCount = 3,
       wl_PlayerID = i, wl_CharacterID = i\<rparr>)) [1, 2], seq_Player := 2, seq_Character := 2, seq_Wordle := 2\<rparr>"

theorem tied_winners_may_repeat:
  "scan_ok id \<and> scan_ok rev \<and> tables_ok tied_tables \<and>
   (\<exists>first second. fst (WordleLeaderboard id ''2024-05-01'' 1 0 (up tied_tables)) = Inr ([first], 2) \<and>
      fst (WordleLeaderboard rev ''2024-05-01'' 1 1 (up tied_tables)) = Inr ([second], 2) \<and>
      lb_Uname first = ''ada'' \<and> lb_Uname second = ''ada'')"
proof (intro conjI)
  show "tables_ok tied_tables"
    by (simp add: tied_tables_def empty_tables_def tables_ok_def players_table_def characters_table_def slots_free_def
        wordle_table_def ratings_table_def duels_table_def player_ids_def char_ids_def CharacterSlots_def)
qed (simp_all add: scan_ok_def WordleLeaderboard_def and_then_def sql_page_def leaderboard_rows_def ranking_def tied_tables_def
    empty_tables_def)

section \<open>Characters\<close>

lemma slot_taken:
  assumes "tables_ok t" and "c \<in> set (t_Character t)" and "\<not> sc_Deleted c"
    and "c' \<in> set (t_Character t)" and "\<not> sc_Deleted c'" and "sc_PlayerID c' = sc_PlayerID c" and "sc_Slot c' = sc_Slot c"
  shows "c' = c"
proof -
  have "inj_on (\<lambda>c. (sc_PlayerID c, sc_Slot c)) (set (filter (\<lambda>c. \<not> sc_Deleted c) (t_Character t)))"
    using assms(1) unfolding tables_ok_def characters_table_def slots_free_def distinct_map by blast
  from inj_onD [OF this, of c' c] assms show ?thesis by simp
qed

lemma leaderboard_rows_delete:
  "leaderboard_rows scan date (t\<lparr>t_Character := map (delete_character pid i) (t_Character t)\<rparr>) = leaderboard_rows scan date t"
proof -
  have "concat (map g (filter (\<lambda>c. sc_ID c = k) (map (delete_character pid i) cs))) = concat (map g (filter (\<lambda>c. sc_ID c = k) cs))"
    if "\<And>c. g (delete_character pid i c) = g c" for g :: "Character \<Rightarrow> LeaderboardRow list" and k cs
    by (induction cs) (simp_all add: that)
  then show ?thesis by (simp add: leaderboard_rows_def ranking_def)
qed

text \<open>Deleting a character frees its slot and nothing else. Only a live character of the player's own can be
deleted, and only once; it is kept, marked; its slot can be used again, by a character with an ID never used;
and the leaderboards do not change.\<close>

theorem deleting_frees_the_slot:
  assumes "t = fold run_op ops empty_tables" and "DeleteCharacter pid i (up t) = (Inr True, s)"
  shows "\<exists>c. fst (CharacterByID i (up t)) = Inr (Some c) \<and> sc_PlayerID c = pid \<and> \<not> sc_Deleted c \<and>
    fst (CharacterByID i s) = Inr (Some (c\<lparr>sc_Deleted := True\<rparr>)) \<and> fst (DeleteCharacter pid i s) = Inr False \<and>
    (\<exists>c'. fst (InsertCharacter pid (sc_Slot c) name cls s) = Inr (Some c') \<and> sc_ID c' \<notin> char_ids t) \<and>
    leaderboard_rows scan date (db_tables s) = leaderboard_rows scan date t"
proof -
  have ok: "tables_ok t" using schema.run_ops empty_tables_ok unfolding assms(1) by blast
  have s: "s = up (t\<lparr>t_Character := map (delete_character pid i) (t_Character t)\<rparr>)"
    using assms(2) by (simp add: DeleteCharacter_eq)
  obtain c where c: "c \<in> set (t_Character t)" "sc_ID c = i" "sc_PlayerID c = pid" "\<not> sc_Deleted c"
    using assms(2) by (auto simp: DeleteCharacter_eq)
  have ids: "distinct (map sc_ID (t_Character t))" "sc_ID ` set (t_Character t) \<subseteq> {1..seq_Character t}"
    "sc_Slot c \<in> {0..<CharacterSlots}" "pid \<in> player_ids t"
    using ok c by (auto simp: tables_ok_def characters_table_def)
  have "filter (\<lambda>c'. sc_ID c' = sc_ID c) (t_Character t) = [c]" by (rule filter_unique [OF ids(1) c(1)])
  then have found: "find (\<lambda>c'. sc_ID c' = i) (t_Character t) = Some c" by (simp add: find_filter c(2))
  have free: "sc_Deleted c'' \<or> sc_Slot c'' \<noteq> sc_Slot c \<or> sc_PlayerID c'' \<noteq> pid \<or> sc_ID c'' = i"
    if "c'' \<in> set (t_Character t)" for c''
    using slot_taken [OF ok c(1,4) that] c(2,3) by auto
  have "seq_Character t + 1 \<notin> char_ids t" using ids(2) by (auto simp: char_ids_def)
  moreover have "insert_character pid (sc_Slot c) name cls (db_tables s) =
      (let c' = \<lparr>sc_ID = seq_Character t + 1, sc_PlayerID = pid, sc_Slot = sc_Slot c, sc_Name = name, sc_Class = cls, sc_Deleted = False\<rparr>
       in Inr (c', (db_tables s)\<lparr>t_Character := t_Character (db_tables s) @ [c'], seq_Character := seq_Character t + 1\<rparr>))"
    using ids(3,4) free by (auto simp: insert_character_def s CharacterSlots_def player_ids_def Let_def)
  ultimately have "\<exists>c'. fst (InsertCharacter pid (sc_Slot c) name cls s) = Inr (Some c') \<and> sc_ID c' \<notin> char_ids t"
    by (simp add: InsertCharacter_def s Let_def)
  moreover have "fst (CharacterByID i s) = Inr (Some (c\<lparr>sc_Deleted := True\<rparr>))"
    using find_map_key [where key = sc_ID and f = "delete_character pid i" and k = i and xs = "t_Character t"] found c
    by (simp add: CharacterByID_def s)
  moreover have "fst (DeleteCharacter pid i s) = Inr False" by (auto simp: DeleteCharacter_eq s)
  ultimately show ?thesis
    using found c by (intro exI [of _ c]) (simp add: CharacterByID_def s leaderboard_rows_delete)
qed

theorem deleting_frees_the_slot_witness:
  "let t = fold run_op [([], AddPlayer ''ada'' ''hash''), ([], AddCharacter 1 2 ''Ada'' ''knight'')] empty_tables
   in fst (DeleteCharacter 1 1 (snd (DeleteCharacter 1 1 (up t)))) = Inr False"
proof -
  define t where "t = fold run_op [([], AddPlayer ''ada'' ''hash''), ([], AddCharacter 1 2 ''Ada'' ''knight'')] empty_tables"
  have "fst (DeleteCharacter 1 1 (up t)) = Inr True"
    by (simp add: t_def DeleteCharacter_eq InsertPlayer_def insert_player_def InsertCharacter_def insert_character_def
        empty_tables_def Let_def)
  then obtain s where s: "DeleteCharacter 1 1 (up t) = (Inr True, s)" by (metis prod.collapse)
  show ?thesis using deleting_frees_the_slot [OF t_def s] unfolding t_def [symmetric] Let_def s snd_conv by blast
qed

end
