(* ===== verification/Gameday.thy ===== *)
theory Gameday
  imports Go_Base
begin

text \<open>
  The day of the game (\<open>internal/gameday\<close>), on a clock seven hours behind UTC, as text, and the two
  pieces of the standard library it and the HTTP handlers rest on: the calendar of package \<open>time\<close> and
  \<open>strconv.Atoi\<close>. The lemmas show that the text of a day is a date the leaderboard accepts, and that two
  moments have the same text exactly if no midnight lies between them.
\<close>

section \<open>Digits\<close>

definition digit :: "int \<Rightarrow> char" where "digit k = char_of (48 + nat (k mod 10))"

definition is_digit :: "char \<Rightarrow> bool" where "is_digit c \<longleftrightarrow> 48 \<le> (of_char c :: nat) \<and> (of_char c :: nat) \<le> 57"

definition digit_value :: "char \<Rightarrow> int" where "digit_value c = int (of_char c) - 48"

definition number :: "string \<Rightarrow> int" where "number s = foldl (\<lambda>n c. 10 * n + digit_value c) 0 s"

text \<open>\<open>strconv.Atoi\<close>: an optional sign, then only digits, and the value fits an \<open>int\<close>.\<close>

definition Atoi :: "string \<Rightarrow> int option" where
  "Atoi s =
    (let neg = (s \<noteq> [] \<and> hd s = CHR ''-''); signed = (s \<noteq> [] \<and> (hd s = CHR ''-'' \<or> hd s = CHR ''+''));
         ds = (if signed then tl s else s); n = (if neg then - number ds else number ds) in
     if ds = [] \<or> \<not> list_all is_digit ds then None
     else if - (2 ^ 63) \<le> n \<and> n < 2 ^ 63 then Some n else None)"

section \<open>The calendar\<close>

definition is_leap :: "int \<Rightarrow> bool" where
  "is_leap y \<longleftrightarrow> y mod 4 = 0 \<and> (y mod 100 \<noteq> 0 \<or> y mod 400 = 0)"

definition days_in :: "int \<Rightarrow> int \<Rightarrow> int" where
  "days_in y m = (if m = 2 then if is_leap y then 29 else 28 else if m \<in> {4, 6, 9, 11} then 30 else 31)"

text \<open>Days before a year, counted from January 1 of year 1, where the zero time is.\<close>

definition year_start :: "int \<Rightarrow> int" where
  "year_start y = (let p = y - 1 in 365 * p + p div 4 - p div 100 + p div 400)"

text \<open>The year of a day: whole cycles of 400, 100 and 4 years, the last day of a cycle in its last year.\<close>

definition year_of :: "int \<Rightarrow> int" where
  "year_of day =
    (let n400 = day div 146097; d = day mod 146097; n100 = min 3 (d div 36524); d = d - 36524 * n100;
         n4 = d div 1461; d = d mod 1461; n1 = min 3 (d div 365)
     in 400 * n400 + 100 * n100 + 4 * n4 + n1 + 1)"

fun month_of :: "int \<Rightarrow> int \<Rightarrow> nat \<Rightarrow> int \<Rightarrow> int \<times> int" where
  "month_of y m 0 d = (m, d)"
| "month_of y m (Suc n) d = (if d < days_in y m then (m, d) else month_of y (m + 1) n (d - days_in y m))"

definition civil :: "int \<Rightarrow> int \<times> int \<times> int" where
  "civil day = (let y = year_of day; (m, d) = month_of y 1 11 (day - year_start y) in (y, m, d + 1))"

section \<open>Days of the game\<close>

text \<open>\<open>Time.Unix\<close>: whole seconds since 1970.\<close>

definition Unix :: "gotime \<Rightarrow> int" where
  "Unix t = t div Second - 62135596800"

definition Hour :: duration where "Hour = 3600 * Second"

text \<open>\<open>t.In(Zone).Format(Layout)\<close> with \<open>Layout\<close> \<open>2006-01-02\<close>, for years up to 9999.\<close>

definition Zone_offset :: duration where "Zone_offset = - 7 * Hour"

definition game_day :: "gotime \<Rightarrow> int" where
  "game_day t = (t + Zone_offset) div (24 * Hour)"

definition pad2 :: "int \<Rightarrow> string" where "pad2 n = [digit (n div 10), digit n]"
definition pad4 :: "int \<Rightarrow> string" where "pad4 n = [digit (n div 1000), digit (n div 100), digit (n div 10), digit n]"

definition Of :: "gotime \<Rightarrow> string" where
  "Of t = (let (y, m, d) = civil (game_day t) in pad4 y @ ''-'' @ pad2 m @ ''-'' @ pad2 d)"

text \<open>\<open>time.Parse(Layout, s)\<close> succeeds: digits in their places, a month and a day of it.\<close>

definition Parse_date :: "string \<Rightarrow> (int \<times> int \<times> int) option" where
  "Parse_date s =
    (if length s = 10 \<and> list_all is_digit (take 4 s) \<and> s ! 4 = CHR ''-'' \<and> list_all is_digit (take 2 (drop 5 s)) \<and>
        s ! 7 = CHR ''-'' \<and> list_all is_digit (drop 8 s)
     then let y = number (take 4 s); m = number (take 2 (drop 5 s)); d = number (drop 8 s) in
       if 1 \<le> m \<and> m \<le> 12 \<and> 1 \<le> d \<and> d \<le> days_in y m then Some (y, m, d) else None
     else None)"

definition Valid :: "string \<Rightarrow> bool" where
  "Valid s \<longleftrightarrow> Parse_date s \<noteq> None"

section \<open>The calendar is right\<close>

lemma year_start_parts:
  fixes a b c e :: int
  assumes "0 \<le> b" "b \<le> 3" "0 \<le> c" "c \<le> 24" "0 \<le> e" "e \<le> 3"
  shows "year_start (400 * a + 100 * b + 4 * c + e + 1) = 146097 * a + 36524 * b + 1461 * c + 365 * e"
proof -
  let ?p = "400 * a + 100 * b + 4 * c + e"
  have "?p div 4 = 100 * a + 25 * b + c" "?p div 100 = 4 * a + b" "?p div 400 = a" using assms by linarith+
  then show ?thesis by (simp add: year_start_def Let_def)
qed

definition year_days :: "int \<Rightarrow> int" where "year_days y = (if is_leap y then 366 else 365)"

lemma div_pred:
  fixes k y :: int
  assumes "0 < k"
  shows "y div k = (y - 1) div k + (if y mod k = 0 then 1 else 0)"
proof (cases "y mod k = 0")
  case True
  have "y - 1 = k * (y div k - 1) + (k - 1)" using True minus_mod_eq_mult_div [of y k] by (simp add: algebra_simps)
  then have "(y - 1) div k = y div k - 1" by (rule int_div_pos_eq) (use assms in simp_all)
  then show ?thesis using True by simp
next
  case False
  have "y - 1 = k * (y div k) + (y mod k - 1)" by simp
  then have "(y - 1) div k = y div k"
    by (rule int_div_pos_eq) (use assms False pos_mod_sign [of k y] pos_mod_bound [of k y] in linarith)+
  then show ?thesis using False by simp
qed

lemma year_start_next: "year_start (y + 1) = year_start y + year_days y"
proof -
  note q = div_pred [of 4 y, simplified] div_pred [of 100 y, simplified] div_pred [of 400 y, simplified]
  have "100 dvd y \<Longrightarrow> 4 dvd y" "400 dvd y \<Longrightarrow> 100 dvd y"
    by (rule dvd_trans [rotated], assumption, simp)+
  then have "y mod 100 = 0 \<Longrightarrow> y mod 4 = 0" "y mod 400 = 0 \<Longrightarrow> y mod 100 = 0" by (simp_all only: mod_eq_0_iff_dvd)
  then show ?thesis
    unfolding year_start_def Let_def year_days_def is_leap_def add_diff_cancel_right' q
    by (cases "y mod 4 = 0"; cases "y mod 100 = 0"; cases "y mod 400 = 0") simp_all
qed

lemma div_ends:
  fixes k x :: int
  assumes "0 < k" and "0 \<le> x"
  shows "0 \<le> x div k" "x div k * k \<le> x" "x < x div k * k + k"
proof -
  show "0 \<le> x div k" using assms by (simp add: pos_imp_zdiv_nonneg_iff)
  show "x div k * k \<le> x" "x < x div k * k + k"
    using assms div_mult_mod_eq [of x k] pos_mod_sign [of k x] pos_mod_bound [of k x] by linarith+
qed

lemma capped:
  fixes k x :: int
  assumes "0 < k" and "0 \<le> x" and "x \<le> 4 * k"
  shows "0 \<le> min 3 (x div k) \<and> min 3 (x div k) \<le> 3 \<and> 0 \<le> x - k * min 3 (x div k) \<and>
    x - k * min 3 (x div k) \<le> k \<and> (min 3 (x div k) < 3 \<longrightarrow> x - k * min 3 (x div k) \<le> k - 1)"
proof -
  obtain q where q: "q = x div k" by simp
  note e = div_ends [OF assms(1,2), folded q]
  show ?thesis
  proof (cases "3 \<le> q")
    case True
    have "3 * k \<le> q * k" by (rule mult_right_mono [OF True]) (use assms(1) in simp)
    then have "3 * k \<le> x" using e(2) by linarith
    then show ?thesis using True assms(1,3) by (simp add: q [symmetric] mult.commute)
  next
    case False
    then show ?thesis using e assms(1) by (simp add: q [symmetric] min_def mult.commute)
  qed
qed

lemma year_of_bounds: "year_start (year_of day) \<le> day \<and> day < year_start (year_of day + 1)"
proof -
  define a d1 where "a = day div 146097" and "d1 = day mod 146097"
  define b where "b = min 3 (d1 div 36524)"
  define d2 where "d2 = d1 - 36524 * b"
  define c d3 where "c = d2 div 1461" and "d3 = d2 mod 1461"
  define e where "e = min 3 (d3 div 365)"
  have y: "year_of day = 400 * a + 100 * b + 4 * c + e + 1"
    unfolding year_of_def Let_def a_def d1_def b_def d2_def c_def d3_def e_def ..
  have day: "day = 146097 * a + d1" unfolding a_def d1_def by (rule mult_div_mod_eq [symmetric])
  have d1: "0 \<le> d1" "d1 \<le> 146096" unfolding d1_def by simp_all
  have b: "0 \<le> b \<and> b \<le> 3 \<and> 0 \<le> d2 \<and> d2 \<le> 36524 \<and> (b < 3 \<longrightarrow> d2 \<le> 36523)"
    using capped [of 36524 d1] d1 unfolding b_def [symmetric] d2_def [symmetric] by simp
  note d2 = conjunct1 [OF conjunct2 [OF conjunct2 [OF b]]] b
  have d23: "d2 = 1461 * c + d3" by (simp add: c_def d3_def)
  have c: "0 \<le> c \<and> c \<le> 24"
    using div_ends [of 1461 d2] d2(1) b unfolding c_def [symmetric] by simp
  have d3: "0 \<le> d3" "d3 \<le> 1460" by (simp_all add: d3_def)
  have e: "0 \<le> e \<and> e \<le> 3 \<and> 365 * e \<le> d3 \<and> d3 - 365 * e \<le> 365 \<and> (e < 3 \<longrightarrow> d3 - 365 * e \<le> 364)"
    using capped [of 365 d3] d3 unfolding e_def [symmetric] by simp
  have start: "year_start (year_of day) = 146097 * a + 36524 * b + 1461 * c + 365 * e"
    unfolding y by (rule year_start_parts) (use b c e in simp_all)
  have "d3 - 365 * e < year_days (year_of day)"
  proof (cases "d3 - 365 * e = 365")
    case True
    then have "e = 3" using e by linarith
    moreover from this have "d3 = 1460" using True d3 by linarith
    then have "c = 24 \<longrightarrow> b = 3" using d23 b by linarith
    ultimately have "e = 3" "c = 24 \<longrightarrow> b = 3" by simp_all
    then have "is_leap (year_of day)"
    proof -
      have "year_of day = 4 * (100 * a + 25 * b + c + 1)" using \<open>e = 3\<close> by (simp add: y)
      moreover have "year_of day mod 100 = 4 * c + 4" if "c < 24"
        by (rule int_mod_pos_eq [where q = "4 * a + b"]) (use \<open>e = 3\<close> that c in \<open>simp_all add: y\<close>)
      moreover have "c = 24 \<Longrightarrow> year_of day = 400 * (a + 1)" using \<open>c = 24 \<longrightarrow> b = 3\<close> \<open>e = 3\<close> by (simp add: y)
      ultimately show ?thesis using c unfolding is_leap_def by (cases "c = 24") auto
    qed
    then show ?thesis using True by (simp add: year_days_def)
  next
    case False
    then have "d3 - 365 * e < 365" using e by linarith
    then show ?thesis by (simp add: year_days_def)
  qed
  then show ?thesis using start day d23 e by (simp add: year_start_next d2_def)
qed

text \<open>Days before a month.\<close>

fun month_start :: "int \<Rightarrow> nat \<Rightarrow> int" where
  "month_start y 0 = 0"
| "month_start y (Suc k) = month_start y k + days_in y (int k + 1)"

lemma month_of_spec:
  assumes "month_of y (int k + 1) n d = (m, r)" and "0 \<le> d" and "d < month_start y (k + Suc n) - month_start y k"
  shows "\<exists>j. m = int j + 1 \<and> k \<le> j \<and> j \<le> k + n \<and> month_start y k + d = month_start y j + r \<and> 0 \<le> r \<and> r < days_in y m"
  using assms
proof (induction n arbitrary: k d)
  case 0
  then show ?case by (intro exI [of _ k]) simp
next
  case (Suc n)
  show ?case
  proof (cases "d < days_in y (int k + 1)")
    case True
    then show ?thesis using Suc.prems by (intro exI [of _ k]) simp
  next
    case False
    have "month_of y (int (Suc k) + 1) n (d - days_in y (int k + 1)) = (m, r)"
      using Suc.prems(1) False by (simp add: add.commute)
    moreover have "d - days_in y (int k + 1) < month_start y (Suc k + Suc n) - month_start y (Suc k)"
      using Suc.prems(3) by simp
    ultimately show ?thesis using Suc.IH [of "Suc k" "d - days_in y (int k + 1)"] False by auto
  qed
qed

lemma month_start_year: "month_start y 12 = year_days y"
  by (simp add: numeral_eq_Suc days_in_def year_days_def)

lemma civil_spec:
  assumes "civil day = (y, m, d)"
  shows "1 \<le> m" "m \<le> 12" "1 \<le> d" "d \<le> days_in y m" "day = year_start y + month_start y (nat (m - 1)) + d - 1"
    "y = year_of day"
proof -
  obtain m' r where r: "month_of (year_of day) 1 11 (day - year_start (year_of day)) = (m', r)" by force
  have y: "y = year_of day" "m = m'" "d = r + 1" using assms by (simp_all add: civil_def Let_def r)
  have "month_of (year_of day) (int 0 + 1) 11 (day - year_start (year_of day)) = (m', r)" using r by simp
  moreover have "0 \<le> day - year_start (year_of day)" using year_of_bounds [of day] by simp
  moreover have "day - year_start (year_of day) < month_start (year_of day) (0 + Suc 11) - month_start (year_of day) 0"
  proof -
    have "(0 + Suc 11 :: nat) = 12" by simp
    then show ?thesis using year_of_bounds [of day] month_start_year [of "year_of day"] by (simp only: year_start_next) simp
  qed
  ultimately obtain j where j: "m' = int j + 1" "j \<le> 0 + 11"
    "month_start (year_of day) 0 + (day - year_start (year_of day)) = month_start (year_of day) j + r"
    "0 \<le> r" "r < days_in (year_of day) m'"
    using month_of_spec by blast
  show "1 \<le> m" "m \<le> 12" "1 \<le> d" "d \<le> days_in y m" "day = year_start y + month_start y (nat (m - 1)) + d - 1"
    "y = year_of day"
    using j by (simp_all add: y)
qed

lemma civil_inj: "civil day = civil day' \<longleftrightarrow> day = day'"
proof
  assume eq: "civil day = civil day'"
  obtain y m d where c: "civil day = (y, m, d)" by (cases "civil day")
  show "day = day'" using civil_spec(5) [OF c] civil_spec(5) [OF c [unfolded eq]] by simp
qed simp

section \<open>Dates as text\<close>

lemma of_char_digit: "of_char (digit k) = (48 + nat (k mod 10) :: nat)"
proof -
  have "nat (k mod 10) < 10" by (simp add: nat_less_iff)
  then show ?thesis by (simp add: digit_def)
qed

lemma is_digit_digit [simp]: "is_digit (digit k)"
proof -
  have "nat (k mod 10) < 10" by (simp add: nat_less_iff)
  then show ?thesis by (simp add: is_digit_def of_char_digit)
qed

lemma digit_value_digit [simp]: "digit_value (digit k) = k mod 10"
  by (simp add: digit_value_def of_char_digit)

lemma number_pad2: "0 \<le> n \<Longrightarrow> n < 100 \<Longrightarrow> number (pad2 n) = n"
  using div_mult_mod_eq [of n 10] by (simp add: number_def pad2_def)

lemma number_pad4: "0 \<le> n \<Longrightarrow> n < 10000 \<Longrightarrow> number (pad4 n) = n"
proof -
  assume "0 \<le> n" "n < 10000"
  then have "n div 1000 mod 10 = n div 1000" by simp
  moreover have "n div 100 = n div 10 div 10" "n div 1000 = n div 100 div 10" by (simp_all add: zdiv_zmult2_eq [symmetric])
  then have "10 * (n div 1000) + n div 100 mod 10 = n div 100" "10 * (n div 100) + n div 10 mod 10 = n div 10"
    "10 * (n div 10) + n mod 10 = n"
    using mult_div_mod_eq [of 10 "n div 100"] mult_div_mod_eq [of 10 "n div 10"] mult_div_mod_eq [of 10 n] by (simp_all only:)
  ultimately show ?thesis
    unfolding number_def pad4_def foldl.simps digit_value_digit by (simp only: mult_zero_right add_0)
qed

lemma year_start_mono: "y \<le> y' \<Longrightarrow> year_start y \<le> year_start y'"
proof -
  have "year_start y \<le> year_start (y + int n)" for n
  proof (induction n)
    case (Suc n)
    have "0 \<le> year_days (y + int n)" by (simp add: year_days_def)
    moreover have "y + int n + 1 = y + int (Suc n)" by simp
    ultimately show ?case using Suc year_start_next [of "y + int n"] by (simp only:)
  qed simp
  from this [of "nat (y' - y)"] show "y \<le> y' \<Longrightarrow> year_start y \<le> year_start y'" by simp
qed

lemma year_of_range: "0 \<le> day \<Longrightarrow> day < year_start 10000 \<Longrightarrow> 1 \<le> year_of day \<and> year_of day \<le> 9999"
proof -
  assume a: "0 \<le> day" "day < year_start 10000"
  have "\<not> year_of day \<le> 0"
    using a(1) year_of_bounds [of day] year_start_mono [of "year_of day + 1" 1] by (auto simp: year_start_def)
  moreover have "\<not> 10000 \<le> year_of day" using a(2) year_of_bounds [of day] year_start_mono [of 10000 "year_of day"] by auto
  ultimately show ?thesis by simp
qed

lemma Parse_Of:
  assumes "0 \<le> game_day t" and "game_day t < year_start 10000"
  shows "Parse_date (Of t) = Some (civil (game_day t))"
proof -
  obtain y m d where c: "civil (game_day t) = (y, m, d)" by (cases "civil (game_day t)")
  note s = civil_spec [OF c]
  have y: "1 \<le> y" "y \<le> 9999" using year_of_range [OF assms] unfolding s(6) by blast+
  have "days_in y m \<le> 31" by (simp add: days_in_def)
  then have d: "d < 100" using s(4) by linarith
  have o: "Of t = pad4 y @ ''-'' @ pad2 m @ ''-'' @ pad2 d" by (simp add: Of_def c)
  have p: "take 4 (Of t) = pad4 y" "take 2 (drop 5 (Of t)) = pad2 m" "drop 8 (Of t) = pad2 d" "length (Of t) = 10"
    "Of t ! 4 = CHR ''-''" "Of t ! 7 = CHR ''-''"
    unfolding o by (simp_all add: pad4_def pad2_def)
  have "list_all is_digit (pad4 n)" "list_all is_digit (pad2 n)" for n by (simp_all add: pad4_def pad2_def)
  then show ?thesis using s(1-4) y d unfolding Parse_date_def p by (simp add: number_pad4 number_pad2 c)
qed

text \<open>C39: A day of the game is a date, and one date is one day. The text of any moment up to the year 9999 is a
date the leaderboard accepts, it reads back as its calendar day, and two moments have the same text exactly
if no midnight of the game's clock lies between them: so \<open>once a day\<close> means what it says.\<close>

theorem game_days_are_dates:
  assumes "0 \<le> game_day t" and "game_day t < year_start 10000"
    and "0 \<le> game_day t'" and "game_day t' < year_start 10000"
  shows "Valid (Of t) \<and> Parse_date (Of t) = Some (civil (game_day t)) \<and>
    (Of t = Of t' \<longleftrightarrow> (t - 7 * Hour) div (24 * Hour) = (t' - 7 * Hour) div (24 * Hour))"
proof -
  have "Of t = Of t' \<longleftrightarrow> civil (game_day t) = civil (game_day t')"
    using Parse_Of [OF assms(1,2)] Parse_Of [OF assms(3,4)] by (metis Of_def option.inject)
  then show ?thesis
    using Parse_Of [OF assms(1,2)] by (simp add: Valid_def civil_inj game_day_def Zone_offset_def)
qed

theorem game_days_are_dates_witness:
  "Valid (Of (63849 * 10 ^ 15)) \<and> Of (63849 * 10 ^ 15) = Of (63849 * 10 ^ 15 + Hour)"
proof -
  have "0 \<le> game_day (63849 * 10 ^ 15)" "game_day (63849 * 10 ^ 15) < year_start 10000"
    "0 \<le> game_day (63849 * 10 ^ 15 + Hour)" "game_day (63849 * 10 ^ 15 + Hour) < year_start 10000"
    "(63849 * 10 ^ 15 - 7 * Hour) div (24 * Hour) = (63849 * 10 ^ 15 + Hour - 7 * Hour) div (24 * Hour)"
    by (simp_all add: game_day_def Zone_offset_def Hour_def Second_def year_start_def)
  then show ?thesis using game_days_are_dates by blast
qed

end
