(* ===== verification/Ranked_Service.thy ===== *)
theory Ranked_Service
  imports Ranked Store_Facts Gameday
begin

text \<open>
  The service that loads and saves ratings (\<open>internal/ranked/service.go\<close>): a queue of jobs that one
  goroutine runs in order. Callers append a job under the lock and then, unlocked, put a token into the
  channel \<open>wake\<close> of size one; the goroutine sleeps on it when the queue is empty. The steps of callers
  and goroutine interleave in any way. The lemmas show that no wake-up is lost, that jobs run in the
  order they came in, and that closing saves everything.
\<close>

section \<open>Jobs\<close>

definition fromStore :: "StoreRating \<Rightarrow> Rating" where
  "fromStore r = \<lparr>Elo = sr_Elo r, Peak = sr_Peak r, Games = sr_Games r, Wins = sr_Wins r,
     Losses = sr_Losses r, Draws = sr_Draws r\<rparr>"

definition toStore :: "int \<Rightarrow> Rating \<Rightarrow> StoreRating" where
  "toStore charID r = \<lparr>sr_CharacterID = charID, sr_Elo = Elo r, sr_Peak = Peak r, sr_Games = Games r,
     sr_Wins = Wins r, sr_Losses = Losses r, sr_Draws = Draws r\<rparr>"

definition duel_record :: "Match \<Rightarrow> RankedDuel" where
  "duel_record m =
    \<lparr>rd_PlayedAt = Unix (mt_PlayedAt m), rd_A = mt_A m, rd_B = mt_B m,
     rd_Winner = (case mt_Outcome m of AWins \<Rightarrow> mt_A m | BWins \<Rightarrow> mt_B m | Draw \<Rightarrow> 0),
     rd_Reason = mt_Reason m,
     rd_ABefore = Elo (res_A (mt_Result m)) - DeltaA (mt_Result m), rd_AAfter = Elo (res_A (mt_Result m)),
     rd_BBefore = Elo (res_B (mt_Result m)) - DeltaB (mt_Result m), rd_BAfter = Elo (res_B (mt_Result m)),
     rd_AGuesses = mt_AGuesses m, rd_BGuesses = mt_BGuesses m, rd_Seconds = mt_Seconds m\<rparr>"

text \<open>How many recent duels a profile shows.\<close>

definition RecentDuels :: int where "RecentDuels = 5"

definition match_info :: "RankedDuelRow \<Rightarrow> RankedMatchInfo" where
  "match_info r =
    \<lparr>rmi_Opponent = rr_Opponent r, rmi_OpponentClass = rr_OpponentClass r,
     rmi_Outcome = (if rr_Won r then DuelWin else if rr_Draw r then DuelDraw else DuelLose),
     rmi_Change = rr_Change r, rmi_PlayedAt = rr_PlayedAt r\<rparr>"

datatype job = Record Match | Load int | Recent int
datatype reply = Recorded | Loaded Rating | Listed "RankedMatchInfo list"

text \<open>The closures queued, run: an error is logged, and a rating not found is a new one.\<close>

fun run_job :: "job \<Rightarrow> Store \<Rightarrow> reply \<times> Store" where
  "run_job (Record m) s =
    (Recorded, snd (ApplyRankedDuel (duel_record m) (toStore (mt_A m) (res_A (mt_Result m)))
       (toStore (mt_B m) (res_B (mt_Result m))) s))"
| "run_job (Load charID) s =
    (case StoredRating charID s of
      (Inr (Some stored), s) \<Rightarrow> (Loaded (fromStore stored), s)
    | (_, s) \<Rightarrow> (Loaded NewRating, s))"
| "run_job (Recent charID) s =
    (case RecentRankedDuels charID RecentDuels s of
      (Inr rows, s) \<Rightarrow> (Listed (map match_info rows), s)
    | (Inl _, s) \<Rightarrow> (Listed [], s))"

section \<open>The queue\<close>

datatype loop_pc = AtLoop | Asleep | Stopped

text \<open>
  \<open>rq_waking\<close>: the callers that have appended and not yet sent the token. \<open>rq_replies\<close>: what the jobs
  run so far gave their callers, in order.
\<close>

record service =
  rq_store :: Store
  rq_queue :: "job list"
  rq_wake :: bool
  rq_closed :: bool
  rq_pc :: loop_pc
  rq_waking :: nat
  rq_replies :: "reply list"

definition NewService :: "Store \<Rightarrow> service" where
  "NewService st = \<lparr>rq_store = st, rq_queue = [], rq_wake = False, rq_closed = False, rq_pc = AtLoop,
     rq_waking = 0, rq_replies = []\<rparr>"

text \<open>One turn of the loop of \<open>run\<close>.\<close>

definition run_step :: "service \<Rightarrow> service" where
  "run_step s =
    (case rq_pc s of
      AtLoop \<Rightarrow>
        (case rq_queue s of
          [] \<Rightarrow> if rq_closed s then s\<lparr>rq_pc := Stopped\<rparr> else s\<lparr>rq_pc := Asleep\<rparr>
        | job # rest \<Rightarrow>
            (let (reply, st) = run_job job (rq_store s)
             in s\<lparr>rq_queue := rest, rq_store := st, rq_replies := rq_replies s @ [reply]\<rparr>))
    | Asleep \<Rightarrow> if rq_wake s then s\<lparr>rq_wake := False, rq_pc := AtLoop\<rparr> else s
    | Stopped \<Rightarrow> s)"

text \<open>\<open>enqueue\<close> and \<open>Close\<close> up to the unlock; \<open>wake_up\<close> is the send that follows, which never blocks.\<close>

definition enqueue :: "job \<Rightarrow> service \<Rightarrow> service" where
  "enqueue job s = s\<lparr>rq_queue := rq_queue s @ [job], rq_waking := rq_waking s + 1\<rparr>"

definition close_service :: "service \<Rightarrow> service" where
  "close_service s = s\<lparr>rq_closed := True, rq_waking := rq_waking s + 1\<rparr>"

definition wake_up :: "service \<Rightarrow> service" where
  "wake_up s = (if rq_waking s = 0 then s else s\<lparr>rq_wake := True, rq_waking := rq_waking s - 1\<rparr>)"

datatype service_event = Queued job | Closing | Waking | Turn

fun serve :: "service_event \<Rightarrow> service \<Rightarrow> service" where
  "serve (Queued job) s = enqueue job s"
| "serve Closing s = close_service s"
| "serve Waking s = wake_up s"
| "serve Turn s = run_step s"

section \<open>In order\<close>

fun run_jobs :: "job list \<Rightarrow> Store \<Rightarrow> reply list \<times> Store" where
  "run_jobs [] st = ([], st)"
| "run_jobs (job # jobs) st =
    (let (reply, st) = run_job job st; (replies, st) = run_jobs jobs st in (reply # replies, st))"

definition queued :: "service_event list \<Rightarrow> job list" where
  "queued evs = concat (map (\<lambda>e. case e of Queued job \<Rightarrow> [job] | _ \<Rightarrow> []) evs)"

lemma run_jobs_append:
  "run_jobs (xs @ ys) st =
    (let (r1, st) = run_jobs xs st; (r2, st) = run_jobs ys st in (r1 @ r2, st))"
  by (induction xs arbitrary: st) (simp_all add: split_beta)

lemma run_jobs_length: "length (fst (run_jobs js st)) = length js"
  by (induction js arbitrary: st) (simp_all add: split_beta)

text \<open>What the goroutine has done and has left, and that it never sleeps through a wake-up.\<close>

definition service_ok :: "Store \<Rightarrow> job list \<Rightarrow> service \<Rightarrow> bool" where
  "service_ok st js s \<longleftrightarrow> (\<exists>ran. js = ran @ rq_queue s \<and> run_jobs ran st = (rq_replies s, rq_store s)) \<and>
     (rq_pc s = Asleep \<and> (rq_queue s \<noteq> [] \<or> rq_closed s) \<longrightarrow> rq_wake s \<or> 0 < rq_waking s) \<and>
     (rq_pc s = Stopped \<longrightarrow> rq_closed s)"

lemma queued_snoc: "queued (evs @ [e]) = queued evs @ (case e of Queued job \<Rightarrow> [job] | _ \<Rightarrow> [])"
  by (simp add: queued_def)

lemma serve_ok:
  assumes "service_ok st js s"
  shows "service_ok st (js @ (case e of Queued job \<Rightarrow> [job] | _ \<Rightarrow> [])) (serve e s)"
proof (cases e)
  case Turn
  obtain ran where ran: "js = ran @ rq_queue s" "run_jobs ran st = (rq_replies s, rq_store s)"
    using assms by (auto simp: service_ok_def)
  show ?thesis
  proof (cases "rq_pc s = AtLoop \<and> rq_queue s \<noteq> []")
    case True
    then obtain job rest where q: "rq_queue s = job # rest" by (cases "rq_queue s") auto
    obtain reply st' where r: "run_job job (rq_store s) = (reply, st')" by (cases "run_job job (rq_store s)")
    have "run_jobs (ran @ [job]) st = (rq_replies s @ [reply], st')" by (simp add: run_jobs_append ran(2) r)
    then show ?thesis
      using assms True ran(1)
      by (auto simp: service_ok_def Turn run_step_def q r intro!: exI [of _ "ran @ [job]"])
  next
    case False
    then show ?thesis
      using assms ran by (auto simp: service_ok_def Turn run_step_def split: loop_pc.split list.split)
  qed
qed (use assms in \<open>auto simp: service_ok_def enqueue_def close_service_def wake_up_def\<close>)

lemma services_ok: "service_ok st (queued evs) (fold serve evs (NewService st))"
proof (induction evs rule: rev_induct)
  case Nil
  then show ?case by (simp add: service_ok_def NewService_def queued_def)
next
  case (snoc e evs)
  then show ?case using serve_ok [OF snoc, of e] by (simp add: queued_snoc)
qed

text \<open>C24: Ratings are loaded and saved in the order asked. However the callers and the goroutine interleave,
what has been answered and what the database holds is exactly what running the jobs one after the other, in
the order they were queued, gives; the rest waits in that order.\<close>

theorem jobs_run_in_order:
  "let s = fold serve evs (NewService st); n = length (rq_replies s) in
    run_jobs (take n (queued evs)) st = (rq_replies s, rq_store s) \<and> rq_queue s = drop n (queued evs)"
proof -
  let ?s = "fold serve evs (NewService st)"
  obtain ran where ran: "queued evs = ran @ rq_queue ?s" "run_jobs ran st = (rq_replies ?s, rq_store ?s)"
    using services_ok [of st evs] unfolding service_ok_def by blast
  have "length (rq_replies ?s) = length ran" using run_jobs_length [of ran st] ran(2) by simp
  then show ?thesis using ran by (simp add: Let_def)
qed

section \<open>Never stuck\<close>

lemma wakings: "(wake_up ^^ rq_waking s) s = (if rq_waking s = 0 then s else s\<lparr>rq_wake := True, rq_waking := 0\<rparr>)"
proof (induction "rq_waking s" arbitrary: s)
  case (Suc n)
  have "rq_waking (wake_up s) = n" using Suc(2) by (simp add: wake_up_def)
  with Suc(1) [of "wake_up s"] have "(wake_up ^^ n) (wake_up s) =
      (if n = 0 then wake_up s else (wake_up s)\<lparr>rq_wake := True, rq_waking := 0\<rparr>)" by simp
  then have "(wake_up ^^ Suc n) s = (if n = 0 then wake_up s else (wake_up s)\<lparr>rq_wake := True, rq_waking := 0\<rparr>)"
    by (simp only: funpow_Suc_right comp_apply)
  then show ?case unfolding Suc(2) [symmetric] by (simp add: wake_up_def Suc(2) [symmetric])
qed simp

lemma turns:
  "rq_pc s = AtLoop \<Longrightarrow> length (rq_queue s) = n \<Longrightarrow>
    rq_queue ((run_step ^^ n) s) = [] \<and> rq_pc ((run_step ^^ n) s) = AtLoop \<and> rq_closed ((run_step ^^ n) s) = rq_closed s"
proof (induction n arbitrary: s)
  case (Suc n)
  have s: "rq_pc (run_step s) = AtLoop" "length (rq_queue (run_step s)) = n" "rq_closed (run_step s) = rq_closed s"
    using Suc.prems by (cases "rq_queue s"; simp add: run_step_def split_beta)+
  show ?case using Suc.IH [OF s(1,2)] s(3) unfolding funpow_Suc_right comp_apply by simp
qed simp

lemma turn_idle: "rq_queue s = [] \<Longrightarrow> rq_queue (run_step s) = []"
  by (simp add: run_step_def split: loop_pc.split)

text \<open>C25: No job is stuck and closing saves everything. Once the callers under way have sent their wake-ups, the
goroutine, however it was caught, gets through everything queued in as many turns as there are jobs and two
more; if the service was closed it has then stopped, and the database holds every duel recorded.\<close>

theorem closing_saves_everything:
  assumes "s = fold serve evs (NewService st)" and "rq_pc s \<noteq> Stopped"
  shows "let s' = (run_step ^^ (length (rq_queue s) + 2)) ((wake_up ^^ rq_waking s) s) in
    run_jobs (queued evs) st = (rq_replies s', rq_store s') \<and> rq_queue s' = [] \<and>
    (rq_closed s \<longrightarrow> rq_pc s' = Stopped)"
proof -
  define w where "w = (wake_up ^^ rq_waking s) s"
  let ?n = "length (rq_queue s)" and ?s' = "(run_step ^^ (length (rq_queue s) + 2)) w"
  have w: "rq_queue w = rq_queue s" "rq_pc w = rq_pc s" "rq_closed w = rq_closed s"
    by (simp_all add: w_def wakings)
  have awake: "rq_wake w" if "rq_pc s = Asleep" "rq_queue s \<noteq> [] \<or> rq_closed s"
    using services_ok [of st evs] that unfolding assms(1) [symmetric] service_ok_def by (auto simp: w_def wakings)
  have "rq_queue ?s' = [] \<and> (rq_closed s \<longrightarrow> rq_pc ?s' = Stopped)"
  proof (cases "rq_pc s")
    case AtLoop
    then have "rq_pc w = AtLoop" "length (rq_queue w) = ?n" using w by simp_all
    note v = turns [OF this]
    have "?s' = run_step (run_step ((run_step ^^ ?n) w))" by (simp add: numeral_2_eq_2)
    then show ?thesis using v w(3) turn_idle by (simp add: run_step_def)
  next
    case Asleep
    show ?thesis
    proof (cases "rq_queue s \<noteq> [] \<or> rq_closed s")
      case True
      have u: "rq_pc (run_step w) = AtLoop" "length (rq_queue (run_step w)) = ?n" "rq_closed (run_step w) = rq_closed s"
        using awake [OF Asleep True] w Asleep by (simp_all add: run_step_def)
      note v = turns [OF u(1,2)]
      have "?s' = run_step ((run_step ^^ Suc ?n) w)" by simp
      also have "\<dots> = run_step ((run_step ^^ ?n) (run_step w))" by (simp only: funpow_Suc_right comp_apply)
      finally have "?s' = run_step ((run_step ^^ ?n) (run_step w))" .
      then show ?thesis using v u(3) turn_idle [of "(run_step ^^ ?n) (run_step w)"]
        by (simp only: run_step_def loop_pc.case list.case) simp
    next
      case False
      then have "rq_queue (run_step (run_step w)) = []" using w(1) by (simp add: turn_idle)
      then show ?thesis using False by (simp add: numeral_2_eq_2)
    qed
  qed (use assms(2) in simp)
  moreover have "service_ok st (queued evs) ?s'"
  proof -
    let ?more = "replicate (rq_waking s) Waking @ replicate (?n + 2) Turn"
    have f: "serve Waking = wake_up" "serve Turn = run_step" by (simp_all add: fun_eq_iff)
    have "fold serve ?more s = ?s'" by (simp only: fold_append comp_apply fold_replicate f w_def)
    then have "service_ok st (queued (evs @ ?more)) ?s'"
      using services_ok [of st "evs @ ?more"] by (simp only: fold_append comp_apply assms(1))
    moreover have "queued (evs @ ?more) = queued evs" by (simp add: queued_def)
    ultimately show ?thesis by simp
  qed
  ultimately show ?thesis unfolding service_ok_def Let_def w_def by auto
qed

theorem closing_saves_everything_witness:
  "let evs = [Queued (Load 1), Turn, Turn, Queued (Load 2), Closing]; s = fold serve evs (NewService (up empty_tables))
   in rq_pc ((run_step ^^ (length (rq_queue s) + 2)) ((wake_up ^^ rq_waking s) s)) = Stopped"
proof -
  let ?evs = "[Queued (Load 1), Turn, Turn, Queued (Load 2), Closing]"
  define s where "s = fold serve ?evs (NewService (up empty_tables))"
  have c: "rq_closed s" "rq_pc s \<noteq> Stopped"
    by (simp_all add: s_def NewService_def enqueue_def close_service_def run_step_def split_beta)
  show ?thesis using closing_saves_everything [OF s_def c(2)] c(1) unfolding s_def [symmetric] Let_def by blast
qed

section \<open>Loads see what was recorded\<close>

lemma fromStore_toStore [simp]: "fromStore (toStore c r) = r"
  by (simp add: fromStore_def toStore_def)

text \<open>A match of two characters the database knows.\<close>

definition match_ok :: "tables \<Rightarrow> Match \<Rightarrow> bool" where
  "match_ok t m \<longleftrightarrow> mt_A m \<in> char_ids t \<and> mt_B m \<in> char_ids t \<and> mt_A m \<noteq> mt_B m"

definition about :: "int \<Rightarrow> job \<Rightarrow> bool" where
  "about c j = (case j of Record m \<Rightarrow> c = mt_A m \<or> c = mt_B m | _ \<Rightarrow> False)"

lemma run_job_up:
  assumes "\<forall>m. j = Record m \<longrightarrow> match_ok t m"
  shows "\<exists>t'. snd (run_job j (up t)) = up t' \<and> t_Character t' = t_Character t \<and>
    (\<forall>c. rating_of c t' = (case j of
        Record m \<Rightarrow> if c = mt_A m then Some (toStore c (res_A (mt_Result m)))
          else if c = mt_B m then Some (toStore c (res_B (mt_Result m))) else rating_of c t
      | _ \<Rightarrow> rating_of c t))"
proof (cases j)
  case (Record m)
  let ?d = "duel_record m" and ?a = "toStore (mt_A m) (res_A (mt_Result m))" and ?b = "toStore (mt_B m) (res_B (mt_Result m))"
  have "rd_A ?d = mt_A m" "rd_B ?d = mt_B m" "rd_Winner ?d \<in> {0, mt_A m, mt_B m}"
    by (auto simp: duel_record_def split: Outcome.split)
  moreover have "mt_A m \<in> char_ids t" "mt_B m \<in> char_ids t" "mt_A m \<noteq> mt_B m"
    using assms by (auto simp: Record match_ok_def)
  ultimately obtain t' where "ApplyRankedDuel ?d ?a ?b (up t) = (Inr (), up t')" "t_Character t' = t_Character t"
    "\<forall>c. rating_of c t' = (if c = mt_A m then Some ?a else if c = mt_B m then Some ?b else rating_of c t)"
    using ApplyRankedDuel_up [of ?d t ?a ?b] by (auto simp: toStore_def)
  then show ?thesis by (auto simp: Record)
next
  case (Load c)
  then show ?thesis by (simp add: StoredRating_def split: option.split)
next
  case (Recent c)
  then show ?thesis by (simp add: RecentRankedDuels_def)
qed

lemma run_jobs_up:
  assumes "\<forall>m. Record m \<in> set js \<longrightarrow> match_ok t m" and "\<forall>j \<in> set js. \<not> about c j"
  shows "\<exists>t'. snd (run_jobs js (up t)) = up t' \<and> t_Character t' = t_Character t \<and> rating_of c t' = rating_of c t"
  using assms
proof (induction js arbitrary: t)
  case (Cons j js)
  obtain t1 where 1: "snd (run_job j (up t)) = up t1" "t_Character t1 = t_Character t" "rating_of c t1 = rating_of c t"
    using run_job_up [of j t] Cons.prems by (fastforce simp: about_def split: job.splits)
  have "\<forall>m. Record m \<in> set js \<longrightarrow> match_ok t1 m"
    using Cons.prems(1) by (simp add: match_ok_def char_ids_def 1(2))
  from Cons.IH [OF this] Cons.prems(2) 1 show ?case by (auto simp: split_beta)
qed simp

lemma run_jobs_characters:
  assumes "\<forall>m. Record m \<in> set js \<longrightarrow> match_ok t m"
  shows "\<exists>t'. snd (run_jobs js (up t)) = up t' \<and> t_Character t' = t_Character t"
  using assms
proof (induction js arbitrary: t)
  case (Cons j js)
  obtain t1 where 1: "snd (run_job j (up t)) = up t1" "t_Character t1 = t_Character t"
    using run_job_up [of j t] Cons.prems by auto
  have "\<forall>m. Record m \<in> set js \<longrightarrow> match_ok t1 m"
    using Cons.prems by (simp add: match_ok_def char_ids_def 1(2))
  from Cons.IH [OF this] 1 show ?case by (auto simp: split_beta)
qed simp

lemma Load_after_Record:
  assumes "js = before @ Record m # between @ [Load c]" and "c = mt_A m \<or> c = mt_B m"
    and "\<forall>j \<in> set between. \<not> about c j" and "\<forall>m. Record m \<in> set js \<longrightarrow> match_ok t m"
  shows "last (fst (run_jobs js (up t))) = Loaded (if c = mt_A m then res_A (mt_Result m) else res_B (mt_Result m))"
proof -
  have ok: "\<forall>m. Record m \<in> set before \<longrightarrow> match_ok t m" "match_ok t m" "\<forall>m. Record m \<in> set between \<longrightarrow> match_ok t m"
    using assms(1,4) by auto
  obtain t1 where 1: "snd (run_jobs before (up t)) = up t1" "t_Character t1 = t_Character t"
    using run_jobs_characters [OF ok(1)] by blast
  have keep: "match_ok t' m' = match_ok t m'" if "t_Character t' = t_Character t" for t' m'
    using that by (simp add: match_ok_def char_ids_def)
  obtain t2 where 2: "snd (run_job (Record m) (up t1)) = up t2" "t_Character t2 = t_Character t1"
    "rating_of c t2 = Some (toStore c (if c = mt_A m then res_A (mt_Result m) else res_B (mt_Result m)))"
    using run_job_up [of "Record m" t1] ok(2) keep [OF 1(2)] assms(2) by auto
  obtain t3 where 3: "snd (run_jobs between (up t2)) = up t3" "rating_of c t3 = rating_of c t2"
  proof -
    have "t_Character t2 = t_Character t" by (simp add: 1(2) 2(2))
    then have "\<forall>m. Record m \<in> set between \<longrightarrow> match_ok t2 m" using ok(3) keep by blast
    from run_jobs_up [OF this assms(3)] show thesis using that by blast
  qed
  have "fst (run_job (Load c) (up t3)) = Loaded (if c = mt_A m then res_A (mt_Result m) else res_B (mt_Result m))"
    using 3(2) 2(3) by (simp add: StoredRating_def rating_of_def [symmetric])
  then obtain st4 where 4: "run_job (Load c) (up t3) =
      (Loaded (if c = mt_A m then res_A (mt_Result m) else res_B (mt_Result m)), st4)" by (metis prod.collapse)
  obtain r1 r2 r3 where "run_jobs before (up t) = (r1, up t1)" "run_job (Record m) (up t1) = (r2, up t2)"
    "run_jobs between (up t2) = (r3, up t3)" using 1(1) 2(1) 3(1) by (metis prod.collapse)
  then show ?thesis using 4 by (simp add: assms(1) run_jobs_append del: run_job.simps)
qed

text \<open>C26: A rating loaded after a duel was recorded includes it. However callers and goroutine interleave, if a
character's rating is asked for after a duel of theirs was recorded, and no other of theirs in between, then
the answer, when it comes, is the rating the duel settled, as long as the database does not fail.\<close>

theorem loads_see_recorded_duels:
  assumes "queued evs = before @ Record m # between @ Load c # after" and "c = mt_A m \<or> c = mt_B m"
    and "\<forall>j \<in> set between. \<not> about c j" and "\<forall>m. Record m \<in> set (queued evs) \<longrightarrow> match_ok t m"
    and "s = fold serve evs (NewService (up t))" and "length before + length between + 1 < length (rq_replies s)"
  shows "rq_replies s ! (length before + length between + 1) =
    Loaded (if c = mt_A m then res_A (mt_Result m) else res_B (mt_Result m))"
proof -
  define js where "js = before @ Record m # between @ [Load c]"
  have ok: "\<forall>m. Record m \<in> set js \<longrightarrow> match_ok t m" using assms(1,4) by (auto simp: js_def)
  obtain ran where ran: "queued evs = ran @ rq_queue s" "run_jobs ran (up t) = (rq_replies s, rq_store s)"
    using services_ok [of "up t" evs] unfolding service_ok_def assms(5) by blast
  have n: "length js = length before + length between + 2" by (simp add: js_def)
  have "length ran = length (rq_replies s)" using run_jobs_length [of ran "up t"] ran(2) by simp
  then have len: "length js \<le> length ran" using assms(6) n by simp
  have "js = take (length js) (queued evs)" by (simp add: assms(1) js_def)
  also have "\<dots> = take (length js) ran" using len by (simp add: ran(1))
  finally obtain rest where rest: "ran = js @ rest" by (metis append_take_drop_id)
  have replies: "rq_replies s = fst (run_jobs js (up t)) @ fst (run_jobs rest (snd (run_jobs js (up t))))"
    using ran(2) unfolding rest run_jobs_append by (simp add: split_beta)
  have l: "length (fst (run_jobs js (up t))) = length before + length between + 2" using run_jobs_length [of js "up t"] n by simp
  then have "rq_replies s ! (length before + length between + 1) = last (fst (run_jobs js (up t)))"
    unfolding replies by (subst last_conv_nth) (auto simp: nth_append)
  then show ?thesis using Load_after_Record [OF js_def assms(2,3) ok] by simp
qed

theorem loads_see_recorded_duels_witness:
  "let r = NewRating\<lparr>Elo := 1024, Peak := 1024, Games := 1, Wins := 1\<rparr>;
       res = \<lparr>res_A = r, res_B = NewRating\<lparr>Elo := 976, Games := 1, Losses := 1\<rparr>, DeltaA = 24, DeltaB = -24,
         ExpectedA = 1 / 2, res_Multiplier = 1\<rparr>;
       m = \<lparr>mt_PlayedAt = 0, mt_A = 1, mt_B = 2, mt_Outcome = AWins, mt_Reason = 0, mt_Result = res, mt_AGuesses = 3,
         mt_BGuesses = 4, mt_Seconds = 60\<rparr>;
       t = empty_tables\<lparr>t_Character := [
            \<lparr>sc_ID = 1, sc_PlayerID = 1, sc_Slot = 0, sc_Name = ''Ada'', sc_Class = ''knight'', sc_Deleted = False\<rparr>,
            \<lparr>sc_ID = 2, sc_PlayerID = 2, sc_Slot = 0, sc_Name = ''Bob'', sc_Class = ''rogue'', sc_Deleted = False\<rparr>]\<rparr>
   in rq_replies (fold serve [Turn, Queued (Record m), Queued (Load 1), Waking, Turn, Turn, Turn]
        (NewService (up t))) ! 1 = Loaded r"
proof -
  define r where "r = NewRating\<lparr>Elo := 1024, Peak := 1024, Games := 1, Wins := 1\<rparr>"
  define res where "res = \<lparr>res_A = r, res_B = NewRating\<lparr>Elo := 976, Games := 1, Losses := 1\<rparr>, DeltaA = 24, DeltaB = -24,
         ExpectedA = 1 / 2, res_Multiplier = 1\<rparr>"
  define m where "m = \<lparr>mt_PlayedAt = 0, mt_A = 1, mt_B = 2, mt_Outcome = AWins, mt_Reason = 0, mt_Result = res, mt_AGuesses = 3,
         mt_BGuesses = 4, mt_Seconds = 60\<rparr>"
  define t where "t = empty_tables\<lparr>t_Character := [
            \<lparr>sc_ID = 1, sc_PlayerID = 1, sc_Slot = 0, sc_Name = ''Ada'', sc_Class = ''knight'', sc_Deleted = False\<rparr>,
            \<lparr>sc_ID = 2, sc_PlayerID = 2, sc_Slot = 0, sc_Name = ''Bob'', sc_Class = ''rogue'', sc_Deleted = False\<rparr>]\<rparr>"
  let ?evs = "[Turn, Queued (Record m), Queued (Load 1), Waking, Turn, Turn, Turn]"
  define s where "s = fold serve ?evs (NewService (up t))"
  have q: "queued ?evs = [] @ Record m # [] @ Load 1 # []" by (simp add: queued_def)
  have ok: "\<forall>m. Record m \<in> set (queued ?evs) \<longrightarrow> match_ok t m"
    by (simp add: queued_def match_ok_def m_def t_def char_ids_def)
  have c: "1 = mt_A m \<or> 1 = mt_B m" by (simp add: m_def)
  have l: "length ([] :: job list) + length ([] :: job list) + 1 < length (rq_replies s)"
    by (simp add: s_def NewService_def enqueue_def wake_up_def run_step_def split_beta del: run_job.simps)
  have "mt_A m = 1" "res_A (mt_Result m) = r" by (simp_all add: m_def res_def)
  then show ?thesis
    using loads_see_recorded_duels [OF q c _ ok s_def l]
    unfolding r_def [symmetric] res_def [symmetric] m_def [symmetric] t_def [symmetric] Let_def s_def [symmetric] by simp
qed

end
