(* ===== verification/Go_Http.thy ===== *)
theory Go_Http
  imports Prelude
begin

text \<open>
  What the HTTP handlers of the repository answer: an error with its status and text, a value as JSON,
  or nothing. Reading requests and writing answers is the standard library's \<open>net/http\<close> and
  \<open>encoding/json\<close>: a handler is a function of the method and of the values it reads.
\<close>

datatype http_method = GET | POST | DELETE | OTHER

datatype 'a response = HttpError int string | HttpJSON 'a | HttpNoContent

definition MethodNotAllowed :: int where "MethodNotAllowed = 405"
definition StatusBadRequest :: int where "StatusBadRequest = 400"
definition StatusUnauthorized :: int where "StatusUnauthorized = 401"
definition StatusForbidden :: int where "StatusForbidden = 403"
definition StatusNotFound :: int where "StatusNotFound = 404"
definition StatusConflict :: int where "StatusConflict = 409"
definition InternalServerError :: int where "InternalServerError = 500"

lemmas status_defs = MethodNotAllowed_def StatusBadRequest_def StatusUnauthorized_def StatusForbidden_def
  StatusNotFound_def StatusConflict_def InternalServerError_def

text \<open>\<open>dbError\<close>: every failing query is answered alike.\<close>

definition dbError :: "'a response" where "dbError = HttpError InternalServerError ''Database error.''"

end
