(* ===== verification/Accounts.thy ===== *)
theory Accounts
  imports Store_Facts Go_Http Go_Utf8 Classes Gameday
begin

text \<open>
  Accounts and their characters over HTTP (\<open>internal/auth/auth.go\<close>, \<open>internal/characters/characters.go\<close>).
  Hashing passwords and signing tokens are third-party code, the fields of \<open>crypto\<close>; a request's decoded
  body is an argument, \<open>Inl\<close> the decoder's error. The lemmas show who gets in: an account can be made
  once, logs in with its own password only, and plays its own live characters only.
\<close>

section \<open>Accounts\<close>

definition MaxUsernameLen :: nat where "MaxUsernameLen = 20"

text \<open>
  \<open>GenerateFromPassword\<close> draws its salt, an argument here. A parsed token is \<open>None\<close> unless it is valid at
  the time; then it is the username it claims, if it claims one that is a string.
\<close>

record crypto =
  GenerateFromPassword :: "string \<Rightarrow> nat \<Rightarrow> string option"
  CompareHashAndPassword :: "string \<Rightarrow> string \<Rightarrow> bool"
  SignedString :: "string \<Rightarrow> int \<Rightarrow> string option"
  ParseToken :: "string \<Rightarrow> gotime \<Rightarrow> string option option"

record UserData =
  ud_ValidUser :: bool
  ud_Id :: int
  ud_Jwt :: string
  ud_Username :: string

definition invalidUser :: UserData where
  "invalidUser = \<lparr>ud_ValidUser = False, ud_Id = -999, ud_Jwt = '''', ud_Username = ''''\<rparr>"

definition only_post :: string where "only_post = ''Method not allowed, only POST allowed.''"

text \<open>The answer says whether the name was available.\<close>

definition HandleSignup :: "crypto \<Rightarrow> http_method \<Rightarrow> string + string \<times> string \<Rightarrow> nat \<Rightarrow> Store \<Rightarrow> bool response \<times> Store" where
  "HandleSignup K meth body salt st =
    (if meth \<noteq> POST then (HttpError MethodNotAllowed only_post, st)
     else case body of
       Inl err \<Rightarrow> (HttpError StatusBadRequest err, st)
     | Inr (username, password) \<Rightarrow>
        (let username = TrimSpace username; n = length (runes username) in
         if n = 0 \<or> MaxUsernameLen < n then (HttpError StatusBadRequest ''Username must be 1-20 characters.'', st)
         else if password = '''' then (HttpError StatusBadRequest ''Password required.'', st)
         else case GenerateFromPassword K password salt of
             None \<Rightarrow> (HttpError InternalServerError ''Could not hash password.'', st)
           | Some hash \<Rightarrow>
              (case InsertPlayer username hash st of
                (Inl _, st) \<Rightarrow> (dbError, st)
              | (Inr taken, st) \<Rightarrow> (HttpJSON (\<not> taken), st))))"

text \<open>A token lives 72 hours.\<close>

definition CreateToken :: "crypto \<Rightarrow> string \<Rightarrow> gotime \<Rightarrow> string option" where
  "CreateToken K uname now = SignedString K uname (Unix (now + 72 * Hour))"

definition VerifyToken :: "crypto \<Rightarrow> string \<Rightarrow> gotime \<Rightarrow> string option" where
  "VerifyToken K tokenStr now =
    (if tokenStr = '''' then None else case ParseToken K tokenStr now of None \<Rightarrow> None | Some uname \<Rightarrow> uname)"

definition PlayerFromToken :: "crypto \<Rightarrow> string \<Rightarrow> gotime \<Rightarrow> Store \<Rightarrow> Player option \<times> Store" where
  "PlayerFromToken K token now st =
    (case VerifyToken K token now of
      None \<Rightarrow> (None, st)
    | Some uname \<Rightarrow>
       (case PlayerByUsername uname st of
         (Inl _, st) \<Rightarrow> (None, st)
       | (Inr found, st) \<Rightarrow> (found, st)))"

definition HandleLogin :: "crypto \<Rightarrow> http_method \<Rightarrow> string + string \<times> string \<Rightarrow> gotime \<Rightarrow> Store \<Rightarrow> UserData response \<times> Store" where
  "HandleLogin K meth body now st =
    (if meth \<noteq> POST then (HttpError MethodNotAllowed only_post, st)
     else case body of
       Inl err \<Rightarrow> (HttpError StatusBadRequest err, st)
     | Inr (username, password) \<Rightarrow>
        (case PlayerAuth (TrimSpace username) st of
          (Inl _, st) \<Rightarrow> (dbError, st)
        | (Inr None, st) \<Rightarrow> (HttpJSON invalidUser, st)
        | (Inr (Some (p, hash)), st) \<Rightarrow>
           (if \<not> CompareHashAndPassword K hash password then (HttpJSON invalidUser, st)
            else case CreateToken K (pl_Username p) now of
                None \<Rightarrow> (HttpError InternalServerError ''Could not create token.'', st)
              | Some jwt \<Rightarrow> (HttpJSON \<lparr>ud_ValidUser = True, ud_Id = pl_ID p, ud_Jwt = jwt, ud_Username = pl_Username p\<rparr>, st))))"

definition HandleToken :: "crypto \<Rightarrow> http_method \<Rightarrow> string + string \<Rightarrow> gotime \<Rightarrow> Store \<Rightarrow> UserData response \<times> Store" where
  "HandleToken K meth body now st =
    (if meth \<noteq> POST then (HttpError MethodNotAllowed only_post, st)
     else case body of
       Inl err \<Rightarrow> (HttpError StatusBadRequest err, st)
     | Inr token \<Rightarrow>
        (case PlayerFromToken K token now st of
          (None, st) \<Rightarrow> (HttpJSON invalidUser, st)
        | (Some p, st) \<Rightarrow> (HttpJSON \<lparr>ud_ValidUser = True, ud_Id = pl_ID p, ud_Jwt = token, ud_Username = pl_Username p\<rparr>, st)))"

definition bearer :: string where "bearer = ''Bearer ''"

text \<open>\<open>strings.CutPrefix\<close> of the \<open>Authorization\<close> header.\<close>

definition PlayerFromRequest :: "crypto \<Rightarrow> string \<Rightarrow> gotime \<Rightarrow> Store \<Rightarrow> Player option \<times> Store" where
  "PlayerFromRequest K auth now st =
    (if take (length bearer) auth \<noteq> bearer then (None, st)
     else PlayerFromToken K (drop (length bearer) auth) now st)"

section \<open>Characters\<close>

definition MaxNameLen :: nat where "MaxNameLen = 20"

definition Info :: "Character \<Rightarrow> CharacterInfo" where
  "Info c = \<lparr>chi_ID = sc_ID c, chi_Slot = sc_Slot c, chi_Name = sc_Name c, chi_Class = sc_Class c\<rparr>"

record listRes =
  ls_Slots :: "CharacterInfo option list"
  ls_Classes :: "ClassInfo list"

datatype characters_answer = Listing listRes | Created CharacterInfo

text \<open>A slot out of range would be a panic.\<close>

fun fill_slots :: "Character list \<Rightarrow> CharacterInfo option list \<Rightarrow> CharacterInfo option list option" where
  "fill_slots [] slots = Some slots"
| "fill_slots (c # cs) slots =
    (if 0 \<le> sc_Slot c \<and> sc_Slot c < int (length slots)
     then fill_slots cs (slots[nat (sc_Slot c) := Some (Info c)]) else None)"

definition list_characters :: "Player \<Rightarrow> Store \<Rightarrow> (characters_answer response \<times> Store) option" where
  "list_characters p st =
    (case Characters (pl_ID p) st of
      (Inl _, st) \<Rightarrow> Some (dbError, st)
    | (Inr chars, st) \<Rightarrow> do {
        slots \<leftarrow> fill_slots chars (replicate (nat CharacterSlots) None);
        Some (HttpJSON (Listing \<lparr>ls_Slots = slots, ls_Classes = Infos\<rparr>), st) })"

text \<open>The request's slot, name and class.\<close>

definition create_character :: "string + int \<times> string \<times> string \<Rightarrow> Player \<Rightarrow> Store \<Rightarrow> characters_answer response \<times> Store" where
  "create_character body p st =
    (case body of
      Inl err \<Rightarrow> (HttpError StatusBadRequest err, st)
    | Inr (slot, name, cls) \<Rightarrow>
       (let name = TrimSpace name; n = length (runes name) in
        if n = 0 \<or> MaxNameLen < n then (HttpError StatusBadRequest ''Name must be 1-20 characters.'', st)
        else if byID cls = None then (HttpError StatusBadRequest ''Unknown class.'', st)
        else if slot < 0 \<or> CharacterSlots \<le> slot then (HttpError StatusBadRequest ''Bad slot.'', st)
        else case InsertCharacter (pl_ID p) slot name cls st of
            (Inl _, st) \<Rightarrow> (dbError, st)
          | (Inr None, st) \<Rightarrow> (HttpError StatusConflict ''That slot is taken.'', st)
          | (Inr (Some c), st) \<Rightarrow> (HttpJSON (Created (Info c)), st)))"

definition delete_character_request :: "string \<Rightarrow> Player \<Rightarrow> Store \<Rightarrow> characters_answer response \<times> Store" where
  "delete_character_request idStr p st =
    (case Atoi idStr of
      None \<Rightarrow> (HttpError StatusBadRequest ''Bad id.'', st)
    | Some i \<Rightarrow>
       (case DeleteCharacter (pl_ID p) i st of
         (Inl _, st) \<Rightarrow> (dbError, st)
       | (Inr found, st) \<Rightarrow> (if \<not> found then HttpError StatusNotFound ''No such character.'' else HttpNoContent, st)))"

definition HandleCharacters :: "crypto \<Rightarrow> http_method \<Rightarrow> string \<Rightarrow> string + int \<times> string \<times> string \<Rightarrow> string \<Rightarrow> gotime \<Rightarrow> Store \<Rightarrow>
    (characters_answer response \<times> Store) option" where
  "HandleCharacters K meth auth body idStr now st =
    (case PlayerFromRequest K auth now st of
      (None, st) \<Rightarrow> Some (HttpError StatusUnauthorized ''Invalid token.'', st)
    | (Some p, st) \<Rightarrow>
       (case meth of
         GET \<Rightarrow> list_characters p st
       | POST \<Rightarrow> Some (create_character body p st)
       | DELETE \<Rightarrow> Some (delete_character_request idStr p st)
       | OTHER \<Rightarrow> Some (HttpError MethodNotAllowed ''Method not allowed.'', st)))"

definition Playable :: "Player \<Rightarrow> int \<Rightarrow> Store \<Rightarrow> Character option \<times> Store" where
  "Playable p i st =
    (case CharacterByID i st of
      (Inl _, st) \<Rightarrow> (None, st)
    | (Inr None, st) \<Rightarrow> (None, st)
    | (Inr (Some c), st) \<Rightarrow> (if \<not> sc_Deleted c \<and> sc_PlayerID c = pl_ID p then Some c else None, st))"

section \<open>Who gets in\<close>

text \<open>Nothing removes an account or changes its password.\<close>

interpretation accounts: writes "\<lambda>t t'. set (t_Player t) \<subseteq> set (t_Player t')"
proof (unfold_locales, goal_cases)
  case (3 u h t x t')
  then show ?case by (auto simp: insert_player_def Let_def split: if_splits)
next
  case (4 pid slot name cls t c t')
  then show ?case using insert_character_spec(6) [OF 4] by simp
next
  case (6 r t x t')
  then show ?case by (auto simp: insert_wordle_def Let_def split: if_splits)
next
  case (7 d t x t')
  then show ?case using insert_duel_spec(1) [OF 7] by simp
next
  case (8 sr t x t')
  then obtain rs where "t' = t\<lparr>t_Rating := rs\<rparr>" using upsert_rating_of(2) by blast
  then show ?case by simp
qed auto

lemma reachable_ok: "tables_ok (fold run_op ops empty_tables)"
  using schema.run_ops empty_tables_ok by blast

lemma player_by_name_found:
  assumes "tables_ok t" and "x \<in> set (t_Player t)"
  shows "player_by_name (pl_Username (fst x)) t = Some x"
proof -
  have "distinct (map (pl_Username \<circ> fst) (t_Player t))" using assms(1) by (simp add: tables_ok_def players_table_def)
  from filter_unique [OF this assms(2)]
  have "filter (\<lambda>(p, _). pl_Username p = pl_Username (fst x)) (t_Player t) = [x]" by (simp add: split_def o_def)
  then show ?thesis by (simp add: player_by_name_def find_filter)
qed

lemma kept_player:
  assumes "tables_ok t" and "x \<in> set (t_Player t)"
  shows "player_by_name (pl_Username (fst x)) (fold run_op ops t) = Some x"
proof (rule player_by_name_found)
  show "tables_ok (fold run_op ops t)" using schema.run_ops assms(1) by blast
  show "x \<in> set (t_Player (fold run_op ops t))" using accounts.run_ops assms(2) by blast
qed

lemma signed_up:
  assumes "HandleSignup K POST (Inr (username, password)) salt (up t) = (HttpJSON True, st)"
  shows "\<exists>p hash. GenerateFromPassword K password salt = Some hash \<and> (p, hash) \<in> set (t_Player (db_tables st)) \<and>
    pl_Username p = TrimSpace username \<and> insert_player (TrimSpace username) hash t = Inr ((), db_tables st)"
proof -
  from assms obtain hash where h: "GenerateFromPassword K password salt = Some hash"
    and i: "InsertPlayer (TrimSpace username) hash (up t) = (Inr False, st)"
    by (auto simp: HandleSignup_def Let_def dbError_def split: if_splits option.splits sum.splits prod.splits)
  from i have ins: "insert_player (TrimSpace username) hash t = Inr ((), db_tables st)"
    by (auto simp: InsertPlayer_def split: sum.splits db_error.splits prod.splits)
  then have "db_tables st = t\<lparr>t_Player := t_Player t @ [(\<lparr>pl_ID = seq_Player t + 1, pl_Username = TrimSpace username\<rparr>, hash)],
      seq_Player := seq_Player t + 1\<rparr>"
    by (simp add: insert_player_def Let_def split: if_splits)
  then show ?thesis
    using h ins by (intro exI [of _ "\<lparr>pl_ID = seq_Player t + 1, pl_Username = TrimSpace username\<rparr>"] exI [of _ hash]) simp
qed

lemma taken_name:
  assumes "player_by_name (TrimSpace username) t = Some x" and "GenerateFromPassword K password salt = Some hash"
    and "password \<noteq> ''''" and "runes (TrimSpace username) \<noteq> []" and "length (runes (TrimSpace username)) \<le> MaxUsernameLen"
  shows "HandleSignup K POST (Inr (username, password)) salt (up t) = (HttpJSON False, up t)"
proof -
  have "\<exists>(p, _) \<in> set (t_Player t). pl_Username p = TrimSpace username"
    using assms(1) by (force simp: player_by_name_def find_Some_iff in_set_conv_nth)
  then show ?thesis using assms(2-) by (auto simp: HandleSignup_def Let_def InsertPlayer_def insert_player_def)
qed

text \<open>C27: Who signs up can log in, for good. After a signup that said the name was available, whatever is written
later, the name and the password get a token, a password that does not match the hash is refused, the token is
the account's until its 72 hours are over and nobody's after, and the name is taken. The hypotheses say what the two
libraries promise: a hash matches its password, and a signed token reads back until it expires.\<close>

theorem signup_then_login:
  assumes "t = fold run_op ops empty_tables"
    and "HandleSignup K POST (Inr (username, password)) salt (up t) = (HttpJSON True, st)"
    and "\<And>h. GenerateFromPassword K password salt = Some h \<Longrightarrow> CompareHashAndPassword K h password"
    and "SignedString K (TrimSpace username) (Unix (now + 72 * Hour)) = Some jwt" and "jwt \<noteq> ''''"
    and "\<And>moment. ParseToken K jwt moment =
      (if Unix moment < Unix (now + 72 * Hour) then Some (Some (TrimSpace username)) else None)"
    and "t1 = fold run_op ops1 (db_tables st)" and "t2 = fold run_op ops2 t1"
  shows "\<exists>p hash. GenerateFromPassword K password salt = Some hash \<and> pl_Username p = TrimSpace username \<and>
    fst (HandleLogin K POST (Inr (username, password)) now (up t1)) =
      HttpJSON \<lparr>ud_ValidUser = True, ud_Id = pl_ID p, ud_Jwt = jwt, ud_Username = TrimSpace username\<rparr> \<and>
    (\<forall>other. \<not> CompareHashAndPassword K hash other \<longrightarrow>
      fst (HandleLogin K POST (Inr (username, other)) now (up t1)) = HttpJSON invalidUser) \<and>
    (\<forall>moment. fst (PlayerFromRequest K (bearer @ jwt) moment (up t2)) =
      (if Unix moment < Unix (now + 72 * Hour) then Some p else None)) \<and>
    fst (HandleSignup K POST (Inr (username, password)) salt (up t2)) = HttpJSON False"
proof -
  obtain p hash where x: "GenerateFromPassword K password salt = Some hash" "(p, hash) \<in> set (t_Player (db_tables st))"
    "pl_Username p = TrimSpace username" "insert_player (TrimSpace username) hash t = Inr ((), db_tables st)"
    using signed_up [OF assms(2)] by blast
  have ok: "tables_ok (db_tables st)" using insert_player_ok [OF _ x(4)] reachable_ok assms(1) by blast
  have t1: "player_by_name (TrimSpace username) t1 = Some (p, hash)" using kept_player [OF ok x(2)] assms(7) x(3) by simp
  have t2: "player_by_name (TrimSpace username) t2 = Some (p, hash)"
    using kept_player [OF ok x(2), of "ops1 @ ops2"] assms(7,8) x(3) by (simp add: fold_append)
  have valid: "password \<noteq> ''''" "runes (TrimSpace username) \<noteq> []" "length (runes (TrimSpace username)) \<le> MaxUsernameLen"
    using assms(2) by (auto simp: HandleSignup_def Let_def split: if_splits)
  show ?thesis
  proof (rule exI [of _ p], rule exI [of _ hash], intro conjI allI impI)
    show "GenerateFromPassword K password salt = Some hash" by (rule x(1))
    show "pl_Username p = TrimSpace username" by (rule x(3))
    show "fst (HandleLogin K POST (Inr (username, password)) now (up t1)) =
        HttpJSON \<lparr>ud_ValidUser = True, ud_Id = pl_ID p, ud_Jwt = jwt, ud_Username = TrimSpace username\<rparr>"
      using t1 assms(3) [OF x(1)] assms(4) x(3) by (simp add: HandleLogin_def PlayerAuth_def CreateToken_def)
    show "fst (HandleLogin K POST (Inr (username, other)) now (up t1)) = HttpJSON invalidUser"
      if "\<not> CompareHashAndPassword K hash other" for other
      using t1 that by (simp add: HandleLogin_def PlayerAuth_def)
    show "fst (PlayerFromRequest K (bearer @ jwt) moment (up t2)) =
        (if Unix moment < Unix (now + 72 * Hour) then Some p else None)" for moment
      using t2 assms(5) assms(6) [of moment]
      by (simp add: PlayerFromRequest_def PlayerFromToken_def VerifyToken_def PlayerByUsername_def)
    show "fst (HandleSignup K POST (Inr (username, password)) salt (up t2)) = HttpJSON False"
      using taken_name [OF t2 x(1) valid] by simp
  qed
qed

lemma TrimSpace_ada: "TrimSpace '' ada '' = ''ada''" "length (runes ''ada'') = 3"
  by (simp_all add: TrimSpace_def trim_left.simps trim_right.simps decode_ascii decode_last_rune_def IsSpace_def byte_def
      runes_ascii ascii_def)

theorem signup_then_login_witness:
  "let K = \<lparr>GenerateFromPassword = (\<lambda>pw salt. Some (CHR ''#'' # pw)), CompareHashAndPassword = (\<lambda>h pw. h = CHR ''#'' # pw),
         SignedString = (\<lambda>u e. Some u), ParseToken = (\<lambda>tok moment. if Unix moment < Unix (72 * Hour) then Some (Some tok) else None)\<rparr>;
       (r, st) = HandleSignup K POST (Inr ('' ada '', ''pw'')) 7 (up empty_tables)
   in fst (HandleLogin K POST (Inr ('' ada '', ''guess'')) 0 (up (fold run_op [([True], AddPlayer ''bob'' ''h'')] (db_tables st)))) =
        HttpJSON invalidUser"
proof -
  define K where "K = \<lparr>GenerateFromPassword = (\<lambda>pw (salt::nat). Some (CHR ''#'' # pw)), CompareHashAndPassword = (\<lambda>h pw. h = CHR ''#'' # pw),
         SignedString = (\<lambda>u (e::int). Some u), ParseToken = (\<lambda>tok moment. if Unix moment < Unix (72 * Hour) then Some (Some tok) else None)\<rparr>"
  have "fst (HandleSignup K POST (Inr ('' ada '', ''pw'')) 7 (up empty_tables)) = HttpJSON True"
    by (simp add: HandleSignup_def TrimSpace_ada Let_def MaxUsernameLen_def K_def InsertPlayer_def insert_player_def empty_tables_def)
  then obtain st where st: "HandleSignup K POST (Inr ('' ada '', ''pw'')) 7 (up empty_tables) = (HttpJSON True, st)"
    by (metis prod.collapse)
  have K: "h = ''#pw''" if "GenerateFromPassword K ''pw'' 7 = Some h" for h using that by (simp add: K_def)
  have h: "CompareHashAndPassword K h ''pw''" if "GenerateFromPassword K ''pw'' 7 = Some h" for h
    using K [OF that] by (simp add: K_def)
  have tok: "SignedString K (TrimSpace '' ada '') (Unix (0 + 72 * Hour)) = Some ''ada''" by (simp add: K_def TrimSpace_ada)
  have parse: "ParseToken K ''ada'' moment =
      (if Unix moment < Unix (0 + 72 * Hour) then Some (Some (TrimSpace '' ada '')) else None)" for moment
    by (simp add: K_def TrimSpace_ada)
  have start: "empty_tables = fold run_op [] empty_tables" by simp
  obtain hash where hash: "GenerateFromPassword K ''pw'' 7 = Some hash"
    "\<And>other. \<not> CompareHashAndPassword K hash other \<Longrightarrow>
      fst (HandleLogin K POST (Inr ('' ada '', other)) 0 (up (fold run_op [([True], AddPlayer ''bob'' ''h'')] (db_tables st)))) =
        HttpJSON invalidUser"
    using signup_then_login [OF start st h tok _ parse refl refl, of "[([True], AddPlayer ''bob'' ''h'')]"] by blast
  have "\<not> CompareHashAndPassword K hash ''guess''" using K [OF hash(1)] by (simp add: K_def)
  from hash(2) [OF this]
  have "fst (HandleLogin K POST (Inr ('' ada '', ''guess'')) 0 (up (fold run_op [([True], AddPlayer ''bob'' ''h'')] (db_tables st)))) =
        HttpJSON invalidUser" .
  then show ?thesis unfolding K_def [symmetric] Let_def st prod.case .
qed

section \<open>Slots\<close>

lemma find_in_filter: "find P (filter Q xs) = find (\<lambda>x. Q x \<and> P x) xs"
  by (induction xs) simp_all

lemma find_key:
  assumes "inj_on key (set xs)" and "x \<in> set xs"
  shows "find (\<lambda>y. key y = key x) xs = Some x"
  using assms
proof (induction xs)
  case (Cons y ys)
  show ?case
  proof (cases "key y = key x")
    case True
    then show ?thesis using inj_onD [OF Cons.prems(1) True] Cons.prems(2) by simp
  next
    case False
    then have "x \<in> set ys" using Cons.prems(2) by auto
    then show ?thesis using Cons.IH Cons.prems(1) False by (simp add: inj_on_insert)
  qed
qed simp

lemma find_key_set:
  assumes "inj_on key (set xs)" and "set ys = set xs"
  shows "find (\<lambda>y. key y = k) ys = find (\<lambda>y. key y = k) xs"
proof (cases "\<exists>x \<in> set xs. key x = k")
  case True
  then obtain x where "x \<in> set xs" "k = key x" by blast
  then show ?thesis using find_key [of key xs x] find_key [of key ys x] assms by simp
next
  case False
  then have "find (\<lambda>y. key y = k) xs = None" "find (\<lambda>y. key y = k) ys = None"
    using assms(2) by (auto simp: find_None_iff)
  then show ?thesis by simp
qed

lemma fill_slots_eq:
  assumes "\<forall>c \<in> set cs. 0 \<le> sc_Slot c \<and> sc_Slot c < int (length slots)" and "inj_on sc_Slot (set cs)" and "distinct cs"
  shows "fill_slots cs slots = Some (map (\<lambda>k. case find (\<lambda>c. sc_Slot c = int k) cs of
      Some c \<Rightarrow> Some (Info c) | None \<Rightarrow> slots ! k) [0..<length slots])"
  using assms
proof (induction cs arbitrary: slots)
  case Nil
  then show ?case by (simp add: map_nth)
next
  case (Cons c cs)
  let ?slots = "slots[nat (sc_Slot c) := Some (Info c)]"
  have "fill_slots cs ?slots = Some (map (\<lambda>k. case find (\<lambda>c. sc_Slot c = int k) cs of
      Some c \<Rightarrow> Some (Info c) | None \<Rightarrow> ?slots ! k) [0..<length slots])"
    using Cons.IH [of ?slots] Cons.prems by (simp add: inj_on_insert)
  moreover have "find (\<lambda>c. sc_Slot c = int k) cs = None" if "sc_Slot c = int k" for k
    using Cons.prems(2,3) that unfolding find_None_iff by (auto simp: inj_on_def)
  ultimately show ?case
    using Cons.prems(1) by (auto simp: nth_list_update intro!: map_cong split: option.split)
qed

text \<open>A player's live character in a slot.\<close>

definition live_in :: "tables \<Rightarrow> int \<Rightarrow> int \<Rightarrow> Character option" where
  "live_in t pid slot = find (\<lambda>c. (sc_PlayerID c = pid \<and> \<not> sc_Deleted c) \<and> sc_Slot c = slot) (t_Character t)"

lemma live_slots:
  assumes "tables_ok t"
  shows "inj_on sc_Slot (set (filter (\<lambda>c. sc_PlayerID c = pid \<and> \<not> sc_Deleted c) (t_Character t)))"
  using slot_taken [OF assms] by (auto simp: inj_on_def)

lemma fill_live_slots:
  assumes "tables_ok t"
  shows "fill_slots (sort_key sc_Slot (filter (\<lambda>c. sc_PlayerID c = pid \<and> \<not> sc_Deleted c) (t_Character t)))
      (replicate (nat CharacterSlots) None) = Some (map (\<lambda>k. map_option Info (live_in t pid (int k))) [0..<4])"
proof -
  let ?live = "filter (\<lambda>c. sc_PlayerID c = pid \<and> \<not> sc_Deleted c) (t_Character t)"
  have t: "distinct (map sc_ID (t_Character t))" "sc_Slot ` set (t_Character t) \<subseteq> {0..<4}"
    using assms by (simp_all add: tables_ok_def characters_table_def CharacterSlots_def)
  have range: "\<forall>c \<in> set (sort_key sc_Slot ?live). 0 \<le> sc_Slot c \<and> sc_Slot c < int (length (replicate 4 (None :: CharacterInfo option)))"
    using t(2) by auto
  have "distinct ?live" using t(1) distinct_map distinct_filter by blast
  then have d: "distinct (sort_key sc_Slot ?live)" by simp
  have inj: "inj_on sc_Slot (set (sort_key sc_Slot ?live))" using live_slots [OF assms] by simp
  have "find (\<lambda>c. sc_Slot c = k) (sort_key sc_Slot ?live) = live_in t pid k" for k
    using find_key_set [OF live_slots [OF assms, of pid], of "sort_key sc_Slot ?live" k]
    by (simp add: live_in_def find_in_filter)
  then show ?thesis
    using fill_slots_eq [OF range inj d] by (auto simp: CharacterSlots_def numeral_eq_Suc option.map_id split: option.split)
qed

text \<open>C29: The character list shows each slot as it is. Whatever has been written, the list of a player's slots never
writes out of range, and has in each of the four slots the player's live character there, or nothing.\<close>

theorem every_slot_is_shown:
  assumes "t = fold run_op ops empty_tables"
  shows "list_characters p \<lparr>db_tables = t, db_faults = fs\<rparr> = Some
    (if fs \<noteq> [] \<and> hd fs then dbError
     else HttpJSON (Listing \<lparr>ls_Slots = map (\<lambda>k. map_option Info (live_in t (pl_ID p) k)) [0, 1, 2, 3], ls_Classes = Infos\<rparr>),
     \<lparr>db_tables = t, db_faults = tl fs\<rparr>)"
proof -
  have four: "map (\<lambda>k. map_option Info (live_in t (pl_ID p) (int k))) [0..<4] =
      map (\<lambda>k. map_option Info (live_in t (pl_ID p) k)) [0, 1, 2, 3]" by (simp add: upt_rec)
  have "tables_ok t" using reachable_ok assms by blast
  from fill_live_slots [OF this, of "pl_ID p"] show ?thesis unfolding four
    by (simp add: list_characters_def Characters_def select_def statement_def Let_def)
qed

theorem every_slot_is_shown_witness:
  "let t = fold run_op [([], AddPlayer ''ada'' ''hash''), ([], AddCharacter 1 2 ''Ada'' ''knight'')] empty_tables
   in fst (the (list_characters \<lparr>pl_ID = 1, pl_Username = ''ada''\<rparr> (up t))) = HttpJSON (Listing
     \<lparr>ls_Slots = [None, None, Some \<lparr>chi_ID = 1, chi_Slot = 2, chi_Name = ''Ada'', chi_Class = ''knight''\<rparr>, None],
      ls_Classes = Infos\<rparr>)"
proof -
  define t where "t = fold run_op [([], AddPlayer ''ada'' ''hash''), ([], AddCharacter 1 2 ''Ada'' ''knight'')] empty_tables"
  have "t_Character t = [\<lparr>sc_ID = 1, sc_PlayerID = 1, sc_Slot = 2, sc_Name = ''Ada'', sc_Class = ''knight'', sc_Deleted = False\<rparr>]"
    by (simp add: t_def InsertPlayer_def insert_player_def InsertCharacter_def insert_character_def empty_tables_def Let_def)
  then show ?thesis
    using every_slot_is_shown [OF t_def, of "\<lparr>pl_ID = 1, pl_Username = ''ada''\<rparr>" "[]"]
    unfolding t_def [symmetric] by (simp add: live_in_def Info_def)
qed

section \<open>Whose character it is\<close>

lemma character_found:
  assumes "tables_ok t" and "c \<in> set (t_Character t)"
  shows "fst (CharacterByID (sc_ID c) (up t)) = Inr (Some c)"
proof -
  have "inj_on sc_ID (set (t_Character t))" using assms(1) by (simp add: tables_ok_def characters_table_def distinct_map)
  from find_key [OF this assms(2)] show ?thesis by (simp add: CharacterByID_def)
qed

lemma Playable_found:
  assumes "tables_ok t" and "c \<in> set (t_Character t)"
  shows "fst (Playable q (sc_ID c) (up t)) = (if \<not> sc_Deleted c \<and> sc_PlayerID c = pl_ID q then Some c else None)"
proof -
  obtain s where "CharacterByID (sc_ID c) (up t) = (Inr (Some c), s)"
    using character_found [OF assms] by (metis prod.collapse)
  then show ?thesis by (simp add: Playable_def)
qed

text \<open>A character never changes hands, and a deleted one never comes back.\<close>

definition keeps_character :: "Character \<Rightarrow> Character \<Rightarrow> bool" where
  "keeps_character c c' \<longleftrightarrow> sc_ID c' = sc_ID c \<and> sc_PlayerID c' = sc_PlayerID c \<and> (sc_Deleted c \<longrightarrow> sc_Deleted c')"

interpretation owners: writes "\<lambda>t t'. \<forall>c \<in> set (t_Character t). \<exists>c' \<in> set (t_Character t'). keeps_character c c'"
proof (unfold_locales, goal_cases)
  case (2 t t' t'')
  then show ?case by (fastforce simp: keeps_character_def)
next
  case (3 u h t x t')
  then have "t_Character t' = t_Character t" by (auto simp: insert_player_def Let_def split: if_splits)
  then show ?case by (auto simp: keeps_character_def)
next
  case (4 pid slot name cls t c t')
  then show ?case using insert_character_spec(6) [OF 4] by (auto simp: keeps_character_def)
next
  case (6 r t x t')
  then have "t_Character t' = t_Character t" by (auto simp: insert_wordle_def Let_def split: if_splits)
  then show ?case by (auto simp: keeps_character_def)
next
  case (7 d t x t')
  then have "t_Character t' = t_Character t" using insert_duel_spec(1) [OF 7] by simp
  then show ?case by (auto simp: keeps_character_def)
next
  case (8 sr t x t')
  then obtain rs where "t' = t\<lparr>t_Rating := rs\<rparr>" using upsert_rating_of(2) by blast
  then show ?case by (auto simp: keeps_character_def)
qed (auto simp: keeps_character_def)

lemma kept_owner:
  assumes "tables_ok t" and "c \<in> set (t_Character t)" and "fst (Playable q (sc_ID c) (up (fold run_op ops t))) \<noteq> None"
  shows "pl_ID q = sc_PlayerID c \<and> \<not> sc_Deleted c"
proof -
  let ?t = "fold run_op ops t"
  obtain c' where c': "c' \<in> set (t_Character ?t)" "keeps_character c c'" using owners.run_ops [of t ops] assms(2) by blast
  have "tables_ok ?t" using schema.run_ops assms(1) by blast
  from Playable_found [OF this c'(1), of q] show ?thesis
    using assms(3) c'(2) by (auto simp: keeps_character_def split: if_splits)
qed

lemma created:
  assumes "create_character (Inr (slot, name, cls)) p (up t) = (HttpJSON (Created info), st)"
  obtains c where "insert_character (pl_ID p) slot (TrimSpace name) cls t = Inr (c, db_tables st)" "info = Info c"
    "st = up (db_tables st)" "byID cls \<noteq> None"
  using assms by (auto simp: create_character_def InsertCharacter_def dbError_def Let_def
      split: if_splits sum.splits prod.splits db_error.splits)

text \<open>C28: A character made is there to play, and only for its player. After a creation that succeeded the list shows
the new character in the slot asked for, with the trimmed name, and every other slot as it was; its class
exists; its ID was never used before; its player can play it and nobody else can; no second character fits in the slot; and
once deleted nobody can play it, for good, whatever is written later.\<close>

theorem characters_belong_to_their_player:
  assumes "t = fold run_op ops empty_tables"
    and "create_character (Inr (slot, name, cls)) p (up t) = (HttpJSON (Created info), st)"
  shows "chi_Slot info = slot \<and> chi_Name info = TrimSpace name \<and> chi_Class info = cls \<and> byID cls \<noteq> None \<and>
    chi_ID info \<notin> char_ids t \<and>
    map_option Info (live_in (db_tables st) (pl_ID p) slot) = Some info \<and>
    (\<forall>k. k \<noteq> slot \<longrightarrow> live_in (db_tables st) (pl_ID p) k = live_in t (pl_ID p) k) \<and>
    (\<forall>q. fst (Playable q (chi_ID info) st) \<noteq> None \<longleftrightarrow> pl_ID q = pl_ID p) \<and>
    fst (create_character (Inr (slot, name, cls)) p st) = HttpError StatusConflict ''That slot is taken.'' \<and>
    (\<forall>q. fst (Playable q (chi_ID info) (up (fold run_op later (db_tables st)))) \<noteq> None \<longrightarrow> pl_ID q = pl_ID p) \<and>
    (\<forall>q. fst (Playable q (chi_ID info) (up (fold run_op later
      (db_tables (snd (DeleteCharacter (pl_ID p) (chi_ID info) st)))))) = None)"
proof -
  obtain c where c: "insert_character (pl_ID p) slot (TrimSpace name) cls t = Inr (c, db_tables st)" "info = Info c"
    "st = up (db_tables st)" "byID cls \<noteq> None" by (rule created [OF assms(2)])
  note s = insert_character_spec [OF c(1)]
  have ok: "tables_ok t" using reachable_ok assms(1) by blast
  have ok': "tables_ok (db_tables st)" by (rule insert_character_ok [OF ok c(1)])
  have cs: "t_Character (db_tables st) = t_Character t @ [c]" by (simp add: s(6))
  have f: "sc_ID c = seq_Character t + 1" "sc_PlayerID c = pl_ID p" "sc_Slot c = slot" "sc_Name c = TrimSpace name"
    "sc_Class c = cls" "\<not> sc_Deleted c" by (simp_all add: s(5))
  have new: "sc_ID c \<notin> char_ids t" using ok f(1) by (auto simp: tables_ok_def characters_table_def char_ids_def)
  have free: "live_in t (pl_ID p) slot = None" using s(4) by (auto simp: live_in_def find_None_iff)
  have live: "live_in (db_tables st) (pl_ID p) k = (if k = slot then Some c else live_in t (pl_ID p) k)" for k
    using free f by (auto simp: live_in_def cs find_append split: option.split)
  have play: "fst (Playable q (sc_ID c) st) \<noteq> None \<longleftrightarrow> pl_ID q = pl_ID p" for q
    using Playable_found [OF ok', of c q] f c(3) cs by simp
  have "insert_character (pl_ID p) slot (TrimSpace name) cls (db_tables st) = Inl ErrUnique"
    using s(1,2) f by (auto simp: insert_character_def cs)
  moreover have "0 < length (runes (TrimSpace name))" "length (runes (TrimSpace name)) \<le> MaxNameLen" "slot < CharacterSlots"
    using assms(2) by (auto simp: create_character_def Let_def split: if_splits)
  ultimately have "fst (create_character (Inr (slot, name, cls)) p (up (db_tables st))) = HttpError StatusConflict ''That slot is taken.''"
    using s(1) c(4) by (simp add: create_character_def InsertCharacter_def Let_def)
  moreover have "pl_ID q = pl_ID p" if "fst (Playable q (sc_ID c) (up (fold run_op later (db_tables st)))) \<noteq> None" for q
    using kept_owner [OF ok' _ that] cs f by simp
  moreover have "fst (Playable q (sc_ID c) (up (fold run_op later
      (db_tables (snd (DeleteCharacter (pl_ID p) (sc_ID c) st)))))) = None" for q
  proof (rule ccontr)
    let ?gone = "delete_character (pl_ID p) (sc_ID c)"
    let ?t = "(db_tables st)\<lparr>t_Character := map ?gone (t_Character (db_tables st))\<rparr>"
    have t: "db_tables (snd (DeleteCharacter (pl_ID p) (sc_ID c) st)) = ?t" by (subst c(3)) (simp add: DeleteCharacter_eq)
    assume "fst (Playable q (sc_ID c) (up (fold run_op later
      (db_tables (snd (DeleteCharacter (pl_ID p) (sc_ID c) st)))))) \<noteq> None"
    then have "fst (Playable q (sc_ID (?gone c)) (up (fold run_op later ?t))) \<noteq> None" unfolding t by simp
    from kept_owner [OF delete_character_ok [OF ok'] _ this] show False using f(2) by (simp add: cs)
  qed
  ultimately show ?thesis using c f new live play by (simp add: Info_def)
qed

lemma TrimSpace_Bo: "TrimSpace ''Bo '' = ''Bo''" "length (runes ''Bo'') = 2"
  by (simp_all add: TrimSpace_def trim_left.simps trim_right.simps decode_ascii decode_last_rune_def IsSpace_def byte_def
      runes_ascii ascii_def)

theorem characters_belong_to_their_player_witness:
  "let t = fold run_op [([], AddPlayer ''ada'' ''hash''), ([], AddPlayer ''eve'' ''hash'')] empty_tables;
       (r, st) = create_character (Inr (2, ''Bo '', ''wizard'')) \<lparr>pl_ID = 1, pl_Username = ''ada''\<rparr> (up t)
   in fst (Playable \<lparr>pl_ID = 2, pl_Username = ''eve''\<rparr> 1 st) = None"
proof -
  define t where "t = fold run_op [([], AddPlayer ''ada'' ''hash''), ([], AddPlayer ''eve'' ''hash'')] empty_tables"
  define ada where "ada = \<lparr>pl_ID = 1, pl_Username = ''ada''\<rparr>"
  have known: "byID ''wizard'' \<noteq> None" by code_simp
  obtain st where st: "create_character (Inr (2, ''Bo '', ''wizard'')) ada (up t) =
      (HttpJSON (Created \<lparr>chi_ID = 1, chi_Slot = 2, chi_Name = ''Bo'', chi_Class = ''wizard''\<rparr>), st)"
    using known by (simp add: create_character_def TrimSpace_Bo MaxNameLen_def CharacterSlots_def InsertCharacter_def
        insert_character_def Info_def ada_def t_def InsertPlayer_def insert_player_def empty_tables_def Let_def)
  have "\<forall>q. fst (Playable q (chi_ID \<lparr>chi_ID = 1, chi_Slot = 2, chi_Name = ''Bo'', chi_Class = ''wizard''\<rparr>) st) \<noteq> None \<longleftrightarrow>
      pl_ID q = pl_ID ada"
    using characters_belong_to_their_player [OF t_def st, of "[]"] by blast
  from spec [OF this, of "\<lparr>pl_ID = 2, pl_Username = ''eve''\<rparr>"]
  have "fst (Playable \<lparr>pl_ID = 2, pl_Username = ''eve''\<rparr> 1 st) = None" by (simp add: ada_def)
  then show ?thesis unfolding ada_def [symmetric] t_def [symmetric] Let_def st prod.case .
qed

end
