(* ===== verification/Server.thy ===== *)
theory Server
  imports World_Safety Ranked_Service Accounts
begin

text \<open>
  The whole server (\<open>internal/server/server.go\<close>): it authenticates each connection, takes the account's
  online slot over, joins the world with the rating the ranked service loads, and leaves it. The world,
  the ranked service, the database and the goroutine of each connection are one state here, and any of
  them may take the next step. The lemmas show that whatever happens the world runs as in
  \<^theory_text>\<open>World_Safety\<close>, with every assumption made there discharged, and that only the owners of an account and of
  a character play it.
\<close>

section \<open>Connections\<close>

text \<open>
  Where the goroutine of a connection is: in the loop of \<open>takeOver\<close>, about to look at the clock or asleep;
  past the claim, upgrading; in \<open>join\<close>, before and after it has queued the loading of its rating, whose
  answer is the job's with that number; playing; or gone, refused or after \<open>leave\<close>.
\<close>

datatype ws_pc =
    Checking gotime
  | Sleeping gotime gotime
  | Upgrading
  | Opened
  | Loading nat
  | Playing
  | Refused int string
  | Gone

record connection =
  cn_player :: Player
  cn_char :: Character
  cn_pc :: ws_pc

record server =
  sv_live :: live
  sv_ranked :: service
  sv_conns :: "(client \<times> connection) list"
  sv_sessions :: "(client \<times> int) list"
  sv_closing :: "client list"

text \<open>What \<open>handleWS\<close> checks before it claims.\<close>

definition ws_auth :: "crypto \<Rightarrow> string \<Rightarrow> string \<Rightarrow> gotime \<Rightarrow> Store \<Rightarrow> (int \<times> string + Player \<times> Character) \<times> Store" where
  "ws_auth au token character now st =
    (case PlayerFromToken au token now st of
      (None, st) \<Rightarrow> (Inl (StatusUnauthorized, ''Invalid token.''), st)
    | (Some p, st) \<Rightarrow>
       (case Atoi character of
         None \<Rightarrow> (Inl (StatusBadRequest, ''Choose a character.''), st)
       | Some charID \<Rightarrow>
          (case Playable p charID st of
            (None, st) \<Rightarrow> (Inl (StatusForbidden, ''Not your character.''), st)
          | (Some ch, st) \<Rightarrow> (Inr (p, ch), st))))"

definition set_pc :: "client \<Rightarrow> ws_pc \<Rightarrow> server \<Rightarrow> server" where
  "set_pc c pc s = s\<lparr>sv_conns := map (\<lambda>(c', cn). (c', if c' = c then cn\<lparr>cn_pc := pc\<rparr> else cn)) (sv_conns s)\<rparr>"

definition claim_seat :: "client \<Rightarrow> int \<Rightarrow> live \<Rightarrow> bool \<times> live" where
  "claim_seat c i s =
    (let (ok, w) = ClaimOnline i (lv_world s) in
     (ok, if ok then \<lparr>lv_world = w, lv_claims = lv_claims s @ [(c, i)]\<rparr> else s))"

definition takeOverWait :: duration where "takeOverWait = 5 * Second"
definition takeOverPoll :: duration where "takeOverPoll = 50 * Millisecond"

text \<open>\<open>takeOver\<close>, up to its loop: the sessions of the account are told to close.\<close>

definition take_over :: "client \<Rightarrow> int \<Rightarrow> server \<Rightarrow> server" where
  "take_over c i s =
    (let (ok, l) = claim_seat c i (sv_live s); s = s\<lparr>sv_live := l\<rparr> in
     if ok then set_pc c Upgrading s
     else set_pc c (Checking (w_now (lv_world l) + takeOverWait))
       (s\<lparr>sv_closing := sv_closing s @ map fst (filter (\<lambda>(_, i'). i' = i) (sv_sessions s))\<rparr>))"

definition connect :: "crypto \<Rightarrow> client \<Rightarrow> string \<Rightarrow> string \<Rightarrow> server \<Rightarrow> server" where
  "connect au c token character s =
    (let (r, st) = ws_auth au token character (w_now (lv_world (sv_live s))) (rq_store (sv_ranked s));
         s = s\<lparr>sv_ranked := (sv_ranked s)\<lparr>rq_store := st\<rparr>\<rparr> in
     case r of
       Inl _ \<Rightarrow> s
     | Inr (p, ch) \<Rightarrow> take_over c (pl_ID p)
         (s\<lparr>sv_conns := sv_conns s @ [(c, \<lparr>cn_player = p, cn_char = ch, cn_pc = Checking 0\<rparr>)]\<rparr>))"

text \<open>One turn of the loop: the clock, a nap, and another try.\<close>

definition check_deadline :: "client \<Rightarrow> gotime \<Rightarrow> server \<Rightarrow> server" where
  "check_deadline c deadline s =
    (let now = w_now (lv_world (sv_live s)) in
     if now < deadline then set_pc c (Sleeping deadline (now + takeOverPoll)) s
     else set_pc c (Refused StatusConflict ''Already connected.'') s)"

definition try_again :: "client \<Rightarrow> int \<Rightarrow> gotime \<Rightarrow> server \<Rightarrow> server" where
  "try_again c i deadline s =
    (let (ok, l) = claim_seat c i (sv_live s) in
     set_pc c (if ok then Upgrading else Checking deadline) (s\<lparr>sv_live := l\<rparr>))"

text \<open>The world goroutine runs something; what \<open>OnRanked\<close> was called with is queued.\<close>

definition in_world :: "history \<Rightarrow> event \<Rightarrow> server \<Rightarrow> server option" where
  "in_world h ev s = do {
    l \<leftarrow> react h ev (sv_live s);
    let new = drop (length (w_matches (lv_world (sv_live s)))) (w_matches (lv_world l));
    Some (s\<lparr>sv_live := l, sv_ranked := fold (\<lambda>m. enqueue (Record m)) new (sv_ranked s)\<rparr>)
  }"

text \<open>\<open>netconn.Serve\<close>: upgrade, join, and leave when the connection has ended.\<close>

definition upgrade :: "history \<Rightarrow> client \<Rightarrow> int \<Rightarrow> bool \<Rightarrow> server \<Rightarrow> server option" where
  "upgrade h c i ok s =
    (if ok then Some (set_pc c Opened (s\<lparr>sv_sessions := sv_sessions s @ [(c, i)]\<rparr>))
     else map_option (set_pc c Gone) (in_world h (Dropped c) s))"

definition ask_rating :: "client \<Rightarrow> int \<Rightarrow> server \<Rightarrow> server" where
  "ask_rating c charID s =
    (let k = length (rq_replies (sv_ranked s)) + length (rq_queue (sv_ranked s)) in
     set_pc c (Loading k) (s\<lparr>sv_ranked := enqueue (Load charID) (sv_ranked s)\<rparr>))"

definition enter :: "history \<Rightarrow> client \<Rightarrow> connection \<Rightarrow> Rating \<Rightarrow> server \<Rightarrow> server option" where
  "enter h c cn r s =
    map_option (set_pc c Playing) (in_world h (Joined c (pl_Username (cn_player cn)) (Accounts.Info (cn_char cn)) r) s)"

definition quit :: "history \<Rightarrow> client \<Rightarrow> server \<Rightarrow> server option" where
  "quit h c s =
    map_option (set_pc c Gone) (in_world h (Left c) (s\<lparr>sv_sessions := filter (\<lambda>(c', _). c' \<noteq> c) (sv_sessions s)\<rparr>))"

section \<open>Steps\<close>

text \<open>
  A step of anything in the server. The world hands every match it settles over to be saved at once;
  everything else that writes to the database is one of its operations.
\<close>

datatype server_event =
    Connect client string string
  | Look client
  | Retry client
  | Upgraded client bool
  | AskRating client
  | Enter client
  | Quit client
  | Ask client command
  | Around event
  | Service service_event
  | Http "bool list \<times> store_op"

definition at_pc :: "client \<Rightarrow> server \<Rightarrow> connection option" where
  "at_pc c s = map_of (sv_conns s) c"

fun enabled :: "server_event \<Rightarrow> server \<Rightarrow> bool" where
  "enabled (Connect c token character) s \<longleftrightarrow> c \<notin> fst ` set (sv_conns s)"
| "enabled (Look c) s \<longleftrightarrow> (\<exists>cn dl. at_pc c s = Some cn \<and> cn_pc cn = Checking dl)"
| "enabled (Retry c) s \<longleftrightarrow> (\<exists>cn dl wake. at_pc c s = Some cn \<and> cn_pc cn = Sleeping dl wake \<and> wake \<le> w_now (lv_world (sv_live s)))"
| "enabled (Upgraded c ok) s \<longleftrightarrow> (\<exists>cn. at_pc c s = Some cn \<and> cn_pc cn = Upgrading)"
| "enabled (AskRating c) s \<longleftrightarrow> (\<exists>cn. at_pc c s = Some cn \<and> cn_pc cn = Opened)"
| "enabled (Enter c) s \<longleftrightarrow> (\<exists>cn k. at_pc c s = Some cn \<and> cn_pc cn = Loading k \<and> k < length (rq_replies (sv_ranked s)))"
| "enabled (Quit c) s \<longleftrightarrow> (\<exists>cn. at_pc c s = Some cn \<and> cn_pc cn = Playing)"
| "enabled (Ask c cmd) s \<longleftrightarrow> (\<exists>cn. at_pc c s = Some cn \<and> cn_pc cn = Playing)"
| "enabled (Around ev) s \<longleftrightarrow> (case ev of
      Answered k ans \<Rightarrow> possible ev (sv_live s)
    | Delivered \<Rightarrow> possible ev (sv_live s)
    | Ticked \<Rightarrow> True
    | Elapsed dt \<Rightarrow> 0 \<le> dt
    | Reordered ps ds cs \<Rightarrow> possible ev (sv_live s)
    | _ \<Rightarrow> False)"
| "enabled (Service ev) s \<longleftrightarrow> (case ev of Queued (Recent _) \<Rightarrow> True | Waking \<Rightarrow> True | Turn \<Rightarrow> True | _ \<Rightarrow> False)"
| "enabled (Http op) s \<longleftrightarrow> (\<forall>fs d a b. op \<noteq> (fs, AddDuel d a b))"

text \<open>\<open>None\<close> is a panic.\<close>

fun server_step :: "crypto \<Rightarrow> history \<Rightarrow> server_event \<Rightarrow> server \<Rightarrow> server option" where
  "server_step au h (Connect c token character) s = Some (connect au c token character s)"
| "server_step au h (Look c) s =
    (case at_pc c s of Some cn \<Rightarrow> (case cn_pc cn of Checking dl \<Rightarrow> Some (check_deadline c dl s) | _ \<Rightarrow> Some s) | None \<Rightarrow> Some s)"
| "server_step au h (Retry c) s =
    (case at_pc c s of
      Some cn \<Rightarrow> (case cn_pc cn of Sleeping dl wake \<Rightarrow> Some (try_again c (pl_ID (cn_player cn)) dl s) | _ \<Rightarrow> Some s)
    | None \<Rightarrow> Some s)"
| "server_step au h (Upgraded c ok) s =
    (case at_pc c s of Some cn \<Rightarrow> upgrade h c (pl_ID (cn_player cn)) ok s | None \<Rightarrow> Some s)"
| "server_step au h (AskRating c) s =
    (case at_pc c s of Some cn \<Rightarrow> Some (ask_rating c (sc_ID (cn_char cn)) s) | None \<Rightarrow> Some s)"
| "server_step au h (Enter c) s =
    (case at_pc c s of
      Some cn \<Rightarrow> (case cn_pc cn of
          Loading k \<Rightarrow> (case rq_replies (sv_ranked s) ! k of Loaded r \<Rightarrow> enter h c cn r s | _ \<Rightarrow> None)
        | _ \<Rightarrow> Some s)
    | None \<Rightarrow> Some s)"
| "server_step au h (Quit c) s = quit h c s"
| "server_step au h (Ask c cmd) s = in_world h (Requested c cmd) s"
| "server_step au h (Around ev) s = in_world h ev s"
| "server_step au h (Service ev) s = Some (s\<lparr>sv_ranked := serve ev (sv_ranked s)\<rparr>)"
| "server_step au h (Http op) s =
    Some (s\<lparr>sv_ranked := (sv_ranked s)\<lparr>rq_store := (rq_store (sv_ranked s))
      \<lparr>db_tables := run_op op (db_tables (rq_store (sv_ranked s)))\<rparr>\<rparr>\<rparr>)"

definition start_server :: "puzzle \<Rightarrow> WorldMap \<Rightarrow> Oracle option \<Rightarrow> gotime \<Rightarrow> rng \<Rightarrow> Store \<Rightarrow> server" where
  "start_server P m gods now r st =
    \<lparr>sv_live = fresh_server P m gods now r, sv_ranked = NewService st, sv_conns = [], sv_sessions = [], sv_closing = []\<rparr>"

inductive server_runs :: "crypto \<Rightarrow> history \<Rightarrow> server \<Rightarrow> server_event list \<Rightarrow> server \<Rightarrow> bool" for au h s0 where
  begun: "server_runs au h s0 [] s0"
| stepped: "server_runs au h s0 evs s \<Longrightarrow> enabled ev s \<Longrightarrow> server_step au h ev s = Some s' \<Longrightarrow> server_runs au h s0 (evs @ [ev]) s'"

end
