(* ===== verification/Demo_Run.thy ===== *)
theory Demo_Run
  imports World_Safety
begin

text \<open>
  A run of the server, worked out: two players join, see each other after a tick, and one challenges
  the other. The properties of the root theory are applied to it.
\<close>


definition demo_words :: DuelPuzzle where
  "demo_words = \<lparr>dz_words = \<lparr>solutions = [''CRANE'', ''SLATE''], guessables = [''CRANE'', ''SLATE''], three = [''CAT'']\<rparr>, dz_fixed = []\<rparr>"
definition demo_map :: WorldMap where
  "demo_map = \<lparr>Width = 2000, Height = 1500, Background = ''town'', Spawn = \<lparr>X = 1000, Y = 700\<rparr>, Interactables = []\<rparr>"
definition demo_rating :: Rating where
  "demo_rating = \<lparr>Elo = 1000, Peak = 1000, Games = 0, Wins = 0, Losses = 0, Draws = 0\<rparr>"
definition demo_start :: live where
  "demo_start = fresh_server (wordle_puzzle demo_words) demo_map None 0 \<lparr>draws = \<lambda>_. 0, drawn = 0\<rparr>"
lemma cells: "floorDiv 900 cellSize = 0" "floorDiv 600 cellSize = 0"
  by (simp_all add: floorDiv_def cellSize_def i32_quot_def i32_rem_def go_quot_def go_rem_def)

lemmas demo_defs = demo_start_def demo_map_def demo_rating_def demo_words_def fresh_server_def NewWorld_def




definition demo_player :: "client \<Rightarrow> int \<Rightarrow> int \<Rightarrow> eref \<Rightarrow> player" where
  "demo_player c pid ch e = \<lparr>p_client = c, p_playerID = pid, p_charID = ch, p_rating = demo_rating, p_ent = e, p_known = [],
     p_budget = MoveSpeed * moveTolerance * maxMoveBank / 2, p_budgetAt = 0, p_duel = None\<rparr>"

definition demo_entity :: "EntityID \<Rightarrow> string \<Rightarrow> string \<Rightarrow> string \<Rightarrow> Entity" where
  "demo_entity i name char cls = \<lparr>e_ID = i, e_Kind = EntityPlayer, e_Name = name, e_Char = char, e_Class = cls,
     e_Sprite = Sprite cls, e_Pos = \<lparr>X = 900, Y = 600\<rparr>, e_Elo = 1000, e_moved = False, e_eloChanged = False, e_cell = (0, 0)\<rparr>"

definition demo_char :: "int \<Rightarrow> string \<Rightarrow> string \<Rightarrow> CharacterInfo" where
  "demo_char i name cls = \<lparr>chi_ID = i, chi_Slot = 0, chi_Name = name, chi_Class = cls\<rparr>"

definition demo_pair :: world where
  "demo_pair = (lv_world demo_start)\<lparr>w_entities := [(1, 0), (2, 2)],
     w_eobj := (\<lambda>_. blank_entity)(0 := demo_entity 1 ''ann'' ''Ann'' Knight, 2 := demo_entity 2 ''bob'' ''Bob'' Wizard),
     w_players := [(1, 1), (2, 3)],
     w_pobj := (\<lambda>_. blank_player)(1 := demo_player 1 7 11 0, 3 := demo_player 2 8 12 2),
     w_grid := [((0, 0), [(1, 0), (2, 2)])], w_nextID := 2, w_online := [8, 7],
     w_rng := \<lparr>draws = \<lambda>_. 0, drawn = 4\<rparr>, w_fresh := 4,
     w_out := map (\<lambda>(c, p, u, i, ch). (c, ServerWelcome
       (welcome_msg p u (demo_entity i u (chi_Name ch) (chi_Class ch)) \<lparr>X = 900, Y = 600\<rparr> demo_map ch demo_rating)))
       [(1, 7, ''ann'', 1, demo_char 11 ''Ann'' Knight), (2, 8, ''bob'', 2, demo_char 12 ''Bob'' Wizard)]\<rparr>"

definition demo_joins :: "event list" where
  "demo_joins = [Claimed 1 7, Joined 1 ''ann'' (demo_char 11 ''Ann'' Knight) demo_rating,
     Claimed 2 8, Joined 2 ''bob'' (demo_char 12 ''Bob'' Wizard) demo_rating]"

lemma demo_joined: "play None demo_joins demo_start = Some \<lparr>lv_world = demo_pair, lv_claims = []\<rparr>"
  by (simp add: demo_joins_def demo_pair_def demo_player_def demo_entity_def demo_char_def demo_defs ClaimOnline_def rating_ok_def on_world_def Join_def Int31n_def Intn_def spawnSpread_def
    clamp_def newEntity_def grid_insert_def upd_entity_def set_rng_def send_def cellOf_def Let_def cells amap_del_def cell_at_def moveBudget_reset_def welcome_msg_def numeral_eq_Suc)

lemma demo_near: "w_grid w = [((0, 0), [(1, 0), (2, 2)])] \<Longrightarrow> near w \<lparr>X = 900, Y = 600\<rparr> = [0, 2]"
  by (simp add: near_def around_def cell_at_def cellOf_def cells)


lemma demo_fields:
  "w_players demo_pair = [(1, Suc 0), (2, 3)]" "w_pobj demo_pair (Suc 0) = demo_player 1 7 11 0"
  "w_pobj demo_pair 3 = demo_player 2 8 12 2"
  "w_eobj demo_pair 0 = demo_entity 1 ''ann'' ''Ann'' Knight" "w_eobj demo_pair 2 = demo_entity 2 ''bob'' ''Bob'' Wizard"
  "w_grid demo_pair = [((0, 0), [(1, 0), (2, 2)])]" "w_challenges demo_pair = []" "w_duels demo_pair = []"
  "w_moved demo_pair = []" "w_eloChanged demo_pair = []" "w_tick demo_pair = 0"
  by (simp_all add: demo_pair_def demo_defs)

lemma demo_object_fields [simp]:
  "p_client (demo_player c pid ch e) = c" "p_ent (demo_player c pid ch e) = e" "p_known (demo_player c pid ch e) = []"
  "p_duel (demo_player c pid ch e) = None" "e_ID (demo_entity i name char cls) = i" 
  "e_Pos (demo_entity i name char cls) = \<lparr>X = 900, Y = 600\<rparr>" 
  by (simp_all add: demo_player_def demo_entity_def)

definition demo_spawn :: "Entity \<Rightarrow> WorldUpdate" where
  "demo_spawn e = no_update\<lparr>wu_Spawn := [spawnMsg e]\<rparr>"

lemma demo_update:
  assumes "w_grid w = [((0, 0), [(1, 0), (2, 2)])]" "w_eobj w = w_eobj demo_pair" "w_tick w = 1"
  shows "w_pobj w (Suc 0) = demo_player 1 7 11 0 \<Longrightarrow> player_update w (Suc 0) = (demo_spawn (w_eobj demo_pair 2), [(2, 1)])"
    "w_pobj w 3 = demo_player 2 8 12 2 \<Longrightarrow> player_update w 3 = (demo_spawn (w_eobj demo_pair 0), [(1, 1)])"
  using assms
  by (simp_all add: player_update_def ent_of_def demo_near [OF assms(1)] demo_fields see_def forget_def demo_spawn_def no_update_def)

definition demo_seen :: world where
  "demo_seen = demo_pair\<lparr>w_tick := 1,
     w_pobj := (w_pobj demo_pair)(Suc 0 := (demo_player 1 7 11 0)\<lparr>p_known := [(2, 1)]\<rparr>, 3 := (demo_player 2 8 12 2)\<lparr>p_known := [(1, 1)]\<rparr>),
     w_out := w_out demo_pair @ [(1, ServerWorld (demo_spawn (w_eobj demo_pair 2))), (2, ServerWorld (demo_spawn (w_eobj demo_pair 0)))]\<rparr>"

lemma demo_replicate: 
  assumes "w_grid w = [((0, 0), [(1, 0), (2, 2)])]" "w_eobj w = w_eobj demo_pair" "w_tick w = 1" 
    "w_pobj w (Suc 0) = demo_player 1 7 11 0" "w_pobj w 3 = demo_player 2 8 12 2"
  shows "replicate_one (2, 3) (replicate_one (1, Suc 0) w) = w\<lparr>
    w_pobj := (w_pobj w)(Suc 0 := (demo_player 1 7 11 0)\<lparr>p_known := [(2, 1)]\<rparr>, 3 := (demo_player 2 8 12 2)\<lparr>p_known := [(1, 1)]\<rparr>),
     w_out := w_out w @ [(1, ServerWorld (demo_spawn (w_eobj demo_pair 2))), (2, ServerWorld (demo_spawn (w_eobj demo_pair 0)))]\<rparr>"
proof -
  have 1: "replicate_one (1, Suc 0) w = w\<lparr>w_pobj := (w_pobj w)(Suc 0 := (demo_player 1 7 11 0)\<lparr>p_known := [(2, 1)]\<rparr>),
     w_out := w_out w @ [(1, ServerWorld (demo_spawn (w_eobj demo_pair 2)))]\<rparr>"
    using demo_update(1) [OF assms(1-3)] assms(4) by (simp add: replicate_one_def Let_def upd_player_def send_def) (simp add: demo_spawn_def)
  show ?thesis unfolding 1 using assms demo_update(2) [of "w\<lparr>w_pobj := (w_pobj w)(Suc 0 := (demo_player 1 7 11 0)\<lparr>p_known := [(2, 1)]\<rparr>),
     w_out := w_out w @ [(1, ServerWorld (demo_spawn (w_eobj demo_pair 2)))]\<rparr>"]
   by (simp add: replicate_one_def Let_def upd_player_def send_def) (simp add: demo_spawn_def)
qed

lemma demo_ticked: "world_step demo_pair = Some demo_seen"
  by (simp add: world_step_def expireChallenges_def tickDuels_def demo_fields Let_def replicate_world_def clear_flags_def demo_replicate [where w = "demo_pair\<lparr>w_tick := 1\<rparr>"] demo_seen_def del: One_nat_def)

definition demo_challenge :: challenge where
  "demo_challenge = \<lparr>ch_id = 1, ch_from = Suc 0, ch_to = 3, ch_expires = ChallengeTimeout, ch_ranked = False\<rparr>"

lemma demo_challenged:
  "\<exists>ms. Challenge 1 2 False demo_seen =
     demo_seen\<lparr>w_nextChallenge := 1, w_challenges := [(1, demo_challenge)], w_out := ms\<rparr>"
proof -
  have f: "w_players demo_seen = [(1, Suc 0), (2, 3)]" "w_challenges demo_seen = []" "w_nextChallenge demo_seen = 0"
    "w_pobj demo_seen (Suc 0) = (demo_player 1 7 11 0)\<lparr>p_known := [(2, 1)]\<rparr>" "w_pobj demo_seen 3 = (demo_player 2 8 12 2)\<lparr>p_known := [(1, 1)]\<rparr>"
    "w_eobj demo_seen = w_eobj demo_pair" "w_Duels demo_seen \<noteq> None" "w_now demo_seen = 0"
    by (simp_all add: demo_seen_def demo_fields) (simp_all add: demo_pair_def demo_defs)
  have "playerByEntity demo_seen 2 = Some 3" by (simp add: playerByEntity_def f ent_of_def demo_fields)
  then have eq: "Challenge 1 2 False demo_seen = new_challenge (Suc 0) 3 False demo_seen"
    using f(7) by (simp add: Challenge_def f)
  show ?thesis
    unfolding eq new_challenge_def challengeUpdate_def send_def Let_def
    by (rule exI) (simp add: f demo_challenge_def)
qed

definition demo_events :: "event list" where
  "demo_events = demo_joins @ [Ticked, Requested 1 (DoChallenge 2 False)]"

lemma demo_serving:
  "\<exists>s. serving demo_words demo_map None demo_events s \<and> lv_claims s = [] \<and>
     w_challenges (lv_world s) = [(1, demo_challenge)] \<and> w_players (lv_world s) = [(1, Suc 0), (2, 3)] \<and>
     w_pobj (lv_world s) = w_pobj demo_seen \<and> w_eobj (lv_world s) = w_eobj demo_pair"
proof -
  obtain ms where ms: "Challenge 1 2 False demo_seen =
      demo_seen\<lparr>w_nextChallenge := 1, w_challenges := [(1, demo_challenge)], w_out := ms\<rparr>"
    using demo_challenged ..
  let ?s = "\<lparr>lv_world = demo_seen\<lparr>w_nextChallenge := 1, w_challenges := [(1, demo_challenge)], w_out := ms\<rparr>, lv_claims = []\<rparr>"
  have pair: "reaches None demo_start demo_joins \<lparr>lv_world = demo_pair, lv_claims = []\<rparr>"
    using play_reaches [OF reaches.start demo_joined] by simp
  have seen: "reaches None demo_start (demo_joins @ [Ticked]) \<lparr>lv_world = demo_seen, lv_claims = []\<rparr>"
    by (rule reaches.more [OF pair]) (simp_all add: on_world_def demo_ticked)
  have "reaches None demo_start ((demo_joins @ [Ticked]) @ [Requested 1 (DoChallenge 2 False)]) ?s"
    by (rule reaches.more [OF seen]) (simp_all add: on_world_def ms del: One_nat_def)
  moreover have "duel_words_ok demo_words" "map_valid demo_map"
    by (simp_all add: duel_words_ok_def words_ok_def demo_words_def capitals_def is_AZ_def map_valid_def demo_map_def inBounds_def)
  moreover have "joins demo_events < 2 ^ 32" by (simp add: demo_events_def demo_joins_def joins_def is_join_def)
  ultimately have "serving demo_words demo_map None demo_events ?s"
    unfolding serving_def demo_events_def demo_start_def by auto
  then show ?thesis by (intro exI [of _ ?s]) (simp add: demo_seen_def demo_fields)
qed

text \<open>The challenged player accepts, and the two are in a duel.\<close>

definition demo_duel_events :: "event list" where
  "demo_duel_events = demo_events @ [Requested 2 (DoRespond 1 True)]"

lemma demo_dueling:
  "\<exists>s d. serving demo_words demo_map None demo_duel_events s \<and> d \<in> set (w_duels (lv_world s)) \<and>
     (\<exists>me. find_duel 2 (lv_world s) = Some (3, d, me, other me))"
proof -
  obtain s where s: "serving demo_words demo_map None demo_events s" "lv_claims s = []"
    "w_challenges (lv_world s) = [(1, demo_challenge)]" "w_players (lv_world s) = [(1, Suc 0), (2, 3)]"
    using demo_serving by blast
  obtain w' d where w': "RespondDuel 2 1 True (lv_world s) = Some w'" "d \<in> set (w_duels w')" "p_duel (w_pobj w' 3) = Some d"
    using challenge_accepted [OF s(1), of 1 demo_challenge 2] s by (auto simp: demo_challenge_def)
  have r: "react None (Requested 2 (DoRespond 1 True)) s = Some (s\<lparr>lv_world := w'\<rparr>)" by (simp add: on_world_def w'(1))
  have "joins demo_duel_events < 2 ^ 32"
    by (simp add: demo_duel_events_def demo_events_def demo_joins_def joins_def is_join_def)
  then have sv: "serving demo_words demo_map None demo_duel_events (s\<lparr>lv_world := w'\<rparr>)"
    using serving_runs [OF s(1), of "Requested 2 (DoRespond 1 True)"] s(2)
    unfolding r demo_duel_events_def by (simp del: joins_snoc)
  have "evolves (wordle_puzzle demo_words) (word_length demo_words) (lv_world s) w'"
    using wordle.RespondDuel_evolves [OF serving_sound(5,2) [OF s(1)], of 2 1 True] w'(1) by simp
  then have "map_of (w_players w') 2 = Some 3" using sceneD(4) [OF evolvesD(2)] s(4) by simp
  then have "find_duel 2 w' = Some (3, d, sidesOf w' d 3)" using w'(3) by (simp add: find_duel_def)
  moreover obtain me them where m: "sidesOf w' d 3 = (me, them)" by (cases "sidesOf w' d 3")
  moreover have "them = other me" by (rule sidesOf_other [OF m])
  ultimately show ?thesis using sv w'(2) by (intro exI [of _ "s\<lparr>lv_world := w'\<rparr>"] exI [of _ d]) auto
qed

section \<open>Two eyes on one letter\<close>

text \<open>A guess with one letter an eye may watch, and a duel in which two eyes watch two of them.\<close>

definition eye_row :: "string \<Rightarrow> guessRow" where
  "eye_row g = newGuessRow g [Grey, Green, Green, Green, Green]"

definition demo_eyes :: duel where
  "demo_eyes = (let D = new_duel 0 1 3 ''CRANE'' 6 False in D\<lparr>
     d_sideA := (d_sideA D)\<lparr>side_guesses := [eye_row ''BRANE'', eye_row ''DRANE'']\<rparr>,
     d_sideB := (d_sideB D)\<lparr>eyes := [\<lparr>eye_at = (0, 0), eye_on = True, eye_next = 0\<rparr>, \<lparr>eye_at = (1, 0), eye_on = True, eye_next = 0\<rparr>]\<rparr>\<rparr>)"

definition demo_mend :: world where
  "demo_mend = demo_pair\<lparr>w_dobj := (w_dobj demo_pair)(7 := demo_eyes)\<rparr>"

text \<open>
  \<open>mend\<close> goes over the eyes one by one: the one whose letter was mended looks elsewhere while the next still
  has its old row, and may choose the very letter the next one follows up to. Then two eyes watch one letter,
  which \<open>aimEye\<close> means to exclude.
\<close>

theorem mend_doubles_eyes:
  "\<exists>w. mend 7 SideA SideB 0 demo_mend = Some w \<and>
     map eye_at (eyes (side demo_mend 7 SideB)) = [(0, 0), (1, 0)] \<and> map eye_on (eyes (side demo_mend 7 SideB)) = [True, True] \<and>
     map eye_at (eyes (side w 7 SideB)) = [(0, 0), (0, 0)] \<and> map eye_on (eyes (side w 7 SideB)) = [True, True]"
  by (simp add: mend_def mend_eye_def demo_mend_def demo_eyes_def new_duel_def new_side_def newSideEffects_def side_effects.defs delete_at_def
    side_def upd_side_def upd_duel_def aimEye_def aim_def aim_options_def eye_row_def newGuessRow_def watching_def shift_tile_def
    sendEyes_def eye_tiles_def at_int_def castEvent_def each_side_def send_side_def send_def Intn_def set_rng_def demo_fields
    demo_pair_def demo_defs Let_def)

end
