(* ===== verification/Server_Safety.thy ===== *)
theory Server_Safety
  imports Server Demo_Run
begin

text \<open>
  What always holds of the whole server: every step the world takes is one that \<^theory_text>\<open>World_Safety\<close> allows,
  every seat belongs to a connection that was authenticated for it, and every rating in the database or
  on its way there is consistent.
\<close>

section \<open>Who sits where after a step of the world\<close>

definition accounts_after :: "event \<Rightarrow> live \<Rightarrow> (client \<times> int) set" where
  "accounts_after ev s = (let old = set (accounts (lv_world s)) in case ev of
      Joined c _ _ _ \<Rightarrow> old \<union> {(c, i) |i. map_of (lv_claims s) c = Some i}
    | Left c \<Rightarrow> {a \<in> old. fst a \<noteq> c}
    | _ \<Rightarrow> old)"

lemma run_command_accounts:
  assumes "serving dp m h evs s"
  shows "runs (run_command h c cmd (lv_world s)) (\<lambda>w. accounts w = accounts (lv_world s))"
proof (cases "\<exists>pos. cmd = DoMove pos")
  case True
  then show ?thesis using Move_sound(2) [OF serving_sound(1) [OF assms]] by auto
next
  case False
  note S = serving_sound [OF assms]
  show ?thesis
    by (rule runs_conseq [OF wordle.run_command_evolves [OF S(5,2) False]]) (use accounts_scene evolvesD(2) in blast)
qed

lemma react_accounts:
  assumes "serving dp m h evs s" and "possible ev s" and "joins (evs @ [ev]) < 2 ^ 32" and "react h ev s = Some s'"
  shows "set (accounts (lv_world s')) = accounts_after ev s"
proof (cases ev)
  case (Joined c user ch r)
  note S = serving_sound [OF assms(1)] and ok = serving_ok [OF assms(1)]
  have pc: "c \<in> fst ` set (lv_claims s)" "rating_ok r" using assms(2) by (simp_all add: Joined)
  obtain i where i: "map_of (lv_claims s) c = Some i" "c \<notin> fst ` set (w_players (lv_world s))" using claim_held [OF ok pc(1)] by metis
  obtain gods now rn where R: "map_valid m" "reaches h (fresh_server (wordle_puzzle dp) m gods now rn) evs s"
    using assms(1) unfolding serving_def by blast
  have id: "w_nextID (lv_world s) = of_nat (joins evs)" "joins evs + 1 < 2 ^ 32"
    using wordle.reaches_ok [OF R(2) S(5) R(1)] assms(3) by (auto simp: Joined is_join_def)
  have "w_nextID (lv_world s) + 1 \<noteq> 0" using wordle.next_id [OF id(2)] by (simp add: id(1))
  from Join_sound [OF S(1) pc(2) i(2) this, of i user ch] obtain w' where
    w': "Join c i user ch r (lv_world s) = Some w'" "accounts w' = accounts (lv_world s) @ [(c, i)]"
    unfolding runs_iff by blast
  then show ?thesis using assms(4) by (auto simp: Joined i(1) on_world_def accounts_after_def)
next
  case (Left c)
  then show ?thesis
    using assms(4) Leave_sound(2) [OF serving_sound(1) [OF assms(1)], of c] by (auto simp: on_world_def accounts_after_def)
next
  case (Requested c cmd)
  then show ?thesis
    using assms(4) run_command_accounts [OF assms(1), of c cmd] by (auto simp: on_world_def runs_iff accounts_after_def)
next
  case Delivered
  obtain j ans rest where a: "w_answered (lv_world s) = (j, ans) # rest"
    using assms(2) by (cases "w_answered (lv_world s)") (auto simp: Delivered)
  let ?v = "(lv_world s)\<lparr>w_answered := rest\<rparr>"
  note wo = serving_sound(2) [OF assms(1)]
  have "world_ok (wordle_puzzle dp) (word_length dp) ?v"
    using wo unfolding world_ok_def players_ok_def dueling_ok_def challenges_ok_def challenge_ok_def prayers_ok_def
    by (simp add: side_def ent_of_def a)
  moreover have "0 \<le> pj_cost j" using world_okD(5) [OF wo] by (simp add: prayers_ok_def a)
  ultimately have "accounts (prayer_answer j ans ?v) = accounts ?v"
    using accounts_scene [OF evolvesD(2) [OF prayer_answer_evolves]] by blast
  then show ?thesis using assms(4) by (auto simp: Delivered on_world_def a accounts_after_def) (simp_all add: accounts_def)
next
  case Ticked
  then show ?thesis
    using assms(4) world_step_painted [OF serving_sound(1,4) [OF assms(1)]]
    by (auto simp: on_world_def runs_iff accounts_after_def)
next
  case (Reordered ps ds cs)
  then have "mset ps = mset (w_players (lv_world s))" using assms(2) by simp
  from mset_eq_setD [OF this] show ?thesis
    using assms(4) by (auto simp: Reordered on_world_def accounts_after_def accounts_def)
next
  case (Claimed c i)
  then show ?thesis using assms(4) by (auto simp: ClaimOnline_def accounts_after_def accounts_def split: if_splits)
next
  case (Dropped c)
  then show ?thesis
    using assms(4) by (auto simp: ReleaseOnline_def accounts_after_def accounts_def split: option.splits)
qed (use assms(4) in \<open>auto simp: on_world_def accounts_after_def accounts_def\<close>)

definition claims_after :: "event \<Rightarrow> live \<Rightarrow> (client \<times> int) set" where
  "claims_after ev s = (case ev of
      Claimed c i \<Rightarrow> set (lv_claims s) \<union> (if i \<in> set (w_online (lv_world s)) then {} else {(c, i)})
    | Dropped c \<Rightarrow> {a \<in> set (lv_claims s). fst a \<noteq> c}
    | Joined c _ _ _ \<Rightarrow> {a \<in> set (lv_claims s). fst a \<noteq> c}
    | _ \<Rightarrow> set (lv_claims s))"

lemma react_claims:
  assumes "possible ev s" and "react h ev s = Some s'"
  shows "set (lv_claims s') = claims_after ev s"
proof (cases ev)
  case (Claimed c i)
  then show ?thesis using assms(2) by (auto simp: ClaimOnline_def claims_after_def split: if_splits)
next
  case (Dropped c)
  then show ?thesis
    using assms by (auto simp: claims_after_def amap_set_del map_of_eq_None_iff split: option.splits)
next
  case (Joined c user ch r)
  then show ?thesis
    using assms by (auto simp: claims_after_def on_world_def amap_set_del map_of_eq_None_iff split: option.splits)
qed (use assms in \<open>auto simp: claims_after_def on_world_def\<close>)

section \<open>Ratings in the database\<close>

definition ratings_good :: "tables \<Rightarrow> bool" where
  "ratings_good t \<longleftrightarrow> (\<forall>r \<in> set (t_Rating t). rating_ok (fromStore r))"

interpretation good: table_relation "\<lambda>t t'. ratings_good t \<longrightarrow> ratings_good t'"
  by unfold_locales auto

lemma upsert_good:
  assumes "rating_ok (fromStore r)"
  shows "moves (\<lambda>t t'. ratings_good t \<longrightarrow> ratings_good t') (statement (upsert_rating r))"
proof (rule good.moves_statement)
  fix t x t' assume u: "upsert_rating r t = Inr (x, t')"
  have "set (t_Rating t') \<subseteq> insert r (set (t_Rating t))" using u by (auto simp: upsert_rating_def split: if_splits)
  then show "ratings_good t \<longrightarrow> ratings_good t'" using assms by (auto simp: ratings_good_def)
qed

lemma ApplyRankedDuel_good:
  assumes "rating_ok (fromStore a)" and "rating_ok (fromStore b)"
  shows "moves (\<lambda>t t'. ratings_good t \<longrightarrow> ratings_good t') (ApplyRankedDuel d a b)"
proof -
  have "moves (\<lambda>t t'. ratings_good t \<longrightarrow> ratings_good t') (statement (insert_duel d))"
    by (rule good.moves_statement) (use insert_duel_spec(1) in \<open>fastforce simp: ratings_good_def\<close>)
  then show ?thesis
    unfolding ApplyRankedDuel_def by (intro good.moves_transaction good.moves_and_then upsert_good assms)
qed

lemma select_tables: "db_tables (snd (select f st)) = db_tables st"
  by (simp add: select_def statement_def Let_def)

lemma run_job_good:
  assumes "ratings_good (db_tables st)" and "\<And>m. j = Record m \<Longrightarrow> saved_ok m" and "run_job j st = (reply, st')"
  shows "ratings_good (db_tables st') \<and> (\<forall>r. reply = Loaded r \<longrightarrow> rating_ok r) \<and> (\<forall>c. j = Load c \<longrightarrow> (\<exists>r. reply = Loaded r))"
proof (cases j)
  case (Record m)
  have "rating_ok (res_A (mt_Result m))" "rating_ok (res_B (mt_Result m))" using assms(2) Record by (simp_all add: saved_ok_def)
  then have "moves (\<lambda>t t'. ratings_good t \<longrightarrow> ratings_good t') (ApplyRankedDuel (duel_record m)
      (toStore (mt_A m) (res_A (mt_Result m))) (toStore (mt_B m) (res_B (mt_Result m))))"
    by (intro ApplyRankedDuel_good) simp_all
  then show ?thesis using assms(1,3) by (auto simp: Record moves_def)
next
  case (Load c)
  obtain res st1 where q: "StoredRating c st = (res, st1)" by (cases "StoredRating c st")
  have t: "db_tables st1 = db_tables st" using select_tables [of _ st] q unfolding StoredRating_def by (metis snd_conv)
  have "rating_ok (fromStore r)" if "res = Inr (Some r)" for r
  proof -
    have "find (\<lambda>r. sr_CharacterID r = c) (t_Rating (db_tables st)) = Some r"
      using q that by (auto simp: StoredRating_def select_def statement_def Let_def split: if_splits)
    then have "r \<in> set (t_Rating (db_tables st))" by (auto simp: find_Some_iff)
    then show ?thesis using assms(1) by (simp add: ratings_good_def)
  qed
  moreover have "rating_ok NewRating" by (simp add: rating_ok_def NewRating_def StartElo_def)
  ultimately show ?thesis using assms(1,3) t q by (auto simp: Load split: sum.splits option.splits)
next
  case (Recent c)
  obtain res st1 where q: "RecentRankedDuels c RecentDuels st = (res, st1)" by (cases "RecentRankedDuels c RecentDuels st")
  have t: "db_tables st1 = db_tables st" using select_tables [of _ st] q unfolding RecentRankedDuels_def by (metis snd_conv)
  then show ?thesis using assms(1,3) q by (auto simp: Recent split: sum.splits)
qed

text \<open>All that is stored, loaded or about to be saved is consistent.\<close>

definition ranked_fine :: "service \<Rightarrow> bool" where
  "ranked_fine s \<longleftrightarrow> ratings_good (db_tables (rq_store s)) \<and> (\<forall>r. Loaded r \<in> set (rq_replies s) \<longrightarrow> rating_ok r) \<and>
     (\<forall>m. Record m \<in> set (rq_queue s) \<longrightarrow> saved_ok m)"

text \<open>The \<open>k\<close>th job, run or not, loads a rating.\<close>

definition loads_at :: "nat \<Rightarrow> service \<Rightarrow> bool" where
  "loads_at k s \<longleftrightarrow> (if k < length (rq_replies s) then \<exists>r. rq_replies s ! k = Loaded r
     else k - length (rq_replies s) < length (rq_queue s) \<and> (\<exists>c. rq_queue s ! (k - length (rq_replies s)) = Load c))"

lemma run_step_fine:
  assumes "ranked_fine s"
  shows "ranked_fine (run_step s) \<and> (\<forall>k. loads_at k s \<longrightarrow> loads_at k (run_step s))"
proof (cases "rq_pc s = AtLoop \<and> rq_queue s \<noteq> []")
  case True
  then obtain job rest where q: "rq_queue s = job # rest" by (cases "rq_queue s") auto
  obtain reply st where r: "run_job job (rq_store s) = (reply, st)" by (cases "run_job job (rq_store s)")
  have fine: "ratings_good (db_tables (rq_store s))" "\<And>m. job = Record m \<Longrightarrow> saved_ok m"
    using assms by (auto simp: ranked_fine_def q)
  note g = run_job_good [OF fine r]
  have step: "run_step s = s\<lparr>rq_queue := rest, rq_store := st, rq_replies := rq_replies s @ [reply]\<rparr>"
    using True by (simp add: run_step_def q r)
  have "loads_at k (run_step s)" if "loads_at k s" for k
  proof (cases "k \<le> length (rq_replies s)")
    case True
    then show ?thesis using that g by (auto simp: loads_at_def step q nth_append split: if_splits)
  next
    case False
    then obtain d where d: "k = Suc (length (rq_replies s) + d)" by (metis less_iff_Suc_add not_le)
    then show ?thesis using that by (simp add: loads_at_def step q)
  qed
  then show ?thesis using g assms by (auto simp: ranked_fine_def step q)
next
  case False
  then have "rq_queue (run_step s) = rq_queue s \<and> rq_replies (run_step s) = rq_replies s \<and> rq_store (run_step s) = rq_store s"
    by (auto simp: run_step_def split: loop_pc.splits list.splits)
  then show ?thesis using assms by (simp add: ranked_fine_def loads_at_def)
qed

lemma enqueue_fine:
  assumes "ranked_fine s" and "\<And>m. job = Record m \<Longrightarrow> saved_ok m"
  shows "ranked_fine (enqueue job s)" "loads_at k s \<Longrightarrow> loads_at k (enqueue job s)"
    "job = Load c \<Longrightarrow> loads_at (length (rq_replies s) + length (rq_queue s)) (enqueue job s)"
  using assms by (auto simp: ranked_fine_def enqueue_def loads_at_def nth_append split: if_splits)

lemma enqueue_records_fine:
  "ranked_fine s \<Longrightarrow> list_all saved_ok ms \<Longrightarrow>
    ranked_fine (fold (\<lambda>m. enqueue (Record m)) ms s) \<and> (loads_at k s \<longrightarrow> loads_at k (fold (\<lambda>m. enqueue (Record m)) ms s)) \<and>
    rq_store (fold (\<lambda>m. enqueue (Record m)) ms s) = rq_store s \<and> rq_replies (fold (\<lambda>m. enqueue (Record m)) ms s) = rq_replies s"
proof (induction ms arbitrary: s)
  case (Cons m ms)
  have "ranked_fine (enqueue (Record m) s)" "loads_at k s \<Longrightarrow> loads_at k (enqueue (Record m) s)"
    using enqueue_fine(1,2) [OF Cons.prems(1), of "Record m"] Cons.prems(2) by auto
  moreover have "rq_store (enqueue (Record m) s) = rq_store s" "rq_replies (enqueue (Record m) s) = rq_replies s"
    by (simp_all add: enqueue_def)
  ultimately show ?case using Cons.IH [of "enqueue (Record m) s"] Cons.prems(2) by auto
qed simp

lemma wake_up_fine: "ranked_fine (wake_up s) = ranked_fine s" "loads_at k (wake_up s) = loads_at k s"
  by (simp_all add: ranked_fine_def loads_at_def wake_up_def)

text \<open>Everything else that writes leaves ratings alone.\<close>

interpretation kept: table_relation "\<lambda>t t'. t_Rating t' = t_Rating t"
  by unfold_locales auto

lemma kept_ratings:
  "moves (\<lambda>t t'. t_Rating t' = t_Rating t) (statement (insert_player u p))"
  "moves (\<lambda>t t'. t_Rating t' = t_Rating t) (statement (insert_character pid slot name cls))"
  "moves (\<lambda>t t'. t_Rating t' = t_Rating t) (DeleteCharacter pid i)"
  "moves (\<lambda>t t'. t_Rating t' = t_Rating t) (InsertWordle r)"
  unfolding DeleteCharacter_eq InsertWordle_def
  by (rule kept.moves_statement; use insert_character_spec(6) in
    \<open>fastforce simp: insert_player_def insert_wordle_def Let_def split: if_splits\<close>)+

lemma run_op_ratings:
  assumes "\<forall>fs d a b. op \<noteq> (fs, AddDuel d a b)"
  shows "t_Rating (run_op op t) = t_Rating t"
proof -
  obtain fs change where op: "op = (fs, change)" by (cases op)
  show ?thesis
    using assms kept_ratings [unfolded moves_def] by (cases change) (simp_all add: op snd_InsertPlayer snd_InsertCharacter)
qed

text \<open>What the other writes keep, jobs keep.\<close>

context writes
begin

lemma run_job_kept: "R (db_tables st) (db_tables (snd (run_job j st)))"
proof (cases j)
  case (Record m)
  then show ?thesis using moves_ops(5) by (simp add: moves_def)
next
  case (Load c)
  have "snd (run_job (Load c) st) = snd (StoredRating c st)" by (auto split: prod.split sum.split option.split)
  then show ?thesis by (simp only: Load StoredRating_def select_tables refl)
next
  case (Recent c)
  have "snd (run_job (Recent c) st) = snd (RecentRankedDuels c RecentDuels st)" by (auto split: prod.split sum.split)
  then show ?thesis by (simp only: Recent RecentRankedDuels_def select_tables refl)
qed

lemma serve_kept: "R (db_tables (rq_store s)) (db_tables (rq_store (serve ev s)))"
proof -
  have "R (db_tables (rq_store s)) (db_tables (rq_store (run_step s)))"
  proof (cases "rq_pc s = AtLoop \<and> rq_queue s \<noteq> []")
    case True
    then show ?thesis using run_job_kept [of "rq_store s" "hd (rq_queue s)"]
      by (cases "rq_queue s") (auto simp: run_step_def split: prod.split)
  qed (auto simp: run_step_def refl split: loop_pc.splits list.splits)
  then show ?thesis by (cases ev) (simp_all add: enqueue_def close_service_def wake_up_def refl)
qed

end

section \<open>Connections and the world agree\<close>

text \<open>Between its claim and its join.\<close>

fun waiting :: "ws_pc \<Rightarrow> bool" where
  "waiting Upgrading = True"
| "waiting Opened = True"
| "waiting (Loading k) = True"
| "waiting _ = False"

text \<open>The accounts with a seat are those of the connections that are playing, and that are about to.\<close>

definition tied :: "(client \<rightharpoonup> connection) \<Rightarrow> (client \<times> int) set \<Rightarrow> (client \<times> int) set \<Rightarrow> bool" where
  "tied f A C \<longleftrightarrow>
     (\<forall>c i. (c, i) \<in> A \<longleftrightarrow> (\<exists>cn. f c = Some cn \<and> cn_pc cn = Playing \<and> pl_ID (cn_player cn) = i)) \<and>
     (\<forall>c i. (c, i) \<in> C \<longleftrightarrow> (\<exists>cn. f c = Some cn \<and> waiting (cn_pc cn) \<and> pl_ID (cn_player cn) = i))"

lemma tied_moves:
  assumes "tied f A C" and "f c = Some cn" and "g = f(c \<mapsto> cn\<lparr>cn_pc := pc\<rparr>)"
    and "A' = {a \<in> A. fst a \<noteq> c} \<union> (if pc = Playing then {(c, pl_ID (cn_player cn))} else {})"
    and "C' = {a \<in> C. fst a \<noteq> c} \<union> (if waiting pc then {(c, pl_ID (cn_player cn))} else {})"
  shows "tied g A' C'"
  using assms(1,2) unfolding tied_def assms(3-5) by auto

lemma tied_seat:
  assumes "tied f A C" and "f c = Some cn"
  shows "{a \<in> A. fst a = c} = (if cn_pc cn = Playing then {(c, pl_ID (cn_player cn))} else {})"
    "{a \<in> C. fst a = c} = (if waiting (cn_pc cn) then {(c, pl_ID (cn_player cn))} else {})"
  using assms unfolding tied_def by auto

lemma set_pc_conns:
  "map_of (sv_conns (set_pc c pc s)) = (map_of (sv_conns s))(c := map_option (\<lambda>cn. cn\<lparr>cn_pc := pc\<rparr>) (map_of (sv_conns s) c))"
proof -
  have "map_of (map (\<lambda>(c', cn). (c', if c' = c then cn\<lparr>cn_pc := pc\<rparr> else cn)) xs) =
      (map_of xs)(c := map_option (\<lambda>cn. cn\<lparr>cn_pc := pc\<rparr>) (map_of xs c))" for xs :: "(client \<times> connection) list"
    by (induction xs) (auto simp: fun_eq_iff)
  then show ?thesis by (simp add: set_pc_def)
qed

lemma set_pc_frame [simp]:
  "sv_live (set_pc c pc s) = sv_live s" "sv_ranked (set_pc c pc s) = sv_ranked s"
  by (simp_all add: set_pc_def)

section \<open>The invariant\<close>

definition is_enter :: "server_event \<Rightarrow> bool" where
  "is_enter ev = (case ev of Enter _ \<Rightarrow> True | _ \<Rightarrow> False)"

definition enters :: "server_event list \<Rightarrow> nat" where
  "enters sevs = length (filter is_enter sevs)"

lemma enters_snoc: "enters (sevs @ [ev]) = enters sevs + (if is_enter ev then 1 else 0)"
  by (simp add: enters_def)

text \<open>The connection's player has an account and the character.\<close>

definition admitted :: "Store \<Rightarrow> connection \<Rightarrow> bool" where
  "admitted st cn \<longleftrightarrow>
     cn_player cn \<in> fst ` set (t_Player (db_tables st)) \<and> sc_PlayerID (cn_char cn) = pl_ID (cn_player cn)"

definition conns_ok :: "(client \<rightharpoonup> connection) \<Rightarrow> service \<Rightarrow> bool" where
  "conns_ok f srv \<longleftrightarrow> (\<forall>c cn. f c = Some cn \<longrightarrow>
     admitted (rq_store srv) cn \<and> (\<forall>k. cn_pc cn = Loading k \<longrightarrow> loads_at k srv))"

definition server_ok :: "DuelPuzzle \<Rightarrow> WorldMap \<Rightarrow> history \<Rightarrow> server_event list \<Rightarrow> server \<Rightarrow> bool" where
  "server_ok dp m h sevs s \<longleftrightarrow>
     (\<exists>evs. serving dp m h evs (sv_live s) \<and> joins evs = enters sevs) \<and> ranked_fine (sv_ranked s) \<and>
     tied (map_of (sv_conns s)) (set (accounts (lv_world (sv_live s)))) (set (lv_claims (sv_live s))) \<and>
     conns_ok (map_of (sv_conns s)) (sv_ranked s)"

lemma conns_ok_mono:
  assumes "conns_ok f srv"
    and "set (t_Player (db_tables (rq_store srv))) \<subseteq> set (t_Player (db_tables (rq_store srv')))"
    and "\<And>k. loads_at k srv \<Longrightarrow> loads_at k srv'"
  shows "conns_ok f srv'"
  using assms unfolding conns_ok_def admitted_def by fastforce

lemma conns_ok_set:
  assumes "conns_ok f srv" and "f c = Some cn" and "\<And>k. pc = Loading k \<Longrightarrow> loads_at k srv"
  shows "conns_ok (f(c \<mapsto> cn\<lparr>cn_pc := pc\<rparr>)) srv"
  using assms unfolding conns_ok_def admitted_def by auto

lemma set_pc_ok:
  assumes "serving dp m h evs (sv_live s)" and "joins evs = enters sevs" and "ranked_fine (sv_ranked s)"
    and "conns_ok (map_of (sv_conns s)) (sv_ranked s)" and "tied (map_of (sv_conns s)) A C"
    and "map_of (sv_conns s) c = Some cn" and "\<And>k. pc = Loading k \<Longrightarrow> loads_at k (sv_ranked s)"
    and "set (accounts (lv_world (sv_live s))) = {a \<in> A. fst a \<noteq> c} \<union> (if pc = Playing then {(c, pl_ID (cn_player cn))} else {})"
    and "set (lv_claims (sv_live s)) = {a \<in> C. fst a \<noteq> c} \<union> (if waiting pc then {(c, pl_ID (cn_player cn))} else {})"
  shows "server_ok dp m h sevs (set_pc c pc s)"
proof -
  have f: "map_of (sv_conns (set_pc c pc s)) = (map_of (sv_conns s))(c \<mapsto> cn\<lparr>cn_pc := pc\<rparr>)"
    by (simp add: set_pc_conns assms(6))
  show ?thesis
    unfolding server_ok_def set_pc_frame f
    using assms(1-3) conns_ok_set [OF assms(4,6,7)] tied_moves [OF assms(5,6) refl assms(8,9)] by blast
qed

text \<open>A step of the world.\<close>

lemma in_world_runs:
  assumes "server_ok dp m h sevs s" and "possible ev (sv_live s)" and "is_join ev = is_enter sev"
    and "enters (sevs @ [sev]) < 2 ^ 32"
  obtains l r evs where "in_world h ev s = Some (s\<lparr>sv_live := l, sv_ranked := r\<rparr>)" "serving dp m h evs l"
    "joins evs = enters (sevs @ [sev])" "ranked_fine r"
    "conns_ok (map_of (sv_conns s)) r" "set (accounts (lv_world l)) = accounts_after ev (sv_live s)"
    "set (lv_claims l) = claims_after ev (sv_live s)" "rq_store r = rq_store (sv_ranked s)"
proof -
  obtain evs where evs: "serving dp m h evs (sv_live s)" "joins evs = enters sevs" "ranked_fine (sv_ranked s)"
      "conns_ok (map_of (sv_conns s)) (sv_ranked s)"
    using assms(1) unfolding server_ok_def by blast
  have j: "joins (evs @ [ev]) = enters (sevs @ [sev])" using assms(3) evs(2) by (simp add: enters_snoc)
  obtain l where l: "react h ev (sv_live s) = Some l" "serving dp m h (evs @ [ev]) l"
    using serving_runs [OF evs(1) assms(2)] assms(4) j by (auto simp: runs_iff)
  let ?new = "drop (length (w_matches (lv_world (sv_live s)))) (w_matches (lv_world l))"
  let ?r = "fold (\<lambda>m. enqueue (Record m)) ?new (sv_ranked s)"
  have "list_all saved_ok (w_matches (lv_world l))"
    using world_okD(2) [OF serving_sound(2) [OF l(2)]] by (simp add: players_ok_def)
  then have "list_all saved_ok ?new" by (auto simp: list_all_iff dest: in_set_dropD)
  note r = enqueue_records_fine [OF evs(3) this]
  have "conns_ok (map_of (sv_conns s)) ?r"
    by (rule conns_ok_mono [OF evs(4)]) (use r in auto)
  moreover have "in_world h ev s = Some (s\<lparr>sv_live := l, sv_ranked := ?r\<rparr>)" by (simp add: in_world_def l(1))
  ultimately show ?thesis
    using that l(2) j r react_accounts [OF evs(1) assms(2) _ l(1)] react_claims [OF assms(2) l(1)] assms(4) by auto
qed

section \<open>Every step keeps it\<close>

lemma ranked_moves:
  assumes "server_ok dp m h sevs s" and "\<not> is_enter ev" and "sv_live s' = sv_live s" and "sv_conns s' = sv_conns s"
    and "ranked_fine (sv_ranked s')" and "\<And>k. loads_at k (sv_ranked s) \<Longrightarrow> loads_at k (sv_ranked s')"
    and "set (t_Player (db_tables (rq_store (sv_ranked s)))) \<subseteq> set (t_Player (db_tables (rq_store (sv_ranked s'))))"
  shows "server_ok dp m h (sevs @ [ev]) s'"
  using assms conns_ok_mono [OF _ assms(7,6)] unfolding server_ok_def by (auto simp: enters_snoc)

lemma Service_moves:
  assumes "server_ok dp m h sevs s" and "enabled (Service ev) s"
  shows "server_ok dp m h (sevs @ [Service ev]) (s\<lparr>sv_ranked := serve ev (sv_ranked s)\<rparr>)"
proof (rule ranked_moves [OF assms(1)])
  have fine: "ranked_fine (sv_ranked s)" using assms(1) by (simp add: server_ok_def)
  have "ranked_fine (serve ev (sv_ranked s)) \<and> (\<forall>k. loads_at k (sv_ranked s) \<longrightarrow> loads_at k (serve ev (sv_ranked s)))"
    using assms(2) run_step_fine [OF fine] enqueue_fine(1,2) [OF fine] fine
    by (auto simp: wake_up_fine split: service_event.splits job.splits)
  then show "ranked_fine (sv_ranked (s\<lparr>sv_ranked := serve ev (sv_ranked s)\<rparr>))"
    "\<And>k. loads_at k (sv_ranked s) \<Longrightarrow> loads_at k (sv_ranked (s\<lparr>sv_ranked := serve ev (sv_ranked s)\<rparr>))" by simp_all
qed (simp_all add: is_enter_def accounts.serve_kept)

lemma Http_moves:
  assumes "server_ok dp m h sevs s" and "enabled (Http op) s"
  shows "server_ok dp m h (sevs @ [Http op]) (s\<lparr>sv_ranked := (sv_ranked s)\<lparr>rq_store := (rq_store (sv_ranked s))
      \<lparr>db_tables := run_op op (db_tables (rq_store (sv_ranked s)))\<rparr>\<rparr>\<rparr>)"
proof (rule ranked_moves [OF assms(1)])
  have "ratings_good (run_op op t) = ratings_good t" for t
    using run_op_ratings [of op] assms(2) by (simp add: ratings_good_def)
  then show "ranked_fine (sv_ranked (s\<lparr>sv_ranked := (sv_ranked s)\<lparr>rq_store := (rq_store (sv_ranked s))
      \<lparr>db_tables := run_op op (db_tables (rq_store (sv_ranked s)))\<rparr>\<rparr>\<rparr>))"
    using assms(1) by (simp add: server_ok_def ranked_fine_def)
qed (simp_all add: is_enter_def accounts.run_op loads_at_def)

lemma Around_moves:
  assumes "server_ok dp m h sevs s" and "enabled (Around ev) s" and "enters (sevs @ [Around ev]) < 2 ^ 32"
  shows "runs (in_world h ev s) (server_ok dp m h (sevs @ [Around ev]))"
proof -
  have ev: "possible ev (sv_live s)" "is_join ev = is_enter (Around ev)" "accounts_after ev (sv_live s) = set (accounts (lv_world (sv_live s)))"
      "claims_after ev (sv_live s) = set (lv_claims (sv_live s))"
    using assms(2) by (auto simp: is_join_def is_enter_def accounts_after_def claims_after_def split: event.splits)
  obtain l r evs where "in_world h ev s = Some (s\<lparr>sv_live := l, sv_ranked := r\<rparr>)" "serving dp m h evs l"
    "joins evs = enters (sevs @ [Around ev])" "ranked_fine r"
    "conns_ok (map_of (sv_conns s)) r" "set (accounts (lv_world l)) = accounts_after ev (sv_live s)"
    "set (lv_claims l) = claims_after ev (sv_live s)"
    by (rule in_world_runs [OF assms(1) ev(1,2) assms(3)])
  then show ?thesis using assms(1) ev(3,4) by (auto simp: server_ok_def)
qed

text \<open>A connection that is playing has no claim, and one that waits is not in the world.\<close>

lemma seat_of:
  assumes "server_ok dp m h sevs s" and "at_pc c s = Some cn"
  shows "c \<in> fst ` set (w_players (lv_world (sv_live s))) \<longleftrightarrow> cn_pc cn = Playing"
    "c \<in> fst ` set (lv_claims (sv_live s)) \<longleftrightarrow> waiting (cn_pc cn)"
proof -
  have "tied (map_of (sv_conns s)) (set (accounts (lv_world (sv_live s)))) (set (lv_claims (sv_live s)))"
    using assms(1) by (simp add: server_ok_def)
  note t = tied_seat [OF this assms(2) [unfolded at_pc_def]]
  have key: "c \<in> fst ` X \<longleftrightarrow> {a \<in> X. fst a = c} \<noteq> {}" for X :: "(client \<times> int) set" by force
  show "c \<in> fst ` set (w_players (lv_world (sv_live s))) \<longleftrightarrow> cn_pc cn = Playing"
    unfolding account_keys [symmetric] key t(1) by simp
  show "c \<in> fst ` set (lv_claims (sv_live s)) \<longleftrightarrow> waiting (cn_pc cn)"
    unfolding key t(2) by simp
qed

lemma Ask_moves:
  assumes "server_ok dp m h sevs s" and "enabled (Ask c cmd) s" and "enters (sevs @ [Ask c cmd]) < 2 ^ 32"
  shows "runs (in_world h (Requested c cmd) s) (server_ok dp m h (sevs @ [Ask c cmd]))"
proof -
  obtain cn where cn: "at_pc c s = Some cn" "cn_pc cn = Playing" using assms(2) by auto
  have ev: "possible (Requested c cmd) (sv_live s)" using seat_of(2) [OF assms(1) cn(1)] by (simp add: cn(2))
  have ev2: "is_join (Requested c cmd) = is_enter (Ask c cmd)" by (simp add: is_join_def is_enter_def)
  obtain l r evs where "in_world h (Requested c cmd) s = Some (s\<lparr>sv_live := l, sv_ranked := r\<rparr>)" "serving dp m h evs l"
    "joins evs = enters (sevs @ [Ask c cmd])" "ranked_fine r"
    "conns_ok (map_of (sv_conns s)) r"
    "set (accounts (lv_world l)) = accounts_after (Requested c cmd) (sv_live s)"
    "set (lv_claims l) = claims_after (Requested c cmd) (sv_live s)"
    by (rule in_world_runs [OF assms(1) ev ev2 assms(3)])
  then show ?thesis using assms(1) by (auto simp: server_ok_def accounts_after_def claims_after_def)
qed

lemma split_seat:
  assumes "tied f A C" and "f c = Some cn"
  shows "A = {a \<in> A. fst a \<noteq> c} \<union> (if cn_pc cn = Playing then {(c, pl_ID (cn_player cn))} else {})"
    "C = {a \<in> C. fst a \<noteq> c} \<union> (if waiting (cn_pc cn) then {(c, pl_ID (cn_player cn))} else {})"
  using tied_seat [OF assms] by blast+

lemma server_tied:
  "server_ok dp m h sevs s \<Longrightarrow>
    tied (map_of (sv_conns s)) (set (accounts (lv_world (sv_live s)))) (set (lv_claims (sv_live s)))"
  by (simp add: server_ok_def)

text \<open>A connection goes on without the world.\<close>

lemma stay_ok:
  assumes "server_ok dp m h sevs s" and "at_pc c s = Some cn" and "waiting pc = waiting (cn_pc cn)"
    and "pc = Playing \<longleftrightarrow> cn_pc cn = Playing" and "server_ok dp m h (sevs @ [ev]) s'"
    and "sv_live s' = sv_live s" and "sv_conns s' = sv_conns s" and "\<And>k. pc = Loading k \<Longrightarrow> loads_at k (sv_ranked s')"
  shows "server_ok dp m h (sevs @ [ev]) (set_pc c pc s')"
proof -
  obtain evs where evs: "serving dp m h evs (sv_live s')" "joins evs = enters (sevs @ [ev])" "ranked_fine (sv_ranked s')"
      "conns_ok (map_of (sv_conns s')) (sv_ranked s')"
    using assms(5) unfolding server_ok_def by blast
  have c: "map_of (sv_conns s') c = Some cn" using assms(2,7) by (simp add: at_pc_def)
  note t = server_tied [OF assms(5)]
  show ?thesis
    by (rule set_pc_ok [OF evs t c assms(8)]; use split_seat [OF t c] in \<open>simp only: assms(3,4)\<close>)
qed

text \<open>The world moves a connection on.\<close>

lemma world_moves:
  assumes "server_ok dp m h sevs s" and "possible ev (sv_live s)" and "is_join ev = is_enter sev"
    and "enters (sevs @ [sev]) < 2 ^ 32" and "at_pc c s = Some cn" and "\<And>k. pc \<noteq> Loading k"
    and "accounts_after ev (sv_live s) = {a \<in> set (accounts (lv_world (sv_live s))). fst a \<noteq> c} \<union>
      (if pc = Playing then {(c, pl_ID (cn_player cn))} else {})"
    and "claims_after ev (sv_live s) = {a \<in> set (lv_claims (sv_live s)). fst a \<noteq> c} \<union>
      (if waiting pc then {(c, pl_ID (cn_player cn))} else {})"
  shows "runs (map_option (set_pc c pc) (in_world h ev s)) (server_ok dp m h (sevs @ [sev]))"
proof -
  obtain l r evs where l: "in_world h ev s = Some (s\<lparr>sv_live := l, sv_ranked := r\<rparr>)" "serving dp m h evs l"
    "joins evs = enters (sevs @ [sev])" "ranked_fine r" "conns_ok (map_of (sv_conns s)) r"
    "set (accounts (lv_world l)) = accounts_after ev (sv_live s)" "set (lv_claims l) = claims_after ev (sv_live s)"
    by (rule in_world_runs [OF assms(1-4)])
  have "server_ok dp m h (sevs @ [sev]) (set_pc c pc (s\<lparr>sv_live := l, sv_ranked := r\<rparr>))"
    by (rule set_pc_ok [of _ _ _ evs _ _ "set (accounts (lv_world (sv_live s)))" "set (lv_claims (sv_live s))" _ cn])
      (use server_tied [OF assms(1)] assms(5-8) l in \<open>simp_all add: at_pc_def\<close>)
  then show ?thesis by (simp add: l(1))
qed

lemma Upgraded_moves:
  assumes "server_ok dp m h sevs s" and "enabled (Upgraded c ok) s" and "enters (sevs @ [Upgraded c ok]) < 2 ^ 32"
  shows "runs (server_step au h (Upgraded c ok) s) (server_ok dp m h (sevs @ [Upgraded c ok]))"
proof -
  let ?ev = "Upgraded c ok"
  obtain cn where cn: "at_pc c s = Some cn" "cn_pc cn = Upgrading" using assms(2) by auto
  note t = split_seat [OF server_tied [OF assms(1)] cn(1) [unfolded at_pc_def]]
  show ?thesis
  proof (cases ok)
    case True
    let ?s = "s\<lparr>sv_sessions := sv_sessions s @ [(c, pl_ID (cn_player cn))]\<rparr>"
    have "server_ok dp m h (sevs @ [?ev]) ?s"
      by (rule ranked_moves [OF assms(1)]) (use assms(1) in \<open>simp_all add: is_enter_def server_ok_def\<close>)
    from stay_ok [OF assms(1) cn(1) _ _ this, of Opened] show ?thesis using True cn(2) by (simp add: cn(1) upgrade_def)
  next
    case False
    have "runs (map_option (set_pc c Gone) (in_world h (Dropped c) s)) (server_ok dp m h (sevs @ [?ev]))"
      by (rule world_moves [OF assms(1) _ _ assms(3) cn(1)])
        (use seat_of [OF assms(1) cn(1)] t(1) in \<open>simp_all add: cn(2) is_join_def is_enter_def accounts_after_def claims_after_def\<close>)
    then show ?thesis using False by (simp add: cn(1) upgrade_def)
  qed
qed

lemma Quit_moves:
  assumes "server_ok dp m h sevs s" and "enabled (Quit c) s" and "enters (sevs @ [Quit c]) < 2 ^ 32"
  shows "runs (quit h c s) (server_ok dp m h (sevs @ [Quit c]))"
proof -
  obtain cn where cn: "at_pc c s = Some cn" "cn_pc cn = Playing" using assms(2) by auto
  note t = split_seat [OF server_tied [OF assms(1)] cn(1) [unfolded at_pc_def]]
  let ?s = "s\<lparr>sv_sessions := filter (\<lambda>(c', _). c' \<noteq> c) (sv_sessions s)\<rparr>"
  have ok: "server_ok dp m h sevs ?s" and c: "at_pc c ?s = Some cn" using assms(1) cn(1) by (simp_all add: server_ok_def at_pc_def)
  show ?thesis
    unfolding quit_def
    by (rule world_moves [OF ok _ _ assms(3) c])
      (use seat_of [OF assms(1) cn(1)] t(2) in \<open>simp_all add: cn(2) is_join_def is_enter_def accounts_after_def claims_after_def\<close>)
qed

lemma Enter_moves:
  assumes "server_ok dp m h sevs s" and "enabled (Enter c) s" and "enters (sevs @ [Enter c]) < 2 ^ 32"
  shows "runs (server_step au h (Enter c) s) (server_ok dp m h (sevs @ [Enter c]))"
proof -
  obtain cn k where cn: "at_pc c s = Some cn" "cn_pc cn = Loading k" "k < length (rq_replies (sv_ranked s))" using assms(2) by auto
  have c: "map_of (sv_conns s) c = Some cn" using cn(1) by (simp add: at_pc_def)
  note t = tied_seat [OF server_tied [OF assms(1)] c] and t' = split_seat [OF server_tied [OF assms(1)] c]
  have "loads_at k (sv_ranked s)" using assms(1) c cn(2) by (simp add: server_ok_def conns_ok_def)
  then obtain r where r: "rq_replies (sv_ranked s) ! k = Loaded r" using cn(3) by (auto simp: loads_at_def)
  then have "Loaded r \<in> set (rq_replies (sv_ranked s))" using cn(3) nth_mem by metis
  then have good: "rating_ok r" using assms(1) by (simp add: server_ok_def ranked_fine_def)
  have "map_of (lv_claims (sv_live s)) c = Some (pl_ID (cn_player cn))"
  proof (cases "map_of (lv_claims (sv_live s)) c")
    case None
    then show ?thesis using seat_of(2) [OF assms(1) cn(1)] by (simp add: cn(2) map_of_eq_None_iff)
  next
    case (Some i)
    then have "(c, i) \<in> {a \<in> set (lv_claims (sv_live s)). fst a = c}" by (auto dest: map_of_SomeD)
    then show ?thesis unfolding t(2) using Some by (simp add: cn(2))
  qed
  then have "runs (enter h c cn r s) (server_ok dp m h (sevs @ [Enter c]))"
    unfolding enter_def
    by (intro world_moves [OF assms(1) _ _ assms(3) cn(1)])
      (use seat_of(2) [OF assms(1) cn(1)] t'(1) good in
        \<open>simp_all add: cn(2) is_join_def is_enter_def accounts_after_def claims_after_def insert_commute\<close>)
  then show ?thesis by (simp add: cn r)
qed

lemma AskRating_moves:
  assumes "server_ok dp m h sevs s" and "at_pc c s = Some cn" and "cn_pc cn = Opened"
  shows "server_ok dp m h (sevs @ [AskRating c]) (ask_rating c i s)"
proof -
  have fine: "ranked_fine (sv_ranked s)" using assms(1) by (simp add: server_ok_def)
  let ?s = "s\<lparr>sv_ranked := enqueue (Load i) (sv_ranked s)\<rparr>"
  have "server_ok dp m h (sevs @ [AskRating c]) ?s"
    by (rule ranked_moves [OF assms(1)]) (use enqueue_fine(1,2) [OF fine, of "Load i"] in \<open>simp_all add: is_enter_def enqueue_def\<close>)
  moreover have "loads_at (length (rq_replies (sv_ranked s)) + length (rq_queue (sv_ranked s))) (enqueue (Load i) (sv_ranked s))"
    by (rule enqueue_fine(3) [OF fine _ refl]) simp
  ultimately show ?thesis
    unfolding ask_rating_def Let_def by (intro stay_ok [OF assms(1,2)]) (simp_all add: assms(3))
qed

lemma Look_moves:
  assumes "server_ok dp m h sevs s" and "at_pc c s = Some cn" and "cn_pc cn = Checking dl"
  shows "server_ok dp m h (sevs @ [Look c]) (check_deadline c dl s)"
proof -
  have "server_ok dp m h (sevs @ [Look c]) s"
    by (rule ranked_moves [OF assms(1)]) (use assms(1) in \<open>simp_all add: is_enter_def server_ok_def\<close>)
  note stay = stay_ok [OF assms(1,2) _ _ this]
  show ?thesis unfolding check_deadline_def Let_def by (simp split: if_split; intro conjI impI stay; simp add: assms(3))
qed

text \<open>A try to claim, by a connection with no seat.\<close>

lemma claim_moves:
  assumes "server_ok dp m h sevs s" and "map_of (sv_conns s) c = Some cn" and "cn_pc cn \<noteq> Playing" and "\<not> waiting (cn_pc cn)"
    and "claim_seat c (pl_ID (cn_player cn)) (sv_live s) = (ok, l)" and "\<not> waiting pc" and "pc \<noteq> Playing"
    and "sv_live s' = l" and "sv_conns s' = sv_conns s" and "sv_ranked s' = sv_ranked s"
  shows "server_ok dp m h sevs (set_pc c (if ok then Upgrading else pc) s')"
proof -
  let ?i = "pl_ID (cn_player cn)" and ?L = "sv_live s"
  obtain evs where evs: "serving dp m h evs ?L" "joins evs = enters sevs" "ranked_fine (sv_ranked s)"
      "conns_ok (map_of (sv_conns s)) (sv_ranked s)"
    using assms(1) unfolding server_ok_def by blast
  note t = server_tied [OF assms(1)] and u = split_seat [OF server_tied [OF assms(1)] assms(2)]
  have c: "at_pc c s = Some cn" using assms(2) by (simp add: at_pc_def)
  have ev: "possible (Claimed c ?i) ?L" using seat_of [OF assms(1) c] assms(3,4) by simp
  have re: "react h (Claimed c ?i) ?L = Some l" "ok \<longleftrightarrow> ?i \<notin> set (w_online (lv_world ?L))"
    using assms(5) by (auto simp: claim_seat_def ClaimOnline_def Let_def split: if_splits)
  have small: "joins (evs @ [Claimed c ?i]) < 2 ^ 32" "joins (evs @ [Claimed c ?i]) = enters sevs"
    using evs(1,2) by (simp_all add: is_join_def serving_def)
  have l: "serving dp m h (evs @ [Claimed c ?i]) l" using serving_runs [OF evs(1) ev small(1)] re(1) by (simp add: runs_iff)
  note ac = react_accounts [OF evs(1) ev small(1) re(1)] and cl = react_claims [OF ev re(1)]
  show ?thesis
    by (rule set_pc_ok [of _ _ _ "evs @ [Claimed c ?i]" _ _ "set (accounts (lv_world ?L))" "set (lv_claims ?L)" _ cn])
      (use l small(2) evs(3,4) t u assms(2-4,6-10) ac cl re(2) in
        \<open>simp_all add: accounts_after_def claims_after_def split: if_splits\<close>)
qed

lemma Retry_moves:
  assumes "server_ok dp m h sevs s" and "at_pc c s = Some cn" and "cn_pc cn = Sleeping dl wake"
  shows "server_ok dp m h (sevs @ [Retry c]) (try_again c (pl_ID (cn_player cn)) dl s)"
proof -
  obtain ok l where cl: "claim_seat c (pl_ID (cn_player cn)) (sv_live s) = (ok, l)" by (cases "claim_seat c (pl_ID (cn_player cn)) (sv_live s)")
  have "server_ok dp m h (sevs @ [Retry c]) s"
    by (rule ranked_moves [OF assms(1)]) (use assms(1) in \<open>simp_all add: is_enter_def server_ok_def\<close>)
  from claim_moves [OF this assms(2) [unfolded at_pc_def] _ _ cl] show ?thesis
    by (simp add: assms(3) try_again_def cl)
qed

text \<open>What \<open>handleWS\<close> has checked.\<close>

lemma find_hit: "find P xs = Some x \<Longrightarrow> x \<in> set xs \<and> P x"
  by (induction xs) (auto split: if_splits)

lemma PlayerFromToken_sound:
  assumes "PlayerFromToken au token now st = (r, st')"
  shows "db_tables st' = db_tables st"
    "r = Some p \<Longrightarrow> p \<in> fst ` set (t_Player (db_tables st)) \<and> VerifyToken au token now = Some (pl_Username p)"
proof -
  have "db_tables st' = db_tables st \<and>
    (r = Some p \<longrightarrow> p \<in> fst ` set (t_Player (db_tables st)) \<and> VerifyToken au token now = Some (pl_Username p))"
  proof (cases "VerifyToken au token now")
    case (Some uname)
    obtain q st1 where q: "PlayerByUsername uname st = (q, st1)" by (cases "PlayerByUsername uname st")
    have t: "db_tables st1 = db_tables st" using q select_tables [of _ st] unfolding PlayerByUsername_def by (metis snd_conv)
    have "p \<in> fst ` set (t_Player (db_tables st)) \<and> uname = pl_Username p" if "q = Inr (Some p)"
      using q that by (auto simp: PlayerByUsername_def select_def statement_def Let_def player_by_name_def
          dest!: find_hit split: if_splits intro: rev_image_eqI)
    then show ?thesis using assms t q by (auto simp: PlayerFromToken_def Some split: sum.splits)
  qed (use assms in \<open>simp add: PlayerFromToken_def\<close>)
  then show "db_tables st' = db_tables st"
    "r = Some p \<Longrightarrow> p \<in> fst ` set (t_Player (db_tables st)) \<and> VerifyToken au token now = Some (pl_Username p)" by simp_all
qed

lemma Playable_sound:
  assumes "Playable p i st = (r, st')"
  shows "db_tables st' = db_tables st" "r = Some ch \<Longrightarrow> sc_ID ch = i \<and> sc_PlayerID ch = pl_ID p"
proof -
  obtain q st1 where q: "CharacterByID i st = (q, st1)" by (cases "CharacterByID i st")
  have t: "db_tables st1 = db_tables st" using q select_tables [of _ st] unfolding CharacterByID_def by (metis snd_conv)
  have i: "sc_ID ch = i" if "q = Inr (Some ch)"
    using q that by (auto simp: CharacterByID_def select_def statement_def Let_def find_Some_iff split: if_splits)
  show "db_tables st' = db_tables st" using assms t q by (auto simp: Playable_def split: sum.splits option.splits if_splits)
  show "r = Some ch \<Longrightarrow> sc_ID ch = i \<and> sc_PlayerID ch = pl_ID p"
    using assms i q by (auto simp: Playable_def split: sum.splits option.splits if_splits)
qed

lemma ws_auth_sound:
  assumes "ws_auth au token character now st = (r, st')"
  shows "db_tables st' = db_tables st"
    "r = Inr (p, ch) \<Longrightarrow> p \<in> fst ` set (t_Player (db_tables st)) \<and> VerifyToken au token now = Some (pl_Username p) \<and>
      Atoi character = Some (sc_ID ch) \<and> sc_PlayerID ch = pl_ID p"
proof -
  obtain q st1 where q: "PlayerFromToken au token now st = (q, st1)" by (cases "PlayerFromToken au token now st")
  have "db_tables st' = db_tables st \<and> (r = Inr (p, ch) \<longrightarrow> p \<in> fst ` set (t_Player (db_tables st)) \<and>
      VerifyToken au token now = Some (pl_Username p) \<and> Atoi character = Some (sc_ID ch) \<and> sc_PlayerID ch = pl_ID p)"
  proof (cases "q = None \<or> Atoi character = None")
    case True
    then show ?thesis using assms PlayerFromToken_sound(1) [OF q] by (auto simp: ws_auth_def q split: option.splits)
  next
    case False
    then obtain p' i where p': "q = Some p'" "Atoi character = Some i" by auto
    obtain ch' st2 where c: "Playable p' i st1 = (ch', st2)" by (cases "Playable p' i st1")
    show ?thesis
      using assms PlayerFromToken_sound(1) [OF q] PlayerFromToken_sound(2) [OF q, of p'] Playable_sound(1) [OF c]
        Playable_sound(2) [OF c, of ch] p'
      by (cases ch') (auto simp: ws_auth_def q c)
  qed
  then show "db_tables st' = db_tables st"
    "r = Inr (p, ch) \<Longrightarrow> p \<in> fst ` set (t_Player (db_tables st)) \<and> VerifyToken au token now = Some (pl_Username p) \<and>
      Atoi character = Some (sc_ID ch) \<and> sc_PlayerID ch = pl_ID p" by simp_all
qed

lemma Connect_moves:
  assumes "server_ok dp m h sevs s" and "c \<notin> fst ` set (sv_conns s)"
  shows "server_ok dp m h (sevs @ [Connect c token character]) (connect au c token character s)"
proof -
  let ?ev = "Connect c token character" and ?now = "w_now (lv_world (sv_live s))"
  obtain r st where a: "ws_auth au token character ?now (rq_store (sv_ranked s)) = (r, st)"
    by (cases "ws_auth au token character ?now (rq_store (sv_ranked s))")
  note db = ws_auth_sound(1) [OF a] and who = ws_auth_sound(2) [OF a]
  let ?s = "s\<lparr>sv_ranked := (sv_ranked s)\<lparr>rq_store := st\<rparr>\<rparr>"
  have fine: "ranked_fine ((sv_ranked s)\<lparr>rq_store := st\<rparr>)" "loads_at k ((sv_ranked s)\<lparr>rq_store := st\<rparr>) = loads_at k (sv_ranked s)" for k
    using assms(1) db by (simp_all add: server_ok_def ranked_fine_def loads_at_def)
  have s: "server_ok dp m h (sevs @ [?ev]) ?s"
    by (rule ranked_moves [OF assms(1)]) (simp_all add: is_enter_def fine db)
  show ?thesis
  proof (cases r)
    case (Inl e)
    then show ?thesis using s by (simp add: connect_def a)
  next
    case (Inr x)
    obtain p ch where x: "x = (p, ch)" by (cases x)
    define cn where "cn = \<lparr>cn_player = p, cn_char = ch, cn_pc = Checking 0\<rparr>"
    let ?t = "?s\<lparr>sv_conns := sv_conns s @ [(c, cn)]\<rparr>"
    have new: "map_of (sv_conns s) c = None" using assms(2) by (simp add: map_of_eq_None_iff)
    have f: "[c \<mapsto> cn] ++ map_of (sv_conns s) = (map_of (sv_conns s))(c \<mapsto> cn)"
      using new by (auto simp: map_add_def fun_eq_iff split: option.split)
    have "admitted st cn" using who [of p ch] db by (auto simp: admitted_def cn_def Inr x)
    then have "conns_ok ((map_of (sv_conns s))(c \<mapsto> cn)) ((sv_ranked s)\<lparr>rq_store := st\<rparr>)"
      using s by (simp add: server_ok_def conns_ok_def cn_def)
    moreover have "tied ((map_of (sv_conns s))(c \<mapsto> cn)) (set (accounts (lv_world (sv_live s)))) (set (lv_claims (sv_live s)))"
      using server_tied [OF s] new by (auto simp: tied_def cn_def)
    ultimately have t: "server_ok dp m h (sevs @ [?ev]) ?t" using s by (simp add: server_ok_def f)
    obtain ok l where cl: "claim_seat c (pl_ID p) (sv_live s) = (ok, l)" by (cases "claim_seat c (pl_ID p) (sv_live s)")
    have "map_of (sv_conns ?t) c = Some cn" by (simp add: f)
    note next_pc = claim_moves [OF t this, of ok l]
    have "server_ok dp m h (sevs @ [?ev]) (take_over c (pl_ID p) ?t)"
    proof (cases ok)
      case True
      then show ?thesis
        using next_pc [of "Checking 0" "?t\<lparr>sv_live := l\<rparr>"] cl by (simp add: take_over_def Let_def cn_def)
    next
      case False
      then show ?thesis
        using next_pc [of "Checking (w_now (lv_world l) + takeOverWait)" "?t\<lparr>sv_live := l,
            sv_closing := sv_closing s @ map fst (filter (\<lambda>(_, i'). i' = pl_ID p) (sv_sessions s))\<rparr>"] cl
        by (simp add: take_over_def Let_def cn_def)
    qed
    then show ?thesis by (simp add: connect_def a Inr x cn_def)
  qed
qed

lemma server_step_runs:
  assumes "server_ok dp m h sevs s" and "enabled ev s" and "enters (sevs @ [ev]) < 2 ^ 32"
  shows "runs (server_step au h ev s) (server_ok dp m h (sevs @ [ev]))"
proof (cases ev)
  case (Connect c token character)
  then show ?thesis using Connect_moves [OF assms(1)] assms(2) by simp
next
  case (Look c)
  then show ?thesis using Look_moves [OF assms(1)] assms(2) by auto
next
  case (Retry c)
  then show ?thesis using Retry_moves [OF assms(1)] assms(2) by auto
next
  case (Upgraded c ok)
  then show ?thesis using Upgraded_moves [OF assms(1)] assms(2,3) by simp
next
  case (AskRating c)
  then show ?thesis using AskRating_moves [OF assms(1)] assms(2) by auto
next
  case (Enter c)
  then show ?thesis using Enter_moves [OF assms(1)] assms(2,3) by simp
next
  case (Quit c)
  then show ?thesis using Quit_moves [OF assms(1)] assms(2,3) by simp
next
  case (Ask c cmd)
  then show ?thesis using Ask_moves [OF assms(1)] assms(2,3) by simp
next
  case (Around ev')
  then show ?thesis using Around_moves [OF assms(1)] assms(2,3) by simp
next
  case (Service ev')
  then show ?thesis using Service_moves [OF assms(1)] assms(2) by simp
next
  case (Http op)
  then show ?thesis using Http_moves [OF assms(1)] assms(2) by simp
qed

lemma set_pc_who:
  assumes "map_of (sv_conns (set_pc c pc s)) c' = Some cn'"
  shows "\<exists>cn. map_of (sv_conns s) c' = Some cn \<and> cn_player cn' = cn_player cn \<and> cn_char cn' = cn_char cn"
  using assms by (auto simp: set_pc_conns split: if_splits)

lemma in_world_conns: "in_world h ev s = Some s' \<Longrightarrow> sv_conns s' = sv_conns s"
  by (auto simp: in_world_def bind_eq_Some_conv Let_def)

lemmas step_defs = check_deadline_def try_again_def upgrade_def ask_rating_def enter_def quit_def Let_def case_prod_unfold

lemma step_conns:
  assumes "server_step au h ev s = Some s'" and "map_of (sv_conns s') c = Some cn'"
  shows "(\<exists>cn. map_of (sv_conns s) c = Some cn \<and> cn_player cn' = cn_player cn \<and> cn_char cn' = cn_char cn) \<or>
    (\<exists>token character st'. ev = Connect c token character \<and>
      ws_auth au token character (w_now (lv_world (sv_live s))) (rq_store (sv_ranked s)) = (Inr (cn_player cn', cn_char cn'), st'))"
proof (cases ev)
  case (Connect c1 token character)
  let ?a = "ws_auth au token character (w_now (lv_world (sv_live s))) (rq_store (sv_ranked s))"
  obtain r st where a: "?a = (r, st)" by (cases ?a)
  show ?thesis
  proof (cases r)
    case (Inl e)
    then show ?thesis using assms by (auto simp: Connect connect_def a)
  next
    case (Inr x)
    obtain p ch where x: "x = (p, ch)" by (cases x)
    have "\<exists>pc t. s' = set_pc c1 pc t \<and> sv_conns t = sv_conns s @ [(c1, \<lparr>cn_player = p, cn_char = ch, cn_pc = Checking 0\<rparr>)]"
      using assms(1) by (auto simp: Connect connect_def a Inr x take_over_def Let_def split: prod.splits if_splits; fastforce)
    then obtain pc t where t: "s' = set_pc c1 pc t" "sv_conns t = sv_conns s @ [(c1, \<lparr>cn_player = p, cn_char = ch, cn_pc = Checking 0\<rparr>)]"
      by blast
    show ?thesis
      using set_pc_who [OF assms(2) [unfolded t(1)]] a Inr x
      by (auto simp: Connect t(2) map_add_def split: option.splits if_splits)
  qed
qed (use assms in \<open>auto simp: step_defs at_pc_def dest!: set_pc_who in_world_conns
    split: option.splits ws_pc.splits reply.splits if_splits\<close>)

section \<open>What always holds\<close>

lemma start_ok:
  assumes "duel_words_ok dp" and "map_valid m" and "ratings_good (db_tables st)"
  shows "server_ok dp m h [] (start_server (wordle_puzzle dp) m gods now r st)"
proof -
  have "serving dp m h [] (fresh_server (wordle_puzzle dp) m gods now r)"
    using assms(1,2) reaches.start [of h "fresh_server (wordle_puzzle dp) m gods now r"] unfolding serving_def by auto
  then show ?thesis
    using assms(3)
    by (auto simp: server_ok_def start_server_def NewService_def ranked_fine_def tied_def conns_ok_def enters_def
        fresh_server_def NewWorld_def accounts_def)
qed

lemma server_runs_ok:
  assumes "server_runs au h s0 sevs s" and "server_ok dp m h [] s0" and "enters sevs < 2 ^ 32"
  shows "server_ok dp m h sevs s"
  using assms
proof (induction rule: server_runs.induct)
  case (stepped evs s ev s')
  then show ?case using server_step_runs [of dp m h evs s ev au] by (simp add: enters_snoc runs_iff)
qed simp

lemma all_let_in:
  assumes "server_runs au h s0 sevs s" and "sv_conns s0 = []" and "map_of (sv_conns s) c = Some cn"
  shows "\<exists>pre post s1 token character st'. sevs = pre @ Connect c token character # post \<and> server_runs au h s0 pre s1 \<and>
    ws_auth au token character (w_now (lv_world (sv_live s1))) (rq_store (sv_ranked s1)) = (Inr (cn_player cn, cn_char cn), st')"
  using assms
proof (induction arbitrary: cn rule: server_runs.induct)
  case (stepped evs s ev s')
  consider (old) cn0 where "map_of (sv_conns s) c = Some cn0" "cn_player cn = cn_player cn0" "cn_char cn = cn_char cn0"
    | (new) token character st' where "ev = Connect c token character"
      "ws_auth au token character (w_now (lv_world (sv_live s))) (rq_store (sv_ranked s)) = (Inr (cn_player cn, cn_char cn), st')"
    using step_conns [OF stepped.hyps(3) stepped.prems(2)] by blast
  then show ?case
  proof cases
    case old
    then show ?thesis using stepped.IH [OF stepped.prems(1) old(1)] by (metis append.assoc append_Cons)
  next
    case new
    then show ?thesis using stepped.hyps(1) by blast
  qed
qed simp

text \<open>C2: The server runs its world as the properties of the world assume. Whatever its connections, its
database, its ranked service and its HTTP handlers do, in any order, every step it can take has a result;
what the world saw of the steps so far is a run in which every event was possible; and every rating that
is stored stays consistent.\<close>

theorem server_never_panics:
  assumes "duel_words_ok dp" and "map_valid m" and "ratings_good (db_tables st)"
    and "server_runs au h (start_server (wordle_puzzle dp) m gods now r st) sevs s" and "enters (sevs @ [ev]) < 2 ^ 32"
    and "enabled ev s"
  shows "\<exists>evs s' evs'. serving dp m h evs (sv_live s) \<and> joins evs = enters sevs \<and> server_step au h ev s = Some s' \<and>
    serving dp m h evs' (sv_live s') \<and> joins evs' = enters (sevs @ [ev]) \<and> ratings_good (db_tables (rq_store (sv_ranked s')))"
proof -
  have small: "enters sevs < 2 ^ 32" using assms(5) by (simp add: enters_snoc)
  note ok = server_runs_ok [OF assms(4) start_ok [OF assms(1-3)] small]
  obtain s' where s': "server_step au h ev s = Some s'" "server_ok dp m h (sevs @ [ev]) s'"
    using server_step_runs [OF ok assms(6,5)] unfolding runs_iff by blast
  show ?thesis using ok s' unfolding server_ok_def ranked_fine_def by blast
qed

text \<open>C3: Only owners play. Every account in the world is played by one connection, which was let in when it
connected: its token was valid then and names the account, which exists, and the character it chose
belongs to that account.\<close>

theorem only_owners_play:
  assumes "duel_words_ok dp" and "map_valid m" and "ratings_good (db_tables st)"
    and "server_runs au h (start_server (wordle_puzzle dp) m gods now r st) sevs s" and "enters sevs < 2 ^ 32"
    and "(c, i) \<in> set (accounts (lv_world (sv_live s)))"
  shows "(\<exists>p ch pre post s1 token character st'. sevs = pre @ Connect c token character # post \<and>
      server_runs au h (start_server (wordle_puzzle dp) m gods now r st) pre s1 \<and>
      ws_auth au token character (w_now (lv_world (sv_live s1))) (rq_store (sv_ranked s1)) = (Inr (p, ch), st') \<and>
      VerifyToken au token (w_now (lv_world (sv_live s1))) = Some (pl_Username p) \<and> pl_ID p = i \<and>
      p \<in> fst ` set (t_Player (db_tables (rq_store (sv_ranked s)))) \<and> Atoi character = Some (sc_ID ch) \<and> sc_PlayerID ch = i) \<and>
    (\<forall>c'. (c', i) \<in> set (accounts (lv_world (sv_live s))) \<longrightarrow> c' = c)"
proof
  note ok = server_runs_ok [OF assms(4) start_ok [OF assms(1-3)] assms(5)]
  obtain cn where cn: "map_of (sv_conns s) c = Some cn" "pl_ID (cn_player cn) = i"
    using server_tied [OF ok] assms(6) unfolding tied_def by blast
  have p: "admitted (rq_store (sv_ranked s)) cn" using ok cn(1) by (simp add: server_ok_def conns_ok_def)
  have "sv_conns (start_server (wordle_puzzle dp) m gods now r st) = []" by (simp add: start_server_def)
  from all_let_in [OF assms(4) this cn(1)] obtain pre post s1 token character st' where
    in': "sevs = pre @ Connect c token character # post" "server_runs au h (start_server (wordle_puzzle dp) m gods now r st) pre s1"
      "ws_auth au token character (w_now (lv_world (sv_live s1))) (rq_store (sv_ranked s1)) = (Inr (cn_player cn, cn_char cn), st')"
    by blast
  note who = ws_auth_sound(2) [OF in'(3) refl]
  have "VerifyToken au token (w_now (lv_world (sv_live s1))) = Some (pl_Username (cn_player cn))"
    "Atoi character = Some (sc_ID (cn_char cn))" "sc_PlayerID (cn_char cn) = i" using who cn(2) by auto
  moreover have "cn_player cn \<in> fst ` set (t_Player (db_tables (rq_store (sv_ranked s))))" using p by (simp add: admitted_def)
  ultimately show "\<exists>p ch pre post s1 token character st'. sevs = pre @ Connect c token character # post \<and>
      server_runs au h (start_server (wordle_puzzle dp) m gods now r st) pre s1 \<and>
      ws_auth au token character (w_now (lv_world (sv_live s1))) (rq_store (sv_ranked s1)) = (Inr (p, ch), st') \<and>
      VerifyToken au token (w_now (lv_world (sv_live s1))) = Some (pl_Username p) \<and> pl_ID p = i \<and>
      p \<in> fst ` set (t_Player (db_tables (rq_store (sv_ranked s)))) \<and> Atoi character = Some (sc_ID ch) \<and> sc_PlayerID ch = i"
    using in' cn(2) by blast
next
  note ok = server_runs_ok [OF assms(4) start_ok [OF assms(1-3)] assms(5)]
  obtain evs where "serving dp m h evs (sv_live s)" using ok unfolding server_ok_def by blast
  from live_okD(4) [OF serving_ok [OF this]] have "distinct (map snd (accounts (lv_world (sv_live s))))"
    by (simp only: seats_def map_append distinct_append)
  then have inj: "inj_on snd (set (accounts (lv_world (sv_live s))))" by (simp only: distinct_map)
  show "\<forall>c'. (c', i) \<in> set (accounts (lv_world (sv_live s))) \<longrightarrow> c' = c"
    using inj assms(6) inj_onD [of snd _ "(_, i)" "(c, i)"] by fastforce
qed


text \<open>A run in which a connection joins.\<close>

definition demo_au :: crypto where
  "demo_au = \<lparr>GenerateFromPassword = \<lambda>pw salt. None, CompareHashAndPassword = \<lambda>h pw. False,
     SignedString = \<lambda>u e. None, ParseToken = \<lambda>tok moment. Some (Some tok)\<rparr>"

definition demo_tables :: tables where
  "demo_tables = empty_tables\<lparr>t_Player := [(\<lparr>pl_ID = 1, pl_Username = ''ada''\<rparr>, ''hash'')],
     t_Character := [\<lparr>sc_ID = 2, sc_PlayerID = 1, sc_Slot = 0, sc_Name = ''Ada'', sc_Class = ''knight'', sc_Deleted = False\<rparr>]\<rparr>"

definition demo_server :: server where
  "demo_server = start_server (wordle_puzzle demo_words) demo_map None 0 \<lparr>draws = \<lambda>_. 0, drawn = 0\<rparr> (up demo_tables)"

definition demo_conn :: "ws_pc \<Rightarrow> connection" where
  "demo_conn pc = \<lparr>cn_player = \<lparr>pl_ID = 1, pl_Username = ''ada''\<rparr>,
     cn_char = \<lparr>sc_ID = 2, sc_PlayerID = 1, sc_Slot = 0, sc_Name = ''Ada'', sc_Class = ''knight'', sc_Deleted = False\<rparr>, cn_pc = pc\<rparr>"

lemma demo_start_facts: "duel_words_ok demo_words" "map_valid demo_map" "ratings_good (db_tables (up demo_tables))"
  by (simp_all add: duel_words_ok_def words_ok_def demo_words_def capitals_def is_AZ_def map_valid_def demo_map_def inBounds_def
      ratings_good_def demo_tables_def empty_tables_def)

lemma Atoi_2: "Atoi ''2'' = Some 2"
  by code_simp

lemma demo_auth:
  "ws_auth demo_au ''ada'' ''2'' moment (up demo_tables) = (Inr (cn_player (demo_conn pc), cn_char (demo_conn pc)), up demo_tables)"
  by (simp add: ws_auth_def PlayerFromToken_def VerifyToken_def demo_au_def PlayerByUsername_def player_by_name_def Playable_def
      CharacterByID_def demo_tables_def demo_conn_def empty_tables_def Atoi_2)

definition demo_until :: "server_event list" where
  "demo_until = [Connect 1 ''ada'' ''2'', Upgraded 1 True, AskRating 1, Service Turn]"

lemma demo_loaded:
  "\<exists>s. server_runs demo_au None demo_server demo_until s \<and> at_pc 1 s = Some (demo_conn (Loading 0)) \<and>
     rq_replies (sv_ranked s) = [Loaded NewRating]"
proof -
  let ?l = "(sv_live demo_server)\<lparr>lv_world := (lv_world (sv_live demo_server))\<lparr>w_online := [1]\<rparr>, lv_claims := [(1, 1)]\<rparr>"
  let ?s1 = "demo_server\<lparr>sv_live := ?l, sv_conns := [(1, demo_conn Upgrading)]\<rparr>"
  let ?s2 = "?s1\<lparr>sv_conns := [(1, demo_conn Opened)], sv_sessions := [(1, 1)]\<rparr>"
  let ?s3 = "?s2\<lparr>sv_conns := [(1, demo_conn (Loading 0))], sv_ranked := enqueue (Load 2) (sv_ranked demo_server)\<rparr>"
  have st: "rq_store (sv_ranked demo_server) = up demo_tables" by (simp add: demo_server_def start_server_def NewService_def)
  have 1: "server_step demo_au None (Connect 1 ''ada'' ''2'') demo_server = Some ?s1"
    using demo_auth [of _ Upgrading]
    by (simp add: connect_def st take_over_def claim_seat_def ClaimOnline_def demo_conn_def)
      (simp add: demo_server_def start_server_def NewService_def fresh_server_def NewWorld_def set_pc_def)
  have 2: "server_step demo_au None (Upgraded 1 True) ?s1 = Some ?s2"
    by (simp add: at_pc_def upgrade_def set_pc_def demo_conn_def) (simp add: demo_server_def start_server_def)
  have 3: "server_step demo_au None (AskRating 1) ?s2 = Some ?s3"
    by (simp add: at_pc_def ask_rating_def set_pc_def demo_conn_def) (simp add: demo_server_def start_server_def NewService_def)
  have "server_runs demo_au None demo_server [Connect 1 ''ada'' ''2''] ?s1"
    using server_runs.stepped [OF server_runs.begun _ 1] by (simp add: demo_server_def start_server_def)
  then have "server_runs demo_au None demo_server [Connect 1 ''ada'' ''2'', Upgraded 1 True] ?s2"
    using server_runs.stepped [OF _ _ 2] by (fastforce simp: at_pc_def demo_conn_def)
  then have "server_runs demo_au None demo_server [Connect 1 ''ada'' ''2'', Upgraded 1 True, AskRating 1] ?s3"
    using server_runs.stepped [OF _ _ 3] by (fastforce simp: at_pc_def demo_conn_def)
  from server_runs.stepped [OF this, of "Service Turn"]
  have "server_runs demo_au None demo_server demo_until (?s3\<lparr>sv_ranked := run_step (sv_ranked ?s3)\<rparr>)" by (simp add: demo_until_def)
  moreover have "rq_replies (run_step (sv_ranked ?s3)) = [Loaded NewRating]"
    by (simp add: run_step_def enqueue_def demo_server_def start_server_def NewService_def StoredRating_def demo_tables_def empty_tables_def)
  ultimately show ?thesis by (intro exI [of _ "?s3\<lparr>sv_ranked := run_step (sv_ranked ?s3)\<rparr>"]) (simp add: at_pc_def)
qed

theorem server_never_panics_witness:
  "\<exists>s s' evs'. server_runs demo_au None demo_server demo_until s \<and> server_step demo_au None (Enter 1) s = Some s' \<and>
    serving demo_words demo_map None evs' (sv_live s') \<and> joins evs' = 1"
proof -
  obtain s where s: "server_runs demo_au None demo_server demo_until s" "at_pc 1 s = Some (demo_conn (Loading 0))"
    "rq_replies (sv_ranked s) = [Loaded NewRating]" using demo_loaded by blast
  have "enabled (Enter 1) s" using s(2,3) by (simp add: demo_conn_def)
  moreover have "enters (demo_until @ [Enter 1]) = 1" by (simp add: enters_def demo_until_def is_enter_def)
  ultimately show ?thesis
    using server_never_panics [OF demo_start_facts s(1) [unfolded demo_server_def], of "Enter 1"] s(1) by fastforce
qed

theorem only_owners_play_witness:
  "\<exists>s. server_runs demo_au None demo_server (demo_until @ [Enter 1]) s \<and> (1, 1) \<in> set (accounts (lv_world (sv_live s))) \<and>
    (\<forall>c'. (c', 1) \<in> set (accounts (lv_world (sv_live s))) \<longrightarrow> c' = 1)"
proof -
  obtain s where s: "server_runs demo_au None demo_server demo_until s" "at_pc 1 s = Some (demo_conn (Loading 0))"
    "rq_replies (sv_ranked s) = [Loaded NewRating]" using demo_loaded by blast
  have en: "enabled (Enter 1) s" using s(2,3) by (simp add: demo_conn_def)
  have n: "enters demo_until < 2 ^ 32" "enters (demo_until @ [Enter 1]) < 2 ^ 32"
    by (simp_all add: enters_def demo_until_def is_enter_def)
  have ok: "server_ok demo_words demo_map None demo_until s"
    by (rule server_runs_ok [OF s(1) _ n(1)]) (unfold demo_server_def, rule start_ok [OF demo_start_facts])
  obtain s' where s': "server_step demo_au None (Enter 1) s = Some s'" "server_ok demo_words demo_map None (demo_until @ [Enter 1]) s'"
    using server_step_runs [OF ok en n(2)] unfolding runs_iff by blast
  have run: "server_runs demo_au None demo_server (demo_until @ [Enter 1]) s'" by (rule server_runs.stepped [OF s(1) en s'(1)])
  have "enter None 1 (demo_conn (Loading 0)) NewRating s = Some s'" using s'(1) s(2,3) by (simp add: demo_conn_def)
  then have "at_pc 1 s' = Some (demo_conn Playing)"
    using s(2) by (auto simp: enter_def at_pc_def set_pc_conns demo_conn_def dest!: in_world_conns)
  then have seat: "(1, 1) \<in> set (accounts (lv_world (sv_live s')))"
    using server_tied [OF s'(2)] unfolding tied_def at_pc_def by (auto simp: demo_conn_def)
  show ?thesis
    using run seat only_owners_play [OF demo_start_facts run [unfolded demo_server_def] n(2) seat] by blast
qed

end
