(* ===== verification/Migrations.thy ===== *)
theory Migrations
  imports Store_Facts
begin

text \<open>
  Opening the database (\<open>internal/store/store.go\<close>): the schema's changes, in order, each in a transaction
  of its own with the version it leads to. The lemmas show that no result of the time before characters
  is lost, that a failure leaves a version whole, and that opening the database again makes up for it.
\<close>

section \<open>A database of any version\<close>

text \<open>A result, before it had a character.\<close>

record OldResult =
  ow_Date :: string
  ow_Win :: bool
  ow_Seconds :: real
  ow_GuessCount :: int
  ow_PlayerID :: int

text \<open>
  A table is \<open>None\<close> until it is created, and so is the row of \<open>schema_version\<close>. The columns of \<open>Wordle\<close> change.
\<close>

record database =
  sq_version :: "nat option option"
  sq_Player :: "(Player \<times> string) list option"
  sq_Wordle :: "((int \<times> OldResult) list + (int \<times> WordleResult) list) option"
  sq_Character :: "Character list option"
  sq_Rating :: "StoreRating list option"
  sq_RankedDuel :: "(int \<times> RankedDuel \<times> int option) list option"
  sq_seqPlayer :: int
  sq_seqWordle :: int
  sq_seqCharacter :: int
  sq_seqRankedDuel :: int

definition no_database :: database where
  "no_database = \<lparr>sq_version = None, sq_Player = None, sq_Wordle = None, sq_Character = None, sq_Rating = None,
     sq_RankedDuel = None, sq_seqPlayer = 0, sq_seqWordle = 0, sq_seqCharacter = 0, sq_seqRankedDuel = 0\<rparr>"

section \<open>The migrations\<close>

text \<open>\<open>None\<close> is an error, which rolls the whole migration back.\<close>

definition create_accounts :: "database \<Rightarrow> database option" where
  "create_accounts d = Some (d\<lparr>
     sq_Player := Some (case sq_Player d of None \<Rightarrow> [] | Some ps \<Rightarrow> ps),
     sq_Wordle := Some (case sq_Wordle d of None \<Rightarrow> Inl [] | Some ws \<Rightarrow> ws)\<rparr>)"

text \<open>The knights of those who already played; a scan of a table is in the order of its IDs.\<close>

fun knights :: "int \<Rightarrow> (Player \<times> string) list \<Rightarrow> Character list" where
  "knights i [] = []"
| "knights i ((p, _) # ps) = \<lparr>sc_ID = i, sc_PlayerID = pl_ID p, sc_Slot = 0, sc_Name = pl_Username p,
     sc_Class = ''knight'', sc_Deleted = False\<rparr> # knights (i + 1) ps"

definition played :: "(int \<times> OldResult) list \<Rightarrow> (Player \<times> string) list \<Rightarrow> (Player \<times> string) list" where
  "played rs ps = filter (\<lambda>(p, _). pl_ID p \<in> (ow_PlayerID \<circ> snd) ` set rs) ps"

definition with_character :: "OldResult \<Rightarrow> Character \<Rightarrow> WordleResult" where
  "with_character r c = \<lparr>wl_Date = ow_Date r, wl_Win = ow_Win r, wl_Seconds = ow_Seconds r, wl_GuessCount = ow_GuessCount r,
     wl_PlayerID = ow_PlayerID r, wl_CharacterID = sc_ID c\<rparr>"

definition join_characters :: "Character list \<Rightarrow> (int \<times> OldResult) list \<Rightarrow> (int \<times> WordleResult) list" where
  "join_characters cs rs = concat (map (\<lambda>(i, r).
     map (\<lambda>c. (i, with_character r c)) (filter (\<lambda>c. sc_PlayerID c = ow_PlayerID r) cs)) rs)"

definition add_characters :: "database \<Rightarrow> database option" where
  "add_characters d =
    (case (sq_Player d, sq_Wordle d, sq_Character d) of
      (Some ps, Some (Inl rs), None) \<Rightarrow>
        (let cs = knights 1 (played rs ps);
             ws = join_characters cs rs in
         if distinct (map fst ws) \<and> distinct (map (\<lambda>(_, r). (wl_PlayerID r, wl_Date r)) ws)
         then Some (d\<lparr>sq_Character := Some cs, sq_seqCharacter := int (length cs),
                sq_Wordle := Some (Inr ws), sq_seqWordle := fold max (map fst ws) 0\<rparr>)
         else None)
    | _ \<Rightarrow> None)"

definition add_ratings :: "database \<Rightarrow> database option" where
  "add_ratings d =
    (if sq_Rating d = None \<and> sq_RankedDuel d = None then Some (d\<lparr>sq_Rating := Some [], sq_RankedDuel := Some []\<rparr>) else None)"

definition migrations :: "(database \<Rightarrow> database option) list" where
  "migrations = [create_accounts, add_characters, add_ratings]"

section \<open>Running them\<close>

text \<open>One command of the connection, which may fail whatever it does.\<close>

definition exec :: "(database \<Rightarrow> database option) \<Rightarrow> database \<times> bool list \<Rightarrow> bool \<times> database \<times> bool list" where
  "exec f = (\<lambda>(d, fs). if fs \<noteq> [] \<and> hd fs then (False, d, tl fs)
     else case f d of None \<Rightarrow> (False, d, tl fs) | Some d' \<Rightarrow> (True, d', tl fs))"

definition set_version :: "nat \<Rightarrow> database \<Rightarrow> database option" where
  "set_version v d = Some (d\<lparr>sq_version := Some (Some v)\<rparr>)"

text \<open>One turn of the loop of \<open>migrate\<close>: begin, the migration, its version, commit.\<close>

definition migrate_one :: "nat \<Rightarrow> (database \<Rightarrow> database option) \<Rightarrow> database \<times> bool list \<Rightarrow> bool \<times> database \<times> bool list" where
  "migrate_one i f s =
    (case exec Some s of
      (False, s) \<Rightarrow> (False, s)
    | (True, d, fs) \<Rightarrow>
       (case exec f (d, fs) of
         (False, _, fs) \<Rightarrow> (False, d, fs)
       | (True, s) \<Rightarrow>
          (case exec (set_version (i + 1)) s of
            (False, _, fs) \<Rightarrow> (False, d, fs)
          | (True, s) \<Rightarrow>
             (case exec Some s of
               (False, _, fs) \<Rightarrow> (False, d, fs)
             | (True, s) \<Rightarrow> (True, s)))))"

fun migrate_loop :: "nat \<Rightarrow> (database \<Rightarrow> database option) list \<Rightarrow> database \<times> bool list \<Rightarrow> bool \<times> database \<times> bool list" where
  "migrate_loop i [] s = (True, s)"
| "migrate_loop i (f # rest) s =
    (case migrate_one i f s of (False, s) \<Rightarrow> (False, s) | (True, s) \<Rightarrow> migrate_loop (i + 1) rest s)"

definition migrate :: "database \<times> bool list \<Rightarrow> bool \<times> database \<times> bool list" where
  "migrate s =
    (case exec (\<lambda>d. Some (d\<lparr>sq_version := Some (case sq_version d of None \<Rightarrow> None | Some v \<Rightarrow> v)\<rparr>)) s of
      (False, s) \<Rightarrow> (False, s)
    | (True, s) \<Rightarrow>
       (case exec Some s of
         (False, s) \<Rightarrow> (False, s)
       | (True, s) \<Rightarrow>
          (case sq_version (fst s) of
            Some (Some version) \<Rightarrow> migrate_loop version (drop version migrations) s
          | _ \<Rightarrow>
             (case exec (set_version 0) s of
               (False, s) \<Rightarrow> (False, s)
             | (True, s) \<Rightarrow> migrate_loop 0 migrations s))))"

text \<open>The tables of the current version, as the queries of \<^theory_text>\<open>Store\<close> use them.\<close>

definition current :: "database \<Rightarrow> tables option" where
  "current d =
    (case (sq_Player d, sq_Wordle d, sq_Character d, sq_Rating d, sq_RankedDuel d) of
      (Some ps, Some (Inr ws), Some cs, Some rs, Some ds) \<Rightarrow>
        Some \<lparr>t_Player = ps, t_Character = cs, t_Wordle = ws, t_Rating = rs, t_RankedDuel = ds,
          seq_Player = sq_seqPlayer d, seq_Character = sq_seqCharacter d, seq_Wordle = sq_seqWordle d,
          seq_RankedDuel = sq_seqRankedDuel d\<rparr>
    | _ \<Rightarrow> None)"

section \<open>After a failure\<close>

lemma exec_cases:
  "exec f (d, fs) = (False, d, tl fs) \<or> (\<exists>d'. f d = Some d' \<and> exec f (d, fs) = (True, d', tl fs))"
  by (auto simp: exec_def split: option.split)

lemma exec_fine: "f d = Some d' \<Longrightarrow> exec f (d, []) = (True, d', [])"
  by (simp add: exec_def)

text \<open>A migration is done with its version, or leaves no trace.\<close>

lemma migrate_one_cases:
  "(\<exists>fs'. migrate_one i f (d, fs) = (False, d, fs')) \<or>
   (\<exists>d1 d' fs'. f d = Some d1 \<and> d' = d1\<lparr>sq_version := Some (Some (i + 1))\<rparr> \<and> migrate_one i f (d, fs) = (True, d', fs'))"
  by (cases "f d") (simp_all add: migrate_one_def exec_def set_version_def)

lemma migrate_one_fine:
  "f d = Some d1 \<Longrightarrow> migrate_one i f (d, []) = (True, d1\<lparr>sq_version := Some (Some (i + 1))\<rparr>, [])"
  by (simp add: migrate_one_def exec_fine set_version_def)

lemma migrate_loop_resumes:
  assumes "sq_version d = Some (Some i)" and "migrate_loop i fs (d, gs) = (ok, d', gs')"
  shows "\<exists>k \<le> length fs. sq_version d' = Some (Some (i + k)) \<and>
    migrate_loop (i + k) (drop k fs) (d', []) = migrate_loop i fs (d, []) \<and> (ok \<longrightarrow> k = length fs)"
  using assms
proof (induction fs arbitrary: i d gs)
  case (Cons f fs)
  consider (failed) gs1 where "migrate_one i f (d, gs) = (False, d, gs1)"
    | (fine) d1 gs1 where "f d = Some d1" "migrate_one i f (d, gs) = (True, d1\<lparr>sq_version := Some (Some (i + 1))\<rparr>, gs1)"
    using migrate_one_cases [of i f d gs] by blast
  then show ?case
  proof cases
    case failed
    then show ?thesis using Cons.prems by (intro exI [of _ 0]) auto
  next
    case fine
    let ?d = "d1\<lparr>sq_version := Some (Some (i + 1))\<rparr>"
    have "sq_version ?d = Some (Some (i + 1))" "migrate_loop (i + 1) fs (?d, gs1) = (ok, d', gs')"
      using Cons.prems(2) fine(2) by simp_all
    from Cons.IH [OF this] obtain k where k: "k \<le> length fs" "sq_version d' = Some (Some (i + 1 + k))"
      "migrate_loop (i + 1 + k) (drop k fs) (d', []) = migrate_loop (i + 1) fs (?d, [])" "ok \<longrightarrow> k = length fs" by blast
    then show ?thesis using migrate_one_fine [of f d d1 i] fine(1) by (intro exI [of _ "Suc k"]) auto
  qed
qed auto

lemma same_version: "sq_version d = x \<Longrightarrow> d\<lparr>sq_version := x\<rparr> = d"
  by (cases d) simp

lemma migrate_fine:
  "sq_version d = Some (Some v) \<Longrightarrow> migrate (d, []) = migrate_loop v (drop v migrations) (d, [])"
  "sq_version d = None \<or> sq_version d = Some None \<Longrightarrow>
    migrate (d, []) = migrate_loop 0 migrations (d\<lparr>sq_version := Some (Some 0)\<rparr>, [])"
  by (auto simp: migrate_def exec_def set_version_def same_version)

text \<open>From the row of the version on.\<close>

lemma migrate_resumes_at:
  assumes "sq_version d = Some (Some v)" and "migrate_loop v (drop v migrations) (d, fs) = (ok, d', fs')"
  shows "migrate (d', []) = migrate (d, [])" "ok \<Longrightarrow> migrate (d, []) = (True, d', [])"
proof -
  from migrate_loop_resumes [OF assms] obtain k where k: "k \<le> length (drop v migrations)" "sq_version d' = Some (Some (v + k))"
      "migrate_loop (v + k) (drop k (drop v migrations)) (d', []) = migrate_loop v (drop v migrations) (d, [])"
      "ok \<longrightarrow> k = length (drop v migrations)" by blast
  show resume: "migrate (d', []) = migrate (d, [])"
    unfolding migrate_fine(1) [OF k(2)] migrate_fine(1) [OF assms(1)] using k(3) by (simp add: add.commute)
  show "migrate (d, []) = (True, d', [])" if ok
    unfolding migrate_fine(1) [OF assms(1)] k(3) [symmetric] using k(4) that by simp
qed

text \<open>C22: However a run of \<open>migrate\<close> fails, opening the database again does all that one run without a fault
does; and a run that succeeds has done it.\<close>

theorem failed_migrations_resume:
  assumes "migrate (d, fs) = (ok, d', fs')"
  shows "migrate (d', []) = migrate (d, []) \<and> (ok \<longrightarrow> migrate (d, []) = (True, d', []))"
proof -
  let ?d = "d\<lparr>sq_version := Some (case sq_version d of None \<Rightarrow> None | Some v \<Rightarrow> v)\<rparr>"
  let ?e = "?d\<lparr>sq_version := Some (Some 0)\<rparr>"
  have same: "migrate (?d, []) = migrate (d, [])" by (simp add: migrate_def exec_def split: option.split)
  consider (table) "ok = False" "d' = d \<or> d' = ?d"
    | (row) v gs where "sq_version ?d = Some (Some v)" "migrate_loop v (drop v migrations) (?d, gs) = (ok, d', fs')"
    | (new) gs where "sq_version ?d = Some None" "migrate_loop 0 migrations (?e, gs) = (ok, d', fs')"
    using assms by (auto simp: migrate_def exec_def set_version_def split: if_splits option.splits)
  then show ?thesis
  proof cases
    case table
    then show ?thesis using same by auto
  next
    case row
    from migrate_resumes_at [OF this] show ?thesis using same by simp
  next
    case new
    have e: "migrate (?e, []) = migrate (?d, [])"
      using migrate_fine(1) [of ?e 0] migrate_fine(2) [of ?d] new(1) by simp
    have "migrate_loop 0 (drop 0 migrations) (?e, gs) = (ok, d', fs')" using new(2) by simp
    from migrate_resumes_at [OF _ this] e show ?thesis using same by simp
  qed
qed

theorem failed_migrations_resume_witness:
  "let s = migrate (no_database, [False, False, False, False, False, False, False, False, True])
   in fst s = False \<and> sq_version (fst (snd s)) = Some (Some 1) \<and> migrate (fst (snd s), []) = migrate (no_database, [])"
proof -
  define s where "s = migrate (no_database, [False, False, False, False, False, False, False, False, True])"
  have s: "fst s = False" "sq_version (fst (snd s)) = Some (Some 1)"
    by (simp_all add: s_def migrate_def migrations_def migrate_one_def exec_def set_version_def create_accounts_def
        add_characters_def no_database_def join_characters_def)
  have "migrate (no_database, [False, False, False, False, False, False, False, False, True]) = (False, fst (snd s), snd (snd s))"
    using s(1) unfolding s_def by (metis prod.collapse)
  from failed_migrations_resume [OF this] show ?thesis using s unfolding Let_def s_def [symmetric] by blast
qed

section \<open>Nothing is lost\<close>

lemma knights_ids:
  "map sc_PlayerID (knights i ps) = map (pl_ID \<circ> fst) ps" "map sc_ID (knights i ps) = map (\<lambda>k. i + int k) [0..<length ps]"
  "length (knights i ps) = length ps"
proof -
  show "map sc_PlayerID (knights i ps) = map (pl_ID \<circ> fst) ps" by (induction i ps rule: knights.induct) auto
  show "length (knights i ps) = length ps" by (induction i ps rule: knights.induct) auto
  show "map sc_ID (knights i ps) = map (\<lambda>k. i + int k) [0..<length ps]"
    by (induction i ps rule: knights.induct) (auto simp: upt_conv_Cons map_Suc_upt [symmetric] simp del: upt_Suc)
qed

lemma knights_are:
  "c \<in> set (knights i ps) \<Longrightarrow> \<exists>p h. (p, h) \<in> set ps \<and> sc_PlayerID c = pl_ID p \<and> sc_Slot c = 0 \<and> sc_Name c = pl_Username p \<and>
    sc_Class c = ''knight'' \<and> \<not> sc_Deleted c"
  by (induction i ps rule: knights.induct) auto

lemma join_characters_once:
  assumes "distinct (map sc_PlayerID cs)" and "(ow_PlayerID \<circ> snd) ` set rs \<subseteq> sc_PlayerID ` set cs"
  shows "\<exists>f. join_characters cs rs = map (\<lambda>(i, r). (i, with_character r (f r))) rs \<and>
    (\<forall>(i, r) \<in> set rs. f r \<in> set cs \<and> sc_PlayerID (f r) = ow_PlayerID r)"
proof -
  let ?f = "\<lambda>r. hd (filter (\<lambda>c. sc_PlayerID c = ow_PlayerID r) cs)"
  have one: "filter (\<lambda>c. sc_PlayerID c = ow_PlayerID r) cs = [?f r] \<and> ?f r \<in> set cs \<and> sc_PlayerID (?f r) = ow_PlayerID r"
    if "(i, r) \<in> set rs" for i r
  proof -
    have "ow_PlayerID r \<in> (ow_PlayerID \<circ> snd) ` set rs" using that by force
    then obtain c where c: "c \<in> set cs" "sc_PlayerID c = ow_PlayerID r" using assms(2) by force
    from filter_unique [OF assms(1) c(1)] show ?thesis using c by simp
  qed
  have single: "map g xs = [g y]" if "xs = [y]" for g :: "Character \<Rightarrow> int \<times> WordleResult" and xs y using that by simp
  have flat: "concat (map g xs) = map h xs" if "\<And>x. x \<in> set xs \<Longrightarrow> g x = [h x]" for g h and xs :: "(int \<times> OldResult) list"
    using that by (induction xs) auto
  have "join_characters cs rs = map (\<lambda>(i, r). (i, with_character r (?f r))) rs"
    unfolding join_characters_def
  proof (rule flat, goal_cases)
    case (1 x)
    obtain i r where x: "x = (i, r)" by (cases x)
    have "filter (\<lambda>c. sc_PlayerID c = ow_PlayerID r) cs = [?f r]" using one 1 unfolding x by blast
    then have "map (\<lambda>c. (i, with_character r c)) (filter (\<lambda>c. sc_PlayerID c = ow_PlayerID r) cs) = [(i, with_character r (?f r))]"
      by (rule single)
    then show ?case unfolding x prod.case .
  qed
  then show ?thesis using one by (intro exI [of _ ?f]) auto
qed

lemma played_knights:
  fixes rs :: "(int \<times> OldResult) list"
  assumes "players_table ps n" and "(ow_PlayerID \<circ> snd) ` set rs \<subseteq> (pl_ID \<circ> fst) ` set ps" and "cs = knights 1 (played rs ps)"
  shows "distinct (map sc_PlayerID cs)" "(ow_PlayerID \<circ> snd) ` set rs \<subseteq> sc_PlayerID ` set cs"
    "characters_table ((pl_ID \<circ> fst) ` set ps) cs (int (length cs))"
proof -
  have ids: "map sc_PlayerID cs = map (pl_ID \<circ> fst) (played rs ps)" unfolding assms(3) by (rule knights_ids(1))
  have "distinct (map (pl_ID \<circ> fst) ps)" using assms(1) by (simp add: players_table_def)
  then show dist: "distinct (map sc_PlayerID cs)" unfolding ids played_def by (rule distinct_map_filter)
  have "set (map sc_PlayerID cs) = set (map (pl_ID \<circ> fst) (played rs ps))" unfolding ids ..
  then have pids: "sc_PlayerID ` set cs = (pl_ID \<circ> fst) ` set (played rs ps)" by simp
  show "(ow_PlayerID \<circ> snd) ` set rs \<subseteq> sc_PlayerID ` set cs"
    unfolding pids
  proof
    fix x assume x: "x \<in> (ow_PlayerID \<circ> snd) ` set rs"
    then obtain p h where "(p, h) \<in> set ps" "pl_ID p = x" using assms(2) by fastforce
    then show "x \<in> (pl_ID \<circ> fst) ` set (played rs ps)" using x by (intro image_eqI [of _ _ "(p, h)"]) (simp_all add: played_def)
  qed
  have "sc_ID ` set cs = (\<lambda>k. 1 + int k) ` {0..<length (played rs ps)}"
    using arg_cong [OF knights_ids(2) [of 1 "played rs ps"], of set] by (simp add: assms(3))
  then have "sc_ID ` set cs \<subseteq> {1..int (length cs)}" unfolding assms(3) knights_ids(3) by auto
  moreover have "distinct (map sc_ID cs)" unfolding assms(3) knights_ids(2) by (simp add: distinct_map inj_on_def)
  moreover have "sc_PlayerID ` set cs \<subseteq> (pl_ID \<circ> fst) ` set ps" unfolding pids played_def by auto
  moreover have "sc_Slot ` set cs \<subseteq> {0..<CharacterSlots}" using knights_are assms(3) by (force simp: CharacterSlots_def)
  moreover have "slots_free cs"
    unfolding slots_free_def by (rule distinct_map_filter) (use dist in \<open>auto simp: distinct_map inj_on_def\<close>)
  ultimately show "characters_table ((pl_ID \<circ> fst) ` set ps) cs (int (length cs))" by (simp add: characters_table_def)
qed

lemma joined_wordle_table:
  assumes "\<forall>(i, r) \<in> set rs. f r \<in> set cs" and "distinct (map (\<lambda>(_, r). (ow_PlayerID r, ow_Date r)) rs)"
    and "(ow_PlayerID \<circ> snd) ` set rs \<subseteq> P" and "ws = map (\<lambda>(i, r). (i, with_character r (f r))) rs"
  shows "map fst ws = map fst rs" "distinct (map (\<lambda>(_, r). (wl_PlayerID r, wl_Date r)) ws)" "wordle_table P (sc_ID ` set cs) ws"
proof -
  show "map fst ws = map fst rs" by (simp add: assms(4) case_prod_unfold o_def)
  have key: "map (\<lambda>(_, r). (wl_PlayerID r, wl_Date r)) ws = map (\<lambda>(_, r). (ow_PlayerID r, ow_Date r)) rs"
    by (simp add: assms(4) case_prod_unfold o_def with_character_def)
  show dist: "distinct (map (\<lambda>(_, r). (wl_PlayerID r, wl_Date r)) ws)" unfolding key by (rule assms(2))
  have "map (wl_PlayerID \<circ> snd) ws = map (ow_PlayerID \<circ> snd) rs" by (simp add: assms(4) case_prod_unfold o_def with_character_def)
  from arg_cong [OF this, of set] have "(wl_PlayerID \<circ> snd) ` set ws \<subseteq> P" unfolding set_map using assms(3) by blast
  moreover have "(wl_CharacterID \<circ> snd) ` set ws \<subseteq> sc_ID ` set cs" using assms(1) by (auto simp: assms(4) with_character_def)
  ultimately show "wordle_table P (sc_ID ` set cs) ws" using dist by (simp add: wordle_table_def)
qed

text \<open>C21: Whoever already played when characters came gets a knight of their name, every result is kept as it
is with that knight, and the database is one the rest of the development starts from.\<close>

theorem migration_keeps_results:
  assumes "sq_version d = Some (Some 1)" and "sq_Player d = Some ps" and "sq_Wordle d = Some (Inl rs)"
    and "sq_Character d = None" and "sq_Rating d = None" and "sq_RankedDuel d = None" and "0 \<le> sq_seqRankedDuel d"
    and "players_table ps (sq_seqPlayer d)" and "distinct (map fst rs)"
    and "distinct (map (\<lambda>(_, r). (ow_PlayerID r, ow_Date r)) rs)" and "(ow_PlayerID \<circ> snd) ` set rs \<subseteq> (pl_ID \<circ> fst) ` set ps"
  shows "\<exists>d' t f. migrate (d, []) = (True, d', []) \<and> sq_version d' = Some (Some 3) \<and> current d' = Some t \<and> tables_ok t \<and>
    t_Player t = ps \<and> t_Wordle t = map (\<lambda>(i, r). (i, with_character r (f r))) rs \<and>
    (\<forall>(i, r) \<in> set rs. f r \<in> set (t_Character t) \<and> sc_PlayerID (f r) = ow_PlayerID r) \<and>
    (\<forall>c \<in> set (t_Character t). sc_Class c = ''knight'' \<and> sc_Slot c = 0 \<and> \<not> sc_Deleted c \<and>
      (\<exists>p h i r. (p, h) \<in> set ps \<and> sc_PlayerID c = pl_ID p \<and> sc_Name c = pl_Username p \<and> (i, r) \<in> set rs \<and> ow_PlayerID r = pl_ID p))"
proof -
  let ?cs = "knights 1 (played rs ps)"
  note k = played_knights [OF assms(8,11) refl]
  obtain f where f: "join_characters ?cs rs = map (\<lambda>(i, r). (i, with_character r (f r))) rs"
      "\<forall>(i, r) \<in> set rs. f r \<in> set ?cs \<and> sc_PlayerID (f r) = ow_PlayerID r"
    using join_characters_once [OF k(1,2)] by blast
  let ?ws = "map (\<lambda>(i, r). (i, with_character r (f r))) rs"
  have "\<forall>(i, r) \<in> set rs. f r \<in> set ?cs" using f(2) by blast
  note ws = joined_wordle_table [OF this assms(10,11) refl]
  let ?d2 = "d\<lparr>sq_Character := Some ?cs, sq_seqCharacter := int (length ?cs), sq_Wordle := Some (Inr ?ws),
      sq_seqWordle := fold max (map fst ?ws) 0, sq_version := Some (Some 2)\<rparr>"
  let ?d3 = "?d2\<lparr>sq_Rating := Some [], sq_RankedDuel := Some [], sq_version := Some (Some 3)\<rparr>"
  have added: "add_characters d = Some (d\<lparr>sq_Character := Some ?cs, sq_seqCharacter := int (length ?cs),
      sq_Wordle := Some (Inr ?ws), sq_seqWordle := fold max (map fst ?ws) 0\<rparr>)"
    unfolding add_characters_def Let_def assms(2-4) prod.case option.case sum.case f(1) ws(1)
    by (simp only: assms(9) ws(2) simp_thms if_True)
  have 2: "migrate_one 1 add_characters (d, []) = (True, ?d2, [])"
    using migrate_one_fine [where f = add_characters and d = d and i = 1, OF added] by simp
  have 3: "migrate_one 2 add_ratings (?d2, []) = (True, ?d3, [])"
    using migrate_one_fine [of add_ratings ?d2 _ 2] assms(5,6) by (simp add: add_ratings_def)
  have todo: "drop 1 migrations = [add_characters, add_ratings]" by (simp add: migrations_def)
  have run: "migrate (d, []) = (True, ?d3, [])"
    unfolding migrate_fine(1) [OF assms(1)] todo migrate_loop.simps 2 prod.case bool.case one_add_one 3 ..
  have "tables_ok \<lparr>t_Player = ps, t_Character = ?cs, t_Wordle = ?ws, t_Rating = [], t_RankedDuel = [],
      seq_Player = sq_seqPlayer d, seq_Character = int (length ?cs), seq_Wordle = fold max (map fst ?ws) 0,
      seq_RankedDuel = sq_seqRankedDuel d\<rparr>" (is "tables_ok ?t")
    using k(3) ws(3) assms(7,8) by (simp add: tables_ok_def player_ids_def char_ids_def ratings_table_def duels_table_def)
  moreover have "current ?d3 = Some ?t" using assms(2) by (simp add: current_def)
  moreover have "\<forall>c \<in> set ?cs. sc_Class c = ''knight'' \<and> sc_Slot c = 0 \<and> \<not> sc_Deleted c \<and>
      (\<exists>p h i r. (p, h) \<in> set ps \<and> sc_PlayerID c = pl_ID p \<and> sc_Name c = pl_Username p \<and> (i, r) \<in> set rs \<and> ow_PlayerID r = pl_ID p)"
    using knights_are [of _ 1 "played rs ps"] unfolding played_def by fastforce
  ultimately show ?thesis using run f(2) by (intro exI [of _ ?d3] exI [of _ ?t] exI [of _ f]) simp
qed

theorem migration_keeps_results_witness:
  "let p = (\<lparr>pl_ID = 2, pl_Username = ''ada''\<rparr>, ''hash'');
       r = \<lparr>ow_Date = ''2024-01-01'', ow_Win = True, ow_Seconds = 61, ow_GuessCount = 4, ow_PlayerID = 2\<rparr>;
       d = no_database\<lparr>sq_version := Some (Some 1), sq_Player := Some [p], sq_seqPlayer := 2, sq_Wordle := Some (Inl [(5, r)])\<rparr>
   in \<exists>d' t c. migrate (d, []) = (True, d', []) \<and> current d' = Some t \<and> tables_ok t \<and> t_Wordle t = [(5, with_character r c)] \<and>
     c \<in> set (t_Character t) \<and> sc_Name c = ''ada''"
proof -
  define p where "p = (\<lparr>pl_ID = 2, pl_Username = ''ada''\<rparr>, ''hash'')"
  define r where "r = \<lparr>ow_Date = ''2024-01-01'', ow_Win = True, ow_Seconds = 61, ow_GuessCount = 4, ow_PlayerID = 2\<rparr>"
  define d where "d = no_database\<lparr>sq_version := Some (Some 1), sq_Player := Some [p], sq_seqPlayer := 2, sq_Wordle := Some (Inl [(5, r)])\<rparr>"
  note defs = d_def no_database_def
  obtain d' t f where "migrate (d, []) = (True, d', [])" "current d' = Some t" "tables_ok t"
    "t_Wordle t = map (\<lambda>(i, r). (i, with_character r (f r))) [(5, r)]" "\<forall>(i, r) \<in> set [(5, r)]. f r \<in> set (t_Character t)"
    "\<forall>c \<in> set (t_Character t). \<exists>q h. (q, h) \<in> set [p] \<and> sc_Name c = pl_Username q"
    using migration_keeps_results [of d "[p]" "[(5, r)]"] by (simp add: defs players_table_def p_def r_def) blast
  then show ?thesis
    unfolding Let_def p_def [symmetric] r_def [symmetric] d_def [symmetric]
    by (intro exI [of _ d'] exI [of _ t] exI [of _ "f r"]) (auto simp: p_def)
qed

end
