(* ===== verification/Startup.thy ===== *)
theory Startup
  imports Server_Safety Migrations
begin

text \<open>
  Starting the server: its settings come from the environment (\<open>internal/config/config.go\<close>), and \<open>New\<close>
  (\<open>internal/server/server.go\<close>) opens the database and puts the parts together. The property says that
  a first start, from nothing, meets all that the properties of the running server ask for.
\<close>

section \<open>Settings\<close>

record Config =
  cfg_Port :: int
  cfg_DBPath :: string
  cfg_StaticDir :: string
  cfg_JWTSecret :: string
  cfg_Debug :: bool
  cfg_DuelWord :: string
  cfg_Prayers :: string

definition PrayersClaude :: string where "PrayersClaude = ''claude''"
definition PrayersFake :: string where "PrayersFake = ''fake''"

text \<open>The environment; a variable that is not set reads as the empty string.\<close>

type_synonym environment = "string \<Rightarrow> string"

definition getenv :: "environment \<Rightarrow> string \<Rightarrow> string \<Rightarrow> string" where
  "getenv env key fallback = (if env key \<noteq> '''' then env key else fallback)"

definition FromEnv :: "environment \<Rightarrow> string + Config" where
  "FromEnv env =
    (let c = \<lparr>cfg_Port = 8080, cfg_DBPath = getenv env ''DB_PATH'' ''db/nytrpg.db'',
           cfg_StaticDir = getenv env ''STATIC_DIR'' ''client/static'', cfg_JWTSecret = env ''JWT_SECRET'',
           cfg_Debug = (env ''DEBUG'' = ''1''), cfg_DuelWord = toUpper (env ''DUEL_WORD''),
           cfg_Prayers = (if env ''PRAYER_FAKE'' = ''1'' then PrayersFake
             else if env ''ANTHROPIC_API_KEY'' \<noteq> '''' then PrayersClaude else '''')\<rparr>;
         port = (if env ''PORT'' = '''' then Some (cfg_Port c) else Atoi (env ''PORT'')) in
     case port of
       None \<Rightarrow> Inl ''PORT must be a number''
     | Some p \<Rightarrow> if cfg_JWTSecret c = '''' then Inl ''JWT_SECRET must be set'' else Inr (c\<lparr>cfg_Port := p\<rparr>))"

section \<open>Putting the parts together\<close>

definition duel_puzzle_of :: "Config \<Rightarrow> Words \<Rightarrow> DuelPuzzle" where
  "duel_puzzle_of cfg ws =
    (let duels = NewDuelPuzzle ws in if cfg_DuelWord cfg \<noteq> '''' then WithWord duels (cfg_DuelWord cfg) else duels)"

definition oracle_of :: "Config \<Rightarrow> Oracle option" where
  "oracle_of cfg =
    (if cfg_Prayers cfg = PrayersClaude then Some Claude
     else if cfg_Prayers cfg = PrayersFake then Some Fake
     else None)"

text \<open>
  The word lists and the map are the embedded files, the map \<open>None\<close> if it does not load; the database is
  what the file at \<open>DBPath\<close> holds, with the commands that are going to fail. \<open>None\<close> is an error.
\<close>

definition New :: "Config \<Rightarrow> Words \<Rightarrow> WorldMap option \<Rightarrow> gotime \<Rightarrow> rng \<Rightarrow> database \<times> bool list \<Rightarrow> server option" where
  "New cfg ws m now r db =
    (case migrate db of
      (False, _) \<Rightarrow> None
    | (True, d, fs) \<Rightarrow>
       (case (m, current d) of
         (Some m, Some t) \<Rightarrow> Some (start_server (wordle_puzzle (duel_puzzle_of cfg ws)) m (oracle_of cfg) now r
            \<lparr>db_tables = t, db_faults = fs\<rparr>)
       | _ \<Rightarrow> None))"

lemma migrate_nothing:
  "migrate (no_database, []) = (True, no_database\<lparr>sq_version := Some (Some 3), sq_Player := Some [], sq_Wordle := Some (Inr []),
     sq_Character := Some [], sq_Rating := Some [], sq_RankedDuel := Some []\<rparr>, [])"
  by (simp add: migrate_def migrations_def migrate_one_def exec_def set_version_def create_accounts_def add_characters_def
      add_ratings_def no_database_def join_characters_def played_def Let_def)

lemma toUpper_empty: "toUpper s = [] \<longleftrightarrow> s = []"
  by (cases s rule: toUpper.cases) auto

text \<open>C23: With a secret, and a port that is a number if there is one, a first start gives a server on empty
tables, ready for all the properties of a running one. With \<open>DUEL_WORD\<close> every duel is on that word.
Prayers go to the canned oracle if \<open>PRAYER_FAKE\<close> is 1, else to Claude if there is an API key, else
to nobody.\<close>

theorem first_start:
  assumes "env ''JWT_SECRET'' \<noteq> ''''" and "env ''PORT'' = '''' \<or> Atoi (env ''PORT'') \<noteq> None"
    and "words_ok ws" and "map_valid m"
  shows "\<exists>cfg dp gods. FromEnv env = Inr cfg \<and>
    New cfg ws (Some m) now r (no_database, []) = Some (start_server (wordle_puzzle dp) m gods now r (up empty_tables)) \<and>
    duel_words_ok dp \<and> ratings_good empty_tables \<and> tables_ok empty_tables \<and>
    server_ok dp m h [] (start_server (wordle_puzzle dp) m gods now r (up empty_tables)) \<and>
    (env ''DUEL_WORD'' \<noteq> '''' \<longrightarrow> NewWord (wordle_puzzle dp) r = Some (toUpper (env ''DUEL_WORD''), r)) \<and>
    w_Oracle (lv_world (sv_live (start_server (wordle_puzzle dp) m gods now r (up empty_tables)))) = gods \<and>
    gods = (if env ''PRAYER_FAKE'' = ''1'' then Some Fake
      else if env ''ANTHROPIC_API_KEY'' \<noteq> '''' then Some Claude else None)"
proof -
  let ?gods = "if env ''PRAYER_FAKE'' = ''1'' then Some Fake
      else if env ''ANTHROPIC_API_KEY'' \<noteq> '''' then Some Claude else None"
  obtain port where port: "(if env ''PORT'' = '''' then Some 8080 else Atoi (env ''PORT'')) = Some port"
    using assms(2) by (cases "env ''PORT'' = ''''") auto
  define cfg where "cfg = \<lparr>cfg_Port = port, cfg_DBPath = getenv env ''DB_PATH'' ''db/nytrpg.db'',
      cfg_StaticDir = getenv env ''STATIC_DIR'' ''client/static'', cfg_JWTSecret = env ''JWT_SECRET'',
      cfg_Debug = (env ''DEBUG'' = ''1''), cfg_DuelWord = toUpper (env ''DUEL_WORD''),
      cfg_Prayers = (if env ''PRAYER_FAKE'' = ''1'' then PrayersFake
        else if env ''ANTHROPIC_API_KEY'' \<noteq> '''' then PrayersClaude else '''')\<rparr>"
  have "FromEnv env = Inr cfg"
    using port assms(1) by (cases "env ''PORT'' = ''''") (simp_all add: FromEnv_def cfg_def Let_def)
  moreover have "oracle_of cfg = ?gods"
    by (simp add: cfg_def oracle_of_def PrayersClaude_def PrayersFake_def)
  moreover have "cfg_DuelWord cfg = toUpper (env ''DUEL_WORD'')" by (simp add: cfg_def)
  ultimately have cfg: "FromEnv env = Inr cfg" "cfg_DuelWord cfg = toUpper (env ''DUEL_WORD'')"
      "oracle_of cfg = ?gods" by blast+
  let ?dp = "duel_puzzle_of cfg ws"
  have words: "duel_words_ok ?dp"
    using assms(3) by (simp add: duel_puzzle_of_def NewDuelPuzzle_def WithWord_def duel_words_ok_def Let_def)
  have good: "ratings_good empty_tables" by (simp add: ratings_good_def empty_tables_def)
  have "New cfg ws (Some m) now r (no_database, []) =
      Some (start_server (wordle_puzzle ?dp) m (oracle_of cfg) now r (up empty_tables))"
    by (simp add: New_def migrate_nothing current_def empty_tables_def) (simp add: no_database_def)
  moreover have "NewWord (wordle_puzzle ?dp) r = Some (toUpper (env ''DUEL_WORD''), r)" if "env ''DUEL_WORD'' \<noteq> ''''"
    using that cfg(2) by (simp add: wordle_puzzle_def DuelPuzzle_NewWord_def duel_puzzle_of_def NewDuelPuzzle_def WithWord_def toUpper_empty Let_def)
  moreover have "server_ok ?dp m h [] (start_server (wordle_puzzle ?dp) m (oracle_of cfg) now r (up empty_tables))"
    by (rule start_ok [OF words assms(4)]) (simp add: good)
  moreover have "w_Oracle (lv_world (sv_live (start_server (wordle_puzzle ?dp) m (oracle_of cfg) now r (up empty_tables)))) =
      oracle_of cfg"
    by (simp add: start_server_def fresh_server_def)
  ultimately show ?thesis using cfg(1,3) words good empty_tables_ok
    by (intro exI [of _ cfg] exI [of _ ?dp] exI [of _ "oracle_of cfg"]) blast
qed

theorem first_start_witness:
  "\<exists>cfg dp gods. FromEnv (\<lambda>key. if key = ''JWT_SECRET'' then ''s'' else if key = ''DUEL_WORD'' then ''crane''
      else if key = ''ANTHROPIC_API_KEY'' then ''key'' else '''') = Inr cfg \<and>
    New cfg (dz_words demo_words) (Some demo_map) 0 \<lparr>draws = \<lambda>_. 0, drawn = 0\<rparr> (no_database, []) =
      Some (start_server (wordle_puzzle dp) demo_map gods 0 \<lparr>draws = \<lambda>_. 0, drawn = 0\<rparr> (up empty_tables)) \<and>
    gods = Some Claude \<and>
    NewWord (wordle_puzzle dp) \<lparr>draws = \<lambda>_. 0, drawn = 0\<rparr> = Some (''CRANE'', \<lparr>draws = \<lambda>_. 0, drawn = 0\<rparr>)"
proof -
  let ?env = "\<lambda>key. if key = ''JWT_SECRET'' then ''s'' else if key = ''DUEL_WORD'' then ''crane''
      else if key = ''ANTHROPIC_API_KEY'' then ''key'' else ''''"
  have "words_ok (dz_words demo_words)" using demo_start_facts(1) by (simp add: duel_words_ok_def)
  moreover have "toUpper ''crane'' = ''CRANE''" by code_simp
  ultimately show ?thesis
    using first_start [of ?env, OF _ _ _ demo_start_facts(2)] by fastforce
qed

end
