(* ===== verification/Wordle_Daily.thy ===== *)
theory Wordle_Daily
  imports Wordle
begin

text \<open>
  The server's record of a player's daily game (\<open>game.go\<close>): one session per account and day,
  which lives across reconnects. The lemmas show that reconnecting neither resets the clock
  nor gives guesses back, that a session holds at most five guesses and ends with a win or
  the fifth guess, and that a day reports its result at most once.
\<close>

section \<open>The daily game\<close>

record session =
  ss_date :: string
  ss_start :: gotime
  ss_guesses :: "string list"
  ss_colors :: "WordleColor list list"
  ss_done :: bool

record Finished =
  fi_Date :: string
  fi_Win :: bool
  fi_Guesses :: int
  fi_Seconds :: real

type_synonym sessions = "int \<rightharpoonup> session"

text \<open>\<open>today\<close> is \<open>gameday.Of(now)\<close>.\<close>

definition sessions_start ::
    "sessions \<Rightarrow> int \<Rightarrow> gotime \<Rightarrow> string \<Rightarrow> WordleResume \<times> sessions" where
  "sessions_start ss pid now today =
     (let fresh = \<lparr>ss_date = today, ss_start = now, ss_guesses = [], ss_colors = [], ss_done = False\<rparr>;
          s = (case ss pid of Some s \<Rightarrow> if ss_date s \<noteq> today then fresh else s | None \<Rightarrow> fresh)
      in (WordleResume_zero\<lparr>ws_Guesses := ss_guesses s, ws_Colors := ss_colors s,
            ws_Seconds := duration_Seconds (now - ss_start s)\<rparr>,
          ss(pid \<mapsto> s)))"

text \<open>
  \<open>played\<close> is the database check, \<open>newSource\<close> the seeding behind \<open>words.For\<close>. The result
  is a panic only if there is no solution word, which \<open>LoadWords\<close> rules out.
\<close>

definition sessions_guess ::
    "sessions \<Rightarrow> int \<Rightarrow> string \<Rightarrow> gotime \<Rightarrow> Words \<Rightarrow> (int \<Rightarrow> rng) \<Rightarrow> (string \<Rightarrow> bool)
     \<Rightarrow> (WordleRes \<times> Finished option \<times> sessions) option" where
  "sessions_guess ss pid guess now words newSource played =
     (let res = WordleRes_zero in
      case ss pid of
        None \<Rightarrow> Some (res, None, ss)
      | Some s \<Rightarrow>
          if ss_done s \<or> played (ss_date s) then Some (res, None, ss)
          else do {
            word \<leftarrow> For newSource words (ss_date s);
            let (valid, colors) = Score guess word words;
            if \<not> valid then Some (res, None, ss)
            else
              let s1 = s\<lparr>ss_guesses := ss_guesses s @ [toUpper guess],
                         ss_colors := ss_colors s @ [colors]\<rparr>;
                  res1 = res\<lparr>wr_Valid := True, wr_Colors := colors,
                             wr_Seconds := duration_Seconds (now - ss_start s)\<rparr>;
                  res2 = (if allGreen colors then res1\<lparr>wr_Status := WordleWin\<rparr>
                          else if int (length (ss_guesses s1)) \<ge> GuessesAllowed
                          then res1\<lparr>wr_Status := WordleLose\<rparr> else res1)
              in if wr_Status res2 = WordleInGame then Some (res2, None, ss(pid \<mapsto> s1))
                 else Some (res2\<lparr>wr_Solution := word\<rparr>,
                       Some \<lparr>fi_Date = ss_date s1, fi_Win = (wr_Status res2 = WordleWin),
                             fi_Guesses = int (length (ss_guesses s1)), fi_Seconds = wr_Seconds res2\<rparr>,
                       ss(pid \<mapsto> s1\<lparr>ss_done := True\<rparr>))
          })"

section \<open>The invariant of a session\<close>

definition session_ok :: "session \<Rightarrow> bool" where
  "session_ok s \<longleftrightarrow>
     length (ss_colors s) = length (ss_guesses s) \<and>
     int (length (ss_guesses s)) \<le> GuessesAllowed \<and>
     (\<forall>cs\<in>set (butlast (ss_colors s)). \<not> allGreen cs) \<and>
     (ss_done s \<longleftrightarrow> ss_colors s \<noteq> [] \<and>
        (allGreen (last (ss_colors s)) \<or> int (length (ss_guesses s)) = GuessesAllowed))"

definition sessions_ok :: "sessions \<Rightarrow> bool" where
  "sessions_ok ss \<longleftrightarrow> (\<forall>pid s. ss pid = Some s \<longrightarrow> session_ok s)"

lemma fresh_session_ok [simp]:
  "session_ok \<lparr>ss_date = d, ss_start = t, ss_guesses = [], ss_colors = [], ss_done = False\<rparr>"
  by (simp add: session_ok_def GuessesAllowed_def)

lemma butlast_append1 [simp]: "butlast (xs @ [x]) = xs"
  by simp

lemma open_session_colors:
  assumes "session_ok s" and "\<not> ss_done s"
  shows "(\<forall>cs\<in>set (ss_colors s). \<not> allGreen cs) \<and> int (length (ss_guesses s)) < GuessesAllowed"
proof (cases "ss_colors s = []")
  case True
  with assms show ?thesis by (auto simp: session_ok_def GuessesAllowed_def)
next
  case False
  then have "set (ss_colors s) = insert (last (ss_colors s)) (set (butlast (ss_colors s)))"
    by (metis append_butlast_last_id list.simps(15) rotate1.simps(2) set_rotate1)
  with assms False show ?thesis by (auto simp: session_ok_def)
qed

text \<open>A valid guess, as the session keeps it.\<close>

definition guessed :: "session \<Rightarrow> string \<Rightarrow> WordleColor list \<Rightarrow> session" where
  "guessed s guess colors =
     s\<lparr>ss_guesses := ss_guesses s @ [guess], ss_colors := ss_colors s @ [colors],
       ss_done := allGreen colors \<or> int (Suc (length (ss_guesses s))) \<ge> GuessesAllowed\<rparr>"

lemma guessed_ok:
  assumes "session_ok s" and "\<not> ss_done s"
  shows "session_ok (guessed s guess colors)"
proof -
  note open_s = open_session_colors [OF assms]
  have len: "length (ss_colors s) = length (ss_guesses s)" using assms(1) by (simp add: session_ok_def)
  have "int (length (ss_guesses s)) + 1 \<le> GuessesAllowed" using open_s by simp
  with open_s len show ?thesis by (simp add: session_ok_def guessed_def) linarith
qed

lemma guessed_date [simp]: "ss_date (guessed s g cs) = ss_date s" "ss_start (guessed s g cs) = ss_start s"
  by (simp_all add: guessed_def)

text \<open>What \<open>guess\<close> does, branch by branch.\<close>

lemma sessions_guess_cases:
  assumes run: "sessions_guess ss pid guess now words src played = Some (res, fin, ss')"
  obtains (refused) "res = WordleRes_zero" "fin = None" "ss' = ss"
  | (taken) s word colors where "ss pid = Some s" "\<not> ss_done s" "\<not> played (ss_date s)"
      "For src words (ss_date s) = Some word" "Score guess word words = (True, colors)"
      "ss' = ss(pid \<mapsto> guessed s (toUpper guess) colors)"
      "wr_Valid res" "wr_Colors res = colors"
      "wr_Status res = (if allGreen colors then WordleWin
         else if int (Suc (length (ss_guesses s))) \<ge> GuessesAllowed then WordleLose else WordleInGame)"
      "wr_Solution res = (if wr_Status res = WordleInGame then [] else word)"
      "fin = (if wr_Status res = WordleInGame then None
         else Some \<lparr>fi_Date = ss_date s, fi_Win = allGreen colors,
           fi_Guesses = int (Suc (length (ss_guesses s))), fi_Seconds = wr_Seconds res\<rparr>)"
proof (cases "ss pid")
  case None
  then show ?thesis using run refused by (simp add: sessions_guess_def)
next
  case (Some s)
  show ?thesis
  proof (cases "ss_done s \<or> played (ss_date s)")
    case True
    then show ?thesis using run Some refused by (simp add: sessions_guess_def)
  next
    case False
    then have open_s: "\<not> ss_done s" "\<not> played (ss_date s)" by simp_all
    then obtain word where word: "For src words (ss_date s) = Some word"
      using run Some by (cases "For src words (ss_date s)") (simp_all add: sessions_guess_def)
    obtain valid colors where sc: "Score guess word words = (valid, colors)" by fastforce
    show ?thesis
    proof (cases valid)
      case False
      have "res = WordleRes_zero \<and> fin = None \<and> ss' = ss"
        using run by (simp add: sessions_guess_def Some open_s word sc False)
      then show ?thesis using refused by blast
    next
      case True
      show ?thesis
        using open_s run Some
        by (intro taken [OF Some _ _ word sc [unfolded eqTrueI [OF True]]])
          (auto simp: sessions_guess_def word sc True Let_def guessed_def WordleRes_zero_def
            split: if_splits)
    qed
  qed
qed

lemma sessions_start_ok: "sessions_ok ss \<Longrightarrow> sessions_ok (snd (sessions_start ss pid now today))"
  by (auto simp: sessions_ok_def sessions_start_def Let_def split: option.splits)

lemma sessions_guess_ok:
  assumes "sessions_ok ss" and "sessions_guess ss pid guess now words src played = Some (res, fin, ss')"
  shows "sessions_ok ss'"
  using assms(2)
proof (cases rule: sessions_guess_cases)
  case refused
  with assms(1) show ?thesis by simp
next
  case (taken s word colors)
  with assms(1) have "session_ok s" by (auto simp: sessions_ok_def)
  with taken assms(1) show ?thesis by (auto simp: sessions_ok_def intro: guessed_ok)
qed

section \<open>A day of one account\<close>

text \<open>Reconnects and guesses in any order, at any times, with any answers of the database.\<close>

datatype daily_event = Open gotime | Try string gotime "string \<Rightarrow> bool"

fun daily_run ::
    "Words \<Rightarrow> (int \<Rightarrow> rng) \<Rightarrow> string \<Rightarrow> int \<Rightarrow> sessions \<Rightarrow> daily_event list
     \<Rightarrow> ((WordleRes \<times> Finished option) list \<times> sessions) option" where
  "daily_run words src today pid ss [] = Some ([], ss)"
| "daily_run words src today pid ss (Open now # es) =
     daily_run words src today pid (snd (sessions_start ss pid now today)) es"
| "daily_run words src today pid ss (Try guess now played # es) = do {
     (res, fin, ss') \<leftarrow> sessions_guess ss pid guess now words src played;
     (out, ss'') \<leftarrow> daily_run words src today pid ss' es;
     Some ((res, fin) # out, ss'') }"

definition results :: "(WordleRes \<times> Finished option) list \<Rightarrow> nat" where
  "results out = length (filter (\<lambda>(_, fin). fin \<noteq> None) out)"

definition valid_guesses :: "(WordleRes \<times> Finished option) list \<Rightarrow> nat" where
  "valid_guesses out = length (filter (\<lambda>(res, _). wr_Valid res) out)"

definition is_done :: "sessions \<Rightarrow> int \<Rightarrow> nat" where
  "is_done ss pid = (case ss pid of Some s \<Rightarrow> if ss_done s then 1 else 0 | None \<Rightarrow> 0)"

definition guess_count :: "sessions \<Rightarrow> int \<Rightarrow> nat" where
  "guess_count ss pid = (case ss pid of Some s \<Rightarrow> length (ss_guesses s) | None \<Rightarrow> 0)"

lemma start_same_day:
  assumes "\<forall>s. ss pid = Some s \<longrightarrow> ss_date s = today"
  shows "is_done (snd (sessions_start ss pid now today)) pid = is_done ss pid"
    "guess_count (snd (sessions_start ss pid now today)) pid = guess_count ss pid"
    "\<forall>s. snd (sessions_start ss pid now today) pid = Some s \<longrightarrow> ss_date s = today"
  using assms
  by (auto simp: sessions_start_def is_done_def guess_count_def Let_def split: option.splits)

lemma daily_run_counts:
  assumes "daily_run words src today pid ss es = Some (out, ss')" and "sessions_ok ss"
    and "\<forall>s. ss pid = Some s \<longrightarrow> ss_date s = today"
  shows "is_done ss pid + results out = is_done ss' pid
    \<and> guess_count ss pid + valid_guesses out = guess_count ss' pid \<and> sessions_ok ss'"
  using assms
proof (induction words src today pid ss es arbitrary: out ss' rule: daily_run.induct)
  case (1 words src today pid ss)
  then show ?case by (simp add: results_def valid_guesses_def)
next
  case (2 words src today pid ss now es)
  have same: "is_done (snd (sessions_start ss pid now today)) pid = is_done ss pid"
    "guess_count (snd (sessions_start ss pid now today)) pid = guess_count ss pid"
    "\<forall>s. snd (sessions_start ss pid now today) pid = Some s \<longrightarrow> ss_date s = today"
    by (rule start_same_day, rule 2(4))+
  have "daily_run words src today pid (snd (sessions_start ss pid now today)) es = Some (out, ss')"
    using 2(2) by (simp only: daily_run.simps)
  from 2(1) [OF this sessions_start_ok [OF 2(3)] same(3)] show ?case
    by (simp only: same)
next
  case (3 words src today pid ss guess now played es)
  obtain res fin ss1 out1 where run: "sessions_guess ss pid guess now words src played = Some (res, fin, ss1)"
    and rest: "daily_run words src today pid ss1 es = Some (out1, ss')" and out: "out = (res, fin) # out1"
    using 3(2) by (auto simp: Option.bind_eq_Some_conv split: prod.splits)
  have ok1: "sessions_ok ss1" using sessions_guess_ok [OF 3(3) run] .
  from run show ?case
  proof (cases rule: sessions_guess_cases)
    case refused
    then show ?thesis
      using 3(1) [OF run refl refl rest ok1] 3(4) by (simp add: out results_def valid_guesses_def WordleRes_zero_def)
  next
    case (taken s word colors)
    have "\<forall>s. ss1 pid = Some s \<longrightarrow> ss_date s = today" using taken 3(4) by auto
    from 3(1) [OF run refl refl rest ok1 this] taken show ?thesis
      by (auto simp: out results_def valid_guesses_def is_done_def guess_count_def guessed_def)
  qed
qed

lemma is_done_le_1: "is_done ss pid \<le> 1"
  by (simp add: is_done_def split: option.splits)

lemma guess_count_le: "sessions_ok ss \<Longrightarrow> guess_count ss pid \<le> 5"
  by (auto simp: guess_count_def sessions_ok_def session_ok_def GuessesAllowed_def split: option.splits)

section \<open>A day, whatever happens\<close>

text \<open>The guesses of a day that counted, in order.\<close>

fun kept :: "daily_event list \<Rightarrow> (WordleRes \<times> Finished option) list \<Rightarrow> string list" where
  "kept (Open _ # es) out = kept es out"
| "kept (Try guess _ _ # es) ((res, _) # out) = (if wr_Valid res then toUpper guess # kept es out else kept es out)"
| "kept _ _ = []"

definition kept_colors :: "(WordleRes \<times> Finished option) list \<Rightarrow> WordleColor list list" where
  "kept_colors out = map (wr_Colors \<circ> fst) (filter (wr_Valid \<circ> fst) out)"

lemma sessions_guess_runs:
  assumes "solutions words \<noteq> []"
  shows "runs (sessions_guess ss pid guess now words src played) (\<lambda>_. True)"
proof -
  have f: "runs (For src words date) (\<lambda>_. True)" for date
    using runs_pick_word [OF assms, of "src (sint (fnv64a date))"] by (auto simp: For_def runs_iff)
  show ?thesis
  proof (cases "ss pid")
    case (Some s)
    obtain word where "For src words (ss_date s) = Some word" using f [of "ss_date s"] by (auto simp: runs_iff)
    then show ?thesis by (simp add: sessions_guess_def Some Let_def split_beta)
  qed (simp add: sessions_guess_def)
qed

lemma daily_run_runs:
  assumes "solutions words \<noteq> []"
  shows "runs (daily_run words src today pid ss es) (\<lambda>_. True)"
proof (induction es arbitrary: ss)
  case (Cons e es)
  show ?case
  proof (cases e)
    case (Try guess now played)
    obtain res fin ss' where g: "sessions_guess ss pid guess now words src played = Some (res, fin, ss')"
      using sessions_guess_runs [OF assms, of ss pid guess now src played] by (auto simp: runs_iff)
    from Cons [of ss'] show ?thesis by (auto simp: Try g runs_iff)
  qed (use Cons in simp)
qed simp

lemma daily_run_keeps:
  assumes "daily_run words src today pid ss es = Some (out, ss')"
    and "ss pid = Some s" and "ss_date s = today"
  shows "\<exists>s'. ss' pid = Some s' \<and> ss_date s' = today \<and> ss_start s' = ss_start s \<and>
    ss_guesses s' = ss_guesses s @ kept es out \<and> ss_colors s' = ss_colors s @ kept_colors out"
  using assms
proof (induction words src today pid ss es arbitrary: s out ss' rule: daily_run.induct)
  case (2 words src today pid ss now es)
  have "snd (sessions_start ss pid now today) pid = Some s"
    using 2(3,4) by (simp add: sessions_start_def)
  from 2(1) [OF _ this 2(4)] 2(2) show ?case by simp
next
  case (3 words src today pid ss guess now played es)
  obtain res fin ss1 out1 where run: "sessions_guess ss pid guess now words src played = Some (res, fin, ss1)"
    and rest: "daily_run words src today pid ss1 es = Some (out1, ss')" and out: "out = (res, fin) # out1"
    using 3(2) by (auto simp: Option.bind_eq_Some_conv split: prod.splits)
  from run show ?case
  proof (cases rule: sessions_guess_cases)
    case refused
    then show ?thesis
      using 3(1) [OF run refl refl rest, of s] 3(3,4) by (simp add: out WordleRes_zero_def kept_colors_def)
  next
    case (taken s0 word colors)
    then have "ss1 pid = Some (guessed s (toUpper guess) colors)" using 3(3) by simp
    from 3(1) [OF run refl refl rest this] taken 3(4) show ?thesis
      by (auto simp: out kept_colors_def guessed_def)
  qed
qed (simp add: kept_colors_def)

text \<open>The guesses of a day, and what it means that the answer to one of them is about a word: colors are
that word's, and the solution, told with the result only, is that word.\<close>

fun tried :: "daily_event list \<Rightarrow> string list" where
  "tried [] = []"
| "tried (Open _ # es) = tried es"
| "tried (Try guess _ _ # es) = guess # tried es"

definition judged_on :: "Words \<Rightarrow> string \<Rightarrow> string \<Rightarrow> string \<Rightarrow> WordleRes \<times> Finished option \<Rightarrow> bool" where
  "judged_on words today word guess = (\<lambda>(res, fin).
     (wr_Valid res \<longrightarrow> Score guess word words = (True, wr_Colors res)) \<and>
     wr_Solution res = (if fin = None then '''' else word) \<and>
     (\<forall>f. fin = Some f \<longrightarrow> wr_Valid res \<and> fi_Date f = today \<and> fi_Win f = allGreen (wr_Colors res)))"

lemma daily_run_judged:
  assumes "daily_run words src today pid ss es = Some (out, ss')"
    and "\<forall>s. ss pid = Some s \<longrightarrow> ss_date s = today" and "For src words today = Some word"
  shows "list_all2 (judged_on words today word) (tried es) out"
  using assms
proof (induction words src today pid ss es arbitrary: out rule: daily_run.induct)
  case (2 words src today pid ss now es)
  have same: "\<forall>s. snd (sessions_start ss pid now today) pid = Some s \<longrightarrow> ss_date s = today"
    by (rule start_same_day, rule 2(3))
  have "daily_run words src today pid (snd (sessions_start ss pid now today)) es = Some (out, ss')"
    using 2(2) by (simp only: daily_run.simps)
  from 2(1) [OF this same 2(4)] show ?case by (simp only: tried.simps)
next
  case (3 words src today pid ss guess now played es)
  obtain res fin ss1 out1 where run: "sessions_guess ss pid guess now words src played = Some (res, fin, ss1)"
    and rest: "daily_run words src today pid ss1 es = Some (out1, ss')" and out: "out = (res, fin) # out1"
    using 3(2) by (auto simp: Option.bind_eq_Some_conv split: prod.splits)
  from run show ?case
  proof (cases rule: sessions_guess_cases)
    case refused
    then show ?thesis
      using 3(1) [OF run refl refl rest] 3(3,4) by (simp add: out judged_on_def WordleRes_zero_def)
  next
    case (taken s word' colors)
    then have "\<forall>s. ss1 pid = Some s \<longrightarrow> ss_date s = today" and word: "word' = word" using 3(3,4) by auto
    from 3(1) [OF run refl refl rest this(1) 3(4)] show ?thesis using taken 3(3) by (simp add: out judged_on_def word)
  qed
qed simp

text \<open>C32: A fair day. Whatever a player does in a day, reconnecting, guessing at any time, with any answers
of the database, nothing panics; every guess is judged on one word, the word of that day; at most five
guesses count; at most one result is reported, exactly when the game is over, and it alone tells the
word.\<close>

theorem daily_game_is_fair:
  assumes "solutions words \<noteq> []"
  shows "\<exists>word out ss'. For src words today = Some word \<and> word \<in> set (solutions words) \<and>
    daily_run words src today pid Map.empty es = Some (out, ss') \<and>
    list_all2 (judged_on words today word) (tried es) out \<and>
    valid_guesses out \<le> 5 \<and> results out = is_done ss' pid \<and> results out \<le> 1"
proof -
  obtain out ss' where run: "daily_run words src today pid Map.empty es = Some (out, ss')"
    using daily_run_runs [OF assms] unfolding runs_iff by (metis surj_pair)
  obtain word where word: "For src words today = Some word" "word \<in> set (solutions words)"
    using runs_pick_word [OF assms, of "src (sint (fnv64a today))"] by (auto simp: For_def runs_iff)
  have "0 + results out = is_done ss' pid" "0 + valid_guesses out = guess_count ss' pid" "sessions_ok ss'"
    using daily_run_counts [OF run] by (auto simp: sessions_ok_def is_done_def guess_count_def)
  then show ?thesis using run word daily_run_judged [OF run _ word(1)] guess_count_le is_done_le_1
    by (intro exI [of _ word] exI [of _ out] exI [of _ ss']) simp
qed

theorem daily_game_is_fair_witness:
  "\<exists>out ss'. daily_run \<lparr>solutions = [''CRANE''], guessables = [''CRANE'', ''SLATE''], three = []\<rparr>
      (\<lambda>seed. \<lparr>draws = (\<lambda>_. 0), drawn = 0\<rparr>) ''2024-05-01'' 7 Map.empty
      [Open 0, Try ''slate'' 5 (\<lambda>_. False), Open 9, Try ''crane'' 12 (\<lambda>_. False)] = Some (out, ss') \<and>
    list_all2 (judged_on \<lparr>solutions = [''CRANE''], guessables = [''CRANE'', ''SLATE''], three = []\<rparr> ''2024-05-01'' ''CRANE'')
      [''slate'', ''crane''] out \<and> valid_guesses out \<le> 5 \<and> results out \<le> 1"
proof -
  let ?words = "\<lparr>solutions = [''CRANE''], guessables = [''CRANE'', ''SLATE''], three = []\<rparr>"
  have "solutions ?words \<noteq> []" by simp
  from daily_game_is_fair [OF this, of "\<lambda>seed. \<lparr>draws = (\<lambda>_. 0), drawn = 0\<rparr>" "''2024-05-01''" 7
      "[Open 0, Try ''slate'' 5 (\<lambda>_. False), Open 9, Try ''crane'' 12 (\<lambda>_. False)]"]
  obtain word out ss' where "word \<in> set (solutions ?words)"
    "daily_run ?words (\<lambda>seed. \<lparr>draws = (\<lambda>_. 0), drawn = 0\<rparr>) ''2024-05-01'' 7 Map.empty
      [Open 0, Try ''slate'' 5 (\<lambda>_. False), Open 9, Try ''crane'' 12 (\<lambda>_. False)] = Some (out, ss')"
    "list_all2 (judged_on ?words ''2024-05-01'' word) [''slate'', ''crane''] out" "valid_guesses out \<le> 5" "results out \<le> 1"
    unfolding tried.simps by blast
  moreover from this(1) have "word = ''CRANE''" by simp
  ultimately show ?thesis by blast
qed

text \<open>C33: Reconnecting gives the game back. Whatever happened since the player first opened the day's
game, opening it again returns exactly the guesses that counted, in order, with their colors, and the time
since the first opening: neither the clock nor the guesses can be reset.\<close>

theorem reconnecting_resumes:
  assumes "daily_run words src today pid ss (Open t0 # es) = Some (out, ss')"
    and "\<forall>s. ss pid = Some s \<longrightarrow> ss_date s \<noteq> today"
  shows "fst (sessions_start ss' pid now today) = WordleResume_zero\<lparr>ws_Guesses := kept es out,
    ws_Colors := kept_colors out, ws_Seconds := duration_Seconds (now - t0)\<rparr>"
proof -
  let ?fresh = "\<lparr>ss_date = today, ss_start = t0, ss_guesses = [], ss_colors = [], ss_done = False\<rparr>"
  have a: "snd (sessions_start ss pid t0 today) pid = Some ?fresh"
    using assms(2) by (simp add: sessions_start_def Let_def split: option.splits)
  have b: "daily_run words src today pid (snd (sessions_start ss pid t0 today)) es = Some (out, ss')"
    using assms(1) by simp
  obtain s' where "ss' pid = Some s'" "ss_date s' = today" "ss_start s' = t0" "ss_guesses s' = kept es out"
    "ss_colors s' = kept_colors out" using daily_run_keeps [OF b, OF a] by auto
  then show ?thesis by (simp add: sessions_start_def)
qed

theorem reconnecting_resumes_witness:
  "\<exists>out ss'. daily_run \<lparr>solutions = [''CRANE''], guessables = [''CRANE'', ''SLATE''], three = []\<rparr>
      (\<lambda>seed. \<lparr>draws = (\<lambda>_. 0), drawn = 0\<rparr>) ''2024-05-01'' 7 Map.empty
      [Open 0, Try ''slate'' 5 (\<lambda>_. False), Open 8] = Some (out, ss') \<and>
    ws_Guesses (fst (sessions_start ss' 7 9 ''2024-05-01'')) = kept [Try ''slate'' 5 (\<lambda>_. False), Open 8] out \<and>
    ws_Seconds (fst (sessions_start ss' 7 9 ''2024-05-01'')) = duration_Seconds 9"
proof -
  let ?words = "\<lparr>solutions = [''CRANE''], guessables = [''CRANE'', ''SLATE''], three = []\<rparr>"
    and ?src = "\<lambda>seed :: int. \<lparr>draws = (\<lambda>_. 0), drawn = 0\<rparr>"
    and ?es = "[Try ''slate'' 5 (\<lambda>_. False), Open 8]"
  have "solutions ?words \<noteq> []" by simp
  from daily_run_runs [OF this, of ?src "''2024-05-01''" 7 Map.empty "Open 0 # ?es"]
  obtain out ss' where run: "daily_run ?words ?src ''2024-05-01'' 7 Map.empty (Open 0 # ?es) = Some (out, ss')"
    unfolding runs_iff by (metis surj_pair)
  have "Map.empty 7 = (None :: session option)" by simp
  then show ?thesis using run reconnecting_resumes [OF run, of 9] by (intro exI [of _ out] exI [of _ ss']) simp
qed

end
