(* ===== verification/Wordle_Service.thy ===== *)
theory Wordle_Service
  imports Wordle_Daily Store_Facts Gameday Go_Http
begin

text \<open>
  The daily puzzle's service (\<open>internal/puzzles/wordle/service.go\<close>): its two messages, on top of the
  sessions of \<^theory_text>\<open>Wordle_Daily\<close> and the database, and the leaderboard. Whether the player stands close
  to the board is the world's answer, an argument. The clock is read more than once: each reading is
  an argument of its own.
\<close>

section \<open>The messages\<close>

definition leaderboardPageSize :: int where "leaderboardPageSize = 10"

record wordle_service =
  wv_words :: Words
  wv_sessions :: sessions
  wv_store :: Store

definition wordle_start :: "int \<Rightarrow> bool \<Rightarrow> gotime \<Rightarrow> gotime \<Rightarrow> wordle_service \<Rightarrow> WordleResume \<times> wordle_service" where
  "wordle_start pid inRange checked now svc =
    (let (played, st) = PlayedWordleOn pid (Of checked) (wv_store svc); svc = svc\<lparr>wv_store := st\<rparr> in
     if played \<noteq> Inr False then (WordleResume_zero\<lparr>ws_Played := True\<rparr>, svc)
     else if \<not> inRange then (WordleResume_zero\<lparr>ws_TooFar := True\<rparr>, svc)
     else let (res, ss) = sessions_start (wv_sessions svc) pid now (Of now) in (res, svc\<lparr>wv_sessions := ss\<rparr>))"

text \<open>
  The session asks whether the day was played only if it has an open session. A database that fails
  counts as played.
\<close>

definition wordle_played :: "int \<Rightarrow> Store \<Rightarrow> string \<Rightarrow> bool" where
  "wordle_played pid st date = (fst (PlayedWordleOn pid date st) \<noteq> Inr False)"

definition asked :: "int \<Rightarrow> sessions \<Rightarrow> Store \<Rightarrow> Store" where
  "asked pid ss st =
    (case ss pid of
      None \<Rightarrow> st
    | Some s \<Rightarrow> if ss_done s then st else snd (PlayedWordleOn pid (ss_date s) st))"

definition wordle_guess :: "int \<Rightarrow> int \<Rightarrow> string \<Rightarrow> gotime \<Rightarrow> (int \<Rightarrow> rng) \<Rightarrow> wordle_service \<Rightarrow>
    (WordleRes \<times> wordle_service) option" where
  "wordle_guess pid charID guess now newSource svc = do {
    (res, finished, ss) \<leftarrow> sessions_guess (wv_sessions svc) pid guess now (wv_words svc) newSource
       (wordle_played pid (wv_store svc));
    let st = asked pid (wv_sessions svc) (wv_store svc);
    let st = (case finished of
        None \<Rightarrow> st
      | Some f \<Rightarrow> snd (InsertWordle \<lparr>wl_Date = fi_Date f, wl_Win = fi_Win f, wl_Seconds = fi_Seconds f,
          wl_GuessCount = fi_Guesses f, wl_PlayerID = pid, wl_CharacterID = charID\<rparr> st));
    Some (res, svc\<lparr>wv_sessions := ss, wv_store := st\<rparr>)
  }"

section \<open>The leaderboard\<close>

record leaderboardRes =
  lr_Date :: string
  lr_Today :: string
  lr_Page :: int
  lr_PageSize :: int
  lr_Total :: int
  lr_Rows :: "LeaderboardRow list"

text \<open>An \<open>int\<close> product wraps at 64 bits.\<close>

definition int_times :: "int \<Rightarrow> int \<Rightarrow> int" where
  "int_times a b = sint (word_of_int (a * b) :: 64 word)"

text \<open>The query's parameters are the empty string if absent.\<close>

definition HandleLeaderboard :: "scan \<Rightarrow> http_method \<Rightarrow> string \<Rightarrow> string \<Rightarrow> gotime \<Rightarrow> Store \<Rightarrow> leaderboardRes response \<times> Store" where
  "HandleLeaderboard scan meth dateStr pageStr now st =
    (if meth \<noteq> GET then (HttpError MethodNotAllowed ''Method not allowed, only GET allowed.'', st)
     else let today = Of now; date = (if dateStr = '''' then today else dateStr) in
       if dateStr \<noteq> '''' \<and> \<not> Valid date then (HttpError StatusBadRequest ''Bad date, use YYYY-MM-DD.'', st)
       else
         (case (if pageStr = '''' then Some 0 else case Atoi pageStr of None \<Rightarrow> None | Some p \<Rightarrow> if p < 0 then None else Some p) of
           None \<Rightarrow> (HttpError StatusBadRequest ''Bad page.'', st)
         | Some page \<Rightarrow>
             (case WordleLeaderboard scan date leaderboardPageSize (int_times page leaderboardPageSize) st of
               (Inl _, st) \<Rightarrow> (dbError, st)
             | (Inr (rows, n), st) \<Rightarrow>
                 (HttpJSON \<lparr>lr_Date = date, lr_Today = today, lr_Page = page, lr_PageSize = leaderboardPageSize,
                    lr_Total = n, lr_Rows = rows\<rparr>, st))))"

section \<open>A finished game is saved\<close>

lemma guess_saves:
  assumes "wordle_guess pid charID guess now src svc = Some (res, svc')" and "wv_store svc = up t"
    and "pid \<in> player_ids t" and "charID \<in> char_ids t" and "wr_Status res \<noteq> WordleInGame"
  shows "\<exists>i r t'. wv_store svc' = up t' \<and> (i, r) \<in> set (t_Wordle t') \<and> wl_PlayerID r = pid \<and> wl_CharacterID r = charID \<and>
    (wl_Win r \<longleftrightarrow> wr_Status res = WordleWin) \<and> map_option ss_date (wv_sessions svc pid) = Some (wl_Date r) \<and>
    map_option ss_guesses (wv_sessions svc' pid) \<noteq> None \<and>
    wl_GuessCount r = int (length (the (map_option ss_guesses (wv_sessions svc' pid))))"
proof -
  obtain fin ss where g: "sessions_guess (wv_sessions svc) pid guess now (wv_words svc) src (wordle_played pid (up t)) = Some (res, fin, ss)"
    and svc': "wv_sessions svc' = ss" "wv_store svc' = (case fin of None \<Rightarrow> asked pid (wv_sessions svc) (up t)
      | Some f \<Rightarrow> snd (InsertWordle \<lparr>wl_Date = fi_Date f, wl_Win = fi_Win f, wl_Seconds = fi_Seconds f,
          wl_GuessCount = fi_Guesses f, wl_PlayerID = pid, wl_CharacterID = charID\<rparr> (asked pid (wv_sessions svc) (up t))))"
    using assms(1,2) by (auto simp: wordle_guess_def bind_eq_Some_conv Let_def)
  from g show ?thesis
  proof (cases rule: sessions_guess_cases)
    case refused
    then show ?thesis using assms(5) by (simp add: WordleRes_zero_def)
  next
    case (taken s word colors)
    let ?r = "\<lparr>wl_Date = ss_date s, wl_Win = allGreen colors, wl_Seconds = wr_Seconds res,
      wl_GuessCount = int (Suc (length (ss_guesses s))), wl_PlayerID = pid, wl_CharacterID = charID\<rparr>"
    have a: "asked pid (wv_sessions svc) (up t) = up t"
      using taken(1,2) by (simp add: asked_def PlayedWordleOn_def)
    have "filter (\<lambda>(_, r). wl_PlayerID r = pid \<and> wl_Date r = ss_date s) (t_Wordle t) = []"
      using taken(3) by (simp add: wordle_played_def PlayedWordleOn_def)
    then have new: "\<not> (\<exists>(_, r') \<in> set (t_Wordle t). wl_PlayerID r' = pid \<and> wl_Date r' = ss_date s)"
      by (auto simp: filter_empty_conv)
    have st: "wv_store svc' = snd (InsertWordle ?r (up t))"
      using svc'(2) assms(5) unfolding taken(11) a by simp
    have "insert_wordle ?r t = Inr ((), t\<lparr>t_Wordle := t_Wordle t @ [(seq_Wordle t + 1, ?r)], seq_Wordle := seq_Wordle t + 1\<rparr>)"
      using new assms(3,4) by (simp add: insert_wordle_def player_ids_def char_ids_def Let_def)
    then have "wv_store svc' = up (t\<lparr>t_Wordle := t_Wordle t @ [(seq_Wordle t + 1, ?r)], seq_Wordle := seq_Wordle t + 1\<rparr>)"
      by (simp add: st InsertWordle_def)
    moreover have "wr_Status res = WordleWin \<longleftrightarrow> allGreen colors" by (simp add: taken(9))
    moreover have "wv_sessions svc' pid = Some (guessed s (toUpper guess) colors)" by (simp add: svc'(1) taken(6))
    ultimately show ?thesis
      using taken(1) by (intro exI [of _ "seq_Wordle t + 1"] exI [of _ ?r]) (simp add: guessed_def)
  qed
qed

text \<open>C31: A finished game is saved and ends the day. When a guess wins or loses the day's game, the result is
in the database, under the account and the character that finished it, with its guesses; and whenever the
account opens the game again that day, whatever was written since, it is told that it has played.\<close>

theorem finished_games_end_the_day:
  assumes "wordle_guess pid charID guess now src svc = Some (res, svc')" and "wv_store svc = up t"
    and "pid \<in> player_ids t" and "charID \<in> char_ids t" and "wr_Status res \<noteq> WordleInGame"
  shows "\<exists>r t'. wv_store svc' = up t' \<and> r \<in> snd ` set (t_Wordle t') \<and> wl_PlayerID r = pid \<and> wl_CharacterID r = charID \<and>
    (wl_Win r \<longleftrightarrow> wr_Status res = WordleWin) \<and> map_option ss_date (wv_sessions svc pid) = Some (wl_Date r) \<and>
    (\<forall>ops inRange checked later. Of checked = wl_Date r \<longrightarrow>
      fst (wordle_start pid inRange checked later (svc'\<lparr>wv_store := up (fold run_op ops t')\<rparr>)) =
        WordleResume_zero\<lparr>ws_Played := True\<rparr>)"
proof -
  obtain i r t' where r: "wv_store svc' = up t'" "(i, r) \<in> set (t_Wordle t')" "wl_PlayerID r = pid"
    "wl_CharacterID r = charID" "wl_Win r \<longleftrightarrow> wr_Status res = WordleWin"
    "map_option ss_date (wv_sessions svc pid) = Some (wl_Date r)"
    using guess_saves [OF assms] by blast
  have "fst (wordle_start pid inRange checked later (svc'\<lparr>wv_store := up (fold run_op ops t')\<rparr>)) = WordleResume_zero\<lparr>ws_Played := True\<rparr>"
    if "Of checked = wl_Date r" for ops inRange checked later
    using known_result [OF kept_result [OF r(2), of ops]] by (simp add: wordle_start_def that r(3))
  moreover have "r \<in> snd ` set (t_Wordle t')" using r(2) by force
  ultimately show ?thesis using r by (intro exI [of _ r] exI [of _ t']) simp
qed

theorem finished_games_end_the_day_witness:
  "let t = fold run_op [([], AddPlayer ''ada'' ''hash''), ([], AddCharacter 1 0 ''Ada'' ''knight'')] empty_tables;
       svc = \<lparr>wv_words = \<lparr>solutions = [''CRANE''], guessables = [''CRANE''], three = []\<rparr>,
         wv_sessions = [1 \<mapsto> \<lparr>ss_date = ''2024-05-01'', ss_start = 0, ss_guesses = [], ss_colors = [], ss_done = False\<rparr>],
         wv_store = up t\<rparr>
   in \<exists>res svc' r t'. wordle_guess 1 1 ''crane'' 5 (\<lambda>_. \<lparr>draws = (\<lambda>_. 0), drawn = 0\<rparr>) svc = Some (res, svc') \<and>
     wv_store svc' = up t' \<and> r \<in> snd ` set (t_Wordle t') \<and> wl_PlayerID r = 1 \<and> wl_Win r"
proof -
  define t where "t = fold run_op [([], AddPlayer ''ada'' ''hash''), ([], AddCharacter 1 0 ''Ada'' ''knight'')] empty_tables"
  define words where "words = \<lparr>solutions = [''CRANE''], guessables = [''CRANE''], three = []\<rparr>"
  define svc where "svc = \<lparr>wv_words = words,
         wv_sessions = [1 \<mapsto> \<lparr>ss_date = ''2024-05-01'', ss_start = 0, ss_guesses = [], ss_colors = [], ss_done = False\<rparr>],
         wv_store = up t\<rparr>"
  let ?src = "\<lambda>_ :: int. \<lparr>draws = (\<lambda>_. 0), drawn = 0\<rparr>"
  have known: "1 \<in> player_ids t" "1 \<in> char_ids t" "t_Wordle t = []"
    by (simp_all add: t_def InsertPlayer_def insert_player_def InsertCharacter_def insert_character_def empty_tables_def
        Let_def player_ids_def char_ids_def)
  have f: "For ?src words ''2024-05-01'' = Some ''CRANE''" by (simp add: For_def pick_word_def Intn_def words_def at_int_def)
  have sc: "Score ''crane'' ''CRANE'' words = (True, [Green, Green, Green, Green, Green])" unfolding words_def by code_simp
  obtain res svc' where run: "wordle_guess 1 1 ''crane'' 5 ?src svc = Some (res, svc')" "wr_Status res = WordleWin"
    using known(3) f sc
    by (auto simp: wordle_guess_def sessions_guess_def svc_def wordle_played_def PlayedWordleOn_def Let_def allGreen_def)
  have "wr_Status res \<noteq> WordleInGame" by (simp add: run(2))
  from finished_games_end_the_day [OF run(1) _ known(1,2) this] obtain r t' where
    "wv_store svc' = up t'" "r \<in> snd ` set (t_Wordle t')" "wl_PlayerID r = 1" "wl_Win r"
    using run(2) by (auto simp: svc_def)
  then show ?thesis using run(1) unfolding t_def [symmetric] words_def [symmetric] Let_def svc_def [symmetric] by blast
qed

section \<open>Pages\<close>

lemma int_times_small: "0 \<le> a \<Longrightarrow> 10 * a < 2 ^ 63 \<Longrightarrow> int_times a 10 = 10 * a"
  unfolding int_times_def sint_sbintrunc' by (simp add: signed_take_bit_int_eq_self)

lemma leaderboard_any_offset:
  "WordleLeaderboard scan date 10 offset (up t) =
    (Inr (number_rows (offset + 1) (take 10 (drop (nat offset) (leaderboard_rows scan date t))), int (length (winners date t))), up t)"
  by (simp add: WordleLeaderboard_def and_then_def winners_def [symmetric] sql_page_def)

lemma board_length: "tables_ok t \<Longrightarrow> scan_ok scan \<Longrightarrow> length (board scan date t) = length (winners date t)"
  using arg_cong [OF leaderboard_lines, of t scan length date] scan_length by (simp add: board_def number_rows_simps ranking_winners)

text \<open>The page a request asks for.\<close>

definition page_of :: "string \<Rightarrow> int option" where
  "page_of s = (if s = '''' then Some 0 else Atoi s)"

text \<open>The leaderboard answers every request. Anything but a GET, a text that is no date, and a page that is
no number or negative are refused, each with its status, without asking the database; otherwise the answer
is the day asked for, or today, and its part of the ranking, ten lines from the page's first, with the number
of all winners (for pages whose first line's number is an \<open>int\<close>).\<close>

theorem leaderboard_answers:
  assumes "t = fold run_op ops empty_tables" and "\<forall>page. page_of pageStr = Some page \<longrightarrow> 10 * page < 2 ^ 63"
    and "scan_ok scan"
  shows "HandleLeaderboard scan meth dateStr pageStr now (up t) =
    ((if meth \<noteq> GET then HttpError 405 ''Method not allowed, only GET allowed.''
      else if dateStr \<noteq> '''' \<and> \<not> Valid dateStr then HttpError 400 ''Bad date, use YYYY-MM-DD.''
      else case page_of pageStr of
          None \<Rightarrow> HttpError 400 ''Bad page.''
        | Some page \<Rightarrow> if page < 0 then HttpError 400 ''Bad page.''
            else (let date = (if dateStr = '''' then Of now else dateStr) in
              HttpJSON \<lparr>lr_Date = date, lr_Today = Of now, lr_Page = page, lr_PageSize = 10,
                lr_Total = int (length (board scan date t)),
                lr_Rows = take 10 (drop (10 * nat page) (board scan date t))\<rparr>)), up t)"
proof -
  have ok: "tables_ok t" using schema.run_ops empty_tables_ok unfolding assms(1) by blast
  have page: "WordleLeaderboard scan date 10 (int_times page 10) (up t) =
      (Inr (take 10 (drop (10 * nat page) (board scan date t)), int (length (board scan date t))), up t)"
    if "page_of pageStr = Some page" "0 \<le> page" for date page
  proof -
    have "int_times page 10 = 10 * page" using that assms(2) by (intro int_times_small) auto
    moreover have "nat (10 * page) = 10 * nat page" using that(2) by (simp add: nat_mult_distrib)
    ultimately show ?thesis
      using that(2) by (simp add: leaderboard_any_offset board_length [OF ok assms(3), symmetric] board_def number_rows_simps add.commute)
  qed
  show ?thesis
  proof (cases "meth \<noteq> GET \<or> dateStr \<noteq> '''' \<and> \<not> Valid dateStr")
    case True
    then show ?thesis by (auto simp: HandleLeaderboard_def status_defs Let_def)
  next
    case False
    have p: "(if pageStr = '''' then Some 0 else case Atoi pageStr of None \<Rightarrow> None | Some p \<Rightarrow> if p < 0 then None else Some p) =
        (case page_of pageStr of None \<Rightarrow> None | Some p \<Rightarrow> if p < 0 then None else Some p)"
      by (simp add: page_of_def)
    show ?thesis
      using False page unfolding HandleLeaderboard_def p leaderboardPageSize_def
      by (auto simp: status_defs Let_def split: option.split)
  qed
qed

theorem leaderboard_answers_witness:
  "let t = fold run_op [([], AddPlayer ''ada'' ''hash'')] empty_tables
   in fst (HandleLeaderboard id GET ''2024-02-30'' ''1'' 0 (up t)) = HttpError 400 ''Bad date, use YYYY-MM-DD.''"
proof -
  have a: "Atoi ''1'' = Some 1" "\<not> Valid ''2024-02-30''" by code_simp+
  have p: "\<forall>page. page_of ''1'' = Some page \<longrightarrow> 10 * page < 2 ^ 63" by (simp add: page_of_def a)
  show ?thesis unfolding Let_def leaderboard_answers [OF refl p id_scan] using a(2) by simp
qed

text \<open>A page number too large is not refused. The product of page and page size wraps around, SQLite takes
the negative offset for none, and the answer is the first page again, its lines numbered from far below zero.\<close>

theorem huge_pages_wrap:
  assumes "t = fold run_op ops empty_tables" and "Valid date"
  shows "\<exists>res. fst (HandleLeaderboard scan GET date ''922337203685477581'' now (up t)) = HttpJSON res \<and>
    map winner_line (lr_Rows res) = map winner_line (take 10 (board scan date t)) \<and>
    map lb_Place (lr_Rows res) = map (\<lambda>i. int i - 9223372036854775805) [0..<min 10 (length (board scan date t))]"
proof -
  have a: "Atoi ''922337203685477581'' = Some 922337203685477581" by code_simp
  have w: "int_times 922337203685477581 10 = -9223372036854775806" by code_simp
  have ne: "date \<noteq> ''''" using assms(2) by (auto simp: Valid_def Parse_date_def)
  show ?thesis
    using assms(2) ne
    by (simp add: HandleLeaderboard_def a Let_def leaderboardPageSize_def w leaderboard_any_offset number_rows_simps
        board_def min.commute)
qed

theorem huge_pages_wrap_witness:
  "let t = fold run_op [([], AddPlayer ''ada'' ''hash''), ([], AddCharacter 1 0 ''Ada'' ''knight''),
      ([], AddWordle \<lparr>wl_Date = ''2024-05-01'', wl_Win = True, wl_Seconds = 42, wl_GuessCount = 3, wl_PlayerID = 1,
        wl_CharacterID = 1\<rparr>)] empty_tables
   in \<exists>res. fst (HandleLeaderboard id GET ''2024-05-01'' ''922337203685477581'' 0 (up t)) = HttpJSON res \<and>
     map winner_line (lr_Rows res) = map winner_line (take 10 (board id ''2024-05-01'' t))"
proof -
  have v: "Valid ''2024-05-01''" by code_simp
  show ?thesis unfolding Let_def using huge_pages_wrap [OF refl v] by blast
qed

end
