(* ===== verification/Oracle_Gods.thy ===== *)
theory Oracle_Gods
  imports Demo_Run Go_Utf8
begin

text \<open>
  The gods who answer prayers (\<open>internal/oracle\<close>): the prompts, the check that an answer does not give the
  word away, Claude's two tries, and the canned oracle of the tests. Claude itself is a service: it is a
  parameter, the reply to each request in turn. The lemmas show that an answer of Claude's to a major prayer
  never spells the word, that the canned one may, and that a minor prayer shows the gods one letter only.
\<close>

section \<open>The gods\<close>

definition Gods :: "God list" where
  "Gods =
    [\<lparr>god_Name = ''Vaelith'', god_Title = ''Keeper of Riddles'', god_Color = ''#9d8cf2'',
      god_Persona = ''You are ancient and patient. You speak in archaic, formal verse, like an oracle carved in stone.''\<rparr>,
     \<lparr>god_Name = ''Brakka'', god_Title = ''the Thunder Jester'', god_Color = ''#f2a93b'',
      god_Persona = ''You are loud, boastful and love a terrible pun. You speak in booming bursts and laugh at your own jokes, but your hint is always real.''\<rparr>,
     \<lparr>god_Name = ''Oma Sel'', god_Title = ''Mother of Tides'', god_Color = ''#5fb4d9'',
      god_Persona = ''You are gentle and warm, and everything reminds you of the sea. You speak softly, in flowing images of water, shells and moonlight.''\<rparr>,
     \<lparr>god_Name = ''Nix'', god_Title = ''the Whispering Void'', god_Color = ''#a3a8b3'',
      god_Persona = ''You are cold and terse. Few words, all lowercase, unsettling, as if whispered from the dark between the stars.''\<rparr>,
     \<lparr>god_Name = ''Sol Aureus'', god_Title = ''the Radiant'', god_Color = ''#e8c872'',
      god_Persona = ''You are grandiose and vain. You speak of yourself in the third person and of light, gold and glory.''\<rparr>]"

section \<open>The prompts\<close>

definition newline :: string where "newline = [CHR 0x0A]"

definition systemPrompt :: "God \<Rightarrow> nat \<Rightarrow> string" where
  "systemPrompt g wordLength =
    ''You are '' @ god_Name g @ '', '' @ god_Title g @ '', a god in a fantasy word game. A mortal cleric, in the middle of a duel, prays to you for help guessing their secret '' @
    Itoa (int wordLength) @ ''-letter word.'' @ newline @ newline @ god_Persona g @ newline @ newline @
    ''How you answer:'' @ newline @
    ''- Reply only with your words to the mortal: no preamble, quotation marks, stage directions or formatting.'' @ newline @
    ''- At most 60 words.'' @ newline @
    ''- Answer with a vague, mysterious riddle, but make it accurate, so a clever mortal can work it out.'' @ newline @
    ''- Never state the answer outright.''"

definition ordinal :: "int \<Rightarrow> string" where
  "ordinal n = (if n = 1 then ''1st'' else if n = 2 then ''2nd'' else if n = 3 then ''3rd'' else Itoa n @ ''th'')"

text \<open>\<open>%c\<close> of a byte writes the code point with that number.\<close>

definition format_c :: "char \<Rightarrow> string" where "format_c c = encode_rune (byte c)"

text \<open>\<open>None\<close>: the index is out of range, a panic.\<close>

definition userPrompt :: "Prayer \<Rightarrow> string option" where
  "userPrompt p =
    (if pry_Kind p = PrayerMinor then do {
       letter \<leftarrow> at_int (pry_Word p) (pry_Pos p);
       Some (''The mortal prays for a hint about one letter of their word. The letter is '' @ format_c letter @
         '', and it is the '' @ ordinal (pry_Pos p + 1) @ '' letter of the word.'' @ newline @ newline @
         ''Give a riddle that hints at both the letter and its position. Don'' @ [CHR 0x27] @ ''t write the letter on its own or spell it out.'')
     }
     else Some (''The mortal prays for a hint about their whole word. The word is '' @ pry_Word p @ ''.'' @ newline @ newline @
       ''Give a cryptic riddle about the word. Never write the word, or any form of it.''))"

definition leaks :: "Prayer \<Rightarrow> string \<Rightarrow> bool" where
  "leaks p text \<longleftrightarrow> pry_Kind p = PrayerMajor \<and> strings_Contains (toUpper text) (pry_Word p)"

section \<open>Claude\<close>

datatype content_block = TextBlock string | OtherBlock

record BetaMessage =
  bm_Refusal :: bool
  bm_Content :: "content_block list"

text \<open>The \<open>i\<close>th request: its system prompt and its user message. \<open>None\<close> is a failed call.\<close>

type_synonym messages_api = "nat \<Rightarrow> string \<Rightarrow> string \<Rightarrow> BetaMessage option"

datatype silence = CallFailed | Declined | EmptyAnswer | GaveTheWordAway

definition block_text :: "content_block \<Rightarrow> string" where
  "block_text b = (case b of TextBlock t \<Rightarrow> t | OtherBlock \<Rightarrow> '''')"

definition ask :: "messages_api \<Rightarrow> nat \<Rightarrow> God \<Rightarrow> Prayer \<Rightarrow> (silence + string) option" where
  "ask api i god p = do {
    prompt \<leftarrow> userPrompt p;
    Some (case api i (systemPrompt god (length (pry_Word p))) prompt of
      None \<Rightarrow> Inl CallFailed
    | Some resp \<Rightarrow>
       (if bm_Refusal resp then Inl Declined
        else let text = TrimSpace (concat (map block_text (bm_Content resp))) in
          if text = '''' then Inl EmptyAnswer else Inr text))
  }"

text \<open>The loop of \<open>Pray\<close>, with the tries left.\<close>

fun ask_again :: "messages_api \<Rightarrow> nat \<Rightarrow> nat \<Rightarrow> God \<Rightarrow> Prayer \<Rightarrow> (silence + Answer) option" where
  "ask_again api i 0 god p = Some (Inl GaveTheWordAway)"
| "ask_again api i (Suc n) god p = do {
    answer \<leftarrow> ask api i god p;
    (case answer of
      Inl err \<Rightarrow> Some (Inl err)
    | Inr text \<Rightarrow> if \<not> leaks p text then Some (Inr \<lparr>ans_God = god, ans_Text = text\<rparr>) else ask_again api (Suc i) n god p)
  }"

definition Claude_Pray :: "messages_api \<Rightarrow> rng \<Rightarrow> Prayer \<Rightarrow> (silence + Answer) option" where
  "Claude_Pray api r p = do {
    (k, _) \<leftarrow> Intn (int (length Gods)) r;
    god \<leftarrow> at_int Gods k;
    ask_again api 0 2 god p
  }"

section \<open>The canned oracle\<close>

text \<open>\<open>Err\<close>, if set, makes every prayer fail.\<close>

definition Fake_Pray :: "bool \<Rightarrow> Prayer \<Rightarrow> (silence + Answer) option" where
  "Fake_Pray fails p =
    (if fails then Some (Inl CallFailed)
     else do {
       god \<leftarrow> at_int Gods 0;
       if pry_Kind p = PrayerMinor then do {
         letter \<leftarrow> at_int (pry_Word p) (pry_Pos p);
         Some (Inr \<lparr>ans_God = god, ans_Text = ''Seek the '' @ ordinal (pry_Pos p + 1) @ '' place, mortal, where '' @ format_c letter @ '' waits.''\<rparr>)
       } else do {
         letter \<leftarrow> at_int (pry_Word p) 0;
         Some (Inr \<lparr>ans_God = god, ans_Text = ''Five marks, mortal, and the first of them is '' @ format_c letter @ ''.''\<rparr>)
       }
     })"

section \<open>What the gods give away\<close>

lemma userPrompt_total:
  assumes "pry_Kind p = PrayerMinor \<longrightarrow> 0 \<le> pry_Pos p \<and> pry_Pos p < int (length (pry_Word p))"
  shows "userPrompt p \<noteq> None"
  using assms by (auto simp: userPrompt_def at_int_def)

lemma ask_again_total:
  assumes "userPrompt p \<noteq> None"
  shows "ask_again api i n god p \<noteq> None"
proof (induction n arbitrary: i)
  case (Suc n)
  obtain prompt where "userPrompt p = Some prompt" using assms by blast
  then show ?case using Suc [of "Suc i"] by (simp add: ask_def split: sum.split)
qed simp

lemma ask_again_answer:
  assumes "ask_again api i n god p = Some (Inr a)"
  shows "ans_God a = god \<and> ans_Text a \<noteq> '''' \<and> \<not> leaks p (ans_Text a)"
  using assms
proof (induction n arbitrary: i)
  case (Suc n)
  from Suc.prems obtain answer where answer: "ask api i god p = Some answer"
    and rest: "(case answer of Inl err \<Rightarrow> Some (Inl err)
      | Inr text \<Rightarrow> if \<not> leaks p text then Some (Inr \<lparr>ans_God = god, ans_Text = text\<rparr>) else ask_again api (Suc i) n god p) = Some (Inr a)"
    by (auto simp: bind_eq_Some_conv)
  have "answer \<noteq> Inr ''''" using answer by (auto simp: ask_def bind_eq_Some_conv Let_def split: option.splits if_splits)
  then show ?case using rest Suc.IH [of "Suc i"] by (auto split: sum.splits if_splits)
qed simp

lemma ask_again_cong:
  "(\<And>k. k < n \<Longrightarrow> api' (i + k) = api (i + k)) \<Longrightarrow> ask_again api' i n god p = ask_again api i n god p"
proof (induction n arbitrary: i)
  case (Suc n)
  have "api' i = api i" using Suc.prems [of 0] by simp
  then have "ask api' i god p = ask api i god p" by (simp add: ask_def)
  moreover have "ask_again api' (Suc i) n god p = ask_again api (Suc i) n god p"
    by (rule Suc.IH) (use Suc.prems [of "Suc _"] in simp)
  ultimately show ?case by (simp only: ask_again.simps)
qed simp

lemma Gods_pick: "\<exists>k r'. Intn (int (length Gods)) r = Some (k, r') \<and> 0 \<le> k \<and> k < int (length Gods)"
  using runs_Intn [of "int (length Gods)" r "\<lambda>(k, _). 0 \<le> k \<and> k < int (length Gods)"]
  by (auto simp: runs_iff Gods_def Intn_def)

lemma Claude_Pray_cases:
  obtains god where "god \<in> set Gods" "\<And>api p. Claude_Pray api r p = ask_again api 0 2 god p"
proof -
  obtain k r' where k: "Intn (int (length Gods)) r = Some (k, r')" "0 \<le> k" "k < int (length Gods)" using Gods_pick by blast
  then have "at_int Gods k = Some (Gods ! nat k)" "Gods ! nat k \<in> set Gods" by (simp_all add: at_int_def nat_less_iff)
  then show ?thesis using that k(1) by (simp add: Claude_Pray_def)
qed

text \<open>The gods never spell the word. A prayer whose letter, if it is minor, is in the word never panics; its
answer, if there is one, comes from one of the five gods and is not empty, and for a major prayer never
contains the word in any case; and no prayer makes more than two requests.\<close>

theorem gods_never_spell_the_word:
  assumes "pry_Kind p = PrayerMinor \<longrightarrow> 0 \<le> pry_Pos p \<and> pry_Pos p < int (length (pry_Word p))"
  shows "\<exists>res. Claude_Pray api r p = Some res \<and>
    (\<forall>a. res = Inr a \<longrightarrow> ans_God a \<in> set Gods \<and> ans_Text a \<noteq> '''' \<and>
      (pry_Kind p = PrayerMajor \<longrightarrow> \<not> strings_Contains (toUpper (ans_Text a)) (pry_Word p))) \<and>
    (\<forall>api'. api' 0 = api 0 \<and> api' 1 = api 1 \<longrightarrow> Claude_Pray api' r p = Some res)"
proof -
  obtain god where god: "god \<in> set Gods" "\<And>api p. Claude_Pray api r p = ask_again api 0 2 god p"
    using Claude_Pray_cases by blast
  obtain res where res: "ask_again api 0 2 god p = Some res"
    using ask_again_total [OF userPrompt_total [OF assms]] by blast
  have "ask_again api' 0 2 god p = Some res" if "api' 0 = api 0 \<and> api' 1 = api 1" for api'
    using ask_again_cong [of 2 api' 0 api god p] that res by (auto simp: less_2_cases_iff)
  then show ?thesis using ask_again_answer [of api 0 2 god p] god res by (auto simp: leaks_def)
qed

text \<open>C36: A minor prayer shows one letter. Two words of one length with the same letter at the place prayed for get
the same answer from the gods: nothing else of the word reaches them, so no riddle can hint at more.\<close>

theorem minor_prayers_show_one_letter:
  assumes "pry_Kind p = PrayerMinor" and "length word = length (pry_Word p)"
    and "at_int word (pry_Pos p) = at_int (pry_Word p) (pry_Pos p)"
  shows "Claude_Pray api r (p\<lparr>pry_Word := word\<rparr>) = Claude_Pray api r p \<and>
    Fake_Pray fails (p\<lparr>pry_Word := word\<rparr>) = Fake_Pray fails p"
proof -
  let ?q = "p\<lparr>pry_Word := word\<rparr>"
  have prompt: "userPrompt ?q = userPrompt p" using assms(1,3) by (simp add: userPrompt_def)
  have "ask_again api i n god ?q = ask_again api i n god p" for i n god
  proof (induction n arbitrary: i)
    case (Suc n)
    have "ask api i god ?q = ask api i god p" by (simp add: ask_def prompt assms(2))
    moreover have "leaks ?q t = leaks p t" for t using assms(1) by (simp add: leaks_def)
    ultimately show ?case by (simp only: ask_again.simps Suc)
  qed simp
  moreover obtain god where "\<And>api p. Claude_Pray api r p = ask_again api 0 2 god p" using Claude_Pray_cases by blast
  moreover have "Fake_Pray fails ?q = Fake_Pray fails p" using assms(1,3) by (simp add: Fake_Pray_def)
  ultimately show ?thesis by simp
qed

text \<open>What a list of messages tells about prayers, and whom.\<close>

fun prayer_news :: "(client \<times> ServerMsg) list \<Rightarrow> (client \<times> DuelPrayer) list" where
  "prayer_news [] = []"
| "prayer_news ((c, ServerDuelPrayer m) # msgs) = (c, m) # prayer_news msgs"
| "prayer_news (_ # msgs) = prayer_news msgs"

text \<open>C35: What Claude says of the word never spells it. When Claude is done with a major prayer, answered or
not, and the duel is over, nothing is sent. If it still runs, the cleric is told exactly one thing about the prayer
and nobody else anything about it: Claude's answer if there is one and the word is still the one prayed about, and
otherwise no text. The text shown never contains the word the cleric has to guess.\<close>

theorem answers_never_spell_the_word:
  assumes "pry_Kind (pj_prayer j) = PrayerMajor" and "Claude_Pray api r (pj_prayer j) = Some res"
  shows "\<exists>msgs. w_out (prayer_answer j (case res of Inl _ \<Rightarrow> None | Inr a \<Rightarrow> Some a) w) = w_out w @ msgs \<and>
    (let d = pj_duel j; me = side w d (pj_me j) in
     if p_duel (w_pobj w (side_p me)) \<noteq> Some d then msgs = []
     else \<exists>m. prayer_news msgs = [(p_client (w_pobj w (side_p me)), m)] \<and> dpr_ID m = pj_id j \<and>
       (case res of
          Inr a \<Rightarrow> if side_word me = pry_Word (pj_prayer j)
            then dpr_Text m = ans_Text a \<and> \<not> dpr_Failed m \<and> \<not> strings_Contains (toUpper (dpr_Text m)) (side_word me)
            else dpr_Text m = '''' \<and> dpr_Failed m
        | Inl _ \<Rightarrow> dpr_Text m = '''' \<and> dpr_Failed m))"
proof -
  obtain god where "\<And>api p. Claude_Pray api r p = ask_again api 0 2 god p" using Claude_Pray_cases by blast
  then have "\<not> leaks (pj_prayer j) (ans_Text a)" if "res = Inr a" for a using ask_again_answer assms(2) that by metis
  then have text_ok: "\<not> strings_Contains (toUpper (ans_Text a)) (pry_Word (pj_prayer j))" if "res = Inr a" for a
    using assms(1) that by (simp add: leaks_def)
  show ?thesis
    using text_ok
    by (cases "pj_me j"; cases res) (auto simp: prayer_answer_def Let_def syncDuel_def each_side_def sendDuelState_def send_side_def send_def
        unanswered_def prayer_msg_def upd_side_def upd_duel_def side_def)
qed

text \<open>Concrete words and a concrete Claude, who gives the word away first and then does not.\<close>

definition crane :: Prayer where "crane = \<lparr>pry_Kind = PrayerMajor, pry_Word = ''CRANE'', pry_Pos = 0\<rparr>"

definition first_god :: rng where "first_god = \<lparr>draws = (\<lambda>_. 0), drawn = 0\<rparr>"

definition claude_says :: messages_api where
  "claude_says i sys user = Some \<lparr>bm_Refusal = False, bm_Content = [TextBlock (if i = 0 then ''A crane!'' else ''A bird.'')]\<rparr>"

lemma claude_said: "Claude_Pray claude_says first_god crane = Some (Inr \<lparr>ans_God = hd Gods, ans_Text = ''A bird.''\<rparr>)"
proof -
  have "TrimSpace ''A crane!'' = ''A crane!''" "TrimSpace ''A bird.'' = ''A bird.''"
    by (simp_all add: TrimSpace_def trim_left.simps trim_right.simps decode_ascii decode_last_rune_def IsSpace_def byte_def)
  moreover have "leaks crane ''A crane!''" "\<not> leaks crane ''A bird.''" by (simp add: leaks_def crane_def; code_simp)+
  ultimately show ?thesis
    by (simp add: Claude_Pray_def Intn_def Gods_def ask_def userPrompt_def claude_says_def block_text_def at_int_def
        numeral_2_eq_2 first_god_def) (simp add: crane_def)
qed

theorem gods_never_spell_the_word_witness:
  "\<not> strings_Contains (toUpper ''A bird.'') (pry_Word crane)"
  using gods_never_spell_the_word [of crane claude_says first_god] claude_said by (simp add: crane_def)

theorem minor_prayers_show_one_letter_witness:
  "Fake_Pray False \<lparr>pry_Kind = PrayerMinor, pry_Word = ''CRANE'', pry_Pos = 2\<rparr> =
    Fake_Pray False \<lparr>pry_Kind = PrayerMinor, pry_Word = ''SHADY'', pry_Pos = 2\<rparr>"
  using minor_prayers_show_one_letter [of "\<lparr>pry_Kind = PrayerMinor, pry_Word = ''SHADY'', pry_Pos = 2\<rparr>" "''CRANE''"]
  by (simp add: at_int_def)

text \<open>Claude's answer reaches the cleric of a duel on the word.\<close>

definition demo_prayed :: world where
  "demo_prayed = demo_pair\<lparr>w_dobj := (w_dobj demo_pair)(7 := new_duel 0 1 3 ''CRANE'' 6 False),
     w_pobj := (w_pobj demo_pair)(1 := (demo_player 1 7 70 0)\<lparr>p_duel := Some 7\<rparr>)\<rparr>"

definition demo_prayer :: prayer_job where
  "demo_prayer = \<lparr>pj_duel = 7, pj_me = SideA, pj_id = 1, pj_kind = PrayerMajor, pj_cost = 3, pj_prayer = crane\<rparr>"

theorem answers_never_spell_the_word_witness:
  "\<exists>msgs m. w_out (prayer_answer demo_prayer (Some \<lparr>ans_God = hd Gods, ans_Text = ''A bird.''\<rparr>) demo_prayed) = w_out demo_prayed @ msgs \<and>
     prayer_news msgs = [(1, m)] \<and> dpr_ID m = 1 \<and> dpr_Text m = ''A bird.'' \<and>
     \<not> strings_Contains (toUpper ''A bird.'') (side_word (side demo_prayed 7 SideA))"
proof -
  have k: "pry_Kind (pj_prayer demo_prayer) = PrayerMajor" "Claude_Pray claude_says first_god (pj_prayer demo_prayer) =
      Some (Inr \<lparr>ans_God = hd Gods, ans_Text = ''A bird.''\<rparr>)"
    using claude_said by (simp_all add: demo_prayer_def) (simp add: crane_def)
  have d: "pj_duel demo_prayer = 7" "pj_me demo_prayer = SideA" "pj_id demo_prayer = 1" "pry_Word (pj_prayer demo_prayer) = ''CRANE''"
    by (simp_all add: demo_prayer_def crane_def)
  have w: "side_p (side demo_prayed 7 SideA) = 1" "side_word (side demo_prayed 7 SideA) = ''CRANE''"
    by (simp_all add: demo_prayed_def side_def new_duel_def new_side_def side_effects.defs)
  have p: "p_duel (w_pobj demo_prayed 1) = Some 7" "p_client (w_pobj demo_prayed 1) = 1"
    by (simp_all add: demo_prayed_def demo_player_def)
  show ?thesis
    using answers_never_spell_the_word [OF k, of demo_prayed]
    unfolding d w p Let_def sum.case by (auto simp: w)
qed

section \<open>The canned oracle gives words away\<close>

text \<open>Nothing checks the canned riddle against the word: it spells \<open>FIRST\<close>, which is one of the game's
words, and the check Claude's answers go through would refuse it.\<close>

theorem canned_answer_spells_the_word:
  "\<exists>a. Fake_Pray False \<lparr>pry_Kind = PrayerMajor, pry_Word = ''FIRST'', pry_Pos = 0\<rparr> = Some (Inr a) \<and>
     leaks \<lparr>pry_Kind = PrayerMajor, pry_Word = ''FIRST'', pry_Pos = 0\<rparr> (ans_Text a)"
proof -
  have "format_c CHR ''F'' = ''F''" by code_simp
  moreover have "strings_Contains (toUpper ''Five marks, mortal, and the first of them is F.'') ''FIRST''" by code_simp
  ultimately show ?thesis by (simp add: Fake_Pray_def Gods_def at_int_def leaks_def)
qed

end
