(* ===== verification/Spec2Isabelle.thy ===== *)
theory Spec2Isabelle
  imports Startup Wordle_Service Oracle_Gods
begin

text \<open>
  Verification of nytrpg, a multiplayer game server in Go: players walk around a town, chat, play a daily
  Wordle and duel each other at Wordle with class abilities. All paths below are under \<open>src/internal/\<close>.

  \<^bold>\<open>How the program works.\<close> One goroutine, the world (\<open>game/world.go\<close>), owns all game state: connections hand it
  commands, a ticker makes it step 20 times a second, and goroutines asking the Oracle hand answers back. Each
  connection has a goroutine that reads messages, limits their rate and dispatches them to handlers
  (\<open>netconn/session.go\<close>, \<open>game/handlers.go\<close>). A connection is let in over HTTP with a token
  (\<open>server/server.go\<close>, \<open>auth/auth.go\<close>, \<open>characters/characters.go\<close>), takes its account's online slot over, has
  its rating loaded, and joins. Ranked duels are saved by one more goroutine (\<open>ranked/service.go\<close>). What is
  kept is in SQLite (\<open>store/\<close>).

  \<^bold>\<open>The theories,\<close> each opening with what it holds:

  \<^item> Foundations: \<^theory_text>\<open>Prelude\<close> (panics as \<open>None\<close>, the predicate \<open>runs\<close> for "returns, and the result satisfies",
    association lists), \<^theory_text>\<open>Go_Base\<close> (integers, time, random draws), \<^theory_text>\<open>Go_Float64\<close> (rounded binary64),
    \<^theory_text>\<open>Go_Utf8\<close> (text), \<^theory_text>\<open>Go_Http\<close> (what a handler answers), \<^theory_text>\<open>Protocol\<close> (the messages of
    \<open>protocol/protocol.go\<close>).
  \<^item> Puzzles: \<^theory_text>\<open>Wordle\<close> (scoring and word lists), \<^theory_text>\<open>Wordle_Daily\<close> (the daily sessions), \<^theory_text>\<open>Wordle_Service\<close>
    (their messages and the leaderboard), \<^theory_text>\<open>Duel_Puzzle\<close> (the interface \<open>game.DuelPuzzle\<close> as the locale
    \<open>duel_puzzle\<close>, interpreted on \<open>wordle.DuelPuzzle\<close>), all from \<open>puzzles/wordle/\<close>; \<^theory_text>\<open>Gameday\<close> (\<open>gameday/\<close>).
  \<^item> Duels: \<^theory_text>\<open>Classes\<close> (\<open>classes/\<close>), \<^theory_text>\<open>World_State\<close> (the structs, in an explicit store of references),
    \<^theory_text>\<open>Duel_Side\<close>, \<^theory_text>\<open>Duel_Effects\<close>, \<^theory_text>\<open>Casting\<close> (\<open>game/abilities.go\<close>, \<open>rogue.go\<close>, \<open>cleric.go\<close>), \<^theory_text>\<open>Duels\<close>
    (\<open>game/duel.go\<close>), \<^theory_text>\<open>Oracle_Gods\<close> (\<open>oracle/\<close>). \<^theory_text>\<open>Duel_World\<close>, \<^theory_text>\<open>Lobby\<close> and \<^theory_text>\<open>Duel_Safety\<close> hold their
    invariant \<open>world_ok\<close> and that every operation keeps it.
  \<^item> The world: \<^theory_text>\<open>Grid\<close> (\<open>game/grid.go\<close>), \<^theory_text>\<open>World\<close> (joining, moving, presence, profiles, replication, the tick),
    \<^theory_text>\<open>Chat\<close>. \<^theory_text>\<open>World_Roster\<close> holds the invariant \<open>roster_ok\<close>, \<^theory_text>\<open>Replication\<close> the view \<open>truth\<close> that replication
    refines.
  \<^item> Connections: \<^theory_text>\<open>Net_Session\<close> (queue, rate limits, reading, the router), \<^theory_text>\<open>Handlers\<close>.
  \<^item> Ratings and the database: \<^theory_text>\<open>Ranked\<close> (\<open>ranked/elo.go\<close>, \<open>ladder.go\<close>), \<^theory_text>\<open>Store\<close> (every query of \<open>store/\<close>
    with the constraints of the schema, and faults), \<^theory_text>\<open>Store_Facts\<close>, \<^theory_text>\<open>Migrations\<close>, \<^theory_text>\<open>Ranked_Service\<close> (the
    queue and its goroutine), \<^theory_text>\<open>Accounts\<close>.
  \<^item> Composition: \<^theory_text>\<open>World_Safety\<close> runs the world on events in any order (\<open>serving\<close>); \<^theory_text>\<open>Server\<close> and
    \<^theory_text>\<open>Server_Safety\<close> run the whole server, every connection's goroutine, the world, the ranked service and the
    database taking turns in any order, and show that its world is always one of \<open>serving\<close>; \<^theory_text>\<open>Startup\<close> shows
    that a first start meets the assumptions. \<^theory_text>\<open>Demo_Run\<close> is a run worked out, on which this theory applies
    its properties.

  \<^bold>\<open>Correspondence.\<close> A Go struct is a record, an enum a datatype, a pointer to a player, entity or duel a number
  looked up in the world's store, a map iterated in Go's random order an association list that the event
  \<open>Reordered\<close> may permute. A \<open>uint32\<close> or \<open>int32\<close> is a word and wraps. A panic (index, map, empty \<open>rand.Intn\<close>) is
  \<open>None\<close>. Messages sent are appended to \<open>w_out\<close>. Random draws come from a stream, \<open>rng\<close>, that properties never
  restrict. A goroutine is steps that may come in any order, each atomic where the code holds a lock or runs on
  the world goroutine.

  \<^bold>\<open>What is proved.\<close> C1 to C15 are about the running world and server: it never panics, its invariants hold after
  every event, replication shows clients exactly what is around them, accounts are played once and by their
  owners, duels start, go on and end as they should. The others are about one component each: connections and
  handlers, the database and its migrations, the ranked service, accounts, the daily puzzle, the gods, ratings
  and days. Interfaces are locales, interpreted on the model: \<open>duel_puzzle\<close>, \<open>spatial_index\<close> (what replication asks
  of the grid), \<open>rounding\<close> (what the ratings ask of floats), and \<open>table_relation\<close> with \<open>writes\<close>, the relations
  between tables that queries keep.

  \<^bold>\<open>Bounds and loops.\<close> Entity IDs are 32 bits and never reused, so the properties ask for fewer than \<open>2 ^ 32\<close>
  joins. Loops are structural recursions over lists; \<open>energy_loop\<close>, \<open>reshape_loop\<close> and the retries of the gods are
  shown to end. No fuel is used. The ranked goroutine sleeps and wakes; \<open>Ranked_Service.closing_saves_everything\<close>
  bounds the turns it needs.

  \<^bold>\<open>Parameters.\<close> Code outside the repository is an argument: MessagePack decoding, the token bucket of the rate
  limiter, bcrypt and JWT (\<open>crypto\<close>), the Claude API, the websocket. SQLite is modelled as far as its statements
  are used, each of which may fail; where a query leaves the order of rows open, as the leaderboard does for
  winners that tie, that order is an argument too, \<open>scan\<close>, and another one for each query. \<open>math.Pow\<close> is
  taken to be correctly rounded, which Go does not promise. Which oracle answers prayers is \<open>w_Oracle\<close>; the answers
  that come back to the world are events, and may be anything.

  \<^bold>\<open>Not modelled.\<close> Of \<open>netconn/session.go\<close>, the write loop with its pings, deadlines and close frames, which only
  do I/O on the third-party connection; of \<open>server/server.go\<close>, the routes, the metrics and the waiting of
  \<open>Shutdown\<close>; \<open>game/stats.go\<close>, counters nothing reads; reading the embedded word lists and maps; the mutexes
  themselves. \<open>testkit/\<close>, \<open>tsgen/\<close> and \<open>cmd/\<close> (the entry point, bots, generators) are tools around the server.
\<close>

section \<open>The server never panics and stays consistent\<close>

text \<open>C1: Whatever the connections, the players, the Oracle, the ticker and Go's map order do, in any
order, the world goroutine never panics: every event that can happen has a result, and the server goes on
from there. (Entity IDs last for \<open>2 ^ 32 - 1\<close> joins.)\<close>

theorem world_never_panics:
  assumes "serving dp m h evs s" and "possible ev s" and "joins (evs @ [ev]) < 2 ^ 32"
  shows "\<exists>s'. react h ev s = Some s' \<and> serving dp m h (evs @ [ev]) s'"
  using serving_runs [OF assms] by (auto simp: runs_iff)

theorem world_never_panics_witness:
  "\<exists>s s'. serving demo_words demo_map None demo_events s \<and> react None (Requested 2 (DoRespond 1 True)) s = Some s'"
proof -
  obtain s where s: "serving demo_words demo_map None demo_events s" "lv_claims s = []"
    using demo_serving by blast
  have "joins (demo_events @ [Requested 2 (DoRespond 1 True)]) < 2 ^ 32"
    by (simp add: demo_events_def demo_joins_def joins_def is_join_def)
  then show ?thesis
    using world_never_panics [OF s(1), of "Requested 2 (DoRespond 1 True)"] s by auto
qed

text \<open>C5: One player per account. The accounts in the world and those claimed by connections about to
join are distinct, they are exactly the accounts shown as online, and no connection plays twice.\<close>

theorem one_player_per_account:
  assumes "serving dp m h evs s"
  shows "distinct (map fst (accounts (lv_world s) @ lv_claims s)) \<and>
    distinct (map snd (accounts (lv_world s) @ lv_claims s)) \<and>
    set (w_online (lv_world s)) = snd ` set (accounts (lv_world s) @ lv_claims s) \<and>
    Count (lv_world s) = int (length (accounts (lv_world s) @ lv_claims s))"
proof -
  note D = live_okD [OF serving_ok [OF assms], unfolded seats_def]
  have "length (w_online (lv_world s)) = length (map snd (accounts (lv_world s) @ lv_claims s))"
    using distinct_card [OF D(5)] distinct_card [OF D(4)] D(6) by (simp add: image_Un)
  then show ?thesis using D(3,4,6) by (simp add: Count_def)
qed

theorem one_player_per_account_witness:
  "\<exists>s. serving demo_words demo_map None demo_events s \<and> Count (lv_world s) = 2"
proof -
  obtain s where s: "serving demo_words demo_map None demo_events s" "lv_claims s = []"
      "w_players (lv_world s) = [(1, Suc 0), (2, 3)]" using demo_serving by blast
  then show ?thesis using one_player_per_account [OF s(1)] by (auto simp: accounts_def)
qed

text \<open>C6: What the players point at is there: every player is under their own connection, has an entity
which is one of the world's under its own ID, on the map, filed in the grid in the cell of the place it
stands at and in no other, so found near that place, is shown with their rating's elo, and is in a duel
exactly when that duel is running and has them on one side.\<close>

theorem players_consistent:
  assumes "serving dp m h evs s" and "(c, p) \<in> set (w_players (lv_world s))"
  shows "p_client (w_pobj (lv_world s) p) = c \<and> rating_ok (p_rating (w_pobj (lv_world s) p)) \<and>
    e_Elo (ent_of (lv_world s) p) = Elo (p_rating (w_pobj (lv_world s) p)) \<and>
    (e_ID (ent_of (lv_world s) p), p_ent (w_pobj (lv_world s) p)) \<in> set (w_entities (lv_world s)) \<and>
    inBounds (w_Map (lv_world s)) (e_Pos (ent_of (lv_world s) p)) \<and>
    (\<forall>k. (e_ID (ent_of (lv_world s) p), p_ent (w_pobj (lv_world s) p)) \<in> set (cell_at (lv_world s) k) \<longleftrightarrow>
       k = cellOf (e_Pos (ent_of (lv_world s) p))) \<and>
    p_ent (w_pobj (lv_world s) p) \<in> set (near (lv_world s) (e_Pos (ent_of (lv_world s) p))) \<and>
    (\<forall>d. p_duel (w_pobj (lv_world s) p) = Some d \<longleftrightarrow>
       d \<in> set (w_duels (lv_world s)) \<and> (\<exists>i. side_p (side (lv_world s) d i) = p))"
proof -
  let ?w = "lv_world s"
  note S = serving_sound [OF assms(1)]
  have p: "p \<in> snd ` set (w_players ?w)" using assms(2) by force
  note pl = players_okD [OF world_okD(2) [OF S(2)] assms(2)] and ent = player_entity [OF S(3) p]
  have "p_ent (w_pobj ?w p) \<in> set (near ?w (e_Pos (ent_of ?w p)))"
    using ent by (force simp: near_set [OF roster_okD(1) [OF S(3)]] adjacent_def ent_of_def)
  moreover have "p_duel (w_pobj ?w p) = Some d \<longleftrightarrow> d \<in> set (w_duels ?w) \<and> (\<exists>i. side_p (side ?w d i) = p)" for d
    using dueling_okD(4,5,6) [OF world_okD(3) [OF S(2)]] by blast
  moreover have "(e_ID (ent_of ?w p), p_ent (w_pobj ?w p)) \<in> set (cell_at ?w k) \<longleftrightarrow> k = cellOf (e_Pos (ent_of ?w p))" for k
    using in_own_cell [OF roster_okD(1) [OF S(3)] ent] by (simp add: ent_of_def)
  ultimately show ?thesis using pl roster_okD(7) [OF S(3) p] ent by simp
qed

theorem players_consistent_witness:
  "\<exists>s. serving demo_words demo_map None demo_events s \<and> inBounds (w_Map (lv_world s)) (e_Pos (ent_of (lv_world s) 3))"
proof -
  obtain s where s: "serving demo_words demo_map None demo_events s" "w_players (lv_world s) = [(1, Suc 0), (2, 3)]"
    using demo_serving by blast
  then show ?thesis using players_consistent [OF s(1), of 2 3] by auto
qed

section \<open>What players see\<close>

text \<open>C4: Replication shows the truth. Take what a client has been sent, welcome and updates, as a picture
of the world: after every tick each player's picture is exactly the other entities in the nine cells around
them, where they are and with the elo they have, and no change is left to be told.\<close>

theorem tick_shows_the_truth:
  assumes "serving dp m h evs s"
  shows "\<exists>w'. world_step (lv_world s) = Some w' \<and> w_players w' = w_players (lv_world s) \<and>
    (\<forall>(c, p) \<in> set (w_players w'). picture_of c w' = truth w' p) \<and>
    (\<forall>e. \<not> e_moved (w_eobj w' e) \<and> \<not> e_eloChanged (w_eobj w' e))"
proof -
  note S = serving_sound [OF assms]
  obtain w' where w': "world_step (lv_world s) = Some w'" "painted w'" "w_players w' = w_players (lv_world s)"
    using world_step_painted [OF S(1,4)] unfolding runs_iff by blast
  then show ?thesis using w' by (auto simp: painted_def)
qed

theorem tick_shows_the_truth_witness:
  "\<exists>s w'. serving demo_words demo_map None demo_events s \<and> world_step (lv_world s) = Some w' \<and> picture_of 1 w' = truth w' 1"
proof -
  obtain s where s: "serving demo_words demo_map None demo_events s" "w_players (lv_world s) = [(1, Suc 0), (2, 3)]"
    using demo_serving by blast
  then show ?thesis using tick_shows_the_truth [OF s(1)] by auto
qed

section \<open>Challenges and duels\<close>

text \<open>C7: A challenge that waits can be accepted: both players are in the world, each under exactly one
connection, different and free, the code's check that they are still free never fails, and when the
challenged one accepts, a duel of the two starts that the server then runs, on one word of the right
length, ranked if the challenge was.\<close>

theorem accepting_starts_a_duel:
  assumes "serving dp m h evs s" and "(i, ch) \<in> set (w_challenges (lv_world s))"
  shows "(\<forall>c. (c, ch_from ch) \<in> set (w_players (lv_world s)) \<longleftrightarrow> c = p_client (w_pobj (lv_world s) (ch_from ch))) \<and>
    (\<forall>c. (c, ch_to ch) \<in> set (w_players (lv_world s)) \<longleftrightarrow> c = p_client (w_pobj (lv_world s) (ch_to ch))) \<and>
    (\<exists>w' d. RespondDuel (p_client (w_pobj (lv_world s) (ch_to ch))) i True (lv_world s) = Some w' \<and> d \<in> set (w_duels w') \<and>
    p_duel (w_pobj w' (ch_from ch)) = Some d \<and> p_duel (w_pobj w' (ch_to ch)) = Some d \<and>
    ch_from ch \<noteq> ch_to ch \<and> p_duel (w_pobj (lv_world s) (ch_from ch)) = None \<and>
    p_duel (w_pobj (lv_world s) (ch_to ch)) = None \<and> length (side_word (side w' d SideA)) = word_length dp \<and>
    side_p (side w' d SideA) = ch_from ch \<and> side_p (side w' d SideB) = ch_to ch \<and>
    side_word (side w' d SideB) = side_word (side w' d SideA) \<and> d_ranked (w_dobj w' d) = ch_ranked ch)"
proof (intro conjI)
  note present = challenge_present [OF assms]
  show "\<forall>c. (c, ch_from ch) \<in> set (w_players (lv_world s)) \<longleftrightarrow> c = p_client (w_pobj (lv_world s) (ch_from ch))"
    by (rule present(1))
  show to: "\<forall>c. (c, ch_to ch) \<in> set (w_players (lv_world s)) \<longleftrightarrow> c = p_client (w_pobj (lv_world s) (ch_to ch))"
    by (rule present(2))
qed (rule challenge_accepted [OF assms], use challenge_present(2) [OF assms] in blast)

theorem accepting_starts_a_duel_witness:
  "\<exists>s w' d. serving demo_words demo_map None demo_events s \<and> RespondDuel 2 1 True (lv_world s) = Some w' \<and>
     d \<in> set (w_duels w') \<and> p_duel (w_pobj w' 3) = Some d"
proof -
  obtain s where s: "serving demo_words demo_map None demo_events s" "w_players (lv_world s) = [(1, Suc 0), (2, 3)]"
    "w_challenges (lv_world s) = [(1, demo_challenge)]" using demo_serving by blast
  then have "p_client (w_pobj (lv_world s) 3) = 2" using players_okD(1) [OF world_okD(2) [OF serving_sound(2) [OF s(1)]], of 2 3] by simp
  with s show ?thesis
    using accepting_starts_a_duel [OF s(1), of 1 demo_challenge] by (auto simp: demo_challenge_def)
qed

text \<open>C11: Nothing waits forever in the lobby. No challenge waits longer than 30 seconds, and a tick drops
exactly the challenges whose time is up and ends exactly the duels whose sudden death has run out.\<close>

theorem tick_clears_the_lobby:
  assumes "serving dp m h evs s" and "react h Ticked s = Some s'"
  shows "(\<forall>(i, ch) \<in> set (w_challenges (lv_world s)). ch_expires ch \<le> w_now (lv_world s) + ChallengeTimeout) \<and>
    w_challenges (lv_world s') = filter (\<lambda>(i, ch). w_now (lv_world s) < ch_expires ch) (w_challenges (lv_world s)) \<and>
    w_duels (lv_world s') = filter (\<lambda>d. isZero (d_deadline (w_dobj (lv_world s) d)) \<or>
      w_now (lv_world s) < d_deadline (w_dobj (lv_world s) d)) (w_duels (lv_world s))"
proof -
  note ok = serving_sound(2) [OF assms(1)]
  have "world_step (lv_world s) = Some (lv_world s')" using assms(2) by (auto simp: on_world_def)
  note W = world_step_lobby [OF ok this]
  show ?thesis
    using world_okD(4) [OF ok] W by (auto simp: challenges_ok_def challenge_ok_def over_def split_def not_le)
qed

theorem tick_clears_the_lobby_witness:
  "\<exists>s s'. serving demo_words demo_map None demo_events s \<and> react None Ticked s = Some s' \<and>
     (\<forall>(i, ch) \<in> set (w_challenges (lv_world s')). w_now (lv_world s) < ch_expires ch)"
proof -
  obtain s where s: "serving demo_words demo_map None demo_events s" using demo_serving by blast
  have "joins (demo_events @ [Ticked]) < 2 ^ 32"
    by (simp add: demo_events_def demo_joins_def joins_def is_join_def)
  then obtain s' where s': "react None Ticked s = Some s'"
    using serving_runs [OF s, of Ticked] by (auto simp: runs_iff)
  show ?thesis using tick_clears_the_lobby [OF s s'] s s' by auto
qed

text \<open>C8: An ability stays within its duel. Casting, picking a word to reshape reality and guessing in an
illusion never panic; they leave every other duel, the challenges, all players and their ratings and
entities as they are, leave their own duel well-formed (energy not negative, rows and Seeing Eyes on the
board, not over), and speak only to the two duelists.\<close>

theorem abilities_stay_in_the_duel:
  assumes "serving dp m h evs s" and "find_duel c (lv_world s) = Some (q, d, me, them)"
    and "cmd \<in> {DoCast req, DoReshape word, DoIllusion g}"
  shows "\<exists>w'. run_command h c cmd (lv_world s) = Some w' \<and> duel_ok (wordle_puzzle dp) (word_length dp) (w_dobj w' d) \<and>
    (\<forall>d'. d' \<noteq> d \<longrightarrow> w_dobj w' d' = w_dobj (lv_world s) d') \<and> w_duels w' = w_duels (lv_world s) \<and>
    w_players w' = w_players (lv_world s) \<and> w_pobj w' = w_pobj (lv_world s) \<and> w_eobj w' = w_eobj (lv_world s) \<and>
    w_challenges w' = w_challenges (lv_world s) \<and>
    (\<exists>ms. w_out w' = w_out (lv_world s) @ ms \<and> fst ` set ms \<subseteq> duelists (lv_world s) d)"
proof -
  let ?w = "lv_world s"
  note S = serving_sound [OF assms(1)]
  note D = find_duelD [OF S(2) assms(2)]
  note P = world_okD(1) [OF S(2)]
  have "runs (run_command h c cmd ?w) (keeps (wordle_puzzle dp) (word_length dp) d ?w)"
    using assms(3) wordle.CastAbility_keeps [OF S(5) P assms(2) D(2,3,5), of req]
      wordle.ReshapeReality_keeps [OF S(5) P assms(2) D(2), of word]
      wordle.IllusionGuess_keeps [OF S(5) P assms(2) D(2,5), of g] by auto
  then obtain w' where w': "run_command h c cmd ?w = Some w'"
      "keeps (wordle_puzzle dp) (word_length dp) d ?w w'" by (auto simp: runs_iff)
  note k = staysD [OF keepsD(1) [OF w'(2)]]
  have "\<exists>ms. w_out w' = w_out ?w @ ms \<and> fst ` set ms \<subseteq> duelists ?w d"
    using k(27) by (fastforce simp: tells_def)
  then show ?thesis using w'(1) keepsD(2) [OF w'(2)] k(7,8,9,15,17,24) by auto
qed

theorem abilities_stay_in_the_duel_witness:
  "\<exists>s d w'. serving demo_words demo_map None demo_duel_events s \<and>
     run_command None 2 (DoCast \<lparr>Slot = 0, Row = 0, Col = 0, Letter = ''A'', Colors = []\<rparr>) (lv_world s) = Some w' \<and>
     duel_ok (wordle_puzzle demo_words) (word_length demo_words) (w_dobj w' d)"
proof -
  obtain s d me where s: "serving demo_words demo_map None demo_duel_events s"
    "find_duel 2 (lv_world s) = Some (3, d, me, other me)" using demo_dueling by blast
  show ?thesis using abilities_stay_in_the_duel [OF s insertI1] s(1) by blast
qed

text \<open>C9: What a guess can do. It never panics; either the duel goes on, or the guess is the word and the
guesser wins by solving it, or both sides are out of guesses and it is a draw; nothing else ends a duel
here.\<close>

theorem guess_outcomes:
  assumes "serving dp m h evs s" and "find_duel c (lv_world s) = Some (q, d, me, them)"
  shows "\<exists>w'. DuelGuess c guess (lv_world s) = Some w' \<and>
    (d \<in> set (w_duels w') \<and> duel_ok (wordle_puzzle dp) (word_length dp) (w_dobj w' d) \<or>
     d \<notin> set (w_duels w') \<and> (\<exists>w1 winner reason. w' = endDuel d winner reason w1 \<and> stays d (lv_world s) w1 \<and>
       (winner = Some me \<and> reason = DuelSolved \<and> toUpper guess = side_word (side (lv_world s) d me) \<or>
        winner = None \<and> reason = DuelOutOfGuesses \<and> side_out (side w1 d me) \<and> side_out (side w1 d them))))"
proof -
  note S = serving_sound [OF assms(1)]
  note D = find_duelD [OF S(2) assms(2)]
  obtain w' where w': "DuelGuess c guess (lv_world s) = Some w'"
    "keeps (wordle_puzzle dp) (word_length dp) d (lv_world s) w' \<or>
     (\<exists>w1 winner reason. stays d (lv_world s) w1 \<and> w' = endDuel d winner reason w1 \<and>
       (winner = Some me \<and> reason = DuelSolved \<and> toUpper guess = side_word (side (lv_world s) d me) \<or>
        winner = None \<and> reason = DuelOutOfGuesses \<and> side_out (side w1 d me) \<and> side_out (side w1 d them)))"
    using wordle.DuelGuess_runs [OF S(5,2) assms(2), of guess] unfolding runs_iff by blast
  from w'(2) show ?thesis
  proof
    assume k: "keeps (wordle_puzzle dp) (word_length dp) d (lv_world s) w'"
    then show ?thesis using w'(1) D(1) keepsD(2) [OF k] staysD(17) [OF keepsD(1) [OF k]] by auto
  next
    assume e: "\<exists>w1 winner reason. stays d (lv_world s) w1 \<and> w' = endDuel d winner reason w1 \<and>
       (winner = Some me \<and> reason = DuelSolved \<and> toUpper guess = side_word (side (lv_world s) d me) \<or>
        winner = None \<and> reason = DuelOutOfGuesses \<and> side_out (side w1 d me) \<and> side_out (side w1 d them))"
    then have "d \<notin> set (w_duels w')" by (auto simp del: set_map)
    then show ?thesis using w'(1) e by blast
  qed
qed

theorem guess_outcomes_witness:
  "\<exists>s w'. serving demo_words demo_map None demo_duel_events s \<and> DuelGuess 2 ''slate'' (lv_world s) = Some w'"
proof -
  obtain s d me where s: "serving demo_words demo_map None demo_duel_events s"
    "find_duel 2 (lv_world s) = Some (3, d, me, other me)" using demo_dueling by blast
  show ?thesis using guess_outcomes [OF s, of "''slate''"] s(1) by blast
qed

text \<open>C10: How a duel ends. Forfeiting takes the duel off the list, frees both players, tells each of them
once, the forfeiter that they lost and the other that they won, both with the reason and their word; the
other duels and their sides are not touched.\<close>

theorem forfeit_ends_the_duel:
  assumes "serving dp m h evs s" and "find_duel c (lv_world s) = Some (q, d, me, them)"
  shows "let w = lv_world s; w' = ForfeitDuel c w; p = side_p (side w d them) in
    w_duels w' = filter (\<lambda>d'. d' \<noteq> d) (w_duels w) \<and> w_dobj w' = w_dobj w \<and>
    p_duel (w_pobj w' q) = None \<and> p_duel (w_pobj w' p) = None \<and> q \<noteq> p \<and>
    (\<exists>a b. mset (w_out w') = mset (w_out w) + {#(c, ServerDuelEnd a), (p_client (w_pobj w p), ServerDuelEnd b)#} \<and>
      de_Outcome a = DuelLose \<and> de_Outcome b = DuelWin \<and> de_Reason a = DuelForfeit \<and> de_Reason b = DuelForfeit \<and>
      de_Solution a = side_word (side w d me) \<and> de_Solution b = side_word (side w d them))"
proof -
  let ?w = "lv_world s" and ?ends = "end_msgs d (Some them) DuelForfeit (lv_world s)"
  note S = serving_sound [OF assms(1)]
  note D = find_duelD [OF S(2) assms(2)]
  have w': "ForfeitDuel c ?w = endDuel d (Some them) DuelForfeit ?w" using assms(2) by (simp add: ForfeitDuel_def)
  have ne: "q \<noteq> side_p (side ?w d them)"
    using duel_okD(5) [OF D(2), of me] D(3,4) by (simp add: side_def)
  have cq: "p_client (w_pobj ?w q) = c" by (rule players_okD(1) [OF world_okD(2) [OF S(2)] D(6)])
  have msg: "de_Outcome (?ends i) = (if i = them then DuelWin else DuelLose)" "de_Reason (?ends i) = DuelForfeit"
    "de_Solution (?ends i) = side_word (side ?w d i)" for i
    by (auto simp: end_msgs_fields)
  have "mset (w_out (endDuel d (Some them) DuelForfeit ?w)) = mset (w_out ?w) +
      {#(c, ServerDuelEnd (?ends me)), (p_client (w_pobj ?w (side_p (side ?w d them))), ServerDuelEnd (?ends them))#}"
    using D(3,4) cq by (cases me) (auto simp: endDuel_eq Let_def)
  then have "\<exists>a b. mset (w_out (endDuel d (Some them) DuelForfeit ?w)) = mset (w_out ?w) +
        {#(c, ServerDuelEnd a), (p_client (w_pobj ?w (side_p (side ?w d them))), ServerDuelEnd b)#} \<and>
      de_Outcome a = DuelLose \<and> de_Outcome b = DuelWin \<and> de_Reason a = DuelForfeit \<and> de_Reason b = DuelForfeit \<and>
      de_Solution a = side_word (side ?w d me) \<and> de_Solution b = side_word (side ?w d them)"
    using msg D(4) by (intro exI [of _ "?ends me"] exI [of _ "?ends them"]) simp
  then show ?thesis using ne D(3) unfolding Let_def w' by auto
qed

theorem forfeit_ends_the_duel_witness:
  "\<exists>s d. serving demo_words demo_map None demo_duel_events s \<and> d \<in> set (w_duels (lv_world s)) \<and>
     d \<notin> set (w_duels (ForfeitDuel 2 (lv_world s)))"
proof -
  obtain s d me where s: "serving demo_words demo_map None demo_duel_events s"
    "find_duel 2 (lv_world s) = Some (3, d, me, other me)" "d \<in> set (w_duels (lv_world s))" using demo_dueling by blast
  have "w_duels (ForfeitDuel 2 (lv_world s)) = filter (\<lambda>d'. d' \<noteq> d) (w_duels (lv_world s))"
    using forfeit_ends_the_duel [OF s(1,2)] by (simp add: Let_def)
  then show ?thesis using s(1,3) by (intro exI [of _ s] exI [of _ d]) simp
qed

text \<open>C12: Leaving leaves nothing behind. After a player left, their connection plays no one, their
account is free, their entity is gone from the world, no challenge and no duel involves them, and everyone
else still plays as before.\<close>

theorem leaving_leaves_nothing:
  assumes "serving dp m h evs s" and "(c, p) \<in> set (w_players (lv_world s))"
  shows "let w = lv_world s; w' = Leave c w in
    accounts w' = filter (\<lambda>a. fst a \<noteq> c) (accounts w) \<and> \<not> IsOnline (p_playerID (w_pobj w p)) w' \<and>
    p_ent (w_pobj w p) \<notin> snd ` set (w_entities w') \<and>
    (\<forall>(i, ch) \<in> set (w_challenges w'). ch_from ch \<noteq> p \<and> ch_to ch \<noteq> p) \<and>
    (\<forall>d \<in> set (w_duels w'). \<forall>i. side_p (side w' d i) \<noteq> p)"
proof -
  let ?w = "lv_world s" and ?w' = "Leave c (lv_world s)"
  note S = serving_sound [OF assms(1)]
  note L = Leave_sound [OF S(1), of c]
  note wo = world_okD [OF soundD(1) [OF L(1)]]
  have dist: "inj_on (\<lambda>p. p_ent (w_pobj ?w p)) (snd ` set (w_players ?w))"
    using world_okD(2) [OF S(2)] unfolding players_ok_def distinct_map set_map by blast
  have gone: "p \<notin> snd ` set (w_players ?w')" and ents: "\<And>q. p_ent (w_pobj ?w' q) = p_ent (w_pobj ?w q)"
    using Leave_player [OF S(1) assms(2)] by auto
  have "(c, p_playerID (w_pobj ?w p)) \<in> set (accounts ?w)" using assms(2) by (force simp: accounts_def)
  then have "\<not> IsOnline (p_playerID (w_pobj ?w p)) ?w'" by (simp add: IsOnline_def L(3))
  moreover have "p_ent (w_pobj ?w p) \<notin> snd ` set (w_entities ?w')"
  proof
    assume "p_ent (w_pobj ?w p) \<in> snd ` set (w_entities ?w')"
    then obtain q where "q \<in> snd ` set (w_players ?w')" "p_ent (w_pobj ?w q) = p_ent (w_pobj ?w p)"
      unfolding roster_okD(4) [OF soundD(2) [OF L(1)]] ents by (metis imageE)
    moreover have "q \<in> snd ` set (w_players ?w)"
      using \<open>q \<in> snd ` set (w_players ?w')\<close> Leave_players_subset [of c ?w] by auto
    ultimately show False
      using gone assms(2) inj_onD [OF dist, of q p] image_eqI [OF _ assms(2), of p snd] by auto
  qed
  moreover have "ch_from ch \<noteq> p \<and> ch_to ch \<noteq> p" if "(i, ch) \<in> set (w_challenges ?w')" for i ch
    using wo(4) that gone by (force simp: challenges_ok_def challenge_ok_def)
  moreover have "side_p (side ?w' d i) \<noteq> p" if "d \<in> set (w_duels ?w')" for d i
    using dueling_okD(3) [OF wo(3) that, of i] gone by auto
  ultimately show ?thesis using L(2) by (auto simp: Let_def)
qed

theorem leaving_leaves_nothing_witness:
  "\<exists>s. serving demo_words demo_map None demo_events s \<and> \<not> IsOnline 8 (Leave 2 (lv_world s))"
proof -
  obtain s where s: "serving demo_words demo_map None demo_events s" "w_players (lv_world s) = [(1, Suc 0), (2, 3)]"
    "w_pobj (lv_world s) = w_pobj demo_seen" using demo_serving by blast
  have "p_playerID (w_pobj (lv_world s) 3) = 8" by (simp add: s(3) demo_seen_def demo_player_def)
  then show ?thesis using leaving_leaves_nothing [OF s(1), of 2 3] s(1,2) by (auto simp: Let_def)
qed

text \<open>C13: Ratings only move when a ranked duel is settled. When a duel ends, whoever won and why, the two
players' ratings become exactly what settling it gives and one match with their characters, result and
guesses is handed over to be saved, if the duel is ranked; nothing is handed over and no rating changes if
it is not; and no one else's rating ever changes.\<close>

theorem only_ranked_duels_move_ratings:
  assumes "serving dp m h evs s" and "d \<in> set (w_duels (lv_world s))"
  shows "let w = lv_world s; w' = endDuel d winner reason w; ranked = d_ranked (w_dobj w d);
      a = side_p (side w d SideA); b = side_p (side w d SideB);
      secs = duration_Seconds (w_now w - d_start (w_dobj w d)); res = ranked_result d winner reason secs w in
    (\<forall>q. p_rating (w_pobj w' q) = (if ranked \<and> q = a then res_A res else if ranked \<and> q = b then res_B res
      else p_rating (w_pobj w q))) \<and>
    (\<exists>ms. w_matches w' = w_matches w @ ms \<and> length ms = (if ranked \<and> w_OnRanked w then 1 else 0) \<and>
      (\<forall>mt \<in> set ms. mt_A mt = p_charID (w_pobj w a) \<and> mt_B mt = p_charID (w_pobj w b) \<and> mt_Result mt = res \<and>
        mt_AGuesses mt = int (length (side_guesses (side w d SideA))) \<and>
        mt_BGuesses mt = int (length (side_guesses (side w d SideB)))))"
proof -
  let ?w = "lv_world s"
  have ok: "duel_ok (wordle_puzzle dp) (word_length dp) (w_dobj ?w d)"
    using world_okD(6) [OF serving_sound(2) [OF assms(1)] assms(2)] .
  have ne: "side_p (side ?w d SideA) \<noteq> side_p (side ?w d SideB)" using duel_okD(5) [OF ok, of SideA] by (simp add: side_def)
  have "w_matches (endDuel d winner reason ?w) = w_matches (end_world d winner reason ?w)"
    by (simp add: endDuel_eq Let_def)
  then show ?thesis
    using ne by (simp add: Let_def end_world_def settleRanked_eq settled_def setRating_eq)
qed

theorem only_ranked_duels_move_ratings_witness:
  "\<exists>s d. serving demo_words demo_map None demo_duel_events s \<and>
     (d_ranked (w_dobj (lv_world s) d) \<or> w_matches (endDuel d None DuelTimeUp (lv_world s)) = w_matches (lv_world s))"
proof -
  obtain s d where s: "serving demo_words demo_map None demo_duel_events s" "d \<in> set (w_duels (lv_world s))"
    using demo_dueling by blast
  obtain ms where "w_matches (endDuel d None DuelTimeUp (lv_world s)) = w_matches (lv_world s) @ ms"
    "length ms = (if d_ranked (w_dobj (lv_world s) d) \<and> w_OnRanked (lv_world s) then 1 else 0)"
    using only_ranked_duels_move_ratings [OF s, of None DuelTimeUp] unfolding Let_def by blast
  then have "d_ranked (w_dobj (lv_world s) d) \<or> w_matches (endDuel d None DuelTimeUp (lv_world s)) = w_matches (lv_world s)"
    by (auto split: if_splits)
  then show ?thesis using s(1) by blast
qed

section \<open>Around the duels\<close>

text \<open>Near is local. Every entity within 1024 units in both directions of a place is near it, none that is
2048 or more away in a direction is, and none is listed twice: so what a player is told about depends on the
nine cells around them, and everyone close enough to see is told.\<close>

theorem near_is_local:
  assumes "serving dp m h evs s" and "(i, e) \<in> set (w_entities (lv_world s))"
  shows "let w = lv_world s; dx = \<bar>sint (X (e_Pos (w_eobj w e))) - sint (X p)\<bar>; dy = \<bar>sint (Y (e_Pos (w_eobj w e))) - sint (Y p)\<bar> in
    (dx \<le> 1024 \<and> dy \<le> 1024 \<longrightarrow> e \<in> set (near w p)) \<and> (2048 \<le> dx \<or> 2048 \<le> dy \<longrightarrow> e \<notin> set (near w p)) \<and>
    distinct (near w p)"
proof -
  note ok = roster_okD(1) [OF serving_sound(3) [OF assms(1)]]
  have e: "e \<in> snd ` set (w_entities (lv_world s))" using assms(2) by force
  show ?thesis
    using grid.within_seen [OF ok e, of p] grid.beyond_unseen [OF ok, of e p] near_distinct [OF ok, of p]
    by (simp add: Let_def)
qed

theorem near_is_local_witness:
  "\<exists>s. serving demo_words demo_map None demo_events s \<and>
     p_ent (w_pobj (lv_world s) 3) \<in> set (near (lv_world s) (e_Pos (ent_of (lv_world s) 3)))"
proof -
  obtain s where s: "serving demo_words demo_map None demo_events s" "w_players (lv_world s) = [(1, Suc 0), (2, 3)]"
    using demo_serving by blast
  have "3 \<in> snd ` set (w_players (lv_world s))" using s(2) by force
  from player_entity [OF serving_sound(3) [OF s(1)] this]
  obtain i where i: "(i, p_ent (w_pobj (lv_world s) 3)) \<in> set (w_entities (lv_world s))" by auto
  from near_is_local [OF s(1) i, of "e_Pos (ent_of (lv_world s) 3)"] s(1) show ?thesis
    by (auto simp: Let_def ent_of_def)
qed

text \<open>C14: Movement is limited. A move leaves everyone else where they are; the mover either stays, or gets
exactly the place asked for, which is on the map and at most 562.5 units away, as far as their allowance went,
which pays for it.\<close>

theorem moves_are_limited:
  assumes "serving dp m h evs s" and "(c, p) \<in> set (w_players (lv_world s))"
  shows "let w = lv_world s; w' = Move c pos w; here = e_Pos (ent_of w p);
      far = math_Hypot (of_int (sint (X pos - X here))) (of_int (sint (Y pos - Y here))) in
    (\<forall>e. e \<noteq> p_ent (w_pobj w p) \<longrightarrow> e_Pos (w_eobj w' e) = e_Pos (w_eobj w e)) \<and>
    (e_Pos (ent_of w' p) = here \<or>
     e_Pos (ent_of w' p) = pos \<and> inBounds (w_Map w) pos \<and> far \<le> 1125 / 2 \<and>
       far \<le> allowance (w_now w) (w_pobj w p) \<and>
       p_budget (w_pobj w' p) = fsub (allowance (w_now w) (w_pobj w p)) far)"
proof -
  let ?w = "lv_world s"
  have dist: "map_of (w_players ?w) c = Some p"
    using map_of_is_SomeI [of "w_players ?w" c p] assms(2) world_okD(2) [OF serving_sound(2) [OF assms(1)]]
    by (simp add: players_ok_def)
  show ?thesis
  proof (cases rule: Move_cases [of c pos ?w])
    case stayed
    then show ?thesis by (simp add: Let_def)
  next
    case (refused q pl k)
    then have "w_eobj (Move c pos ?w) = w_eobj ?w" "p_ent (w_pobj (Move c pos ?w) p) = p_ent (w_pobj ?w p)"
      using dist by (auto simp: send_def upd_player_def)
    then show ?thesis by (simp add: Let_def ent_of_def)
  next
    case (moved q far)
    have q: "q = p" using moved(1) dist by simp
    have a: "far \<le> allowance (w_now ?w) (w_pobj ?w p)" using moved(3) by (simp add: q spend_allowance)
    have m: "w_pobj (Move c pos ?w) = w_pobj (upd_player p (\<lambda>_. snd (spend far (w_now ?w) (w_pobj ?w p))) ?w)"
      "e_Pos (w_eobj (Move c pos ?w) e) = (if e = p_ent (w_pobj ?w p) then pos else e_Pos (w_eobj ?w e))" for e
      unfolding moved(5) place_entity_pos q by (simp_all add: upd_player_def)
    show ?thesis
      using moved(2) a order_trans [OF a allowance_le] spend_allowance(2) [OF a]
      unfolding Let_def ent_of_def m(2) m(1) moved(4) [unfolded q ent_of_def, symmetric] by (simp add: upd_player_def)
  qed
qed

theorem moves_are_limited_witness:
  "\<exists>s. serving demo_words demo_map None demo_events s \<and> (\<forall>pos e. e \<noteq> p_ent (w_pobj (lv_world s) 3) \<longrightarrow>
     e_Pos (w_eobj (Move 2 pos (lv_world s)) e) = e_Pos (w_eobj (lv_world s) e))"
proof -
  obtain s where s: "serving demo_words demo_map None demo_events s" "w_players (lv_world s) = [(1, Suc 0), (2, 3)]"
    using demo_serving by blast
  have "(2, 3) \<in> set (w_players (lv_world s))" using s(2) by simp
  then show ?thesis using moves_are_limited [OF s(1)] s(1) unfolding Let_def by blast
qed

text \<open>C15: Everyone hears what is said, once. Chat of nothing but spaces says nothing; otherwise every player's
connection gets one copy, under the speaker's name, cut after 200 characters, never inside one.\<close>

theorem chat_reaches_everyone:
  assumes "serving dp m h evs s" and "(c, p) \<in> set (w_players (lv_world s))"
  shows "let w = lv_world s; w' = Chat c msg w; said = TrimSpace msg in
    if said = [] then w' = w
    else \<exists>heard. runes heard = take 200 (runes said) \<and> (length (runes said) \<le> 200 \<longrightarrow> heard = said) \<and>
      w' = w\<lparr>w_out := w_out w @ map (\<lambda>(c', _). (c', ServerChat \<lparr>cm_ID = e_ID (ent_of w p), cm_Msg = heard,
        cm_Name = e_Name (ent_of w p), cm_Char = e_Char (ent_of w p), cm_Class = e_Class (ent_of w p)\<rparr>)) (w_players w)\<rparr> \<and>
      distinct (map fst (w_players w))"
proof (cases "TrimSpace msg = []")
  case True
  then show ?thesis by (simp add: Chat_def)
next
  case False
  note P = world_okD(2) [OF serving_sound(2) [OF assms(1)]]
  have "map_of (w_players (lv_world s)) c = Some p"
    using map_of_is_SomeI [of "w_players (lv_world s)" c p] assms(2) P by (simp add: players_ok_def)
  note heard = Chat_heard [OF P this False]
  have "distinct (map fst (w_players (lv_world s)))" using P unfolding players_ok_def by blast
  then show ?thesis
    unfolding Let_def if_not_P [OF False]
    by (intro exI [of _ "cut_chat (TrimSpace msg)"] conjI impI heard)
      (use cut_chat_runes cut_chat_short in \<open>simp_all add: maxChatLen_def\<close>)
qed

theorem chat_reaches_everyone_witness:
  "\<exists>s. serving demo_words demo_map None demo_events s \<and>
     map fst (w_out (Chat 1 ''  hello '' (lv_world s))) = map fst (w_out (lv_world s)) @ [1, 2]"
proof -
  obtain s where s: "serving demo_words demo_map None demo_events s" "w_players (lv_world s) = [(1, Suc 0), (2, 3)]"
    using demo_serving by blast
  have t: "TrimSpace ''  hello '' = ''hello''"
    by (simp add: TrimSpace_def trim_left.simps trim_right.simps decode_ascii decode_last_rune_def IsSpace_def byte_def)
  have ne: "''hello'' \<noteq> []" by simp
  have m: "(1, Suc 0) \<in> set (w_players (lv_world s))" by (simp add: s(2))
  from chat_reaches_everyone [OF s(1) m, of "''  hello ''", unfolded t Let_def if_not_P [OF ne]]
  obtain mt where "Chat 1 ''  hello '' (lv_world s) = lv_world s\<lparr>w_out := w_out (lv_world s) @
      map (\<lambda>(c', _). (c', ServerChat mt)) (w_players (lv_world s))\<rparr>" by blast
  then show ?thesis using s by (intro exI [of _ s]) simp
qed

text \<open>Prayers are bounded. At most four prayers wait for an answer, whatever the players cast; an answer
to any of them, or none in time, is always handled, and takes it off the list.\<close>

theorem prayers_are_bounded:
  assumes "serving dp m h evs s"
  shows "length (w_praying (lv_world s)) \<le> MaxPrayers \<and>
    (\<forall>k ans. k < length (w_praying (lv_world s)) \<longrightarrow> (\<exists>s'. react h (Answered k ans) s = Some s' \<and>
      length (w_praying (lv_world s')) < length (w_praying (lv_world s))))"
proof -
  have "length (w_praying (lv_world s)) \<le> MaxPrayers"
    using world_okD(5) [OF serving_sound(2) [OF assms]] by (simp add: prayers_ok_def)
  then show ?thesis by (auto simp: on_world_def)
qed

theorem prayers_are_bounded_witness:
  "\<exists>s. serving demo_words demo_map None demo_events s \<and> length (w_praying (lv_world s)) \<le> MaxPrayers"
  using demo_serving prayers_are_bounded by blast

end
